(* ===== verification/Prelude.thy ===== *)
theory Prelude
  imports Main "HOL-Library.AList"
begin

text \<open>
  The vocabulary the component theories share: results as sums, the saturating
  and checked operations of Rust's unsigned integers, \<open>Duration\<close> and
  \<open>Instant\<close> as nanosecond counts, the standard hash map with its interface as a
  locale, and the generic argument from one-step preservation to reachable
  states. The collections declared here carry the component proofs:
  \<open>hm_simps\<close> (what a map answers after an operation) and \<open>inv_intros\<close>
  (which operations keep which invariant).
\<close>

named_theorems hm_simps \<open>lookups after hash map operations\<close>
named_theorems inv_intros \<open>operations that keep an invariant\<close>

section \<open>Results\<close>

type_synonym ('e, 'a) result = "'e + 'a"

abbreviation Err :: "'e \<Rightarrow> ('e, 'a) result" where
  "Err \<equiv> Inl"

abbreviation Ok :: "'a \<Rightarrow> ('e, 'a) result" where
  "Ok \<equiv> Inr"

definition is_ok :: "('e, 'a) result \<Rightarrow> bool" where
  "is_ok r = (case r of Inl _ \<Rightarrow> False | Inr _ \<Rightarrow> True)"

definition unwrap_or :: "'a \<Rightarrow> 'a option \<Rightarrow> 'a" where
  "unwrap_or d x = (case x of None \<Rightarrow> d | Some y \<Rightarrow> y)"

section \<open>Unsigned machine arithmetic\<close>

text \<open>
  A \<open>u32\<close> counter is a natural number that the operations keep below
  \<open>2 ^ 32\<close>; the source uses only the saturating and the checked operations on
  it, so the saturation is written out. \<open>saturating_sub\<close> and
  \<open>saturating_duration_since\<close> stop at 0, which is what subtraction on the
  natural numbers does.
\<close>

definition u32_max :: nat where
  "u32_max = 4294967295"

definition saturating_add32 :: "nat \<Rightarrow> nat \<Rightarrow> nat" where
  "saturating_add32 a b = min (a + b) u32_max"

definition saturating_sub :: "nat \<Rightarrow> nat \<Rightarrow> nat" where
  "saturating_sub a b = a - b"

definition checked_sub :: "nat \<Rightarrow> nat \<Rightarrow> nat option" where
  "checked_sub a b = (if b \<le> a then Some (a - b) else None)"

type_synonym duration = nat
type_synonym instant = nat

definition from_secs :: "nat \<Rightarrow> duration" where
  "from_secs s = s * 1000000000"

definition saturating_duration_since :: "instant \<Rightarrow> instant \<Rightarrow> duration" where
  "saturating_duration_since later earlier = later - earlier"

lemma saturating_add32_le [simp]: "saturating_add32 a b \<le> u32_max"
  by (simp add: saturating_add32_def)

lemma saturating_add32_exact:
  "a + b \<le> u32_max \<Longrightarrow> saturating_add32 a b = a + b"
  by (simp add: saturating_add32_def)

lemma saturating_add32_mono:
  "a \<le> a' \<Longrightarrow> b \<le> b' \<Longrightarrow> saturating_add32 a b \<le> saturating_add32 a' b'"
  by (auto simp: saturating_add32_def)

lemma from_secs_mono [simp]: "from_secs a \<le> from_secs b \<longleftrightarrow> a \<le> b"
  by (simp add: from_secs_def)

lemma from_secs_less [simp]: "from_secs a < from_secs b \<longleftrightarrow> a < b"
  by (simp add: from_secs_def)

section \<open>Hash maps\<close>

text \<open>
  \<open>std::collections::HashMap\<close> as an association list whose keys are distinct.
  The list order stands for nothing: the interface below is all a client may
  use, and it does not mention it.
\<close>

type_synonym ('k, 'v) hashmap = "('k \<times> 'v) list"

definition hm_empty :: "('k, 'v) hashmap" where
  "hm_empty = []"

definition hm_get :: "('k, 'v) hashmap \<Rightarrow> 'k \<Rightarrow> 'v option" where
  "hm_get m k = map_of m k"

definition hm_insert :: "'k \<Rightarrow> 'v \<Rightarrow> ('k, 'v) hashmap \<Rightarrow> ('k, 'v) hashmap" where
  "hm_insert k v m = AList.update k v m"

definition hm_remove :: "'k \<Rightarrow> ('k, 'v) hashmap \<Rightarrow> ('k, 'v) hashmap" where
  "hm_remove k m = AList.delete k m"

definition hm_retain :: "('k \<Rightarrow> 'v \<Rightarrow> bool) \<Rightarrow> ('k, 'v) hashmap \<Rightarrow> ('k, 'v) hashmap" where
  "hm_retain p m = filter (\<lambda>(k, v). p k v) m"

definition hm_len :: "('k, 'v) hashmap \<Rightarrow> nat" where
  "hm_len m = length m"

definition hm_wf :: "('k, 'v) hashmap \<Rightarrow> bool" where
  "hm_wf m = distinct (map fst m)"

text \<open>\<open>entry(k).or_insert(d)\<close> followed by a change of the entry in place.\<close>

definition hm_modify ::
  "'k \<Rightarrow> 'v \<Rightarrow> ('v \<Rightarrow> 'v) \<Rightarrow> ('k, 'v) hashmap \<Rightarrow> ('k, 'v) hashmap" where
  "hm_modify k d f m = hm_insert k (f (unwrap_or d (hm_get m k))) m"

locale hash_map =
  fixes empty :: "'m"
    and get :: "'m \<Rightarrow> 'k \<Rightarrow> 'v option"
    and insert :: "'k \<Rightarrow> 'v \<Rightarrow> 'm \<Rightarrow> 'm"
    and remove :: "'k \<Rightarrow> 'm \<Rightarrow> 'm"
    and retain :: "('k \<Rightarrow> 'v \<Rightarrow> bool) \<Rightarrow> 'm \<Rightarrow> 'm"
    and len :: "'m \<Rightarrow> nat"
    and wf :: "'m \<Rightarrow> bool"
  assumes get_empty: "get empty k = None"
    and wf_empty: "wf empty"
    and get_insert: "get (insert k v m) j = (if j = k then Some v else get m j)"
    and wf_insert: "wf m \<Longrightarrow> wf (insert k v m)"
    and get_remove: "get (remove k m) j = (if j = k then None else get m j)"
    and wf_remove: "wf m \<Longrightarrow> wf (remove k m)"
    and get_retain: "wf m \<Longrightarrow>
      get (retain p m) j = (case get m j of None \<Rightarrow> None | Some v \<Rightarrow> if p j v then Some v else None)"
    and wf_retain: "wf m \<Longrightarrow> wf (retain p m)"
    and len_dom: "wf m \<Longrightarrow> len m = card (dom (get m)) \<and> finite (dom (get m))"
begin

lemma get_remove_all:
  "get (fold remove ks m) j = (if j \<in> set ks then None else get m j)"
  by (induction ks arbitrary: m) (auto simp: get_remove)

lemma wf_remove_all: "wf m \<Longrightarrow> wf (fold remove ks m)"
  by (induction ks arbitrary: m) (auto intro: wf_remove)

lemma dom_insert: "dom (get (insert k v m)) = Set.insert k (dom (get m))"
  by (auto simp: dom_def get_insert)

lemma len_insert_le: "wf m \<Longrightarrow> len (insert k v m) \<le> Suc (len m)"
proof -
  assume wf: "wf m"
  have "len (insert k v m) = card (Set.insert k (dom (get m)))"
    using len_dom [OF wf_insert [OF wf]] by (simp add: dom_insert)
  also have "\<dots> \<le> Suc (card (dom (get m)))"
    using len_dom [OF wf] by (simp add: card_insert_if)
  finally show ?thesis using len_dom [OF wf] by simp
qed

lemma len_insert_present: "wf m \<Longrightarrow> get m k \<noteq> None \<Longrightarrow> len (insert k v m) = len m"
proof -
  assume wf: "wf m" and "get m k \<noteq> None"
  then have "Set.insert k (dom (get m)) = dom (get m)" by (auto simp: dom_def)
  then show ?thesis
    using len_dom [OF wf_insert [OF wf]] len_dom [OF wf] by (simp add: dom_insert)
qed

lemma len_mono:
  assumes "wf m" "wf m'" "dom (get m) \<subseteq> dom (get m')"
  shows "len m \<le> len m'"
  using assms len_dom [of m] len_dom [of m'] by (simp add: card_mono)

lemma len_retain_le: "wf m \<Longrightarrow> len (retain p m) \<le> len m"
  by (rule len_mono) (auto simp: wf_retain get_retain split: option.splits if_splits)

lemma len_remove_le: "wf m \<Longrightarrow> len (remove k m) \<le> len m"
  by (rule len_mono) (auto simp: wf_remove get_remove split: if_splits)

end

interpretation hm: hash_map hm_empty hm_get hm_insert hm_remove hm_retain hm_len hm_wf
proof unfold_locales
  show "hm_get hm_empty k = None" for k :: 'a
    by (simp add: hm_get_def hm_empty_def)
  show "hm_wf hm_empty"
    by (simp add: hm_wf_def hm_empty_def)
  show "hm_get (hm_insert k v m) j = (if j = k then Some v else hm_get m j)"
    for k j :: 'a and v :: 'b and m
    by (simp add: hm_get_def hm_insert_def update_conv')
  show "hm_wf m \<Longrightarrow> hm_wf (hm_insert k v m)" for k :: 'a and v :: 'b and m
    by (simp add: hm_wf_def hm_insert_def distinct_update)
  show "hm_get (hm_remove k m) j = (if j = k then None else hm_get m j)"
    for k j :: 'a and m :: "('a \<times> 'b) list"
    by (simp add: hm_get_def hm_remove_def delete_conv')
  show "hm_wf m \<Longrightarrow> hm_wf (hm_remove k m)" for k :: 'a and m :: "('a \<times> 'b) list"
    by (simp add: hm_wf_def hm_remove_def distinct_delete)
  show "hm_wf m \<Longrightarrow> hm_get (hm_retain p m) j =
      (case hm_get m j of None \<Rightarrow> None | Some v \<Rightarrow> if p j v then Some v else None)"
    for m and p :: "'a \<Rightarrow> 'b \<Rightarrow> bool" and j
    by (induction m) (auto simp: hm_wf_def hm_get_def hm_retain_def map_of_eq_None_iff
        rev_image_eqI split: option.splits)
  show "hm_wf m \<Longrightarrow> hm_wf (hm_retain p m)" for m and p :: "'a \<Rightarrow> 'b \<Rightarrow> bool"
    by (induction m) (auto simp: hm_wf_def hm_retain_def)
  show "hm_wf m \<Longrightarrow> hm_len m = card (dom (hm_get m)) \<and> finite (dom (hm_get m))"
    for m :: "('a \<times> 'b) list"
  proof -
    assume "hm_wf m"
    moreover have "hm_get m = map_of m" by (rule ext) (simp add: hm_get_def)
    moreover have "card (fst ` set m) = length m" if "distinct (map fst m)"
      using distinct_card [OF that] by simp
    ultimately show ?thesis
      by (simp add: hm_wf_def hm_len_def dom_map_of_conv_image_fst)
  qed
qed

lemmas hm_get_simps [hm_simps, simp] = hm.get_empty hm.get_insert hm.get_remove
lemmas hm_wf_intros [inv_intros, intro, simp] =
  hm.wf_empty hm.wf_insert hm.wf_remove hm.wf_retain hm.wf_remove_all

lemma hm_get_modify [hm_simps, simp]:
  "hm_get (hm_modify k d f m) j = (if j = k then Some (f (unwrap_or d (hm_get m k))) else hm_get m j)"
  by (simp add: hm_modify_def)

lemma hm_wf_modify [inv_intros, intro, simp]: "hm_wf m \<Longrightarrow> hm_wf (hm_modify k d f m)"
  by (simp add: hm_modify_def)

lemma hm_wf_modify_all [inv_intros, intro, simp]:
  "hm_wf m \<Longrightarrow> hm_wf (fold (\<lambda>k. hm_modify k d f) ks m)"
  by (induction ks arbitrary: m) auto

lemma hm_get_modify_all [hm_simps]:
  "distinct ks \<Longrightarrow> hm_get (fold (\<lambda>k. hm_modify k d f) ks m) j =
     (if j \<in> set ks then Some (f (unwrap_or d (hm_get m j))) else hm_get m j)"
  by (induction ks arbitrary: m) auto

section \<open>Reachable states\<close>

text \<open>
  A component with shared state is a start state and a step relation that
  interleaves its operations. An invariant of one step is an invariant of every
  state the component can be in.
\<close>

locale invariant_machine =
  fixes init :: "'s \<Rightarrow> bool"
    and step :: "'s \<Rightarrow> 's \<Rightarrow> bool"
    and inv :: "'s \<Rightarrow> bool"
  assumes inv_init: "init s \<Longrightarrow> inv s"
    and inv_step: "step s t \<Longrightarrow> inv s \<Longrightarrow> inv t"
begin

lemma inv_steps: "step\<^sup>*\<^sup>* s t \<Longrightarrow> inv s \<Longrightarrow> inv t"
  by (induction rule: rtranclp_induct) (auto intro: inv_step)

lemma inv_reachable: "init s \<Longrightarrow> step\<^sup>*\<^sup>* s t \<Longrightarrow> inv t"
  by (blast intro: inv_steps inv_init)

end

lemma set_map_filter_eq: "set (List.map_filter f xs) = {y. \<exists>x \<in> set xs. f x = Some y}"
  by (induction xs) (auto split: option.splits)

lemma find_SomeD: "find P xs = Some x \<Longrightarrow> P x"
  by (induction xs) (auto split: if_splits)

end
