(* ===== verification/Rust_Str.thy ===== *)
theory Rust_Str
  imports Prelude
begin

text \<open>
  What the sources use of \<open>char\<close>, \<open>str\<close> and the integer parsers and printers
  of the Rust standard library. A Rust \<open>char\<close> is an HOL \<open>char\<close> read as the
  Unicode scalar value of the same code, so the model's strings are those over
  U+0000 to U+00FF and every classification below is the Unicode one on that
  range (white space has U+0085 and U+00A0, control characters have U+007F to
  U+009F, lower-casing maps the Latin-1 capitals). Scalar values above U+00FF
  are outside the model.
\<close>

named_theorems str_simps \<open>evaluation of string operations\<close>

section \<open>Characters\<close>

abbreviation code_of :: "char \<Rightarrow> nat" where
  "code_of c \<equiv> of_char c"

definition nl :: char where "nl = CHR 0x0A"
definition cr :: char where "cr = CHR 0x0D"
definition tab :: char where "tab = CHR 0x09"
definition nul :: char where "nul = CHR 0x00"

definition is_whitespace :: "char \<Rightarrow> bool" where
  "is_whitespace c \<longleftrightarrow> (9 \<le> code_of c \<and> code_of c \<le> 13) \<or> code_of c = 32
     \<or> code_of c = 133 \<or> code_of c = 160"

definition is_ascii_digit :: "char \<Rightarrow> bool" where
  "is_ascii_digit c \<longleftrightarrow> 48 \<le> code_of c \<and> code_of c \<le> 57"

definition is_ascii_lower :: "char \<Rightarrow> bool" where
  "is_ascii_lower c \<longleftrightarrow> 97 \<le> code_of c \<and> code_of c \<le> 122"

definition is_ascii_upper :: "char \<Rightarrow> bool" where
  "is_ascii_upper c \<longleftrightarrow> 65 \<le> code_of c \<and> code_of c \<le> 90"

definition is_ascii_alphanumeric :: "char \<Rightarrow> bool" where
  "is_ascii_alphanumeric c \<longleftrightarrow> is_ascii_digit c \<or> is_ascii_lower c \<or> is_ascii_upper c"

definition is_ascii_hexdigit :: "char \<Rightarrow> bool" where
  "is_ascii_hexdigit c \<longleftrightarrow> is_ascii_digit c \<or> (97 \<le> code_of c \<and> code_of c \<le> 102)
     \<or> (65 \<le> code_of c \<and> code_of c \<le> 70)"

definition is_control :: "char \<Rightarrow> bool" where
  "is_control c \<longleftrightarrow> code_of c \<le> 31 \<or> (127 \<le> code_of c \<and> code_of c \<le> 159)"

definition ascii_lower_char :: "char \<Rightarrow> char" where
  "ascii_lower_char c = (if is_ascii_upper c then char_of (code_of c + 32) else c)"

definition ascii_upper_char :: "char \<Rightarrow> char" where
  "ascii_upper_char c = (if is_ascii_lower c then char_of (code_of c - 32) else c)"

definition lower_char :: "char \<Rightarrow> char" where
  "lower_char c = (if is_ascii_upper c \<or> (192 \<le> code_of c \<and> code_of c \<le> 222 \<and> code_of c \<noteq> 215)
     then char_of (code_of c + 32) else c)"

definition to_ascii_lowercase :: "string \<Rightarrow> string" where
  "to_ascii_lowercase s = map ascii_lower_char s"

definition to_ascii_uppercase :: "string \<Rightarrow> string" where
  "to_ascii_uppercase s = map ascii_upper_char s"

definition to_lowercase :: "string \<Rightarrow> string" where
  "to_lowercase s = map lower_char s"

definition eq_ignore_ascii_case :: "string \<Rightarrow> string \<Rightarrow> bool" where
  "eq_ignore_ascii_case a b \<longleftrightarrow> to_ascii_lowercase a = to_ascii_lowercase b"

section \<open>Trimming, prefixes, splitting\<close>

text \<open>
  What cuts a text does not look at its characters, so it is defined for texts of any:
  most components have texts of HOL characters, some of Unicode scalar values.
\<close>

definition trim_start :: "string \<Rightarrow> string" where
  "trim_start s = dropWhile is_whitespace s"

definition trim_end :: "string \<Rightarrow> string" where
  "trim_end s = rev (dropWhile is_whitespace (rev s))"

definition trim :: "string \<Rightarrow> string" where
  "trim s = trim_end (trim_start s)"

fun strip_prefix :: "'a list \<Rightarrow> 'a list \<Rightarrow> 'a list option" where
  "strip_prefix [] s = Some s"
| "strip_prefix (p # ps) [] = None"
| "strip_prefix (p # ps) (c # s) = (if p = c then strip_prefix ps s else None)"

definition starts_with :: "'a list \<Rightarrow> 'a list \<Rightarrow> bool" where
  "starts_with p s \<longleftrightarrow> strip_prefix p s \<noteq> None"

definition strip_suffix :: "'a list \<Rightarrow> 'a list \<Rightarrow> 'a list option" where
  "strip_suffix p s = map_option rev (strip_prefix (rev p) (rev s))"

definition ends_with :: "'a list \<Rightarrow> 'a list \<Rightarrow> bool" where
  "ends_with p s \<longleftrightarrow> strip_suffix p s \<noteq> None"

text \<open>\<open>s.find(p)\<close>: where \<open>p\<close> first occurs in \<open>s\<close>.\<close>

fun find_sub :: "'a list \<Rightarrow> 'a list \<Rightarrow> nat option" where
  "find_sub p [] = (if p = [] then Some 0 else None)"
| "find_sub p (c # s) =
     (if starts_with p (c # s) then Some 0 else map_option Suc (find_sub p s))"

definition contains_sub :: "'a list \<Rightarrow> 'a list \<Rightarrow> bool" where
  "contains_sub p s \<longleftrightarrow> find_sub p s \<noteq> None"

text \<open>\<open>s.split(c)\<close> for a character: never empty, \<open>''''\<close> splits to one empty part.\<close>

fun split_on :: "'a \<Rightarrow> 'a list \<Rightarrow> 'a list list" where
  "split_on c [] = [[]]"
| "split_on c (x # xs) =
     (if x = c then [] # split_on c xs
      else case split_on c xs of [] \<Rightarrow> [[x]] | w # ws \<Rightarrow> (x # w) # ws)"

fun split_once :: "'a \<Rightarrow> 'a list \<Rightarrow> ('a list \<times> 'a list) option" where
  "split_once c [] = None"
| "split_once c (x # s) =
     (if x = c then Some ([], s) else map_option (\<lambda>(a, b). (x # a, b)) (split_once c s))"

definition rsplit_once :: "'a \<Rightarrow> 'a list \<Rightarrow> ('a list \<times> 'a list) option" where
  "rsplit_once c s = map_option (\<lambda>(a, b). (rev b, rev a)) (split_once c (rev s))"

text \<open>\<open>s.split_whitespace()\<close>: the maximal runs of characters that are not white space.\<close>

fun split_ws :: "string \<Rightarrow> string \<Rightarrow> string list" where
  "split_ws acc [] = (if acc = [] then [] else [rev acc])"
| "split_ws acc (c # s) =
     (if is_whitespace c then (if acc = [] then split_ws [] s else rev acc # split_ws [] s)
      else split_ws (c # acc) s)"

definition split_whitespace :: "string \<Rightarrow> string list" where
  "split_whitespace s = split_ws [] s"

fun join :: "'a list \<Rightarrow> 'a list list \<Rightarrow> 'a list" where
  "join sep [] = []"
| "join sep [w] = w"
| "join sep (w # v # ws) = w @ sep @ join sep (v # ws)"

text \<open>\<open>s.replace(c, to)\<close> for a character pattern, and for the two-character pattern
  \<open>CR LF\<close> that line endings are normalised with.\<close>

definition replace_char :: "char \<Rightarrow> string \<Rightarrow> string \<Rightarrow> string" where
  "replace_char c to s = concat (map (\<lambda>x. if x = c then to else [x]) s)"

text \<open>\<open>s.replace(pat, to)\<close> for a non-empty pattern string: left to right, without overlap.\<close>

fun replace_fuel :: "nat \<Rightarrow> string \<Rightarrow> string \<Rightarrow> string \<Rightarrow> string" where
  "replace_fuel 0 pat to s = s"
| "replace_fuel (Suc n) pat to [] = []"
| "replace_fuel (Suc n) pat to (c # s) =
     (case strip_prefix pat (c # s) of
        Some rest \<Rightarrow> to @ replace_fuel n pat to rest
      | None \<Rightarrow> c # replace_fuel n pat to s)"

definition replace_sub :: "string \<Rightarrow> string \<Rightarrow> string \<Rightarrow> string" where
  "replace_sub pat to s = replace_fuel (length s) pat to s"

text \<open>\<open>s.lines()\<close>: the parts between \<open>LF\<close>, a trailing \<open>CR\<close> of each dropped, and no
  last part when the text ends in \<open>LF\<close>.\<close>

definition strip_cr :: "string \<Rightarrow> string" where
  "strip_cr l = (if l \<noteq> [] \<and> last l = cr then butlast l else l)"

definition str_lines :: "string \<Rightarrow> string list" where
  "str_lines s = (let ps = split_on nl s in
     map strip_cr (butlast ps) @ (if last ps = [] then [] else [last ps]))"

text \<open>\<open>s.len()\<close>: bytes of the UTF-8 encoding.\<close>

definition byte_len :: "string \<Rightarrow> nat" where
  "byte_len s = sum_list (map (\<lambda>c. if code_of c < 128 then 1 else 2) s)"

section \<open>Numbers\<close>

definition digit_val :: "char \<Rightarrow> nat" where
  "digit_val c = code_of c - 48"

definition digits_val :: "string \<Rightarrow> nat" where
  "digits_val s = foldl (\<lambda>n c. 10 * n + digit_val c) 0 s"

definition all_digits :: "string \<Rightarrow> bool" where
  "all_digits s \<longleftrightarrow> list_all is_ascii_digit s"

text \<open>
  \<open>s.parse::<uN>()\<close> with \<open>hi\<close> the largest value of the type: an optional
  \<open>+\<close>, at least one digit, an error on overflow.
\<close>

definition parse_digits :: "nat \<Rightarrow> string \<Rightarrow> nat option" where
  "parse_digits hi s =
     (if s = [] \<or> \<not> all_digits s then None
      else if digits_val s \<le> hi then Some (digits_val s) else None)"

definition parse_uint :: "nat \<Rightarrow> string \<Rightarrow> nat option" where
  "parse_uint hi s = (case s of [] \<Rightarrow> None
     | c # cs \<Rightarrow> parse_digits hi (if c = CHR ''+'' then cs else s))"

abbreviation parse_u32 :: "string \<Rightarrow> nat option" where
  "parse_u32 \<equiv> parse_uint 4294967295"

abbreviation parse_u16 :: "string \<Rightarrow> nat option" where
  "parse_u16 \<equiv> parse_uint 65535"

abbreviation parse_u8 :: "string \<Rightarrow> nat option" where
  "parse_u8 \<equiv> parse_uint 255"

abbreviation parse_u64 :: "string \<Rightarrow> nat option" where
  "parse_u64 \<equiv> parse_uint 18446744073709551615"

definition parse_sint :: "nat \<Rightarrow> string \<Rightarrow> int option" where
  "parse_sint half s = (case s of [] \<Rightarrow> None
     | c # cs \<Rightarrow> if c = CHR ''-'' then map_option (\<lambda>n. - int n) (parse_digits half cs)
                  else map_option int (parse_uint (half - 1) s))"

abbreviation parse_i64 :: "string \<Rightarrow> int option" where
  "parse_i64 \<equiv> parse_sint 9223372036854775808"

abbreviation parse_i32 :: "string \<Rightarrow> int option" where
  "parse_i32 \<equiv> parse_sint 2147483648"

fun show_nat :: "nat \<Rightarrow> string" where
  "show_nat n = (if n < 10 then [char_of (48 + n)]
     else show_nat (n div 10) @ [char_of (48 + n mod 10)])"

declare show_nat.simps [simp del]

text \<open>\<open>{:0w}\<close>: at least \<open>w\<close> digits, padded with zeros.\<close>

definition pad_left :: "nat \<Rightarrow> string \<Rightarrow> string" where
  "pad_left w s = replicate (w - length s) (CHR ''0'') @ s"


section \<open>Facts about trimming and prefixes\<close>

lemma trim_start_Nil [simp]: "trim_start [] = []"
  by (simp add: trim_start_def)

lemma trim_start_Cons [str_simps]:
  "trim_start (c # s) = (if is_whitespace c then trim_start s else c # s)"
  by (simp add: trim_start_def)

lemma trim_end_Nil [simp]: "trim_end [] = []"
  by (simp add: trim_end_def)

lemma trim_end_snoc [str_simps]:
  "trim_end (s @ [c]) = (if is_whitespace c then trim_end s else s @ [c])"
  by (simp add: trim_end_def)

lemma trim_start_eq_self: "s = [] \<or> \<not> is_whitespace (hd s) \<Longrightarrow> trim_start s = s"
  by (cases s) (auto simp: str_simps)

lemma trim_end_eq_self: "s = [] \<or> \<not> is_whitespace (last s) \<Longrightarrow> trim_end s = s"
  by (cases s rule: rev_cases) (auto simp: str_simps)

lemma trim_start_hd: "trim_start s \<noteq> [] \<Longrightarrow> \<not> is_whitespace (hd (trim_start s))"
  by (induction s) (auto simp: str_simps)

lemma trim_end_last: "trim_end s \<noteq> [] \<Longrightarrow> \<not> is_whitespace (last (trim_end s))"
  by (induction s rule: rev_induct) (auto simp: str_simps)

lemma trim_end_prefix: "\<exists>w. s = trim_end s @ w \<and> (\<forall>c \<in> set w. is_whitespace c)"
proof (induction s rule: rev_induct)
  case (snoc x xs)
  then obtain w where w: "xs = trim_end xs @ w" "\<forall>c \<in> set w. is_whitespace c" by blast
  show ?case
  proof (cases "is_whitespace x")
    case True
    from w(1) have "xs @ [x] = trim_end xs @ (w @ [x])" by (metis append.assoc)
    with True w(2) show ?thesis by (intro exI [of _ "w @ [x]"]) (auto simp: str_simps)
  qed (simp add: str_simps)
qed simp

lemma trim_start_suffix: "\<exists>w. s = w @ trim_start s \<and> (\<forall>c \<in> set w. is_whitespace c)"
  unfolding trim_start_def
  by (rule exI [of _ "takeWhile is_whitespace s"]) (auto dest: set_takeWhileD)

lemma hd_trim_end: "trim_end s \<noteq> [] \<Longrightarrow> hd (trim_end s) = hd s"
  using trim_end_prefix [of s] by (metis hd_append2)

lemma trim_hd: "trim s \<noteq> [] \<Longrightarrow> \<not> is_whitespace (hd (trim s))"
  unfolding trim_def by (metis hd_trim_end trim_end_Nil trim_start_hd)

lemma trim_last: "trim s \<noteq> [] \<Longrightarrow> \<not> is_whitespace (last (trim s))"
  unfolding trim_def by (rule trim_end_last)

lemma trim_eq_self:
  "s = [] \<or> (\<not> is_whitespace (hd s) \<and> \<not> is_whitespace (last s)) \<Longrightarrow> trim s = s"
  by (auto simp: trim_def trim_start_eq_self trim_end_eq_self)

lemma trim_trim [simp]: "trim (trim s) = trim s"
  using trim_eq_self trim_hd trim_last by blast

lemma trim_Nil [simp]: "trim [] = []"
  by (simp add: trim_def)

lemma trim_start_trim [simp]: "trim_start (trim s) = trim s"
  using trim_hd trim_start_eq_self by blast

lemma set_trim_start: "set (trim_start s) \<subseteq> set s"
  by (auto simp: trim_start_def dest: set_dropWhileD)

lemma set_trim_end: "set (trim_end s) \<subseteq> set s"
  using set_dropWhileD by (fastforce simp: trim_end_def)

lemma set_trim: "set (trim s) \<subseteq> set s"
  using set_trim_start set_trim_end by (fastforce simp: trim_def)

lemma trim_start_ws_append:
  "(\<forall>c \<in> set w. is_whitespace c) \<Longrightarrow> trim_start (w @ s) = trim_start s"
  by (simp add: trim_start_def dropWhile_append2)

lemma strip_prefix_Some_iff: "strip_prefix p s = Some r \<longleftrightarrow> s = p @ r"
  by (induction p s rule: strip_prefix.induct) auto

lemma strip_prefix_append [simp]: "strip_prefix p (p @ r) = Some r"
  by (simp add: strip_prefix_Some_iff)

lemma strip_prefix_None_iff: "strip_prefix p s = None \<longleftrightarrow> (\<forall>r. s \<noteq> p @ r)"
  using strip_prefix_Some_iff by (metis not_None_eq option.discI)

lemma starts_with_iff: "starts_with p s \<longleftrightarrow> (\<exists>r. s = p @ r)"
  by (auto simp: starts_with_def strip_prefix_Some_iff)

lemma starts_with_char [simp]: "starts_with [c] s \<longleftrightarrow> s \<noteq> [] \<and> hd s = c"
  by (cases s) (auto simp: starts_with_def)

lemma strip_suffix_Some_iff: "strip_suffix p s = Some r \<longleftrightarrow> s = r @ p"
  unfolding strip_suffix_def
  by (auto simp: strip_prefix_Some_iff) (metis rev_append rev_rev_ident)+

lemma find_sub_Some:
  "find_sub p s = Some i \<Longrightarrow> i \<le> length s \<and> (\<exists>r. drop i s = p @ r)"
  by (induction p s arbitrary: i rule: find_sub.induct)
    (auto simp: starts_with_iff split: if_splits)

lemma find_sub_None: "find_sub p s = None \<longleftrightarrow> (\<forall>a b. s \<noteq> a @ p @ b)"
proof (induction p s rule: find_sub.induct)
  case (1 p)
  then show ?case by auto
next
  case (2 p c s)
  show ?case
  proof (cases "starts_with p (c # s)")
    case True
    then obtain r where "c # s = [] @ p @ r" by (auto simp: starts_with_iff)
    then have "\<exists>a b. c # s = a @ p @ b" by blast
    with True show ?thesis by simp
  next
    case False
    then have "(\<forall>a b. c # s \<noteq> a @ p @ b) \<longleftrightarrow> (\<forall>a b. s \<noteq> a @ p @ b)"
      by (auto simp: starts_with_iff Cons_eq_append_conv)
    with False 2 show ?thesis by simp
  qed
qed

section \<open>Facts about splitting and joining\<close>

lemma split_on_not_Nil [simp]: "split_on c s \<noteq> []"
  by (induction s) (auto split: list.splits)

lemma split_on_parts: "w \<in> set (split_on c s) \<Longrightarrow> c \<notin> set w"
  by (induction s arbitrary: w) (auto split: list.splits if_splits)

lemma split_on_chars: "w \<in> set (split_on c s) \<Longrightarrow> set w \<subseteq> set s"
  by (induction s arbitrary: w) (fastforce split: list.splits if_splits)+

lemma join_Cons: "ws \<noteq> [] \<Longrightarrow> join sep (w # ws) = w @ sep @ join sep ws"
  by (cases ws) auto

lemma join_snoc: "ls \<noteq> [] \<Longrightarrow> join sep (ls @ [w]) = join sep ls @ sep @ w"
  by (induction ls rule: induct_list012) auto

lemma set_join: "c \<in> set (join sep ls) \<Longrightarrow> c \<in> set sep \<or> (\<exists>l \<in> set ls. c \<in> set l)"
  by (induction ls rule: induct_list012) auto

lemma join_Cons_head: "join sep ((x # w) # ws) = x # join sep (w # ws)"
  by (cases ws) auto

lemma join_split_on [simp]: "join [c] (split_on c s) = s"
proof (induction s)
  case Nil
  show ?case by simp
next
  case (Cons x s)
  obtain w ws where split: "split_on c s = w # ws" by (cases "split_on c s") auto
  with Cons show ?case by (auto simp: join_Cons join_Cons_head)
qed

lemma split_on_no_sep: "c \<notin> set w \<Longrightarrow> split_on c w = [w]"
  by (induction w) auto

lemma split_on_append: "c \<notin> set w \<Longrightarrow> split_on c (w @ c # s) = w # split_on c s"
  by (induction w) auto

lemma split_on_join:
  "ws \<noteq> [] \<Longrightarrow> (\<And>w. w \<in> set ws \<Longrightarrow> c \<notin> set w) \<Longrightarrow> split_on c (join [c] ws) = ws"
proof (induction ws rule: induct_list012)
  case (3 w v ws)
  then show ?case by (simp add: split_on_append)
qed (auto simp: split_on_no_sep)

lemma split_once_append [simp]: "c \<notin> set a \<Longrightarrow> split_once c (a @ c # b) = Some (a, b)"
  by (induction a) auto

lemma split_once_SomeD: "split_once c s = Some (a, b) \<Longrightarrow> s = a @ c # b \<and> c \<notin> set a"
  by (induction s arbitrary: a) (auto split: if_splits)

lemma split_once_Some_iff:
  "split_once c s = Some (a, b) \<longleftrightarrow> s = a @ c # b \<and> c \<notin> set a"
  by (auto dest: split_once_SomeD)

lemma split_once_None_iff: "split_once c s = None \<longleftrightarrow> c \<notin> set s"
  by (induction s) (auto simp: str_simps)

lemma split_ws_word:
  "(\<forall>c \<in> set w. \<not> is_whitespace c) \<Longrightarrow> split_ws acc (w @ s) = split_ws (rev w @ acc) s"
  by (induction w arbitrary: acc) auto

definition is_word :: "string \<Rightarrow> bool" where
  "is_word w \<longleftrightarrow> w \<noteq> [] \<and> (\<forall>c \<in> set w. \<not> is_whitespace c)"

lemma split_ws_parts:
  "acc = [] \<or> is_word acc \<Longrightarrow> list_all is_word (split_ws acc s)"
  by (induction acc s rule: split_ws.induct) (auto simp: is_word_def)

lemma split_whitespace_parts:
  "w \<in> set (split_whitespace s) \<Longrightarrow> is_word w"
  using split_ws_parts [of "[]" s] by (auto simp: split_whitespace_def list_all_iff)

definition words :: "string list \<Rightarrow> bool" where
  "words ws \<longleftrightarrow> list_all is_word ws"

lemma words_split_whitespace [simp]: "words (split_whitespace s)"
  by (simp add: words_def list_all_iff split_whitespace_parts)

lemma split_whitespace_word_ws:
  assumes "is_word w" "is_whitespace c"
  shows "split_whitespace (w @ c # s) = w # split_whitespace s"
  using assms by (simp add: split_whitespace_def split_ws_word is_word_def)

lemma split_whitespace_word:
  "is_word w \<Longrightarrow> split_whitespace w = [w]"
  using split_ws_word [of w "[]" "[]"] by (simp add: split_whitespace_def is_word_def)

lemma split_whitespace_Cons_ws: "is_whitespace c \<Longrightarrow> split_whitespace (c # s) = split_whitespace s"
  by (simp add: split_whitespace_def)

lemma split_whitespace_ws_append:
  "(\<forall>c \<in> set w. is_whitespace c) \<Longrightarrow> split_whitespace (w @ s) = split_whitespace s"
  by (induction w) (auto simp: split_whitespace_Cons_ws)

lemma split_whitespace_Nil [simp]: "split_whitespace [] = []"
  by (simp add: split_whitespace_def)

lemma space_is_whitespace [simp]: "is_whitespace (CHR '' '')"
  by (simp add: is_whitespace_def)

lemma split_whitespace_join:
  "words ws \<Longrightarrow> split_whitespace (join '' '' ws) = ws"
  by (induction ws rule: induct_list012)
    (auto simp: words_def split_whitespace_word split_whitespace_word_ws)

section \<open>Facts about numbers\<close>

lemma digit_char:
  "n < 10 \<Longrightarrow> is_ascii_digit (char_of (48 + n)) \<and> digit_val (char_of (48 + n)) = n"
  by (simp add: is_ascii_digit_def digit_val_def)

lemma digits_val_snoc: "digits_val (s @ [c]) = 10 * digits_val s + digit_val c"
  by (simp add: digits_val_def)

lemma digits_val_less: "all_digits s \<Longrightarrow> digits_val s < 10 ^ length s"
proof (induction s rule: rev_induct)
  case (snoc c s)
  then have "digits_val s < 10 ^ length s" "digit_val c \<le> 9"
    by (auto simp: all_digits_def is_ascii_digit_def digit_val_def)
  then show ?case by (simp add: digits_val_snoc)
qed (simp add: digits_val_def)

lemma show_nat_digits: "all_digits (show_nat n) \<and> show_nat n \<noteq> [] \<and> digits_val (show_nat n) = n"
proof (induction n rule: show_nat.induct)
  case (1 n)
  show ?case
  proof (cases "n < 10")
    case True
    then show ?thesis
      using digit_char [of n]
      by (simp add: show_nat.simps [of n] all_digits_def digits_val_def)
  next
    case False
    with 1 digit_char [of "n mod 10"] show ?thesis
      by (simp add: show_nat.simps [of n] all_digits_def digits_val_snoc)
  qed
qed

lemma digit_not_plus: "is_ascii_digit c \<Longrightarrow> c \<noteq> CHR ''+''"
  by (auto simp: is_ascii_digit_def)

lemma digit_not_whitespace: "is_ascii_digit c \<Longrightarrow> \<not> is_whitespace c"
  by (auto simp: is_ascii_digit_def is_whitespace_def)

lemma parse_uint_digits:
  "all_digits s \<Longrightarrow> s \<noteq> [] \<Longrightarrow> parse_uint hi s = (if digits_val s \<le> hi then Some (digits_val s) else None)"
  by (cases s) (auto simp: parse_uint_def parse_digits_def all_digits_def digit_not_plus)

lemma parse_show_nat: "n \<le> hi \<Longrightarrow> parse_uint hi (show_nat n) = Some n"
  using show_nat_digits [of n] by (simp add: parse_uint_digits)

lemma parse_uint_bound: "parse_uint hi s = Some n \<Longrightarrow> n \<le> hi"
  by (auto simp: parse_uint_def parse_digits_def split: list.splits if_splits)

lemma show_nat_inject [simp]: "show_nat m = show_nat n \<longleftrightarrow> m = n"
  using show_nat_digits by metis

lemma show_nat_chars: "c \<in> set (show_nat n) \<Longrightarrow> is_ascii_digit c"
  using show_nat_digits [of n] by (simp add: all_digits_def list_all_iff)

lemma show_nat_not_Nil [simp]: "show_nat n \<noteq> []"
  using show_nat_digits [of n] by simp

lemma parse_sint_show_nat:
  assumes "n < half"
  shows "parse_sint half (show_nat n) = Some (int n)"
proof -
  obtain c cs where s: "show_nat n = c # cs" using show_nat_not_Nil by (metis list.exhaust)
  have "c \<noteq> CHR ''-''" using show_nat_chars [of c n] s by (auto simp: is_ascii_digit_def)
  moreover have "parse_uint (half - 1) (show_nat n) = Some n" using assms by (intro parse_show_nat) simp
  ultimately show ?thesis by (simp add: parse_sint_def s)
qed

lemma show_nat_ends: "\<not> is_whitespace (hd (show_nat n))" "\<not> is_whitespace (last (show_nat n))"
  using show_nat_chars [OF hd_in_set, of n] show_nat_chars [OF last_in_set, of n] digit_not_whitespace by auto

lemma trim_show_nat [simp]: "trim (show_nat n) = show_nat n"
  using show_nat_ends by (intro trim_eq_self) auto

lemma trim_end_Nil_iff: "trim_end s = [] \<longleftrightarrow> (\<forall>c \<in> set s. is_whitespace c)"
  by (simp add: trim_end_def)

lemma trim_Nil_iff: "trim s = [] \<longleftrightarrow> (\<forall>c \<in> set s. is_whitespace c)"
proof
  assume "trim s = []"
  then have "\<forall>c \<in> set (trim_start s). is_whitespace c" by (simp add: trim_def trim_end_Nil_iff)
  then show "\<forall>c \<in> set s. is_whitespace c" using trim_start_suffix [of s] by (metis Un_iff set_append)
qed (metis trim_end_Nil trim_def trim_start_def dropWhile_eq_Nil_conv)

lemma trim_end_append: "trim_end v \<noteq> [] \<Longrightarrow> trim_end (s @ v) = s @ trim_end v"
  by (induction v rule: rev_induct) (auto simp: str_simps simp flip: append_assoc)

lemma trim_end_ws_append: "(\<forall>c \<in> set w. is_whitespace c) \<Longrightarrow> trim_end (s @ w) = trim_end s"
  by (induction w rule: rev_induct) (auto simp: str_simps simp flip: append_assoc)

lemma trim_trim_end [simp]: "trim (trim_end s) = trim s"
proof (cases "trim_end s = []")
  case True
  then show ?thesis by (metis trim_Nil trim_Nil_iff trim_end_Nil_iff)
next
  case False
  obtain w where w: "s = trim_end s @ w" "\<forall>c \<in> set w. is_whitespace c" using trim_end_prefix by blast
  have "trim_start (trim_end s) \<noteq> []"
    using trim_end_last [OF False] False last_in_set trim_start_def by (metis dropWhile_eq_Nil_conv)
  then have "trim_start (trim_end s @ w) = trim_start (trim_end s) @ w"
    by (auto simp: trim_start_def dropWhile_append)
  then show ?thesis using w by (metis trim_def trim_end_ws_append)
qed

end
