(* ===== verification/Snippet.thy ===== *)
theory Snippet
  imports Rust_Str
begin

text \<open>
  The snippet macro language (\<open>crates/sbm_parser/src/snippet.rs\<close>): a saved script
  and the values a client knows become the steps it types. Offsets count
  characters where the source counts bytes; the characters the scan looks for
  are ASCII, so both cut the text at the same places.
\<close>

section \<open>Vocabulary\<close>

definition SERVER_KEYS :: "string list" where
  "SERVER_KEYS = [''host'', ''port'', ''user'', ''pwd'', ''id'', ''name'']"

definition MAX_SLEEP_SECONDS :: nat where "MAX_SLEEP_SECONDS = 300"
definition MAX_ENTER :: nat where "MAX_ENTER = 64"

record SnippetContext =
  ctx_host :: "string option"
  ctx_port :: "string option"
  ctx_user :: "string option"
  ctx_pwd :: "string option"
  ctx_id :: "string option"
  ctx_name :: "string option"

definition ctx_get :: "SnippetContext \<Rightarrow> string \<Rightarrow> string option" where
  "ctx_get c key =
     (if key = ''host'' then ctx_host c else if key = ''port'' then ctx_port c
      else if key = ''user'' then ctx_user c else if key = ''pwd'' then ctx_pwd c
      else if key = ''id'' then ctx_id c else if key = ''name'' then ctx_name c else None)"

datatype Step = Text string | Combo bool bool char string | Sleep nat | Enter nat

datatype PlanError = Unanswerable string

fun plan_error_str :: "PlanError \<Rightarrow> string" where
  "plan_error_str (Unanswerable _) = ''unanswerable''"

fun plan_error_key :: "PlanError \<Rightarrow> string" where
  "plan_error_key (Unanswerable key) = key"

section \<open>The scan\<close>

record RawMatch =
  match_start :: nat
  match_end :: nat
  match_name :: string

fun position :: "char \<Rightarrow> string \<Rightarrow> nat option" where
  "position c [] = None"
| "position c (x # s) = (if x = c then Some 0 else map_option Suc (position c s))"

function scan :: "nat \<Rightarrow> string \<Rightarrow> RawMatch list" where
  "scan index s =
     (case s of [] \<Rightarrow> []
      | c # rest \<Rightarrow>
          (if c = CHR ''$'' \<and> rest \<noteq> [] \<and> hd rest = CHR ''{'' then
             (case position (CHR ''}'') (tl rest) of
                None \<Rightarrow> scan (index + 1) rest
              | Some close \<Rightarrow>
                  (let name = take close (tl rest) in
                   if name \<noteq> [] \<and> CHR ''{'' \<notin> set name \<and> CHR ''}'' \<notin> set name
                   then \<lparr>match_start = index, match_end = index + 2 + close + 1, match_name = name\<rparr>
                     # scan (index + 2 + close + 1) (drop (close + 1) (tl rest))
                   else scan (index + 1) rest))
           else scan (index + 1) rest))"
  by pat_completeness auto
termination by (relation "measure (\<lambda>(_, s). length s)") auto

declare scan.simps [simp del]

definition matches :: "string \<Rightarrow> RawMatch list" where
  "matches script = scan 0 script"

fun dedup :: "string list \<Rightarrow> string list \<Rightarrow> string list" where
  "dedup found [] = found"
| "dedup found (n # ns) = dedup (if n \<in> set found then found else found @ [n]) ns"

definition placeholders :: "string \<Rightarrow> string list" where
  "placeholders script = dedup [] (map match_name (matches script))"

definition server_keys :: "string \<Rightarrow> string list" where
  "server_keys script = dedup [] (filter (\<lambda>n. n \<in> set SERVER_KEYS) (map match_name (matches script)))"

definition uses_server_context :: "string \<Rightarrow> bool" where
  "uses_server_context script \<longleftrightarrow> server_keys script \<noteq> []"

section \<open>Steps\<close>

definition slice :: "string \<Rightarrow> nat \<Rightarrow> nat \<Rightarrow> string" where
  "slice s a b = take (b - a) (drop a s)"

definition push_text :: "Step list \<Rightarrow> string \<Rightarrow> Step list" where
  "push_text steps text =
     (if text = [] then steps
      else if steps = [] then [Text text]
      else (case last steps of Text previous \<Rightarrow> butlast steps @ [Text (previous @ text)]
            | _ \<Rightarrow> steps @ [Text text]))"

definition argument :: "string \<Rightarrow> string option" where
  "argument rest = (case rest of [] \<Rightarrow> None | _ # cs \<Rightarrow> Some cs)"

definition combo_of :: "bool \<Rightarrow> string \<Rightarrow> Step option" where
  "combo_of ctrl rest =
     (case strip_prefix ''+'' rest of None \<Rightarrow> None
      | Some text \<Rightarrow> (case text of [] \<Rightarrow> None | key # cs \<Rightarrow> Some (Combo ctrl (\<not> ctrl) key cs)))"

definition sleep_steps :: "string \<Rightarrow> Step list" where
  "sleep_steps rest =
     (case Option.bind (argument rest) parse_u64 of None \<Rightarrow> []
      | Some seconds \<Rightarrow> [Sleep (min seconds MAX_SLEEP_SECONDS)])"

definition enter_steps :: "string \<Rightarrow> Step list" where
  "enter_steps rest =
     (let times = (case Option.bind (argument rest) parse_i64 of None \<Rightarrow> 1
                   | Some n \<Rightarrow> nat (max 0 (min n (int u32_max))))
      in if times > 0 then [Enter (min times MAX_ENTER)] else [])"

definition option_list :: "'a option \<Rightarrow> 'a list" where
  "option_list x = (case x of None \<Rightarrow> [] | Some y \<Rightarrow> [y])"

text \<open>What the loop does with a name that is not a server's: \<open>None\<close> is text as written.\<close>

definition macro_steps :: "string \<Rightarrow> Step list option" where
  "macro_steps raw =
     (let name = to_lowercase raw in
      case strip_prefix ''sleep'' name of Some rest \<Rightarrow> Some (sleep_steps rest)
      | None \<Rightarrow>
          (case strip_prefix ''enter'' name of Some rest \<Rightarrow> Some (enter_steps rest)
           | None \<Rightarrow>
               (case strip_prefix ''ctrl'' name of Some rest \<Rightarrow> Some (option_list (combo_of True rest))
                | None \<Rightarrow>
                    (case strip_prefix ''alt'' name of Some rest \<Rightarrow> Some (option_list (combo_of False rest))
                     | None \<Rightarrow> None))))"

fun steps_loop ::
  "string \<Rightarrow> SnippetContext \<Rightarrow> nat \<Rightarrow> Step list \<Rightarrow> RawMatch list \<Rightarrow> (PlanError, Step list) result" where
  "steps_loop script ctx cursor steps [] = Ok (push_text steps (drop cursor script))"
| "steps_loop script ctx cursor steps (m # ms) =
     (let steps1 = push_text steps (slice script cursor (match_start m)) in
      if match_name m \<in> set SERVER_KEYS then
        (case ctx_get ctx (match_name m) of None \<Rightarrow> Err (Unanswerable (match_name m))
         | Some value \<Rightarrow> steps_loop script ctx (match_end m) (push_text steps1 value) ms)
      else (case macro_steps (match_name m) of
          Some new \<Rightarrow> steps_loop script ctx (match_end m) (steps1 @ new) ms
        | None \<Rightarrow> steps_loop script ctx (match_end m)
            (push_text steps1 (slice script (match_start m) (match_end m))) ms))"

definition steps_of :: "string \<Rightarrow> SnippetContext \<Rightarrow> (PlanError, Step list) result" where
  "steps_of script ctx = steps_loop script ctx 0 [] (matches script)"

definition plan :: "string \<Rightarrow> SnippetContext \<Rightarrow> (PlanError, Step list) result" where
  "plan script ctx = steps_of script ctx"

fun expand_loop ::
  "string \<Rightarrow> SnippetContext \<Rightarrow> nat \<Rightarrow> string \<Rightarrow> RawMatch list \<Rightarrow> (PlanError, string) result" where
  "expand_loop script ctx cursor out [] = Ok (out @ drop cursor script)"
| "expand_loop script ctx cursor out (m # ms) =
     (if match_name m \<notin> set SERVER_KEYS then expand_loop script ctx cursor out ms
      else (case ctx_get ctx (match_name m) of None \<Rightarrow> Err (Unanswerable (match_name m))
        | Some value \<Rightarrow>
            expand_loop script ctx (match_end m) (out @ slice script cursor (match_start m) @ value) ms))"

definition expand :: "string \<Rightarrow> SnippetContext \<Rightarrow> (PlanError, string) result" where
  "expand script ctx = expand_loop script ctx 0 [] (matches script)"

section \<open>A script as pieces\<close>

text \<open>
  The reference: a script is read from the left as plain characters and names in
  \<open>${\<close> and \<open>}\<close>, a name being one or more characters other than braces.
\<close>

datatype Piece = Plain char | Macro string

definition no_brace :: "char \<Rightarrow> bool" where
  "no_brace c \<longleftrightarrow> c \<noteq> CHR ''{'' \<and> c \<noteq> CHR ''}''"

definition macro_at :: "string \<Rightarrow> (string \<times> string) option" where
  "macro_at s =
     (if take 2 s = ''${'' then
        (let name = takeWhile no_brace (drop 2 s); rest = dropWhile no_brace (drop 2 s) in
         if name \<noteq> [] \<and> rest \<noteq> [] \<and> hd rest = CHR ''}'' then Some (name, tl rest) else None)
      else None)"

lemma macro_at_shorter: "macro_at s = Some (n, r) \<Longrightarrow> length r < length s"
proof -
  assume m: "macro_at s = Some (n, r)"
  have "length (dropWhile no_brace (drop 2 s)) \<le> length s"
    using length_dropWhile_le [of no_brace "drop 2 s"] by simp
  then show ?thesis
    using m by (cases "dropWhile no_brace (drop 2 s)") (auto simp: macro_at_def Let_def split: if_splits)
qed

function pieces :: "string \<Rightarrow> Piece list" where
  "pieces s = (case s of [] \<Rightarrow> []
     | c # cs \<Rightarrow> (case macro_at s of Some (name, rest) \<Rightarrow> Macro name # pieces rest
         | None \<Rightarrow> Plain c # pieces cs))"
  by pat_completeness auto
termination
  by (relation "measure length") (use macro_at_shorter in fastforce)+

declare pieces.simps [simp del]

fun written :: "Piece \<Rightarrow> string" where
  "written (Plain c) = [c]"
| "written (Macro n) = ''${'' @ n @ ''}''"

definition types :: "SnippetContext \<Rightarrow> Piece \<Rightarrow> Step list" where
  "types ctx p = (case p of Plain c \<Rightarrow> [Text [c]]
     | Macro n \<Rightarrow>
         (if n \<in> set SERVER_KEYS then [Text (the (ctx_get ctx n))]
          else (case macro_steps n of Some new \<Rightarrow> new | None \<Rightarrow> [Text (written p)])))"

text \<open>Adjacent texts are one step, and an empty text is none.\<close>

definition join_step :: "Step list \<Rightarrow> Step \<Rightarrow> Step list" where
  "join_step steps st = (case st of Text t \<Rightarrow> push_text steps t | _ \<Rightarrow> steps @ [st])"

definition joined :: "Step list \<Rightarrow> Step list" where
  "joined steps = foldl join_step [] steps"

definition unanswered :: "SnippetContext \<Rightarrow> Piece \<Rightarrow> bool" where
  "unanswered ctx p = (case p of Plain _ \<Rightarrow> False
     | Macro n \<Rightarrow> n \<in> set SERVER_KEYS \<and> ctx_get ctx n = None)"

section \<open>The scan finds the pieces\<close>

lemma position_Some:
  "position c s = Some i \<longleftrightarrow> (\<exists>r. s = take i s @ c # r \<and> i = length (take i s) \<and> c \<notin> set (take i s))"
proof (induction s arbitrary: i)
  case (Cons x s)
  show ?case
  proof (cases i)
    case (Suc j)
    then show ?thesis using Cons.IH [of j] by (auto simp: min_def split: if_splits)
  qed auto
qed simp

lemma position_split: "c \<notin> set a \<Longrightarrow> position c (a @ c # r) = Some (length a)"
  by (induction a) auto

lemma position_None: "position c s = None \<longleftrightarrow> c \<notin> set s"
  by (induction s) auto

lemma macro_at_iff:
  "macro_at s = Some (n, r) \<longleftrightarrow> s = ''${'' @ n @ CHR ''}'' # r \<and> n \<noteq> [] \<and> (\<forall>c \<in> set n. no_brace c)"
proof
  assume m: "macro_at s = Some (n, r)"
  let ?n = "takeWhile no_brace (drop 2 s)" and ?r = "dropWhile no_brace (drop 2 s)"
  have p: "take 2 s = ''${''" using m by (simp add: macro_at_def split: if_splits)
  with m have n: "n = ?n" "n \<noteq> []" and r: "?r \<noteq> []" "hd ?r = CHR ''}''" "r = tl ?r"
    by (simp_all add: macro_at_def Let_def split: if_splits)
  have "s = take 2 s @ ?n @ ?r" by simp
  also have "\<dots> = ''${'' @ n @ CHR ''}'' # r" using p n r by (metis list.collapse)
  finally show "s = ''${'' @ n @ CHR ''}'' # r \<and> n \<noteq> [] \<and> (\<forall>c \<in> set n. no_brace c)"
    using n by (auto dest: set_takeWhileD)
next
  assume s: "s = ''${'' @ n @ CHR ''}'' # r \<and> n \<noteq> [] \<and> (\<forall>c \<in> set n. no_brace c)"
  then have "takeWhile no_brace (n @ CHR ''}'' # r) = n" "dropWhile no_brace (n @ CHR ''}'' # r) = CHR ''}'' # r"
    by (simp_all add: takeWhile_append dropWhile_append no_brace_def)
  then show "macro_at s = Some (n, r)"
    using s by (simp add: macro_at_def)
qed

lemma scan_Nil [simp]: "scan i [] = []"
  by (simp add: scan.simps)

lemma pieces_Nil [simp]: "pieces [] = []"
  by (simp add: pieces.simps)

lemma scan_Cons:
  "scan i (c # s) = (case macro_at (c # s) of
     Some (n, r) \<Rightarrow> \<lparr>match_start = i, match_end = i + length n + 3, match_name = n\<rparr> # scan (i + length n + 3) r
   | None \<Rightarrow> scan (Suc i) s)"
proof (cases "macro_at (c # s)")
  case None
  have "\<not> (c = CHR ''$'' \<and> s \<noteq> [] \<and> hd s = CHR ''{'' \<and> position (CHR ''}'') (tl s) = Some k
      \<and> take k (tl s) \<noteq> [] \<and> CHR ''{'' \<notin> set (take k (tl s)) \<and> CHR ''}'' \<notin> set (take k (tl s)))" for k
  proof
    assume a: "c = CHR ''$'' \<and> s \<noteq> [] \<and> hd s = CHR ''{'' \<and> position (CHR ''}'') (tl s) = Some k
      \<and> take k (tl s) \<noteq> [] \<and> CHR ''{'' \<notin> set (take k (tl s)) \<and> CHR ''}'' \<notin> set (take k (tl s))"
    then obtain r where "tl s = take k (tl s) @ CHR ''}'' # r" by (auto simp: position_Some)
    with a have "macro_at (c # s) = Some (take k (tl s), r)"
      unfolding macro_at_iff by (cases s) (auto simp: no_brace_def)
    with None show False by simp
  qed
  then show ?thesis using None by (subst scan.simps) (auto simp: Let_def split: option.split)
next
  case (Some nr)
  obtain n r where nr: "nr = (n, r)" by (cases nr)
  then have "c = CHR ''$''" "s = CHR ''{'' # n @ CHR ''}'' # r" "n \<noteq> []" "\<forall>c \<in> set n. no_brace c"
    using Some unfolding nr macro_at_iff by auto
  moreover from this have "position (CHR ''}'') (n @ CHR ''}'' # r) = Some (length n)"
    by (intro position_split) (auto simp: no_brace_def)
  moreover have "CHR ''{'' \<notin> set n" "CHR ''}'' \<notin> set n" using calculation(4) by (auto simp: no_brace_def)
  ultimately show ?thesis using Some nr by (subst scan.simps) (simp add: numeral_3_eq_3)
qed

lemma pieces_Cons:
  "pieces (c # s) = (case macro_at (c # s) of
     Some (n, r) \<Rightarrow> Macro n # pieces r | None \<Rightarrow> Plain c # pieces s)"
  by (subst pieces.simps) simp

lemma push_text_Nil [simp]: "push_text steps [] = steps"
  by (simp add: push_text_def)

lemma push_text_append [simp]: "push_text (push_text steps a) b = push_text steps (a @ b)"
  by (auto simp: push_text_def split: Step.splits)

lemma slice_middle [simp]: "slice (a @ b @ c) (length a) (length a + length b) = b"
  by (simp add: slice_def)

lemma macro_steps_no_text: "macro_steps n = Some new \<Longrightarrow> Text t \<notin> set new"
  by (auto simp: macro_steps_def sleep_steps_def enter_steps_def combo_of_def option_list_def Let_def
      split: option.splits if_splits list.splits)

lemma foldl_join_no_text: "(\<And>t. Text t \<notin> set new) \<Longrightarrow> foldl join_step steps new = steps @ new"
proof (induction new arbitrary: steps)
  case (Cons st new)
  have "join_step steps st = steps @ [st]" using Cons.prems by (cases st) (auto simp: join_step_def)
  then show ?case using Cons by simp
qed simp

definition unanswered_in :: "SnippetContext \<Rightarrow> string \<Rightarrow> Piece option" where
  "unanswered_in ctx s = find (unanswered ctx) (pieces s)"

lemma unanswered_in_Plain: "pieces s = Plain c # pieces r \<Longrightarrow> unanswered_in ctx s = unanswered_in ctx r"
  by (simp add: unanswered_in_def unanswered_def)

lemma unanswered_in_Macro:
  "pieces s = Macro n # pieces r \<Longrightarrow>
     unanswered_in ctx s = (if n \<in> set SERVER_KEYS \<and> ctx_get ctx n = None then Some (Macro n) else unanswered_in ctx r)"
  by (simp add: unanswered_in_def unanswered_def)

definition loop_result :: "SnippetContext \<Rightarrow> string \<Rightarrow> Step list \<Rightarrow> (PlanError, Step list) result" where
  "loop_result ctx s steps = (case unanswered_in ctx s of
      Some p \<Rightarrow> Err (Unanswerable (case p of Macro n \<Rightarrow> n | Plain _ \<Rightarrow> []))
    | None \<Rightarrow> Ok (foldl join_step steps (concat (map (types ctx) (pieces s)))))"

lemma loop_result_Nil [simp]: "loop_result ctx [] steps = Ok steps"
  by (simp add: loop_result_def unanswered_in_def)

lemma loop_result_Plain:
  "pieces s = Plain c # pieces r \<Longrightarrow> loop_result ctx s steps = loop_result ctx r (push_text steps [c])"
  by (simp add: loop_result_def unanswered_in_Plain types_def join_step_def split: option.split)

lemma loop_result_Macro:
  assumes "pieces s = Macro n # pieces r"
  shows "loop_result ctx s steps =
    (if n \<in> set SERVER_KEYS then
       (case ctx_get ctx n of None \<Rightarrow> Err (Unanswerable n) | Some v \<Rightarrow> loop_result ctx r (push_text steps v))
     else (case macro_steps n of Some new \<Rightarrow> loop_result ctx r (steps @ new)
       | None \<Rightarrow> loop_result ctx r (push_text steps (''${'' @ n @ ''}''))))"
proof (cases "n \<in> set SERVER_KEYS")
  case True
  then show ?thesis
    by (cases "ctx_get ctx n")
      (simp_all add: loop_result_def unanswered_in_Macro [OF assms] assms types_def join_step_def
        split: option.split)
next
  case False
  then show ?thesis
    by (cases "macro_steps n")
      (simp_all add: loop_result_def unanswered_in_Macro [OF assms] assms types_def join_step_def
        foldl_join_no_text macro_steps_no_text split: option.split)
qed

lemma steps_loop_pieces:
  "steps_loop (past @ pend @ s) ctx (length past) steps (scan (length past + length pend) s) =
     loop_result ctx s (push_text steps pend)"
proof (induction s arbitrary: past pend steps rule: pieces.induct)
  case (1 s)
  show ?case
  proof (cases s)
    case Nil
    then show ?thesis by simp
  next
    case (Cons c cs)
    show ?thesis
    proof (cases "macro_at s")
      case None
      then have "scan (length past + length pend) s = scan (length past + length (pend @ [c])) cs"
        and p: "pieces s = Plain c # pieces cs"
        using Cons by (simp_all add: scan_Cons pieces_Cons)
      moreover have "past @ pend @ s = past @ (pend @ [c]) @ cs" using Cons by simp
      ultimately show ?thesis
        using 1(1) [OF Cons None, of past "pend @ [c]" steps]
        by (simp only: loop_result_Plain [OF p] push_text_append)
    next
      case (Some nr)
      obtain n r where nr: "nr = (n, r)" by (cases nr)
      then have s: "s = ''${'' @ n @ CHR ''}'' # r" using Some macro_at_iff by blast
      define q where "q = past @ pend @ ''${'' @ n @ ''}''"
      define e i w where "e = length q" and "i = length past + length pend" and "w = past @ pend @ s"
      have sc: "scan i s = \<lparr>match_start = i, match_end = e, match_name = n\<rparr> # scan e r"
        and p: "pieces s = Macro n # pieces r"
        using Cons Some nr by (simp_all add: scan_Cons pieces_Cons numeral_3_eq_3 add.assoc e_def i_def q_def)
      have cut: "slice w (length past) i = pend" by (simp add: w_def i_def)
      have lit: "slice w i e = ''${'' @ n @ ''}''"
        using slice_middle [of "past @ pend" "''${'' @ n @ ''}''" r] s
        by (simp add: add.assoc w_def i_def e_def q_def)
      have IH: "steps_loop w ctx e st (scan e r) = loop_result ctx r st" for st
        using 1(2) [OF Cons Some nr [symmetric], of q "[]" st] s by (simp add: w_def e_def q_def)
      have "steps_loop w ctx (length past) steps (scan i s) = loop_result ctx s (push_text steps pend)"
        unfolding sc loop_result_Macro [OF p] by (simp add: cut lit IH Let_def split: option.split)
      then show ?thesis by (simp add: w_def i_def)
    qed
  qed
qed

lemma steps_of_pieces: "steps_of s ctx = loop_result ctx s []"
  using steps_loop_pieces [of "[]" "[]" s ctx "[]"] by (simp add: steps_of_def matches_def)

lemma pieces_written: "concat (map written (pieces s)) = s"
proof (induction s rule: pieces.induct)
  case (1 s)
  show ?case
  proof (cases s)
    case (Cons c cs)
    show ?thesis
    proof (cases "macro_at s")
      case None
      then show ?thesis using 1(1) [OF Cons None] Cons by (simp add: pieces_Cons)
    next
      case (Some nr)
      obtain n r where nr: "nr = (n, r)" by (cases nr)
      have "s = ''${'' @ n @ CHR ''}'' # r" using Some nr macro_at_iff by blast
      then show ?thesis using 1(2) [OF Cons Some nr [symmetric]] Cons Some nr by (simp add: pieces_Cons)
    qed
  qed simp
qed

definition expanded :: "SnippetContext \<Rightarrow> Piece \<Rightarrow> string" where
  "expanded ctx p = (case p of Plain c \<Rightarrow> [c]
     | Macro n \<Rightarrow> if n \<in> set SERVER_KEYS then the (ctx_get ctx n) else written p)"

definition expand_result :: "SnippetContext \<Rightarrow> string \<Rightarrow> string \<Rightarrow> (PlanError, string) result" where
  "expand_result ctx s out = (case unanswered_in ctx s of
      Some p \<Rightarrow> Err (Unanswerable (case p of Macro n \<Rightarrow> n | Plain _ \<Rightarrow> []))
    | None \<Rightarrow> Ok (out @ concat (map (expanded ctx) (pieces s))))"

lemma expand_loop_pieces:
  "expand_loop (past @ pend @ s) ctx (length past) out (scan (length past + length pend) s) =
     expand_result ctx s (out @ pend)"
proof (induction s arbitrary: past pend out rule: pieces.induct)
  case (1 s)
  show ?case
  proof (cases s)
    case Nil
    then show ?thesis by (simp add: expand_result_def unanswered_in_def)
  next
    case (Cons c cs)
    show ?thesis
    proof (cases "macro_at s")
      case None
      then have "scan (length past + length pend) s = scan (length past + length (pend @ [c])) cs"
        and p: "pieces s = Plain c # pieces cs"
        using Cons by (simp_all add: scan_Cons pieces_Cons)
      moreover have "past @ pend @ s = past @ (pend @ [c]) @ cs" using Cons by simp
      moreover have "expand_result ctx s (out @ pend) = expand_result ctx cs (out @ pend @ [c])"
        by (simp add: expand_result_def unanswered_in_Plain [OF p] p expanded_def split: option.split)
      ultimately show ?thesis using 1(1) [OF Cons None, of past "pend @ [c]" out] by simp
    next
      case (Some nr)
      obtain n r where nr: "nr = (n, r)" by (cases nr)
      then have s: "s = ''${'' @ n @ CHR ''}'' # r" using Some macro_at_iff by blast
      define q where "q = past @ pend @ ''${'' @ n @ ''}''"
      define e i w where "e = length q" and "i = length past + length pend" and "w = past @ pend @ s"
      have sc: "scan i s = \<lparr>match_start = i, match_end = e, match_name = n\<rparr> # scan e r"
        and p: "pieces s = Macro n # pieces r"
        using Cons Some nr by (simp_all add: scan_Cons pieces_Cons numeral_3_eq_3 add.assoc e_def i_def q_def)
      have cut: "slice w (length past) i = pend" by (simp add: w_def i_def)
      note IH = 1(2) [OF Cons Some nr [symmetric]]
      have server: "expand_loop w ctx e o1 (scan e r) = expand_result ctx r o1" for o1
        using IH [of q "[]" o1] s by (simp add: w_def e_def q_def)
      have other: "expand_loop w ctx (length past) out (scan e r) =
          expand_result ctx r (out @ pend @ ''${'' @ n @ ''}'')"
        using IH [of past "pend @ ''${'' @ n @ ''}''" out] s by (simp add: w_def e_def q_def)
      have "expand_loop w ctx (length past) out (scan i s) = expand_result ctx s (out @ pend)"
        unfolding sc
        by (cases "n \<in> set SERVER_KEYS")
          (simp_all add: cut server other expand_result_def unanswered_in_Macro [OF p] p expanded_def
            split: option.split)
      then show ?thesis by (simp add: w_def i_def)
    qed
  qed
qed

lemma expand_pieces: "expand s ctx = expand_result ctx s []"
  using expand_loop_pieces [of "[]" "[]" s ctx "[]"] by (simp add: expand_def matches_def)

lemma plan_Ok: "plan s ctx = Ok steps \<longleftrightarrow>
    unanswered_in ctx s = None \<and> steps = joined (concat (map (types ctx) (pieces s)))"
  by (auto simp: plan_def steps_of_pieces loop_result_def joined_def split: option.splits)

lemma expand_Ok: "expand s ctx = Ok out \<longleftrightarrow>
    unanswered_in ctx s = None \<and> out = concat (map (expanded ctx) (pieces s))"
  by (auto simp: expand_pieces expand_result_def split: option.splits)

section \<open>Properties of a plan\<close>

definition is_text :: "Step \<Rightarrow> bool" where
  "is_text st = (case st of Text _ \<Rightarrow> True | _ \<Rightarrow> False)"

lemma is_text_simps [simp]: "is_text (Text t)" "\<not> is_text (Combo c a k r)" "\<not> is_text (Sleep n)" "\<not> is_text (Enter m)"
  by (simp_all add: is_text_def)

definition keys_of :: "Step list \<Rightarrow> Step list" where
  "keys_of steps = filter (\<lambda>st. \<not> is_text st) steps"

lemma keys_of_push [simp]: "keys_of (push_text steps t) = keys_of steps"
proof (cases steps rule: rev_cases)
  case (snoc xs x)
  then show ?thesis by (cases x) (auto simp: push_text_def keys_of_def)
qed (simp add: push_text_def keys_of_def)

lemma keys_of_joined: "keys_of (foldl join_step steps xs) = keys_of steps @ keys_of xs"
proof (induction xs arbitrary: steps)
  case (Cons x xs)
  then show ?case by (cases x) (simp_all add: join_step_def, simp_all add: keys_of_def)
qed (simp add: keys_of_def)

lemma keys_of_types: "keys_of (types ctx p) = keys_of (types ctx' p)"
  by (simp add: types_def keys_of_def split: Piece.split)

lemma keys_of_append: "keys_of (a @ b) = keys_of a @ keys_of b"
  by (simp add: keys_of_def)

lemma keys_of_concat: "keys_of (concat xss) = concat (map keys_of xss)"
  by (induction xss) (simp_all add: keys_of_def)

definition step_ok :: "Step \<Rightarrow> bool" where
  "step_ok st = (case st of Text t \<Rightarrow> t \<noteq> [] | Sleep n \<Rightarrow> n \<le> MAX_SLEEP_SECONDS
     | Enter n \<Rightarrow> 1 \<le> n \<and> n \<le> MAX_ENTER | Combo ctrl alt _ _ \<Rightarrow> alt \<noteq> ctrl)"

definition no_adjacent_text :: "Step list \<Rightarrow> bool" where
  "no_adjacent_text steps \<longleftrightarrow> successively (\<lambda>a b. \<not> (is_text a \<and> is_text b)) steps"

lemma no_adjacent_snoc:
  "no_adjacent_text (xs @ [x]) \<longleftrightarrow> no_adjacent_text xs \<and> (xs = [] \<or> \<not> is_text (last xs) \<or> \<not> is_text x)"
  by (auto simp: no_adjacent_text_def successively_append_iff)

definition steps_ok :: "Step list \<Rightarrow> bool" where
  "steps_ok steps \<longleftrightarrow> list_all step_ok steps \<and> no_adjacent_text steps"

lemma steps_ok_snoc:
  "steps_ok (xs @ [x]) \<longleftrightarrow> steps_ok xs \<and> step_ok x \<and> (xs = [] \<or> \<not> is_text (last xs) \<or> \<not> is_text x)"
  unfolding steps_ok_def no_adjacent_snoc by (simp add: conj_ac)

lemma steps_ok_push:
  assumes "steps_ok steps"
  shows "steps_ok (push_text steps t)"
proof (cases "t = [] \<or> steps = []")
  case True
  then show ?thesis using assms steps_ok_snoc [of "[]"] by (auto simp: push_text_def step_ok_def)
next
  case False
  then obtain xs x where s: "steps = xs @ [x]" by (metis rev_exhaust)
  show ?thesis
  proof (cases "is_text x")
    case True
    then obtain a where "x = Text a" by (cases x) auto
    then show ?thesis using False assms unfolding s by (simp add: push_text_def steps_ok_snoc step_ok_def)
  next
    case no: False
    then have "push_text steps t = steps @ [Text t]" using False s by (cases x) (simp_all add: push_text_def)
    then show ?thesis
      using False no assms steps_ok_snoc [of steps "Text t"] by (simp add: s) (simp add: step_ok_def)
  qed
qed

lemma steps_ok_joined:
  "list_all (\<lambda>st. is_text st \<or> step_ok st) xs \<Longrightarrow> steps_ok steps \<Longrightarrow> steps_ok (foldl join_step steps xs)"
proof (induction xs arbitrary: steps)
  case (Cons x xs)
  then have "steps_ok (join_step steps x)"
    by (cases x) (simp_all add: join_step_def steps_ok_push steps_ok_snoc)
  then show ?case using Cons by simp
qed simp

lemma macro_steps_ok: "macro_steps n = Some new \<Longrightarrow> list_all step_ok new"
  by (auto simp: macro_steps_def sleep_steps_def enter_steps_def combo_of_def option_list_def Let_def
      step_ok_def MAX_ENTER_def MAX_SLEEP_SECONDS_def split: option.splits if_splits list.splits)

lemma types_ok: "list_all (\<lambda>st. is_text st \<or> step_ok st) (types ctx p)"
  using macro_steps_ok by (auto simp: types_def list_all_iff split: Piece.split option.split)

lemma names_of_scan:
  "(\<forall>m \<in> set (scan i s). P (match_name m)) \<longleftrightarrow> (\<forall>p \<in> set (pieces s). \<forall>n. p = Macro n \<longrightarrow> P n)"
proof (induction s arbitrary: i rule: pieces.induct)
  case (1 s)
  show ?case
  proof (cases s)
    case (Cons c cs)
    show ?thesis
    proof (cases "macro_at s")
      case None
      then show ?thesis using 1(1) [OF Cons None] Cons by (simp add: pieces_Cons scan_Cons)
    next
      case (Some nr)
      obtain n r where nr: "nr = (n, r)" by (cases nr)
      then show ?thesis using 1(2) [OF Cons Some nr [symmetric]] Cons Some by (simp add: pieces_Cons scan_Cons)
    qed
  qed simp
qed

text \<open>
  C7. A plan is the script read once from the left. The script is cut, losing and
  adding nothing, into characters and names in braces; each character is typed,
  each server's name is typed as the value the client supplied, each macro does
  what it does, anything else is typed as written; and the plan is refused, with
  the name, exactly when the client has no value for one, the first such name.
\<close>

theorem plan_reads_the_script_once:
  "concat (map written (pieces script)) = script
   \<and> plan script ctx =
      (case find (unanswered ctx) (pieces script) of
         Some p \<Rightarrow> Err (Unanswerable (case p of Macro n \<Rightarrow> n | Plain _ \<Rightarrow> []))
       | None \<Rightarrow> Ok (joined (concat (map (types ctx) (pieces script)))))"
  by (simp add: pieces_written plan_def steps_of_pieces loop_result_def unanswered_in_def joined_def split: option.split)

text \<open>
  A value is typed, never obeyed: whatever the client supplies for the host, the
  password and the other server values, the keys pressed, the combinations and
  the pauses of the plan are the same, in the same order.
\<close>

theorem values_press_no_keys:
  assumes "plan script ctx = Ok steps" and "plan script ctx' = Ok steps'"
  shows "filter (\<lambda>st. \<not> is_text st) steps = filter (\<lambda>st. \<not> is_text st) steps'"
proof -
  have "keys_of (concat (map (types ctx) ps)) = keys_of (concat (map (types ctx') ps))" for ps
    by (induction ps) (simp_all add: keys_of_append keys_of_types [of ctx _ ctx'])
  then have "keys_of steps = keys_of steps'"
    using assms keys_of_joined [of "[]"] by (simp add: plan_Ok joined_def)
  then show ?thesis by (simp add: keys_of_def)
qed

definition demo_ctx :: "string \<Rightarrow> SnippetContext" where
  "demo_ctx pwd = \<lparr>ctx_host = None, ctx_port = None, ctx_user = None, ctx_pwd = Some pwd,
     ctx_id = None, ctx_name = None\<rparr>"

theorem values_press_no_keys_witness:
  "plan ''${pwd}${enter}'' (demo_ctx ''${ctrl+c}'') = Ok [Text ''${ctrl+c}'', Enter 1]
   \<and> filter (\<lambda>st. \<not> is_text st) [Text ''${ctrl+c}'', Enter 1] =
      filter (\<lambda>st. \<not> is_text st) [Text ''x'', Enter 1]"
proof -
  have 1: "plan ''${pwd}${enter}'' (demo_ctx ''${ctrl+c}'') = Ok [Text ''${ctrl+c}'', Enter 1]"
    and 2: "plan ''${pwd}${enter}'' (demo_ctx ''x'') = Ok [Text ''x'', Enter 1]"
    by (code_simp, code_simp)
  show ?thesis using 1 values_press_no_keys [OF 1 2] by blast
qed

text \<open>Scripts the theorems below are tried on, as pieces.\<close>

lemma demo_pieces:
  "pieces ''a${sleep 999}b${enter 70}'' =
     [Plain (CHR ''a''), Macro ''sleep 999'', Plain (CHR ''b''), Macro ''enter 70'']"
  "pieces ''ls ${ENTERPRISE}'' = [Plain (CHR ''l''), Plain (CHR ''s''), Plain (CHR '' ''), Macro ''ENTERPRISE'']"
  "pieces ''ls ${SLEEPY}'' = [Plain (CHR ''l''), Plain (CHR ''s''), Plain (CHR '' ''), Macro ''SLEEPY'']"
  "pieces ''ls ${ALTROOT}'' = [Plain (CHR ''l''), Plain (CHR ''s''), Plain (CHR '' ''), Macro ''ALTROOT'']"
  "pieces ''ls ${PATH}'' = [Plain (CHR ''l''), Plain (CHR ''s''), Plain (CHR '' ''), Macro ''PATH'']"
  by (code_simp, code_simp, code_simp, code_simp, code_simp)

lemma demo_lower:
  "to_lowercase ''sleep 999'' = ''sleep 999''" "to_lowercase ''enter 70'' = ''enter 70''"
  "to_lowercase ''ENTERPRISE'' = ''enterprise''" "to_lowercase ''SLEEPY'' = ''sleepy''"
  "to_lowercase ''ALTROOT'' = ''altroot''" "to_lowercase ''PATH'' = ''path''"
  by (code_simp, code_simp, code_simp, code_simp, code_simp, code_simp)

lemma demo_macros:
  "macro_steps ''sleep 999'' = Some [Sleep 300]" "macro_steps ''enter 70'' = Some [Enter 64]"
  "macro_steps ''ENTERPRISE'' = Some [Enter 1]" "macro_steps ''SLEEPY'' = Some []"
  "macro_steps ''ALTROOT'' = Some []" "macro_steps ''PATH'' = None"
  by (simp_all add: macro_steps_def demo_lower sleep_steps_def enter_steps_def argument_def parse_uint_def
      parse_sint_def parse_digits_def all_digits_def is_ascii_digit_def digits_val_def digit_val_def
      MAX_SLEEP_SECONDS_def MAX_ENTER_def u32_max_def combo_of_def option_list_def)

lemma demo_keys: "n \<notin> set SERVER_KEYS"
  if "n \<in> {''sleep 999'', ''enter 70'', ''ENTERPRISE'', ''SLEEPY'', ''ALTROOT'', ''PATH''}"
  using that by (auto simp: SERVER_KEYS_def)

text \<open>
  Every step of a plan does something and is bounded: no empty text and no two
  texts in a row, between one and 64 Enters, no pause above 300 seconds, and
  exactly one modifier in a combination.
\<close>

theorem plan_steps_bounded:
  assumes "plan script ctx = Ok steps"
  shows "list_all step_ok steps \<and> successively (\<lambda>a b. \<not> (is_text a \<and> is_text b)) steps"
proof -
  have "list_all (\<lambda>st. is_text st \<or> step_ok st) (concat (map (types ctx) ps))" for ps
    by (induction ps) (simp_all add: types_ok)
  then have "steps_ok steps"
    using assms steps_ok_joined [of _ "[]"] by (simp add: plan_Ok joined_def steps_ok_def no_adjacent_text_def)
  then show ?thesis by (simp add: steps_ok_def no_adjacent_text_def)
qed

theorem plan_steps_bounded_witness:
  "plan ''a${sleep 999}b${enter 70}'' (demo_ctx []) = Ok [Text ''a'', Sleep 300, Text ''b'', Enter 64]
   \<and> list_all step_ok [Text ''a'', Sleep 300, Text ''b'', Enter 64]"
proof -
  have 1: "plan ''a${sleep 999}b${enter 70}'' (demo_ctx []) = Ok [Text ''a'', Sleep 300, Text ''b'', Enter 64]"
    by (simp add: plan_Ok unanswered_in_def demo_pieces unanswered_def types_def demo_keys demo_macros
        joined_def join_step_def push_text_def)
  show ?thesis using 1 plan_steps_bounded [OF 1] by blast
qed

text \<open>
  Running a script and typing it agree: a script whose only names are server
  values is typed as one text, the command that is run with the values put in
  (or nothing at all, where that is empty), and it is refused in both forms or
  in neither.
\<close>

theorem running_is_typing:
  assumes "\<forall>m \<in> set (matches script). match_name m \<in> set SERVER_KEYS"
  shows "plan script ctx = (case expand script ctx of Inl e \<Rightarrow> Err e
     | Inr out \<Rightarrow> Ok (if out = [] then [] else [Text out]))"
proof -
  have only: "\<forall>p \<in> set (pieces script). \<forall>n. p = Macro n \<longrightarrow> n \<in> set SERVER_KEYS"
    using assms names_of_scan [of 0 script "\<lambda>n. n \<in> set SERVER_KEYS"] by (simp add: matches_def)
  have "foldl join_step (if t = [] then [] else [Text t]) (concat (map (types ctx) ps)) =
      (if t @ concat (map (expanded ctx) ps) = [] then [] else [Text (t @ concat (map (expanded ctx) ps))])"
    if "\<forall>p \<in> set ps. \<forall>n. p = Macro n \<longrightarrow> n \<in> set SERVER_KEYS" for ps t
    using that
  proof (induction ps arbitrary: t)
    case (Cons p ps)
    have "foldl join_step (if t = [] then [] else [Text t]) (types ctx p) =
        (if t @ expanded ctx p = [] then [] else [Text (t @ expanded ctx p)])"
      using Cons.prems by (cases p) (simp_all add: types_def expanded_def join_step_def push_text_def)
    then show ?case using Cons.IH [of "t @ expanded ctx p"] Cons.prems by simp
  qed simp
  from this [OF only, of "[]"] show ?thesis
    by (simp add: plan_def steps_of_pieces loop_result_def expand_pieces expand_result_def split: option.split)
qed

theorem running_is_typing_witness:
  "plan ''ssh ${pwd}'' (demo_ctx ''x'') = Ok [Text ''ssh x'']"
proof -
  have "\<forall>m \<in> set (matches ''ssh ${pwd}''). match_name m \<in> set SERVER_KEYS" by code_simp
  moreover have "expand ''ssh ${pwd}'' (demo_ctx ''x'') = Ok ''ssh x''" by code_simp
  ultimately show ?thesis using running_is_typing [of "''ssh ${pwd}''" "demo_ctx ''x''"] by simp
qed

text \<open>
  A shell variable whose name begins like a macro's is not typed as written:
  \<open>${ENTERPRISE}\<close> presses Enter, \<open>${SLEEPY}\<close> and \<open>${ALTROOT}\<close> vanish from the line.
\<close>

theorem variable_taken_for_a_macro:
  "plan ''ls ${ENTERPRISE}'' ctx = Ok [Text ''ls '', Enter 1]
   \<and> plan ''ls ${SLEEPY}'' ctx = Ok [Text ''ls ''] \<and> plan ''ls ${ALTROOT}'' ctx = Ok [Text ''ls '']
   \<and> plan ''ls ${PATH}'' ctx = Ok [Text ''ls ${PATH}'']"
  by (simp add: plan_Ok unanswered_in_def demo_pieces unanswered_def types_def demo_keys demo_macros
      joined_def join_step_def push_text_def)

end
