(* ===== verification/Rust_Sort.thy ===== *)
theory Rust_Sort
  imports Main "HOL-Library.Multiset"
begin

text \<open>
  \<open>std::cmp::Ordering\<close> and \<open>slice::sort_by\<close>. The sort is stable; where the comparator is
  the order of a key it is the sort by that key.
\<close>

datatype Ordering = Less | Equal | Greater

definition cmp :: "'a::linorder \<Rightarrow> 'a \<Rightarrow> Ordering" where
  "cmp x y = (if x < y then Less else if x = y then Equal else Greater)"

definition then_cmp :: "Ordering \<Rightarrow> Ordering \<Rightarrow> Ordering" where
  "then_cmp a b = (if a = Equal then b else a)"

fun insert_by :: "('a \<Rightarrow> 'a \<Rightarrow> Ordering) \<Rightarrow> 'a \<Rightarrow> 'a list \<Rightarrow> 'a list" where
  "insert_by f x [] = [x]"
| "insert_by f x (y # ys) = (if f x y = Greater then y # insert_by f x ys else x # y # ys)"

definition sort_by :: "('a \<Rightarrow> 'a \<Rightarrow> Ordering) \<Rightarrow> 'a list \<Rightarrow> 'a list" where
  "sort_by f xs = foldr (insert_by f) xs []"

lemma mset_insert_by [simp]: "mset (insert_by f x ys) = add_mset x (mset ys)"
  by (induction ys) auto

lemma mset_sort_by [simp]: "mset (sort_by f xs) = mset xs"
  by (induction xs) (auto simp: sort_by_def)

lemma set_sort_by [simp]: "set (sort_by f xs) = set xs"
  by (metis mset_sort_by set_mset_mset)

lemma insert_by_desc:
  "sorted_wrt (\<lambda>a b. g a \<ge> g b) ys \<Longrightarrow> sorted_wrt (\<lambda>a b. g a \<ge> g b) (insert_by (\<lambda>a b. cmp (g b) (g a)) x ys)"
  for g :: "'a \<Rightarrow> 'b::linorder"
proof (induction ys)
  case (Cons y ys)
  have "set (insert_by f x zs) = insert x (set zs)" for f zs
    by (metis mset_insert_by set_mset_add_mset_insert set_mset_mset)
  then show ?case using Cons by (auto simp: cmp_def)
qed simp

lemma sort_by_desc: "sorted_wrt (\<lambda>a b. g a \<ge> g b) (sort_by (\<lambda>a b. cmp (g b) (g a)) xs)"
  for g :: "'a \<Rightarrow> 'b::linorder"
  by (induction xs) (auto simp: sort_by_def insert_by_desc)

lemma sort_by_key:
  fixes key :: "'a \<Rightarrow> 'b::linorder"
  assumes "\<And>a b. f a b = Greater \<longleftrightarrow> key b < key a"
  shows "sort_by f xs = sort_key key xs"
proof -
  have "insert_by f x ys = insort_key key x ys" for x ys
    by (induction ys) (auto simp: assms)
  then show ?thesis by (simp add: sort_by_def sort_key_def fun_eq_iff cong: foldr_cong)
qed

end
