(* ===== verification/Kernel.thy ===== *)
theory Kernel
  imports Prelude Rust_Str Rust_Sort "HOL-Library.List_Lexorder" "HOL-Library.Product_Lexorder" "HOL-Library.Char_ord"
begin

text \<open>
  The machine's kernels on Debian and Ubuntu (\<open>crates/sbm_parser/src/kernel.rs\<close>):
  the version order, what the reading command printed as a view, and which
  change the view allows. The root scripts a change becomes are text and are not
  modelled.
\<close>

declare less_char_simp [simp del] less_eq_char_simp [simp del]

section \<open>The version order\<close>

type_synonym Chunk = "bool \<times> string"

function chunks :: "string \<Rightarrow> Chunk list" where
  "chunks s = (case s of [] \<Rightarrow> []
     | c # cs \<Rightarrow> (let d = is_ascii_digit c in
         (d, c # takeWhile (\<lambda>x. is_ascii_digit x = d) cs)
           # chunks (dropWhile (\<lambda>x. is_ascii_digit x = d) cs)))"
  by pat_completeness auto
termination
  by (relation "measure length") (auto simp: less_Suc_eq_le length_dropWhile_le)

declare chunks.simps [simp del]

definition trim_zeros :: "string \<Rightarrow> string" where
  "trim_zeros s = dropWhile (\<lambda>c. c = CHR ''0'') s"

definition tilde :: "string \<Rightarrow> bool" where
  "tilde s \<longleftrightarrow> starts_with ''~'' s"

fun compare_chunk :: "Chunk \<Rightarrow> Chunk \<Rightarrow> Ordering" where
  "compare_chunk (True, x) (True, y) =
     (let x' = trim_zeros x; y' = trim_zeros y in then_cmp (cmp (length x') (length y')) (cmp x' y'))"
| "compare_chunk (_, x) (_, y) = then_cmp (cmp (tilde y) (tilde x)) (cmp x y)"

fun compare_chunks :: "Chunk list \<Rightarrow> Chunk list \<Rightarrow> Ordering" where
  "compare_chunks [] [] = Equal"
| "compare_chunks ((_, x) # _) [] = (if tilde x then Less else Greater)"
| "compare_chunks [] ((_, y) # _) = (if tilde y then Greater else Less)"
| "compare_chunks (p # ps) (q # qs) = then_cmp (compare_chunk p q) (compare_chunks ps qs)"

definition compare_versions :: "string \<Rightarrow> string \<Rightarrow> Ordering" where
  "compare_versions a b = compare_chunks (chunks a) (chunks b)"

section \<open>Names\<close>

definition starts_digit :: "string \<Rightarrow> bool" where
  "starts_digit s \<longleftrightarrow> s \<noteq> [] \<and> is_ascii_digit (hd s)"

definition starts_alphabetic :: "string \<Rightarrow> bool" where
  "starts_alphabetic s \<longleftrightarrow> s \<noteq> [] \<and> (is_ascii_lower (hd s) \<or> is_ascii_upper (hd s))"

definition release_of :: "string \<Rightarrow> string option" where
  "release_of package =
     (case strip_prefix ''linux-image-'' package of None \<Rightarrow> None
      | Some rest \<Rightarrow>
          (let rest1 = unwrap_or rest (strip_prefix ''unsigned-'' rest)
           in if starts_digit rest1 then Some rest1 else None))"

fun flavour_from :: "nat \<Rightarrow> string list \<Rightarrow> string" where
  "flavour_from i [] = []"
| "flavour_from i (p # ps) = (if i > 0 \<and> starts_alphabetic p then join ''-'' (p # ps) else flavour_from (i + 1) ps)"

definition flavour :: "string \<Rightarrow> string" where
  "flavour release = flavour_from 0 (split_on (CHR ''-'') release)"

definition is_series :: "string \<Rightarrow> bool" where
  "is_series package \<longleftrightarrow> starts_with ''linux-image-'' package \<and> release_of package = None
     \<and> \<not> starts_with ''linux-image-uc-'' package \<and> \<not> starts_with ''linux-image-extra-'' package
     \<and> \<not> ends_with ''-dbg'' package \<and> \<not> contains_sub ''-dbgsym'' package"

definition cut_at :: "string \<Rightarrow> string \<Rightarrow> string" where
  "cut_at kind sep = (case find_sub sep kind of None \<Rightarrow> kind | Some i \<Rightarrow> take i kind)"

definition series_kind :: "string \<Rightarrow> string" where
  "series_kind package =
     (let kind = foldl cut_at (unwrap_or package (strip_prefix ''linux-image-'' package)) [''-hwe-'', ''-lts-'', ''-edge'']
      in case rsplit_once (CHR ''-'') kind of
           Some (head, tail) \<Rightarrow>
             if starts_digit tail \<and> list_all (\<lambda>c. is_ascii_digit c \<or> c = CHR ''.'') tail then head else kind
         | None \<Rightarrow> kind)"

definition series_fits :: "string \<Rightarrow> string \<Rightarrow> bool" where
  "series_fits package flav =
     (let kind = series_kind package in
      kind = flav \<or> kind \<in> set [''generic'', ''virtual'', ''lowlatency'', ''realtime'']
      \<or> (flav \<noteq> [] \<and> ends_with (''-'' @ flav) kind))"

definition first_word :: "string \<Rightarrow> string" where
  "first_word s = (case split_whitespace s of [] \<Rightarrow> [] | w # _ \<Rightarrow> w)"

text \<open>\<open>split(sep).nth(1)\<close>: what lies between the first and the second separator.\<close>

definition split_nth1 :: "string \<Rightarrow> string \<Rightarrow> string option" where
  "split_nth1 sep s =
     (case find_sub sep s of None \<Rightarrow> None
      | Some i \<Rightarrow> (let after = drop (i + length sep) s in
          Some (case find_sub sep after of None \<Rightarrow> after | Some j \<Rightarrow> take j after)))"

definition release_in_entry :: "string \<Rightarrow> string option" where
  "release_in_entry entry =
     (let lst = last (split_on (CHR ''>'') entry);
          by_id = (case strip_prefix ''gnulinux-'' lst of None \<Rightarrow> None
            | Some rest \<Rightarrow>
                (case find_sub ''-advanced-'' rest of Some i \<Rightarrow> Some (take i rest)
                 | None \<Rightarrow> map_option (\<lambda>i. take i rest) (find_sub ''-recovery-'' rest)))
      in case by_id of Some r \<Rightarrow> Some r
         | None \<Rightarrow> (case split_nth1 ''with Linux '' lst of None \<Rightarrow> None
             | Some r \<Rightarrow> if first_word r = [] then None else Some (first_word r)))"

section \<open>What the machine printed\<close>

record Kernel =
  kn_release :: string
  kn_package :: string
  kn_version :: string
  kn_running :: bool
  kn_default :: bool
  kn_next :: bool
  kn_needed_by :: "string option"

record Series =
  sr_package :: string
  sr_version :: string
  sr_installed :: "string option"

record Offered =
  of_package :: string
  of_release :: string
  of_version :: string

record KernelView =
  kv_supported :: bool
  kv_running :: string
  kv_installed :: "Kernel list"
  kv_pinned :: "string option"
  kv_series :: "Series list"
  kv_versions :: "Offered list"
  kv_reboot_required :: bool

fun sections_loop :: "string \<Rightarrow> (string, string list) hashmap \<Rightarrow> string list \<Rightarrow> (string, string list) hashmap" where
  "sections_loop current m [] = m"
| "sections_loop current m (line # ls) =
     (case strip_prefix ''### '' line of
        Some name \<Rightarrow> sections_loop (trim name) (hm_modify (trim name) [] (\<lambda>v. v) m) ls
      | None \<Rightarrow>
          if trim line \<noteq> [] then sections_loop current (hm_modify current [] (\<lambda>v. v @ [trim_end line]) m) ls
          else sections_loop current m ls)"

definition sections :: "string \<Rightarrow> (string, string list) hashmap" where
  "sections out = sections_loop [] hm_empty (str_lines out)"

definition get_section :: "string \<Rightarrow> string \<Rightarrow> string list" where
  "get_section out k = unwrap_or [] (hm_get (sections out) k)"

definition first_line :: "string list \<Rightarrow> string option" where
  "first_line ls = (case ls of [] \<Rightarrow> None | l # _ \<Rightarrow> Some l)"

definition REQUIRED_TOOLS :: "string list" where
  "REQUIRED_TOOLS = [''apt-get'', ''dpkg-query'', ''update-grub'', ''grub-set-default'', ''grub-reboot'', ''grub-editenv'']"

definition is_debian :: "string list \<Rightarrow> bool" where
  "is_debian os = list_ex (\<lambda>l. list_ex (\<lambda>w. w = ''debian'' \<or> w = ''ubuntu'') (split_whitespace l)) os"

definition package_line :: "string \<Rightarrow> (string \<times> string \<times> string) option" where
  "package_line line =
     (let f = split_on tab line in
      if length f < 3 \<or> \<not> starts_with ''ii'' (trim (f ! 2)) then None
      else Some (trim (f ! 0), trim (f ! 1), if length f > 3 then f ! 3 else []))"

definition kernel_of :: "string \<Rightarrow> string \<times> string \<times> string \<Rightarrow> Kernel option" where
  "kernel_of running p = (case p of (package, version, _) \<Rightarrow>
     map_option (\<lambda>release. \<lparr>kn_release = release, kn_package = package, kn_version = version,
       kn_running = (release = running), kn_default = False, kn_next = False, kn_needed_by = None\<rparr>)
       (release_of package))"

definition depends_on :: "string \<Rightarrow> string \<Rightarrow> bool" where
  "depends_on deps package =
     list_ex (\<lambda>d. split_whitespace d \<noteq> [] \<and> hd (split_whitespace d) = package)
       (concat (map (split_on (CHR ''|'')) (split_on (CHR '','') deps)))"

definition trim_quotes :: "string \<Rightarrow> string" where
  "trim_quotes s = rev (dropWhile (\<lambda>c. c = CHR 0x22) (rev (dropWhile (\<lambda>c. c = CHR 0x22) s)))"

definition grub_env :: "string list \<Rightarrow> string \<Rightarrow> string option" where
  "grub_env ls k =
     (case find (\<lambda>(key, _). key = k)
        (List.map_filter (\<lambda>l. map_option (\<lambda>(a, b). (trim a, trim b)) (split_once (CHR ''='') l)) ls) of
        None \<Rightarrow> None | Some (_, v) \<Rightarrow> if v = [] then None else Some v)"

definition pinned_entry :: "string \<Rightarrow> (string \<Rightarrow> string option) \<Rightarrow> string option" where
  "pinned_entry grub_default env =
     (if grub_default = ''saved'' then Option.bind (env ''saved_entry'') release_in_entry
      else if grub_default = [] \<or> grub_default = ''0'' then None
      else release_in_entry grub_default)"

definition boots_release :: "string option \<Rightarrow> Kernel list \<Rightarrow> string option" where
  "boots_release pinned kernels =
     (case pinned of
        Some p \<Rightarrow> if list_ex (\<lambda>k. kn_release k = p) kernels then Some p
                  else (case kernels of [] \<Rightarrow> None | k # _ \<Rightarrow> Some (kn_release k))
      | None \<Rightarrow> (case kernels of [] \<Rightarrow> None | k # _ \<Rightarrow> Some (kn_release k)))"

definition archive_line :: "string \<Rightarrow> (string \<times> string) option" where
  "archive_line line =
     (case split_once (CHR ''/'') line of None \<Rightarrow> None
      | Some (name, rest) \<Rightarrow>
          (let ws = split_whitespace rest in if length ws > 1 then Some (name, ws ! 1) else None))"

fun archive_loop ::
  "(string \<times> string \<times> string) list \<Rightarrow> string \<Rightarrow> Kernel list \<Rightarrow> (string \<times> string) list \<Rightarrow> Series list \<Rightarrow> Offered list \<Rightarrow>
     Series list \<times> Offered list" where
  "archive_loop installed_series flav kernels [] series versions = (series, versions)"
| "archive_loop installed_series flav kernels ((name, version) # rest) series versions =
     (if is_series name then
        (let installed = map_option (\<lambda>(_, v, _). v) (find (\<lambda>(p, _, _). p = name) installed_series) in
         archive_loop installed_series flav kernels rest
           (if installed \<noteq> None \<or> series_fits name flav
            then series @ [\<lparr>sr_package = name, sr_version = version, sr_installed = installed\<rparr>] else series)
           versions)
      else (case release_of name of
          Some release \<Rightarrow>
            archive_loop installed_series flav kernels rest series
              (if \<not> starts_with ''linux-image-unsigned-'' name \<and> \<not> ends_with ''-dbg'' name \<and> flav \<noteq> []
                  \<and> flavour release = flav \<and> \<not> list_ex (\<lambda>k. kn_release k = release) kernels
               then versions @ [\<lparr>of_package = name, of_release = release, of_version = version\<rparr>] else versions)
        | None \<Rightarrow> archive_loop installed_series flav kernels rest series versions))"

definition parse :: "string \<Rightarrow> KernelView" where
  "parse out =
     (let get = get_section out;
          running = (case first_line (get ''running'') of None \<Rightarrow> [] | Some r \<Rightarrow> trim r);
          has = (\<lambda>t. list_ex (\<lambda>l. trim l = t) (get ''tools''));
          supported = (is_debian (get ''os'') \<and> list_all has REQUIRED_TOOLS);
          packages = List.map_filter package_line (get ''packages'');
          kernels0 = List.map_filter (kernel_of running) packages;
          installed_series = filter (\<lambda>(p, _, _). release_of p = None) packages;
          kernels1 = map (\<lambda>k. k\<lparr>kn_needed_by :=
              map_option fst (find (\<lambda>(_, _, deps). depends_on deps (kn_package k)) installed_series)\<rparr>) kernels0;
          kernels2 = sort_by (\<lambda>a b. compare_versions (kn_release b) (kn_release a)) kernels1;
          grub_default = (case first_line (get ''grubDefault'') of None \<Rightarrow> [] | Some v \<Rightarrow> trim_quotes (trim v));
          env = grub_env (get ''grubenv'');
          pinned = pinned_entry grub_default env;
          nxt = Option.bind (env ''next_entry'') release_in_entry;
          boots = boots_release pinned kernels2;
          kernels3 = map (\<lambda>k. k\<lparr>kn_default := (boots = Some (kn_release k)), kn_next := (nxt = Some (kn_release k))\<rparr>)
            kernels2;
          (series, versions) = archive_loop installed_series (flavour running) kernels3
            (List.map_filter archive_line (get ''archive'')) [] []
      in \<lparr>kv_supported = supported, kv_running = running, kv_installed = kernels3, kv_pinned = pinned,
          kv_series = sort_by (\<lambda>a b. then_cmp (cmp (sr_installed b \<noteq> None) (sr_installed a \<noteq> None))
            (cmp (sr_package a) (sr_package b))) series,
          kv_versions = sort_by (\<lambda>a b. compare_versions (of_release b) (of_release a)) versions,
          kv_reboot_required = (get ''rebootRequired'' \<noteq> [])\<rparr>)"

section \<open>Changes\<close>

datatype Action = Install string | Remove string | Boot string bool | BootNewest

definition plain_name :: "string \<Rightarrow> bool" where
  "plain_name s \<longleftrightarrow> s \<noteq> [] \<and> length s \<le> 128
     \<and> list_all (\<lambda>c. is_ascii_alphanumeric c \<or> c \<in> set ''._+-~'') s"

definition check :: "KernelView \<Rightarrow> Action \<Rightarrow> (string, unit) result" where
  "check v a =
     (if \<not> kv_supported v then Err ''unsupported''
      else (case a of
          Install package \<Rightarrow>
            if \<not> plain_name package then Err ''invalidPackage''
            else if \<not> (list_ex (\<lambda>s. sr_package s = package) (kv_series v)
                       \<or> list_ex (\<lambda>p. of_package p = package) (kv_versions v)) then Err ''notOffered''
            else if list_ex (\<lambda>k. kn_package k = package) (kv_installed v)
                    \<or> list_ex (\<lambda>s. sr_package s = package \<and> sr_installed s = Some (sr_version s)) (kv_series v)
            then Err ''installed'' else Ok ()
        | Remove release \<Rightarrow>
            (case find (\<lambda>k. kn_release k = release) (kv_installed v) of None \<Rightarrow> Err ''unknownKernel''
             | Some k \<Rightarrow>
                 if kn_running k then Err ''running''
                 else if kn_default k \<or> kn_next k then Err ''booted''
                 else if length (kv_installed v) < 2 then Err ''lastKernel''
                 else if kn_needed_by k \<noteq> None then Err ''neededBySeries'' else Ok ())
        | Boot release _ \<Rightarrow>
            if list_ex (\<lambda>k. kn_release k = release) (kv_installed v) then Ok () else Err ''unknownKernel''
        | BootNewest \<Rightarrow> Ok ()))"

section \<open>The order is the order of a key\<close>

text \<open>
  What a version is compared by: per run a class, a number and a text. A run that
  begins with a tilde comes before the end of the version, and that before any
  other run; a run of digits is its number and stands among the texts where a
  digit would.
\<close>

definition chunk_key :: "Chunk \<Rightarrow> nat \<times> nat \<times> string" where
  "chunk_key p = (case p of (d, x) \<Rightarrow>
     if d then (3, digits_val x, [])
     else if tilde x then (0, 0, x)
     else if hd x < CHR ''0'' then (2, 0, x) else (4, 0, x))"

definition version_key :: "string \<Rightarrow> (nat \<times> nat \<times> string) list" where
  "version_key s = map chunk_key (chunks s) @ [(1, 0, [])]"

definition wf_chunk :: "Chunk \<Rightarrow> bool" where
  "wf_chunk p \<longleftrightarrow> snd p \<noteq> [] \<and> list_all (\<lambda>c. is_ascii_digit c = fst p) (snd p)"

lemma chunks_Nil [simp]: "chunks [] = []"
  by (simp add: chunks.simps)

lemma chunks_Cons:
  "chunks (c # cs) = (is_ascii_digit c, c # takeWhile (\<lambda>x. is_ascii_digit x = is_ascii_digit c) cs)
     # chunks (dropWhile (\<lambda>x. is_ascii_digit x = is_ascii_digit c) cs)"
  by (subst chunks.simps) (simp add: Let_def)

lemma chunks_wf: "list_all wf_chunk (chunks s)"
proof (induction s rule: chunks.induct)
  case (1 s)
  show ?case
  proof (cases s)
    case (Cons c cs)
    have "wf_chunk (is_ascii_digit c, c # takeWhile (\<lambda>x. is_ascii_digit x = is_ascii_digit c) cs)"
      by (auto simp: wf_chunk_def list_all_iff dest: set_takeWhileD)
    then show ?thesis using 1 [OF Cons refl] Cons by (simp add: chunks_Cons)
  qed simp
qed

lemma digits_val_Cons: "digits_val (c # s) = digit_val c * 10 ^ length s + digits_val s"
proof (induction s rule: rev_induct)
  case Nil
  then show ?case by (simp add: digits_val_def)
next
  case (snoc d s)
  have "digits_val ((c # s) @ [d]) = 10 * digits_val (c # s) + digit_val d" by (rule digits_val_snoc)
  then show ?case using snoc by (simp add: digits_val_snoc algebra_simps)
qed

lemma digits_val_Nil [simp]: "digits_val [] = 0"
  by (simp add: digits_val_def)

lemma digits_val_trim: "digits_val (trim_zeros s) = digits_val s"
  by (induction s) (auto simp: trim_zeros_def digits_val_Cons digit_val_def)

lemma trim_zeros_digits: "all_digits s \<Longrightarrow> all_digits (trim_zeros s)"
  by (auto simp: all_digits_def list_all_iff trim_zeros_def dest: set_dropWhileD)

lemma trimmed_lower:
  assumes "all_digits (c # s)" "c \<noteq> CHR ''0''"
  shows "10 ^ length s \<le> digits_val (c # s)"
proof -
  have "code_of c \<noteq> 48" using assms(2) of_char_eq_iff [of c "CHR ''0''"] by simp
  then have "1 \<le> digit_val c" using assms(1) by (auto simp: all_digits_def is_ascii_digit_def digit_val_def)
  then show ?thesis by (simp add: digits_val_Cons trans_le_add1)
qed

lemma char_less_code: "c < d \<longleftrightarrow> code_of c < code_of d" for c d :: char
  by (simp add: less_char_def)

lemma digits_lex:
  "all_digits x \<Longrightarrow> all_digits y \<Longrightarrow> length x = length y \<Longrightarrow>
     (x < y \<longleftrightarrow> digits_val x < digits_val y) \<and> (x = y \<longleftrightarrow> digits_val x = digits_val y)"
proof (induction x arbitrary: y)
  case (Cons c x)
  obtain d z where y: "y = d # z" "length x = length z" using Cons.prems(3) by (cases y) auto
  have x: "digits_val x < 10 ^ length z" and z: "digits_val z < 10 ^ length z"
    using digits_val_less [of x] digits_val_less [of z] Cons.prems y by (auto simp: all_digits_def)
  have cd: "c < d \<longleftrightarrow> digit_val c < digit_val d" "c = d \<longleftrightarrow> digit_val c = digit_val d"
    using Cons.prems y(1) of_char_eq_iff [where 'a = nat, of c d]
    by (auto simp: all_digits_def is_ascii_digit_def digit_val_def char_less_code simp del: of_char_eq_iff)
  have key: "m * b + i < n * b + j" if "m < n" "i < b" for m n i j b :: nat
  proof -
    have "m * b + i < Suc m * b" using that by simp
    also have "\<dots> \<le> n * b" using that by (intro mult_right_mono) auto
    finally show ?thesis by simp
  qed
  have IH: "(x < z \<longleftrightarrow> digits_val x < digits_val z) \<and> (x = z \<longleftrightarrow> digits_val x = digits_val z)"
    using Cons.IH [of z] Cons.prems y by (simp add: all_digits_def)
  show ?case
  proof (cases "digit_val c" "digit_val d" rule: linorder_cases)
    case less
    then show ?thesis
      using key [OF less x, of "digits_val z"] cd y by (simp add: digits_val_Cons)
  next
    case equal
    then show ?thesis using IH cd y by (simp add: digits_val_Cons)
  next
    case greater
    then show ?thesis
      using key [OF greater z, of "digits_val x"] cd y by (simp add: digits_val_Cons)
  qed
qed simp

lemma digits_cmp:
  assumes x: "all_digits x" "x = [] \<or> hd x \<noteq> CHR ''0''" and y: "all_digits y" "y = [] \<or> hd y \<noteq> CHR ''0''"
  shows "then_cmp (cmp (length x) (length y)) (cmp x y) = cmp (digits_val x) (digits_val y)"
proof -
  have longer: "digits_val u < digits_val v"
    if uv: "all_digits u" "all_digits v" "v = [] \<or> hd v \<noteq> CHR ''0''" "length u < length v" for u v
  proof -
    obtain c w where v: "v = c # w" "c \<noteq> CHR ''0''" using uv by (cases v) auto
    have "digits_val u < 10 ^ length u" by (rule digits_val_less [OF uv(1)])
    also have "(10::nat) ^ length u \<le> 10 ^ length w" using uv(4) v by (intro power_increasing) auto
    also have "\<dots> \<le> digits_val v" using trimmed_lower [of c w] uv(2) v by simp
    finally show ?thesis .
  qed
  show ?thesis
  proof (cases "length x" "length y" rule: linorder_cases)
    case less
    then show ?thesis using longer [of x y] x y by (simp add: cmp_def then_cmp_def)
  next
    case equal
    then show ?thesis using digits_lex [OF x(1) y(1)] by (simp add: cmp_def then_cmp_def)
  next
    case greater
    then show ?thesis using longer [of y x] x y by (simp add: cmp_def then_cmp_def)
  qed
qed

lemma trim_zeros_hd: "trim_zeros s = [] \<or> hd (trim_zeros s) \<noteq> CHR ''0''"
  by (induction s) (auto simp: trim_zeros_def)

lemma hd_less: "x \<noteq> [] \<Longrightarrow> y \<noteq> [] \<Longrightarrow> hd x < hd y \<Longrightarrow> x < y" for x y :: string
  by (cases x; cases y) auto

lemma tilde_iff: "tilde x \<longleftrightarrow> x \<noteq> [] \<and> hd x = CHR ''~''"
  by (simp add: tilde_def)

lemma wf_digits: "wf_chunk (True, x) \<longleftrightarrow> x \<noteq> [] \<and> all_digits x"
  by (simp add: wf_chunk_def all_digits_def)

lemma wf_chunk_hd: "wf_chunk (d, x) \<Longrightarrow> x \<noteq> [] \<and> is_ascii_digit (hd x) = d"
  by (cases x) (auto simp: wf_chunk_def)

lemma digit_position:
  "is_ascii_digit c \<Longrightarrow> \<not> c < CHR ''0'' \<and> c \<noteq> CHR ''~''"
  "\<not> is_ascii_digit c \<Longrightarrow> is_ascii_digit e \<Longrightarrow> (c < CHR ''0'' \<longrightarrow> c < e) \<and> (\<not> c < CHR ''0'' \<longrightarrow> e < c)"
  by (auto simp: is_ascii_digit_def char_less_code)

lemma compare_chunk_key:
  assumes "wf_chunk p" "wf_chunk q"
  shows "compare_chunk p q = cmp (chunk_key p) (chunk_key q)"
proof -
  obtain d x e y where p: "p = (d, x)" and q: "q = (e, y)" by (cases p; cases q)
  have x: "x \<noteq> []" "is_ascii_digit (hd x) = d" and y: "y \<noteq> []" "is_ascii_digit (hd y) = e"
    using assms wf_chunk_hd by (simp_all add: p q)
  consider "d" "e" | "d" "\<not> e" | "\<not> d" "e" | "\<not> d" "\<not> e" by blast
  then show ?thesis
  proof cases
    case 1
    then show ?thesis
      using assms digits_cmp [of "trim_zeros x" "trim_zeros y"] trim_zeros_digits trim_zeros_hd
      by (simp add: p q chunk_key_def wf_digits Let_def digits_val_trim cmp_def)
  next
    case 2
    then have "\<not> tilde x" "hd y < CHR ''0'' \<longrightarrow> y < x" "\<not> hd y < CHR ''0'' \<longrightarrow> x < y"
      using x y digit_position [of "hd x"] digit_position(2) [of "hd y" "hd x"] hd_less by (auto simp: tilde_iff)
    then show ?thesis using 2 by (auto simp: p q chunk_key_def cmp_def then_cmp_def)
  next
    case 3
    then have "\<not> tilde y" "hd x < CHR ''0'' \<longrightarrow> x < y" "\<not> hd x < CHR ''0'' \<longrightarrow> y < x"
      using x y digit_position [of "hd y"] digit_position(2) [of "hd x" "hd y"] hd_less by (auto simp: tilde_iff)
    then show ?thesis using 3 by (auto simp: p q chunk_key_def cmp_def then_cmp_def)
  next
    case 4
    have "x < y" if "hd x < CHR ''0''" "\<not> hd y < CHR ''0''" using that hd_less x y by (metis leI order_less_le_trans)
    moreover have "y < x" if "hd y < CHR ''0''" "\<not> hd x < CHR ''0''" using that hd_less x y by (metis leI order_less_le_trans)
    ultimately show ?thesis using 4 by (auto simp: p q chunk_key_def cmp_def then_cmp_def)
  qed
qed

lemma cmp_Cons: "cmp (a # as) (b # bs) = then_cmp (cmp a b) (cmp as bs)"
  by (auto simp: cmp_def then_cmp_def)

lemma chunk_key_end: "wf_chunk p \<Longrightarrow> cmp (chunk_key p) (1, 0, []) = (if tilde (snd p) then Less else Greater)
    \<and> cmp (1, 0, []) (chunk_key p) = (if tilde (snd p) then Greater else Less)"
  using wf_chunk_hd [of "fst p" "snd p"] digit_position(1) [of "hd (snd p)"]
  by (cases p) (auto simp: chunk_key_def cmp_def tilde_iff)

lemma compare_chunks_key:
  "list_all wf_chunk ps \<Longrightarrow> list_all wf_chunk qs \<Longrightarrow>
     compare_chunks ps qs = cmp (map chunk_key ps @ [(1, 0, [])]) (map chunk_key qs @ [(1, 0, [])])"
proof (induction ps qs rule: compare_chunks.induct)
  case (2 d x ps)
  then show ?case using chunk_key_end [of "(d, x)"] by (simp add: cmp_Cons then_cmp_def)
next
  case (3 d y qs)
  then show ?case using chunk_key_end [of "(d, y)"] by (simp add: cmp_Cons then_cmp_def)
next
  case (4 p ps q qs)
  then show ?case by (simp add: cmp_Cons compare_chunk_key)
qed (simp add: cmp_def)

lemma compare_versions_key: "compare_versions a b = cmp (version_key a) (version_key b)"
  unfolding compare_versions_def version_key_def by (rule compare_chunks_key [OF chunks_wf chunks_wf])

section \<open>What a view says\<close>

definition kernels_of :: "string \<Rightarrow> Kernel list" where
  "kernels_of out = sort_by (\<lambda>a b. compare_versions (kn_release b) (kn_release a))
     (let packages = List.map_filter package_line (get_section out ''packages'');
          running = (case first_line (get_section out ''running'') of None \<Rightarrow> [] | Some r \<Rightarrow> trim r) in
      map (\<lambda>k. k\<lparr>kn_needed_by := map_option fst (find (\<lambda>(_, _, deps). depends_on deps (kn_package k))
            (filter (\<lambda>(p, _, _). release_of p = None) packages))\<rparr>)
        (List.map_filter (kernel_of running) packages))"

definition next_of :: "string \<Rightarrow> string option" where
  "next_of out = Option.bind (grub_env (get_section out ''grubenv'') ''next_entry'') release_in_entry"

lemma parse_installed:
  "kv_installed (parse out) =
     map (\<lambda>k. k\<lparr>kn_default := (boots_release (kv_pinned (parse out)) (kernels_of out) = Some (kn_release k)),
                kn_next := (next_of out = Some (kn_release k))\<rparr>) (kernels_of out)"
  by (simp add: parse_def Let_def kernels_of_def next_of_def split_def)

lemma parse_running: "kv_running (parse out) =
    (case first_line (get_section out ''running'') of None \<Rightarrow> [] | Some r \<Rightarrow> trim r)"
  by (simp add: parse_def Let_def split_def)

lemma kernels_running: "k \<in> set (kernels_of out) \<Longrightarrow> kn_running k \<longleftrightarrow> kn_release k = kv_running (parse out)"
  by (auto simp: kernels_of_def kernel_of_def List.map_filter_def parse_running Let_def split: option.splits)

lemma installed_flags:
  assumes "k \<in> set (kv_installed (parse out))"
  shows "kn_running k \<longleftrightarrow> kn_release k = kv_running (parse out)"
    and "kn_default k \<longleftrightarrow> boots_release (kv_pinned (parse out)) (kernels_of out) = Some (kn_release k)"
    and "kn_next k \<longleftrightarrow> next_of out = Some (kn_release k)"
  using assms kernels_running by (auto simp: parse_installed)


definition newest_first :: "Kernel list \<Rightarrow> bool" where
  "newest_first ks \<longleftrightarrow> sorted_wrt (\<lambda>a b. version_key (kn_release a) \<ge> version_key (kn_release b)) ks"

lemma kernels_newest_first: "newest_first (kernels_of out)"
  unfolding newest_first_def kernels_of_def compare_versions_key by (rule sort_by_desc)

lemma installed_newest_first: "newest_first (kv_installed (parse out))"
  using kernels_newest_first [of out] by (simp add: newest_first_def parse_installed sorted_wrt_map)

definition two_kernels :: string where
  "two_kernels = join [nl]
     [''### running'', ''6.1-8-generic'', ''### os'', ''ubuntu'', ''### tools'', ''apt-get'', ''dpkg-query'',
      ''update-grub'', ''grub-set-default'', ''grub-reboot'', ''grub-editenv'', ''### packages'',
      ''linux-image-6.1-9-generic'' @ [tab] @ ''6.1-9'' @ [tab] @ ''ii '',
      ''linux-image-6.1-8-generic'' @ [tab] @ ''6.1-8'' @ [tab] @ ''ii '',
      ''linux-image-6.1-10-generic'' @ [tab] @ ''6.1-10'' @ [tab] @ ''ii '']"

lemma two_kernels_sections:
  "get_section two_kernels ''running'' = [''6.1-8-generic'']"
  "get_section two_kernels ''os'' = [''ubuntu'']"
  "get_section two_kernels ''tools'' = REQUIRED_TOOLS"
  "get_section two_kernels ''packages'' =
     [''linux-image-6.1-9-generic'' @ [tab] @ ''6.1-9'' @ [tab] @ ''ii'',
      ''linux-image-6.1-8-generic'' @ [tab] @ ''6.1-8'' @ [tab] @ ''ii'',
      ''linux-image-6.1-10-generic'' @ [tab] @ ''6.1-10'' @ [tab] @ ''ii'']"
  "get_section two_kernels ''grubDefault'' = []"
  "get_section two_kernels ''grubenv'' = []"
  by code_simp+

definition a_kernel :: "string \<Rightarrow> bool \<Rightarrow> bool \<Rightarrow> Kernel" where
  "a_kernel v running dflt = \<lparr>kn_release = v @ ''-generic'', kn_package = ''linux-image-'' @ v @ ''-generic'',
     kn_version = v, kn_running = running, kn_default = dflt, kn_next = False, kn_needed_by = None\<rparr>"

lemma two_kernels_list: "kernels_of two_kernels =
    [a_kernel ''6.1-10'' False False, a_kernel ''6.1-9'' False False, a_kernel ''6.1-8'' True False]"
  unfolding kernels_of_def two_kernels_sections by code_simp


lemma two_kernels_pinned: "kv_pinned (parse two_kernels) = None"
  by (simp add: parse_def Let_def split_def two_kernels_sections pinned_entry_def first_line_def)

lemma two_kernels_installed: "kv_installed (parse two_kernels) =
    [a_kernel ''6.1-10'' False True, a_kernel ''6.1-9'' False False, a_kernel ''6.1-8'' True False]"
proof -
  have "next_of two_kernels = None"
    by (simp add: next_of_def two_kernels_sections grub_env_def List.map_filter_def)
  then show ?thesis
    by (simp add: parse_installed two_kernels_pinned two_kernels_list boots_release_def a_kernel_def)
qed


text \<open>
  Versions are compared by a total order: comparing two of them is comparing
  their keys, so the order is antisymmetric and transitive, sorting by it has one
  result, and equal means equal up to leading zeros of the numbers.
\<close>

theorem version_order_is_linear:
  "compare_versions a b =
     (if version_key a < version_key b then Less else if version_key a = version_key b then Equal else Greater)"
  by (simp add: compare_versions_key cmp_def)





text \<open>
  The installed kernels are listed newest first, none lost; and where GRUB has
  no entry pinned, or pins one that is not installed, the kernel said to boot by
  default is a newest one.
\<close>

theorem installed_are_newest_first:
  assumes "k \<in> set (kv_installed (parse out))" "kn_default k"
    and "kv_pinned (parse out) = None \<or> (\<exists>p. kv_pinned (parse out) = Some p
      \<and> (\<forall>j \<in> set (kv_installed (parse out)). kn_release j \<noteq> p))"
    and "j \<in> set (kv_installed (parse out))"
  shows "newest_first (kv_installed (parse out)) \<and> compare_versions (kn_release j) (kn_release k) \<noteq> Greater"
proof -
  have "boots_release (kv_pinned (parse out)) (kernels_of out) = Some (kn_release k)"
    using installed_flags(2) [OF assms(1)] assms(2) by simp
  moreover have "\<not> list_ex (\<lambda>k. kn_release k = p) (kernels_of out)" if "kv_pinned (parse out) = Some p" for p
    using assms(3) that by (auto simp: parse_installed list_ex_iff)
  ultimately obtain h ks where "kernels_of out = h # ks" "kn_release h = kn_release k"
    by (auto simp: boots_release_def split: option.splits list.splits if_splits)
  moreover obtain j' where "j' \<in> set (kernels_of out)" "kn_release j' = kn_release j"
    using assms(4) by (auto simp: parse_installed)
  ultimately have "version_key (kn_release j) \<le> version_key (kn_release k)"
    using kernels_newest_first [of out] by (auto simp: newest_first_def)
  then show ?thesis using installed_newest_first by (auto simp: compare_versions_key cmp_def)
qed

lemma installed_are_newest_first_witness:
  "newest_first (kv_installed (parse two_kernels)) \<and> compare_versions ''6.1-8-generic'' ''6.1-10-generic'' \<noteq> Greater"
  using installed_are_newest_first [of "a_kernel ''6.1-10'' False True" two_kernels "a_kernel ''6.1-8'' True False"]
  by (simp add: two_kernels_installed two_kernels_pinned a_kernel_def)

text \<open>
  A numbered default is not followed. The comment on the code says a number
  other than 0 names an entry; whatever number GRUB's default is, the view says
  nothing is pinned, so the newest kernel counts as the one that boots, the one
  GRUB would really boot is not said to, and \<open>check\<close> lets it be removed.
\<close>

theorem numbered_default_is_not_followed:
  "pinned_entry ''2'' env = None \<and> pinned_entry ''1>2'' env = None
   \<and> boots_release (pinned_entry ''1>2'' env) (k # ks) = Some (kn_release k)
   \<and> check \<lparr>kv_supported = True, kv_running = ''6.1-10-generic'',
        kv_installed = [a_kernel ''6.1-10'' True (boots_release (pinned_entry ''1>2'' env)
             [a_kernel ''6.1-10'' True False, a_kernel ''6.1-9'' False False] = Some ''6.1-10-generic''),
           a_kernel ''6.1-9'' False (boots_release (pinned_entry ''1>2'' env)
             [a_kernel ''6.1-10'' True False, a_kernel ''6.1-9'' False False] = Some ''6.1-9-generic'')],
        kv_pinned = pinned_entry ''1>2'' env, kv_series = [], kv_versions = [], kv_reboot_required = False\<rparr>
       (Remove ''6.1-9-generic'') = Ok ()"
proof -
  have "release_in_entry ''2'' = None" "release_in_entry ''1>2'' = None" by code_simp+
  then have "pinned_entry ''2'' env = None" "pinned_entry ''1>2'' env = None" by (simp_all add: pinned_entry_def)
  then show ?thesis by (simp add: boots_release_def check_def a_kernel_def)
qed

end
