(* ===== verification/Shell.thy ===== *)
theory Shell
  imports Rust_Str
begin

text \<open>
  Quoting a word for \<open>sh\<close> and for PowerShell (\<open>shell_quote_unix\<close> and
  \<open>shell_quote_ps\<close> of \<open>crates/sbm_parser/src/script.rs\<close>), and the part of the
  POSIX shell's token recognition that says which words a command line made of
  such quotations has. Everything that \<open>sh\<close> would expand, substitute or end the
  command at makes the reading fail, so a line that is read at all is a plain
  list of words.
\<close>

definition shell_quote_unix :: "string \<Rightarrow> string" where
  "shell_quote_unix s = [CHR 0x27] @ replace_char (CHR 0x27) [CHR 0x27, CHR 0x5C, CHR 0x27, CHR 0x27] s @ [CHR 0x27]"

definition shell_quote_ps :: "string \<Rightarrow> string" where
  "shell_quote_ps s = [CHR 0x27] @ replace_char (CHR 0x27) [CHR 0x27, CHR 0x27] s @ [CHR 0x27]"

text \<open>The script that writes a file of ServerBox's and puts the old one back if it is refused.\<close>

definition replace_file_script :: "string \<Rightarrow> string \<Rightarrow> string \<Rightarrow> string \<Rightarrow> nat \<Rightarrow> string" where
  "replace_file_script file content check tag refused =
     ''set -e; f='' @ shell_quote_unix file
     @ ''; mkdir -p '' @ [CHR 0x22] @ ''$(dirname '' @ [CHR 0x22] @ ''$f'' @ [CHR 0x22] @ '')'' @ [CHR 0x22]
     @ ''; [ -f '' @ [CHR 0x22] @ ''$f'' @ [CHR 0x22] @ '' ] && cp '' @ [CHR 0x22] @ ''$f'' @ [CHR 0x22]
     @ '' '' @ [CHR 0x22] @ ''$f.sbm-bak'' @ [CHR 0x22] @ '' || rm -f '' @ [CHR 0x22] @ ''$f.sbm-bak'' @ [CHR 0x22]
     @ ''; cat > '' @ [CHR 0x22] @ ''$f.new'' @ [CHR 0x22] @ '' <<'' @ [CHR 0x27] @ tag @ [CHR 0x27] @ [nl] @ content @ tag @ [nl]
     @ ''chmod 644 '' @ [CHR 0x22] @ ''$f.new'' @ [CHR 0x22] @ ''; mv '' @ [CHR 0x22] @ ''$f.new'' @ [CHR 0x22]
     @ '' '' @ [CHR 0x22] @ ''$f'' @ [CHR 0x22] @ ''; if ! { '' @ check @ ''; }; then if [ -f '' @ [CHR 0x22]
     @ ''$f.sbm-bak'' @ [CHR 0x22] @ '' ]; then mv '' @ [CHR 0x22] @ ''$f.sbm-bak'' @ [CHR 0x22] @ '' '' @ [CHR 0x22]
     @ ''$f'' @ [CHR 0x22] @ ''; else rm -f '' @ [CHR 0x22] @ ''$f'' @ [CHR 0x22] @ ''; fi; echo '' @ [CHR 0x27]
     @ ''the new configuration was refused; the previous one is back'' @ [CHR 0x27]
     @ '' >&2; exit '' @ show_nat refused @ ''; fi''"

section \<open>The words of a command line\<close>

text \<open>Characters that stand for themselves anywhere in an unquoted word.\<close>

definition sh_plain :: "char \<Rightarrow> bool" where
  "sh_plain c \<longleftrightarrow> is_ascii_alphanumeric c \<or> c \<in> set ''_-./:,+@%''"

definition word_so_far :: "string option \<Rightarrow> string" where
  "word_so_far w = (case w of None \<Rightarrow> [] | Some s \<Rightarrow> s)"

text \<open>
  The flag says whether the scan is between single quotes; the word so far is
  \<open>None\<close> between words, so that \<open>''\<close> is an empty word and two blanks are not.
\<close>

fun sh_scan :: "bool \<Rightarrow> string option \<Rightarrow> string \<Rightarrow> string list option" where
  "sh_scan True w [] = None"
| "sh_scan False w [] = Some (case w of None \<Rightarrow> [] | Some s \<Rightarrow> [s])"
| "sh_scan True w (c # cs) =
     (if c = CHR 0x27 then sh_scan False w cs else sh_scan True (Some (word_so_far w @ [c])) cs)"
| "sh_scan False w (c # cs) =
     (if c = CHR '' '' then (case w of None \<Rightarrow> sh_scan False None cs
                             | Some s \<Rightarrow> map_option ((#) s) (sh_scan False None cs))
      else if c = CHR 0x27 then sh_scan True (Some (word_so_far w)) cs
      else if c = CHR 0x5C then
        (case cs of [] \<Rightarrow> None
         | d # ds \<Rightarrow> if d = nl then None else sh_scan False (Some (word_so_far w @ [d])) ds)
      else if sh_plain c then sh_scan False (Some (word_so_far w @ [c])) cs
      else None)"

definition sh_words :: "string \<Rightarrow> string list option" where
  "sh_words s = sh_scan False None s"

section \<open>Quoted and plain words are read back\<close>

lemma sh_scan_body:
  "sh_scan True (Some acc) (replace_char (CHR 0x27) [CHR 0x27, CHR 0x5C, CHR 0x27, CHR 0x27] s @ t) =
     sh_scan True (Some (acc @ s)) t"
proof (induction s arbitrary: acc)
  case (Cons c s)
  then show ?case by (simp add: replace_char_def word_so_far_def nl_def)
qed (simp add: replace_char_def)

lemma sh_scan_quote:
  "sh_scan False w (shell_quote_unix s @ t) = sh_scan False (Some (word_so_far w @ s)) t"
  using sh_scan_body [of "word_so_far w" s "CHR 0x27 # t"]
  by (simp add: shell_quote_unix_def)

definition plain_word :: "string \<Rightarrow> bool" where
  "plain_word s \<longleftrightarrow> s \<noteq> [] \<and> list_all sh_plain s"

lemma sh_plain_neq: "sh_plain c \<Longrightarrow> c \<noteq> CHR '' '' \<and> c \<noteq> CHR 0x27 \<and> c \<noteq> CHR 0x5C"
  by (auto simp: sh_plain_def is_ascii_alphanumeric_def is_ascii_digit_def is_ascii_lower_def is_ascii_upper_def)

lemma sh_scan_plain:
  "list_all sh_plain s \<Longrightarrow> s \<noteq> [] \<or> w \<noteq> None \<Longrightarrow>
   sh_scan False w (s @ t) = sh_scan False (Some (word_so_far w @ s)) t"
proof (induction s arbitrary: w)
  case Nil
  then show ?case by (auto simp: word_so_far_def)
next
  case (Cons c s)
  then show ?case using sh_plain_neq [of c] by (simp add: word_so_far_def)
qed

text \<open>
  \<open>spells t s\<close>: the text \<open>t\<close> is one way the sources write the word \<open>s\<close>, as it
  is when nothing in it needs quoting, or quoted.
\<close>

definition spells :: "string \<Rightarrow> string \<Rightarrow> bool" where
  "spells t s \<longleftrightarrow> (t = s \<and> plain_word s) \<or> t = shell_quote_unix s"

lemma spells_plain: "plain_word s \<Longrightarrow> spells s s"
  by (simp add: spells_def)

lemma spells_quote: "spells (shell_quote_unix s) s"
  by (simp add: spells_def)

lemma sh_scan_spells: "spells t s \<Longrightarrow> sh_scan False None (t @ u) = sh_scan False (Some s) u"
  using sh_scan_quote [of None s u] sh_scan_plain [of s None u]
  by (auto simp: spells_def plain_word_def word_so_far_def)

lemma sh_words_join:
  "list_all2 spells ts ss \<Longrightarrow> sh_words (join '' '' ts) = Some ss"
  unfolding sh_words_def
proof (induction rule: list_all2_induct)
  case (Cons t ts s ss)
  then show ?case
    using sh_scan_spells [OF Cons(1), of "'' '' @ join '' '' ts"] sh_scan_spells [OF Cons(1), of "[]"]
    by (cases ts) auto
qed simp

lemma sh_words_quoted: "sh_words (join '' '' (map shell_quote_unix ss)) = Some ss"
  by (rule sh_words_join) (simp add: list_all2_conv_all_nth spells_quote)

section \<open>Here-documents\<close>

definition dq :: "string \<Rightarrow> string" where
  "dq s = [CHR 0x22] @ s @ [CHR 0x22]"

definition sq :: "string \<Rightarrow> string" where
  "sq s = [CHR 0x27] @ s @ [CHR 0x27]"

text \<open>
  What \<open>sh\<close> hands over of a here-document whose tag is quoted: the lines after the
  first one that ends in \<open><<'tag'\<close>, up to the first that is the tag.
\<close>

definition unlines :: "string list \<Rightarrow> string" where
  "unlines ls = concat (map (\<lambda>l. l @ [nl]) ls)"

definition here_document :: "string \<Rightarrow> string \<Rightarrow> string option" where
  "here_document tag script =
     (case dropWhile (\<lambda>l. \<not> ends_with (''<<'' @ sq tag) l) (split_on nl script) of [] \<Rightarrow> None
      | _ # body \<Rightarrow> if tag \<in> set body then Some (unlines (takeWhile (\<lambda>l. l \<noteq> tag) body)) else None)"

lemma unlines_Nil [simp]: "unlines [] = []"
  by (simp add: unlines_def)

lemma unlines_Cons [simp]: "unlines (l # ls) = l @ nl # unlines ls"
  by (simp add: unlines_def)

lemma unlines_append [simp]: "unlines (a @ b) = unlines a @ unlines b"
  by (simp add: unlines_def)

lemma split_on_unlines:
  "(\<forall>l \<in> set ls. nl \<notin> set l) \<Longrightarrow> split_on nl (unlines ls @ s) = ls @ split_on nl s"
  by (induction ls) (simp_all add: split_on_append)

lemma str_lines_unlines:
  assumes "\<forall>l \<in> set ls. nl \<notin> set l \<and> cr \<notin> set l"
  shows "str_lines (unlines ls) = ls"
proof -
  have "map strip_cr ls = ls" using assms by (intro map_idI) (auto simp: strip_cr_def dest: last_in_set)
  moreover have "split_on nl (unlines ls) = ls @ [[]]" using split_on_unlines [of ls "[]"] assms by simp
  ultimately show ?thesis by (simp add: str_lines_def)
qed

lemma here_document_body:
  assumes "\<forall>l \<in> set leads. nl \<notin> set l \<and> \<not> ends_with (''<<'' @ sq tag) l"
    and "nl \<notin> set pre" and "\<forall>l \<in> set ls. nl \<notin> set l \<and> l \<noteq> tag" and "nl \<notin> set tag"
    and "rest = [] \<or> hd rest = nl"
  shows "here_document tag (unlines leads @ pre @ ''<<'' @ sq tag @ [nl] @ unlines ls @ tag @ rest) = Some (unlines ls)"
proof -
  let ?first = "pre @ ''<<'' @ sq tag" and ?after = "split_on nl (unlines ls @ tag @ rest)"
  have first: "nl \<notin> set ?first" using assms(2,4) by (simp add: sq_def nl_def)
  have "split_on nl (unlines leads @ ?first @ nl # unlines ls @ tag @ rest) = leads @ ?first # ?after"
  proof -
    have "\<forall>l \<in> set leads. nl \<notin> set l" using assms(1) by blast
    then show ?thesis by (simp only: split_on_unlines split_on_append [OF first])
  qed
  moreover have "dropWhile (\<lambda>l. \<not> ends_with (''<<'' @ sq tag) l) (leads @ ?first # ?after) = ?first # ?after"
    using assms(1) by (simp add: dropWhile_append ends_with_def strip_suffix_Some_iff)
  moreover have "takeWhile (\<lambda>l. l \<noteq> tag) ?after = ls \<and> tag \<in> set ?after"
  proof -
    have "split_on nl (tag @ rest) = tag # (if rest = [] then [] else split_on nl (tl rest))"
      using assms(4,5) by (cases rest) (auto simp: split_on_no_sep split_on_append)
    then have "?after = ls @ tag # (if rest = [] then [] else split_on nl (tl rest))"
      using assms(3) by (simp add: split_on_unlines)
    then show ?thesis using assms(3) by (auto simp: takeWhile_append)
  qed
  ultimately show ?thesis by (simp add: here_document_def)
qed

end
