(* ===== verification/Utf8.thy ===== *)
theory Utf8
  imports Rust_Str
begin

text \<open>
  \<open>String::from_utf8_lossy\<close>: bytes to Unicode scalar values, every maximal part
  that no scalar value's encoding starts with read as U+FFFD; and the encoding
  itself, to say what decoding undoes.
\<close>

definition is_cont :: "nat \<Rightarrow> bool" where
  "is_cont b \<longleftrightarrow> 128 \<le> b \<and> b \<le> 191"

definition scalar :: "nat \<Rightarrow> bool" where
  "scalar c \<longleftrightarrow> c < 55296 \<or> (57344 \<le> c \<and> c < 1114112)"

definition utf8 :: "nat \<Rightarrow> nat list" where
  "utf8 c =
     (if c < 128 then [c]
      else if c < 2048 then [192 + c div 64, 128 + c mod 64]
      else if c < 65536 then [224 + c div 4096, 128 + c div 64 mod 64, 128 + c mod 64]
      else [240 + c div 262144, 128 + c div 4096 mod 64, 128 + c div 64 mod 64, 128 + c mod 64])"

text \<open>The second byte a three- or four-byte sequence may have, by its first.\<close>

definition second3 :: "nat \<Rightarrow> nat \<Rightarrow> bool" where
  "second3 b c \<longleftrightarrow> is_cont c \<and> (b = 224 \<longrightarrow> 160 \<le> c) \<and> (b = 237 \<longrightarrow> c \<le> 159)"

definition second4 :: "nat \<Rightarrow> nat \<Rightarrow> bool" where
  "second4 b c \<longleftrightarrow> is_cont c \<and> (b = 240 \<longrightarrow> 144 \<le> c) \<and> (b = 244 \<longrightarrow> c \<le> 143)"

text \<open>One step: the scalar value and how many bytes past the first it took.\<close>

fun utf8_step :: "nat \<Rightarrow> nat list \<Rightarrow> nat \<times> nat" where
  "utf8_step b rest =
     (if b < 128 then (b, 0)
      else if 194 \<le> b \<and> b \<le> 223 then
        (case rest of c # _ \<Rightarrow> if is_cont c then ((b - 192) * 64 + (c - 128), 1) else (65533, 0)
         | [] \<Rightarrow> (65533, 0))
      else if 224 \<le> b \<and> b \<le> 239 then
        (case rest of c # more \<Rightarrow>
           if second3 b c then
             (case more of d # _ \<Rightarrow>
                if is_cont d then ((b - 224) * 4096 + (c - 128) * 64 + (d - 128), 2) else (65533, 1)
              | [] \<Rightarrow> (65533, 1))
           else (65533, 0)
         | [] \<Rightarrow> (65533, 0))
      else if 240 \<le> b \<and> b \<le> 244 then
        (case rest of c # more \<Rightarrow>
           if second4 b c then
             (case more of d # more' \<Rightarrow>
                if is_cont d then
                  (case more' of e # _ \<Rightarrow>
                     if is_cont e
                     then ((b - 240) * 262144 + (c - 128) * 4096 + (d - 128) * 64 + (e - 128), 3)
                     else (65533, 2)
                   | [] \<Rightarrow> (65533, 2))
                else (65533, 1)
              | [] \<Rightarrow> (65533, 1))
           else (65533, 0)
         | [] \<Rightarrow> (65533, 0))
      else (65533, 0))"

declare utf8_step.simps [simp del]

function from_utf8_lossy :: "nat list \<Rightarrow> nat list" where
  "from_utf8_lossy [] = []"
| "from_utf8_lossy (b # rest) =
     (case utf8_step b rest of (c, n) \<Rightarrow> c # from_utf8_lossy (drop n rest))"
  by pat_completeness auto
termination
  by (relation "measure length") (auto simp: less_Suc_eq_le)

lemma utf8_step_utf8:
  assumes "scalar c"
  shows "utf8_step (hd (utf8 c)) (tl (utf8 c) @ rest) = (c, length (utf8 c) - 1)"
proof -
  have m: "c mod 64 < 64" "c div 64 mod 64 < 64" "c div 4096 mod 64 < 64" by simp_all
  have d2: "c div 64 * 64 + c mod 64 = c" by simp
  have e1: "c div 64 = c div 4096 * 64 + c div 64 mod 64"
    using div_mult_mod_eq [of "c div 64" 64] by (simp add: div_mult2_eq [symmetric])
  have e2: "c div 4096 = c div 262144 * 64 + c div 4096 mod 64"
    using div_mult_mod_eq [of "c div 4096" 64] by (simp add: div_mult2_eq [symmetric])
  have d3: "c div 4096 * 4096 + c div 64 mod 64 * 64 + c mod 64 = c" using e1 d2 by linarith
  have d4: "c div 262144 * 262144 + c div 4096 mod 64 * 4096 + c div 64 mod 64 * 64 + c mod 64 = c"
    using e2 d3 by linarith
  consider "c < 128" | "128 \<le> c" "c < 2048" | "2048 \<le> c" "c < 65536" | "65536 \<le> c" by linarith
  then show ?thesis
  proof cases
    case 1
    then show ?thesis by (simp add: utf8_def utf8_step.simps)
  next
    case 2
    have "utf8 c = [192 + c div 64, 128 + c mod 64]" using 2 by (simp add: utf8_def)
    moreover have "194 \<le> 192 + c div 64 \<and> 192 + c div 64 \<le> 223" using 2 by linarith
    moreover have "is_cont (128 + c mod 64)" using m(1) unfolding is_cont_def by linarith
    ultimately show ?thesis using d2 by (simp add: utf8_step.simps)
  next
    case 3
    then have b: "c div 4096 \<le> 15" by linarith
    have "second3 (224 + c div 4096) (128 + c div 64 mod 64)"
      using assms m 3 d3 unfolding second3_def is_cont_def scalar_def by linarith
    moreover have "utf8 c = [224 + c div 4096, 128 + c div 64 mod 64, 128 + c mod 64]" using 3 by (simp add: utf8_def)
    moreover have "is_cont (128 + c mod 64)" using m(1) unfolding is_cont_def by linarith
    ultimately show ?thesis using d3 b by (simp add: utf8_step.simps)
  next
    case 4
    then have b: "c div 262144 \<le> 4" using assms unfolding scalar_def by linarith
    have "second4 (240 + c div 262144) (128 + c div 4096 mod 64)"
      using assms m 4 d4 unfolding second4_def is_cont_def scalar_def by linarith
    moreover have "utf8 c = [240 + c div 262144, 128 + c div 4096 mod 64, 128 + c div 64 mod 64, 128 + c mod 64]"
      using 4 by (simp add: utf8_def)
    moreover have "is_cont (128 + c mod 64)" "is_cont (128 + c div 64 mod 64)"
      using m(1,2) unfolding is_cont_def by linarith+
    ultimately show ?thesis using d4 b by (simp add: utf8_step.simps)
  qed
qed

lemma utf8_not_Nil: "utf8 c \<noteq> []"
  by (simp add: utf8_def)

lemma from_utf8_lossy_utf8:
  "scalar c \<Longrightarrow> from_utf8_lossy (utf8 c @ rest) = c # from_utf8_lossy rest"
  using utf8_step_utf8 [of c rest] utf8_not_Nil [of c] by (cases "utf8 c") simp_all

lemma from_utf8_lossy_encode:
  "list_all scalar cs \<Longrightarrow> from_utf8_lossy (concat (map utf8 cs)) = cs"
  by (induction cs) (simp_all add: from_utf8_lossy_utf8)

lemma utf8_bytes: "scalar c \<Longrightarrow> b \<in> set (utf8 c) \<Longrightarrow> b < 256"
  by (auto simp: utf8_def scalar_def split: if_splits)

section \<open>Unicode text\<close>

type_synonym utext = "nat list"

definition uni :: "string \<Rightarrow> utext" where
  "uni s = map of_char s"

definition uni_whitespace :: "nat \<Rightarrow> bool" where
  "uni_whitespace c \<longleftrightarrow> (9 \<le> c \<and> c \<le> 13) \<or> c \<in> set [32, 133, 160, 5760, 8232, 8233, 8239, 8287, 12288]
     \<or> (8192 \<le> c \<and> c \<le> 8202)"

definition uni_digit :: "nat \<Rightarrow> bool" where
  "uni_digit c \<longleftrightarrow> 48 \<le> c \<and> c \<le> 57"

definition uni_trim :: "utext \<Rightarrow> utext" where
  "uni_trim s = rev (dropWhile uni_whitespace (rev (dropWhile uni_whitespace s)))"

definition uni_strip_cr :: "utext \<Rightarrow> utext" where
  "uni_strip_cr s = (if s \<noteq> [] \<and> last s = 13 then butlast s else s)"

text \<open>\<open>s.as_bytes()\<close> and \<open>String::from_utf8\<close>: bytes that are no text's encoding are refused.\<close>

definition to_utf8 :: "utext \<Rightarrow> nat list" where
  "to_utf8 cs = concat (map utf8 cs)"

definition from_utf8 :: "nat list \<Rightarrow> utext option" where
  "from_utf8 bs = (let cs = from_utf8_lossy bs in if to_utf8 cs = bs then Some cs else None)"

lemma from_utf8_to_utf8: "list_all scalar cs \<Longrightarrow> from_utf8 (to_utf8 cs) = Some cs"
  by (simp add: from_utf8_def to_utf8_def from_utf8_lossy_encode)

lemma to_utf8_bytes: "list_all scalar cs \<Longrightarrow> list_all (\<lambda>b. b < 256) (to_utf8 cs)"
  by (auto simp: to_utf8_def list_all_iff dest: utf8_bytes)

lemma uni_inverse [simp]: "map char_of (uni s) = s"
  by (simp add: uni_def comp_def)

lemma uni_bytes: "list_all (\<lambda>c. c < 256) (uni s)"
  by (simp add: uni_def list_all_iff)

lemma uni_trim_no_space: "\<forall>c \<in> set s. \<not> uni_whitespace c \<Longrightarrow> uni_trim s = s"
proof -
  have keep: "dropWhile uni_whitespace t = t" if "\<forall>c \<in> set t. \<not> uni_whitespace c" for t
    using that by (cases t) auto
  assume "\<forall>c \<in> set s. \<not> uni_whitespace c"
  then show ?thesis using keep [of s] keep [of "rev s"] by (simp add: uni_trim_def)
qed

lemma uni_trim_id: "s \<noteq> [] \<Longrightarrow> \<not> uni_whitespace (hd s) \<Longrightarrow> \<not> uni_whitespace (last s) \<Longrightarrow> uni_trim s = s"
proof -
  assume a: "s \<noteq> []" "\<not> uni_whitespace (hd s)" "\<not> uni_whitespace (last s)"
  then have "dropWhile uni_whitespace s = s" by (cases s) auto
  moreover have "dropWhile uni_whitespace (rev s) = rev s" using a by (cases "rev s") (auto simp: hd_rev [symmetric])
  ultimately show ?thesis by (simp add: uni_trim_def)
qed

lemma uni_trim_split: "\<exists>a b. s = a @ uni_trim s @ b \<and> (\<forall>c \<in> set a \<union> set b. uni_whitespace c)"
proof -
  let ?a = "takeWhile uni_whitespace s" and ?m = "dropWhile uni_whitespace s"
  let ?b = "rev (takeWhile uni_whitespace (rev ?m))"
  have "?m = uni_trim s @ ?b"
    unfolding uni_trim_def by (metis rev_append rev_rev_ident takeWhile_dropWhile_id)
  then have "s = ?a @ uni_trim s @ ?b" by (metis takeWhile_dropWhile_id)
  moreover have "\<forall>c \<in> set ?a \<union> set ?b. uni_whitespace c" by (auto dest: set_takeWhileD)
  ultimately show ?thesis by blast
qed

end
