(* ===== verification/Tmux.thy ===== *)
theory Tmux
  imports Prelude Shell Utf8 "HOL-Library.Sublist"
begin

text \<open>
  tmux discovery (\<open>crates/sbm_parser/src/tmux.rs\<close>): the commands that attach a
  terminal, which ids and names may stand in one, and the listings tmux prints.
  Names are any Unicode text, so a listing and a name here are lists of scalar
  values; a command is a text as in \<open>Shell\<close>. The two listing commands hold a
  \<open>$(printf '\t')\<close> for \<open>sh\<close> to run; they are definitions, and what \<open>sh\<close> makes of
  them is not modelled.
\<close>

section \<open>Unicode text\<close>

definition uni_control :: "nat \<Rightarrow> bool" where
  "uni_control c \<longleftrightarrow> c \<le> 31 \<or> (127 \<le> c \<and> c \<le> 159)"

definition uni_lines :: "utext \<Rightarrow> utext list" where
  "uni_lines s = (let ps = split_on 10 s in
     map uni_strip_cr (butlast ps) @ (if last ps = [] then [] else [last ps]))"

definition uni_i64 :: "utext \<Rightarrow> int option" where
  "uni_i64 s = (if list_all (\<lambda>c. c < 256) s then parse_i64 (map char_of s) else None)"

section \<open>Commands\<close>

definition FIND_COMMAND :: string where
  "FIND_COMMAND = ''bash -i -c '' @ [CHR 0x27] @ ''command -v tmux'' @ [CHR 0x27]
     @ '' 2>/dev/null || command -v tmux 2>/dev/null || which tmux 2>/dev/null''"

definition SHELL_TAB :: string where
  "SHELL_TAB = ''$(printf '' @ [CHR 0x27, CHR 0x5C] @ ''t'' @ [CHR 0x27] @ '')''"

definition plain_client :: "string \<Rightarrow> string" where
  "plain_client bin = shell_quote_unix bin @ '' -u''"

definition discovery :: "string \<Rightarrow> string" where
  "discovery bin = plain_client bin"

definition client :: "string \<Rightarrow> string" where
  "client bin = shell_quote_unix bin @ '' -u -CC''"

definition parse_find :: "string \<Rightarrow> bool \<Rightarrow> string option" where
  "parse_find out succeeded =
     (if \<not> succeeded then None
      else find (\<lambda>line. starts_with ''/'' line \<and> ends_with ''/tmux'' line) (rev (map trim (str_lines out))))"

definition list_sessions_command :: "string \<Rightarrow> string" where
  "list_sessions_command bin = discovery bin @ '' list-sessions -F '' @ [CHR 0x22]
     @ join SHELL_TAB [''#{session_id}'', ''#{q:session_name}'', ''#{session_windows}'', ''#{session_attached}'',
         ''#{session_created}'', ''#{session_last_attached}'', ''#{session_activity}''] @ [CHR 0x22]"

definition list_windows_command :: "string \<Rightarrow> string \<Rightarrow> string" where
  "list_windows_command bin session = discovery bin @ '' list-windows -t '' @ shell_quote_unix session
     @ '' -F '' @ [CHR 0x22]
     @ join SHELL_TAB [''#{window_index}'', ''#{q:window_name}'', ''#{window_active}'', ''#{window_panes}'',
         ''#{window_activity}''] @ [CHR 0x22]"

definition attach_session_command :: "string \<Rightarrow> string \<Rightarrow> string" where
  "attach_session_command bin session = client bin @ '' attach-session -t '' @ shell_quote_unix session"

definition show_int :: "int \<Rightarrow> string" where
  "show_int n = (if n < 0 then CHR ''-'' # show_nat (nat (- n)) else show_nat (nat n))"

definition attach_window_command :: "string \<Rightarrow> string \<Rightarrow> int \<Rightarrow> string" where
  "attach_window_command bin session window =
     client bin @ '' attach-session -t '' @ shell_quote_unix (session @ '':'' @ show_int window)"

definition new_session_or_attach_command :: "string \<Rightarrow> string \<Rightarrow> string" where
  "new_session_or_attach_command bin name = client bin @ '' new-session -A -s '' @ shell_quote_unix name"

definition attach_session_plain_command :: "string \<Rightarrow> string \<Rightarrow> string" where
  "attach_session_plain_command bin session_id =
     plain_client bin @ '' attach-session -t '' @ shell_quote_unix session_id"

definition new_session_plain_command :: "string \<Rightarrow> string \<Rightarrow> string" where
  "new_session_plain_command bin name = plain_client bin @ '' new-session -A -s '' @ shell_quote_unix name"

section \<open>Ids and names\<close>

datatype TmuxError = InvalidSessionId | EmptyName | NameTooLong | NameControlChar | NameSeparator | NameLeadingDash

fun tmux_code :: "TmuxError \<Rightarrow> string" where
  "tmux_code InvalidSessionId = ''invalid_session_id''"
| "tmux_code EmptyName = ''empty_name''"
| "tmux_code NameTooLong = ''name_too_long''"
| "tmux_code NameControlChar = ''name_control_char''"
| "tmux_code NameSeparator = ''name_separator''"
| "tmux_code NameLeadingDash = ''name_leading_dash''"

definition MAX_NAME_LEN :: nat where
  "MAX_NAME_LEN = 64"

definition is_id :: "utext \<Rightarrow> nat \<Rightarrow> bool" where
  "is_id v pre \<longleftrightarrow> (case v of [] \<Rightarrow> False | c # digits \<Rightarrow> c = pre \<and> digits \<noteq> [] \<and> list_all uni_digit digits)"

definition validate_session_id :: "utext \<Rightarrow> (TmuxError, unit) result" where
  "validate_session_id v = (if is_id v 36 then Ok () else Err InvalidSessionId)"

definition FORMAT_RANGES :: "(nat \<times> nat) list" where
  "FORMAT_RANGES = [(0xAD, 0xAD), (0x600, 0x605), (0x61C, 0x61C), (0x6DD, 0x6DD), (0x70F, 0x70F), (0x890, 0x891),
     (0x8E2, 0x8E2), (0x180E, 0x180E), (0x200B, 0x200F), (0x202A, 0x202E), (0x2060, 0x2064), (0x2066, 0x206F),
     (0xFEFF, 0xFEFF), (0xFFF9, 0xFFFB), (0x110BD, 0x110BD), (0x110CD, 0x110CD), (0x13430, 0x1343F),
     (0x1BCA0, 0x1BCA3), (0x1D173, 0x1D17A), (0xE0001, 0xE0001), (0xE0020, 0xE007F)]"

definition is_format_char :: "nat \<Rightarrow> bool" where
  "is_format_char c \<longleftrightarrow> list_ex (\<lambda>(lo, hi). lo \<le> c \<and> c \<le> hi) FORMAT_RANGES"

definition normalize_session_name :: "utext \<Rightarrow> (TmuxError, utext) result" where
  "normalize_session_name raw =
     (let name = uni_trim raw in
      if name = [] then Err EmptyName
      else if hd name = 45 then Err NameLeadingDash
      else if length name > MAX_NAME_LEN then Err NameTooLong
      else if list_ex (\<lambda>c. uni_control c \<or> is_format_char c) name then Err NameControlChar
      else if 58 \<in> set name \<or> 46 \<in> set name then Err NameSeparator
      else Ok name)"

section \<open>Listings\<close>

record TmuxSession =
  ses_id :: utext
  ses_name :: utext
  ses_windows :: int
  ses_attached :: bool
  ses_created :: "int option"
  ses_last_attached :: "int option"
  ses_activity :: "int option"

record TmuxWindow =
  win_index :: int
  win_name :: utext
  win_active :: bool
  win_panes :: int
  win_activity :: "int option"

record TmuxSessionListing =
  sessions :: "TmuxSession list"
  unreadable :: nat

text \<open>A tab is 9, a backslash 92; the digits of an octal byte are 48 to 55.\<close>

fun split_fields_loop :: "utext list \<Rightarrow> utext \<Rightarrow> utext \<Rightarrow> utext list" where
  "split_fields_loop found current [] = found @ [current]"
| "split_fields_loop found current (c # cs) =
     (if c = 92 then
        (case cs of [] \<Rightarrow> split_fields_loop found (current @ [c]) []
         | d # ds \<Rightarrow> split_fields_loop found (current @ [c, d]) ds)
      else if c = 9 then split_fields_loop (found @ [current]) [] cs
      else split_fields_loop found (current @ [c]) cs)"

definition split_fields :: "utext \<Rightarrow> utext list" where
  "split_fields line = split_fields_loop [] [] line"

definition octal_digit :: "nat \<Rightarrow> bool" where
  "octal_digit c \<longleftrightarrow> 48 \<le> c \<and> c \<le> 55"

definition octal_val :: "utext \<Rightarrow> nat" where
  "octal_val ds = foldl (\<lambda>n c. 8 * n + (c - 48)) 0 ds"

function unescape_loop :: "nat list \<Rightarrow> utext \<Rightarrow> utext \<Rightarrow> utext" where
  "unescape_loop bytes out [] = out @ from_utf8_lossy bytes"
| "unescape_loop bytes out (c # cs) =
     (if c \<noteq> 92 \<or> cs = [] then unescape_loop [] (out @ from_utf8_lossy bytes @ [c]) cs
      else if 2 < length cs \<and> list_all octal_digit (take 3 cs) \<and> octal_val (take 3 cs) \<le> 255
      then unescape_loop (bytes @ [octal_val (take 3 cs)]) out (drop 3 cs)
      else unescape_loop [] (out @ from_utf8_lossy bytes @ [hd cs]) (tl cs))"
  by pat_completeness auto
termination by (relation "measure (\<lambda>(_, _, cs). length cs)") auto

definition unescape_field :: "utext \<Rightarrow> utext" where
  "unescape_field v = (if length v < 2 then v else unescape_loop [] [] v)"

definition epoch_field :: "utext option \<Rightarrow> int option" where
  "epoch_field v = (case v of None \<Rightarrow> None
     | Some raw \<Rightarrow> (case uni_i64 (uni_trim (unescape_field raw)) of None \<Rightarrow> None
         | Some seconds \<Rightarrow> if seconds > 0 then Some seconds else None))"

definition nth_field :: "utext list \<Rightarrow> nat \<Rightarrow> utext option" where
  "nth_field fs i = (if i < length fs then Some (fs ! i) else None)"

definition parse_session :: "utext \<Rightarrow> TmuxSession option" where
  "parse_session line =
     (let fs = split_fields line in
      if length fs < 4 then None
      else (case (uni_i64 (unescape_field (fs ! 2)), uni_i64 (unescape_field (fs ! 3))) of
          (Some windows, Some attached) \<Rightarrow>
            if \<not> is_id (unescape_field (fs ! 0)) 36 \<or> unescape_field (fs ! 1) = [] then None
            else Some \<lparr>ses_id = unescape_field (fs ! 0), ses_name = unescape_field (fs ! 1), ses_windows = windows,
              ses_attached = (attached > 0), ses_created = epoch_field (nth_field fs 4),
              ses_last_attached = epoch_field (nth_field fs 5), ses_activity = epoch_field (nth_field fs 6)\<rparr>
        | _ \<Rightarrow> None))"

fun sessions_loop :: "TmuxSessionListing \<Rightarrow> utext list \<Rightarrow> TmuxSessionListing" where
  "sessions_loop listing [] = listing"
| "sessions_loop listing (line # ls) =
     sessions_loop (case parse_session line of Some s \<Rightarrow> listing\<lparr>sessions := sessions listing @ [s]\<rparr>
       | None \<Rightarrow> listing\<lparr>unreadable := unreadable listing + 1\<rparr>) ls"

definition no_sessions :: TmuxSessionListing where
  "no_sessions = \<lparr>sessions = [], unreadable = 0\<rparr>"

definition nonblank_lines :: "utext \<Rightarrow> utext list" where
  "nonblank_lines out = filter (\<lambda>l. uni_trim l \<noteq> []) (split_on 10 out)"

definition parse_sessions :: "utext \<Rightarrow> TmuxSessionListing" where
  "parse_sessions out = sessions_loop no_sessions (nonblank_lines out)"

definition NO_SERVER_REASONS :: "string list" where
  "NO_SERVER_REASONS = [''No such file or directory'', ''Connection refused'']"

definition says_no_server :: "utext \<Rightarrow> bool" where
  "says_no_server line \<longleftrightarrow> prefix (uni ''no server running on'') line
     \<or> ((prefix (uni ''error connecting to'') line \<or> prefix (uni ''failed to connect to server'') line)
        \<and> list_ex (\<lambda>reason. sublist (uni reason) line) NO_SERVER_REASONS)"

definition read_sessions :: "utext \<Rightarrow> int \<Rightarrow> TmuxSessionListing option" where
  "read_sessions out exit_code =
     (if exit_code = 0 then Some (parse_sessions out)
      else if exit_code = 1 \<and> list_ex (\<lambda>line. says_no_server (uni_trim line)) (uni_lines out) then Some no_sessions
      else None)"

definition parse_window :: "utext \<Rightarrow> TmuxWindow option" where
  "parse_window line =
     (let fs = split_fields line; field = (\<lambda>i. map_option unescape_field (nth_field fs i)) in
      case Option.bind (field 0) uni_i64 of None \<Rightarrow> None
      | Some index \<Rightarrow> Some \<lparr>win_index = index, win_name = unwrap_or [] (field 1), win_active = (field 2 = Some (uni ''1'')),
          win_panes = unwrap_or 1 (Option.bind (field 3) uni_i64), win_activity = epoch_field (nth_field fs 4)\<rparr>)"

definition parse_windows :: "utext \<Rightarrow> TmuxWindow list" where
  "parse_windows out = List.map_filter parse_window (nonblank_lines out)"

section \<open>Fields as tmux writes them\<close>

text \<open>
  A character of an escaped field: itself, behind a backslash, or the bytes of its
  encoding in octal. Which is used for which character is left open.
\<close>

definition octal_byte :: "nat \<Rightarrow> utext" where
  "octal_byte b = [92, 48 + b div 64, 48 + b div 8 mod 8, 48 + b mod 8]"

definition q_spells :: "utext \<Rightarrow> nat \<Rightarrow> bool" where
  "q_spells t c \<longleftrightarrow> scalar c \<and>
     ((t = [c] \<and> c \<noteq> 92 \<and> c \<noteq> 9) \<or> (t = [92, c] \<and> \<not> octal_digit c) \<or> t = concat (map octal_byte (utf8 c)))"

definition q_writes :: "utext \<Rightarrow> utext \<Rightarrow> bool" where
  "q_writes t s \<longleftrightarrow> (\<exists>ts. t = concat ts \<and> list_all2 q_spells ts s)"

fun tabbed :: "utext list \<Rightarrow> utext" where
  "tabbed [] = []"
| "tabbed [t] = t"
| "tabbed (t # ts) = t @ 9 # tabbed ts"

lemma octal_byte_val:
  assumes "b < 256"
  shows "octal_val [48 + b div 64, 48 + b div 8 mod 8, 48 + b mod 8] = b"
    and "list_all octal_digit [48 + b div 64, 48 + b div 8 mod 8, 48 + b mod 8]"
proof -
  have "b div 8 = b div 64 * 8 + b div 8 mod 8"
    using div_mult_mod_eq [of "b div 8" 8] by (simp add: div_mult2_eq [symmetric])
  then have e: "b = (b div 64 * 8 + b div 8 mod 8) * 8 + b mod 8" using div_mult_mod_eq [of b 8] by presburger
  have "octal_val [48 + b div 64, 48 + b div 8 mod 8, 48 + b mod 8] = (b div 64 * 8 + b div 8 mod 8) * 8 + b mod 8"
    by (simp add: octal_val_def)
  then show "octal_val [48 + b div 64, 48 + b div 8 mod 8, 48 + b mod 8] = b" using e by presburger
  have "b div 64 \<le> 7" using assms by linarith
  then show "list_all octal_digit [48 + b div 64, 48 + b div 8 mod 8, 48 + b mod 8]"
    by (simp add: octal_digit_def less_Suc_eq_le [symmetric])
qed

lemma unescape_octal:
  "(\<forall>b \<in> set bs. b < 256) \<Longrightarrow>
     unescape_loop bytes out (concat (map octal_byte bs) @ rest) = unescape_loop (bytes @ bs) out rest"
proof (induction bs arbitrary: bytes)
  case (Cons b bs)
  let ?ds = "[48 + b div 64, 48 + b div 8 mod 8, 48 + b mod 8]" and ?more = "concat (map octal_byte bs) @ rest"
  have "octal_val ?ds = b" "list_all octal_digit ?ds" "b < 256" using octal_byte_val [of b] Cons.prems by auto
  then have "unescape_loop bytes out (92 # ds @ ?more) = unescape_loop (bytes @ [b]) out ?more"
    if "ds = ?ds" for ds
    using that by (subst unescape_loop.simps) (simp del: unescape_loop.simps)
  moreover have "octal_byte b @ ?more = 92 # ?ds @ ?more" by (simp add: octal_byte_def)
  ultimately show ?case using Cons.IH [of "bytes @ [b]"] Cons.prems by (simp del: unescape_loop.simps)
qed simp

lemma unescape_pieces:
  "list_all2 q_spells ts s \<Longrightarrow> list_all scalar ps \<Longrightarrow>
     unescape_loop (concat (map utf8 ps)) out (concat ts) = out @ ps @ s"
proof (induction arbitrary: ps out rule: list_all2_induct)
  case Nil
  then show ?case by (simp add: from_utf8_lossy_encode)
next
  case (Cons t ts c s)
  note lossy = from_utf8_lossy_encode [OF Cons.prems]
  have IH: "unescape_loop [] out' (concat ts) = out' @ s" for out' using Cons.IH [of "[]" out'] by simp
  consider "t = [c]" "c \<noteq> 92" | "t = [92, c]" "\<not> octal_digit c" | "t = concat (map octal_byte (utf8 c))"
    using Cons.hyps by (auto simp: q_spells_def)
  then show ?case
  proof cases
    case 1
    then show ?thesis by (simp add: lossy IH)
  next
    case 2
    then show ?thesis by (simp add: lossy IH)
  next
    case 3
    have c: "scalar c" using Cons.hyps by (simp add: q_spells_def)
    then have "unescape_loop (concat (map utf8 ps)) out (t @ concat ts) =
        unescape_loop (concat (map utf8 (ps @ [c]))) out (concat ts)"
      using utf8_bytes by (simp add: 3 unescape_octal)
    then show ?thesis using Cons.IH [of "ps @ [c]"] Cons.prems c by simp
  qed
qed

lemma unescape_loop_short: "length v < 2 \<Longrightarrow> unescape_loop [] [] v = v"
  by (cases v) auto

lemma unescape_field_writes: "q_writes t s \<Longrightarrow> unescape_field t = s"
  using unescape_pieces [where ps = "[]" and out = "[]"] unescape_loop_short [of t]
  by (auto simp: q_writes_def unescape_field_def)

lemma split_octal:
  "split_fields_loop found current (concat (map octal_byte bs) @ rest) =
     split_fields_loop found (current @ concat (map octal_byte bs)) rest"
proof (induction bs arbitrary: current)
  case (Cons b bs)
  have "split_fields_loop found current (octal_byte b @ s) = split_fields_loop found (current @ octal_byte b) s" for s
  proof -
    have "b mod 8 < 44" "b div 8 mod 8 < 44" by (rule less_trans [OF mod_less_divisor]; simp)+
    then show ?thesis by (simp add: octal_byte_def)
  qed
  then show ?case using Cons [of "current @ octal_byte b"] by simp
qed simp

lemma split_pieces:
  "list_all2 q_spells ts s \<Longrightarrow>
     split_fields_loop found current (concat ts @ rest) = split_fields_loop found (current @ concat ts) rest"
proof (induction arbitrary: current rule: list_all2_induct)
  case (Cons t ts c s)
  have "split_fields_loop found current (t @ concat ts @ rest) = split_fields_loop found (current @ t) (concat ts @ rest)"
    using Cons.hyps split_octal by (auto simp: q_spells_def)
  then show ?case using Cons.IH by simp
qed simp

lemma split_written:
  "q_writes t s \<Longrightarrow> split_fields_loop found [] (t @ rest) = split_fields_loop found t rest"
  using split_pieces [where current = "[]"] by (auto simp: q_writes_def)

lemma split_tabbed:
  "list_all2 q_writes ts fs \<Longrightarrow> ts \<noteq> [] \<Longrightarrow> split_fields_loop found [] (tabbed ts) = found @ ts"
proof (induction ts arbitrary: fs found rule: tabbed.induct)
  case (2 t)
  then show ?case using split_written [of t _ found "[]"] by (auto simp: list_all2_Cons1)
next
  case (3 t t' ts)
  then obtain f fs' where f: "fs = f # fs'" "q_writes t f" "list_all2 q_writes (t' # ts) fs'"
    by (auto simp: list_all2_Cons1)
  show ?case using split_written [OF f(2), of found "9 # tabbed (t' # ts)"] 3(1) [OF f(3)] by simp
qed simp

text \<open>
  Escaping is undone: whatever the values are, and however tmux writes each of
  their characters, the line splits into exactly the fields it was made of and each
  field reads back as its value, tabs, backslashes and octal bytes included.
\<close>

theorem escaped_fields_are_read_back:
  assumes "list_all2 q_writes ts fs" and "fs \<noteq> []"
  shows "map unescape_field (split_fields (tabbed ts)) = fs"
proof -
  have "split_fields (tabbed ts) = ts"
    using split_tabbed [OF assms(1), of "[]"] assms(2) list_all2_lengthD [OF assms(1)]
    by (cases "ts = []") (auto simp: split_fields_def)
  moreover have "map unescape_field ts = fs"
    using assms(1) by (induction rule: list_all2_induct) (simp_all add: unescape_field_writes)
  ultimately show ?thesis by simp
qed

lemma escaped_fields_are_read_back_witness:
  "map unescape_field (split_fields (tabbed [[97, 92, 9, 98], octal_byte 195 @ octal_byte 169, []])) = [[97, 9, 98], [233], []]"
proof -
  have "q_writes [97, 92, 9, 98] [97, 9, 98]"
    unfolding q_writes_def by (rule exI [of _ "[[97], [92, 9], [98]]"]) (simp add: q_spells_def octal_digit_def scalar_def)
  moreover have "q_writes (octal_byte 195 @ octal_byte 169) [233]"
    unfolding q_writes_def
    by (rule exI [of _ "[octal_byte 195 @ octal_byte 169]"]) (simp add: q_spells_def scalar_def utf8_def)
  moreover have "q_writes [] []" by (simp add: q_writes_def)
  ultimately show ?thesis by (intro escaped_fields_are_read_back) simp_all
qed

section \<open>Listings as tmux prints them\<close>

lemma q_writes_plain: "list_all (\<lambda>c. scalar c \<and> c \<noteq> 92 \<and> c \<noteq> 9) s \<Longrightarrow> q_writes s s"
proof -
  assume "list_all (\<lambda>c. scalar c \<and> c \<noteq> 92 \<and> c \<noteq> 9) s"
  then have "s = concat (map (\<lambda>c. [c]) s) \<and> list_all2 q_spells (map (\<lambda>c. [c]) s) s"
    by (induction s) (simp_all add: q_spells_def)
  then show ?thesis unfolding q_writes_def by blast
qed

lemma uni_i64_uni: "uni_i64 (uni s) = parse_i64 s"
  using uni_bytes [of s] by (simp add: uni_i64_def)

lemma uni_i64_nat: "n < 9223372036854775808 \<Longrightarrow> uni_i64 (uni (show_nat n)) = Some (int n)"
proof -
  assume n: "n < 9223372036854775808"
  obtain c cs where s: "show_nat n = c # cs" using show_nat_not_Nil [of n] by (cases "show_nat n") auto
  then have "c \<noteq> CHR ''-''" using show_nat_chars [of c n] by (auto simp: is_ascii_digit_def)
  moreover have "parse_uint 9223372036854775807 (show_nat n) = Some n" by (rule parse_show_nat) (use n in simp)
  ultimately show ?thesis using s by (simp add: uni_i64_uni parse_sint_def)
qed

lemma uni_show_nat: "list_all (\<lambda>c. scalar c \<and> c \<noteq> 92 \<and> c \<noteq> 9 \<and> uni_digit c) (uni (show_nat n))"
  using show_nat_chars by (fastforce simp: uni_def list_all_iff is_ascii_digit_def scalar_def uni_digit_def)

lemma q_writes_nat: "q_writes (uni (show_nat n)) (uni (show_nat n))"
  using uni_show_nat [of n] by (intro q_writes_plain) (simp add: list_all_iff)

lemma unescape_nat: "unescape_field (uni (show_nat n)) = uni (show_nat n)"
  by (rule unescape_field_writes [OF q_writes_nat])

lemma uni_trim_nat: "uni_trim (uni (show_nat n)) = uni (show_nat n)"
  using uni_show_nat [of n]
  by (intro uni_trim_no_space) (auto simp: list_all_iff uni_digit_def uni_whitespace_def)

text \<open>
  What \<open>list_sessions_command\<close> makes tmux print for a session: the id, the name escaped
  in any way, counts in decimal, and for a time its seconds, or nothing or \<open>0\<close>.
\<close>

definition prints_time :: "utext \<Rightarrow> int option \<Rightarrow> bool" where
  "prints_time w t \<longleftrightarrow> (case t of None \<Rightarrow> w = [] \<or> w = uni (show_nat 0)
     | Some n \<Rightarrow> 0 < n \<and> n < 9223372036854775808 \<and> w = uni (show_nat (nat n)))"

definition prints_session :: "utext \<Rightarrow> TmuxSession \<Rightarrow> bool" where
  "prints_session line s \<longleftrightarrow> (\<exists>t windows attached w1 w2 w3.
     line = tabbed [ses_id s, t, uni (show_nat windows), uni (show_nat attached), w1, w2, w3]
     \<and> validate_session_id (ses_id s) = Ok () \<and> q_writes t (ses_name s) \<and> ses_name s \<noteq> []
     \<and> ses_windows s = int windows \<and> windows < 9223372036854775808
     \<and> ses_attached s = (attached > 0) \<and> attached < 9223372036854775808
     \<and> prints_time w1 (ses_created s) \<and> prints_time w2 (ses_last_attached s) \<and> prints_time w3 (ses_activity s))"

lemma prints_time_writes: "prints_time w t \<Longrightarrow> q_writes w w"
  using q_writes_nat by (auto simp: prints_time_def q_writes_def [of "[]"] split: option.splits)

lemma prints_time_epoch: "prints_time w t \<Longrightarrow> epoch_field (Some w) = t"
proof -
  assume w: "prints_time w t"
  have n: "epoch_field (Some (uni (show_nat n))) = (if n > 0 then Some (int n) else None)"
    if "n < 9223372036854775808" for n
    using that by (simp add: epoch_field_def unescape_nat uni_trim_nat uni_i64_nat)
  have "epoch_field (Some []) = None"
    by (simp add: epoch_field_def unescape_field_def uni_trim_def uni_i64_def parse_sint_def)
  then show ?thesis using w n [of 0] n [of "nat (the t)"] by (auto simp: prints_time_def split: option.splits)
qed

lemma id_writes: "validate_session_id i = Ok () \<Longrightarrow> q_writes i i \<and> is_id i 36"
proof -
  assume v: "validate_session_id i = Ok ()"
  then obtain ds where i: "is_id i 36" "i = 36 # ds" "list_all uni_digit ds"
    by (cases i) (auto simp: validate_session_id_def is_id_def split: if_splits)
  then have "list_all (\<lambda>c. scalar c \<and> c \<noteq> 92 \<and> c \<noteq> 9) ds"
    by (auto simp: list_all_iff uni_digit_def scalar_def)
  then show ?thesis using i q_writes_plain [of i] by (simp add: scalar_def)
qed

lemma parse_printed: "prints_session line s \<Longrightarrow> parse_session line = Some s"
proof -
  assume "prints_session line s"
  then obtain t windows attached w1 w2 w3 where
    line: "line = tabbed [ses_id s, t, uni (show_nat windows), uni (show_nat attached), w1, w2, w3]"
    and i: "q_writes (ses_id s) (ses_id s)" "is_id (ses_id s) 36" and t: "q_writes t (ses_name s)" "ses_name s \<noteq> []"
    and n: "ses_windows s = int windows" "windows < 9223372036854775808"
      "ses_attached s = (attached > 0)" "attached < 9223372036854775808"
    and w: "prints_time w1 (ses_created s)" "prints_time w2 (ses_last_attached s)" "prints_time w3 (ses_activity s)"
    using id_writes unfolding prints_session_def by blast
  have f: "list_all2 q_writes [ses_id s, t, uni (show_nat windows), uni (show_nat attached), w1, w2, w3]
      [ses_id s, ses_name s, uni (show_nat windows), uni (show_nat attached), w1, w2, w3]"
    using i(1) t(1) w [THEN prints_time_writes] by (simp add: q_writes_nat)
  have "split_fields line = [ses_id s, t, uni (show_nat windows), uni (show_nat attached), w1, w2, w3]"
    unfolding line split_fields_def using split_tabbed [OF f, of "[]"] by simp
  then show ?thesis
    using n i(2) t(2) unescape_field_writes [OF i(1)] unescape_field_writes [OF t(1)] w [THEN prints_time_epoch]
    by (simp add: parse_session_def unescape_nat uni_i64_nat nth_field_def)
qed

lemma uni_split_lines:
  "(\<forall>l \<in> set ls. 10 \<notin> set l) \<Longrightarrow> split_on (10 :: nat) (concat (map (\<lambda>l. l @ [10]) ls)) = ls @ [[]]"
  by (induction ls) (simp_all add: split_on_append)

lemma printed_nonblank: "prints_session line s \<Longrightarrow> uni_trim line \<noteq> []"
proof -
  assume "prints_session line s"
  then have "36 \<in> set line"
    by (auto simp: prints_session_def validate_session_id_def is_id_def split: list.splits if_splits)
  moreover have "\<not> uni_whitespace 36" by (simp add: uni_whitespace_def)
  ultimately have "36 \<in> set (dropWhile uni_whitespace line)"
    by (metis Un_iff set_append set_takeWhileD takeWhile_dropWhile_id)
  then show ?thesis using \<open>\<not> uni_whitespace 36\<close> by (auto simp: uni_trim_def)
qed

lemma sessions_loop_printed:
  "list_all2 prints_session lines ss \<Longrightarrow>
     sessions_loop listing lines = listing\<lparr>sessions := sessions listing @ ss\<rparr>"
  by (induction arbitrary: listing rule: list_all2_induct) (simp_all add: parse_printed)

text \<open>
  C10. No session is lost. Where the listing succeeds, what is read is exactly the
  sessions tmux printed, in its order, with their names as they are and a time of
  nothing or zero read as none; no line is counted unreadable.
\<close>

theorem listing_is_what_tmux_printed:
  assumes "list_all2 prints_session lines ss" and "\<forall>l \<in> set lines. 10 \<notin> set l"
  shows "read_sessions (concat (map (\<lambda>l. l @ [10]) lines)) 0 = Some \<lparr>sessions = ss, unreadable = 0\<rparr>"
proof -
  have "uni_trim l \<noteq> []" if "l \<in> set lines" for l
    using assms(1) that printed_nonblank by (metis in_set_conv_nth list_all2_conv_all_nth)
  then have "nonblank_lines (concat (map (\<lambda>l. l @ [10]) lines)) = lines"
    using assms(2) by (simp add: nonblank_lines_def uni_split_lines uni_trim_def)
  then show ?thesis
    using sessions_loop_printed [OF assms(1), of no_sessions]
    by (simp add: read_sessions_def parse_sessions_def no_sessions_def)
qed

lemma listing_is_what_tmux_printed_witness:
  "read_sessions (tabbed [[36, 49], [97, 92, 58], uni (show_nat 2), uni (show_nat 0), uni (show_nat 7), [], uni (show_nat 0)] @ [10]) 0
   = Some \<lparr>sessions = [\<lparr>ses_id = [36, 49], ses_name = [97, 58], ses_windows = 2, ses_attached = False,
       ses_created = Some 7, ses_last_attached = None, ses_activity = None\<rparr>], unreadable = 0\<rparr>"
proof -
  let ?line = "tabbed [[36, 49], [97, 92, 58], uni (show_nat 2), uni (show_nat 0), uni (show_nat 7), [], uni (show_nat 0)]"
  have "q_writes [97, 92, 58] [97, 58]"
    unfolding q_writes_def by (rule exI [of _ "[[97], [92, 58]]"]) (simp add: q_spells_def octal_digit_def scalar_def)
  then have "prints_session ?line \<lparr>ses_id = [36, 49], ses_name = [97, 58], ses_windows = 2, ses_attached = False,
       ses_created = Some 7, ses_last_attached = None, ses_activity = None\<rparr>"
    unfolding prints_session_def
    by (intro exI [of _ "[97, 92, 58]"] exI [of _ "2::nat"] exI [of _ "0::nat"] exI [of _ "uni (show_nat 7)"]
        exI [of _ "[]"] exI [of _ "uni (show_nat 0)"])
      (simp add: validate_session_id_def is_id_def uni_digit_def prints_time_def)
  moreover have "10 \<notin> set ?line" by (simp add: uni_def show_nat.simps)
  ultimately show ?thesis using listing_is_what_tmux_printed [of "[?line]"] by simp
qed

section \<open>What a command hands to tmux\<close>

lemma uni_trim_ends: "uni_trim s \<noteq> [] \<Longrightarrow> \<not> uni_whitespace (hd (uni_trim s)) \<and> \<not> uni_whitespace (last (uni_trim s))"
proof -
  assume ne: "uni_trim s \<noteq> []"
  let ?m = "dropWhile uni_whitespace s"
  have "dropWhile uni_whitespace (rev ?m) \<noteq> []" using ne unfolding uni_trim_def by blast
  then have "\<not> uni_whitespace (hd (dropWhile uni_whitespace (rev ?m)))" by (rule hd_dropWhile)
  then have l: "\<not> uni_whitespace (last (uni_trim s))" by (simp add: uni_trim_def last_rev)
  have "?m \<noteq> []"
  proof
    assume "?m = []"
    then have "uni_trim s = []" unfolding uni_trim_def by (simp only: rev.simps dropWhile.simps)
    then show False using ne by simp
  qed
  then have h: "\<not> uni_whitespace (hd ?m)" by (rule hd_dropWhile)
  have "?m = uni_trim s @ rev (takeWhile uni_whitespace (rev ?m))"
    unfolding uni_trim_def by (metis rev_append rev_rev_ident takeWhile_dropWhile_id)
  then have "hd ?m = hd (uni_trim s)" using ne by (metis hd_append2)
  then show ?thesis using h l by simp
qed

definition usable_name :: "utext \<Rightarrow> bool" where
  "usable_name n \<longleftrightarrow> n \<noteq> [] \<and> length n \<le> MAX_NAME_LEN \<and> hd n \<noteq> 45
     \<and> (\<forall>c \<in> set n. \<not> uni_control c \<and> \<not> is_format_char c \<and> c \<noteq> 58 \<and> c \<noteq> 46)"

lemma normalize_Ok: "normalize_session_name raw = Ok n \<longleftrightarrow> n = uni_trim raw \<and> usable_name n"
  by (auto simp: normalize_session_name_def usable_name_def Let_def list_ex_iff)

lemma normalize_normalized: "normalize_session_name raw = Ok n \<Longrightarrow> normalize_session_name n = Ok n"
  using uni_trim_ends [of raw] uni_trim_id [of n] by (auto simp: normalize_Ok usable_name_def)

lemma client_words:
  "sh_words (client bin @ '' '' @ sub @ '' '' @ join '' '' opts @ '' '' @ shell_quote_unix w) =
     Some ([bin, ''-u'', ''-CC'', sub] @ opts @ [w])"
  "sh_words (plain_client bin @ '' '' @ sub @ '' '' @ join '' '' opts @ '' '' @ shell_quote_unix w) =
     Some ([bin, ''-u'', sub] @ opts @ [w])"
  if "plain_word sub" "list_all plain_word opts" "opts \<noteq> []"
proof -
  have p: "plain_word ''-u''" "plain_word ''-CC''" by code_simp+
  have o: "list_all2 spells opts opts" using that(2) by (induction opts) (simp_all add: spells_plain)
  have j: "join '' '' (opts @ [t]) = join '' '' opts @ '' '' @ t" for t
    using that(3)
  proof (induction opts)
    case (Cons o os)
    then show ?case by (cases os) (simp_all add: join_Cons)
  qed simp
  have "list_all2 spells ([shell_quote_unix bin, ''-u'', ''-CC'', sub] @ opts @ [shell_quote_unix w])
      ([bin, ''-u'', ''-CC'', sub] @ opts @ [w])"
    by (intro list_all2_appendI o) (simp_all add: spells_quote spells_plain p that(1))
  then show "sh_words (client bin @ '' '' @ sub @ '' '' @ join '' '' opts @ '' '' @ shell_quote_unix w) =
     Some ([bin, ''-u'', ''-CC'', sub] @ opts @ [w])"
    by (drule_tac sh_words_join) (simp add: client_def j join_Cons)
  have "list_all2 spells ([shell_quote_unix bin, ''-u'', sub] @ opts @ [shell_quote_unix w])
      ([bin, ''-u'', sub] @ opts @ [w])"
    by (intro list_all2_appendI o) (simp_all add: spells_quote spells_plain p that(1))
  then show "sh_words (plain_client bin @ '' '' @ sub @ '' '' @ join '' '' opts @ '' '' @ shell_quote_unix w) =
     Some ([bin, ''-u'', sub] @ opts @ [w])"
    by (drule_tac sh_words_join) (simp add: plain_client_def j join_Cons)
qed

lemma tmux_words:
  "sh_words (attach_session_command bin s) = Some [bin, ''-u'', ''-CC'', ''attach-session'', ''-t'', s]"
  "sh_words (attach_window_command bin s w) =
     Some [bin, ''-u'', ''-CC'', ''attach-session'', ''-t'', s @ '':'' @ show_int w]"
  "sh_words (new_session_or_attach_command bin s) = Some [bin, ''-u'', ''-CC'', ''new-session'', ''-A'', ''-s'', s]"
  "sh_words (attach_session_plain_command bin s) = Some [bin, ''-u'', ''attach-session'', ''-t'', s]"
  "sh_words (new_session_plain_command bin s) = Some [bin, ''-u'', ''new-session'', ''-A'', ''-s'', s]"
proof -
  have p: "plain_word ''attach-session''" "plain_word ''new-session''" "plain_word ''-t''" "plain_word ''-A''"
    "plain_word ''-s''" by code_simp+
  note c = client_words [of "''attach-session''" "[''-t'']"] client_words [of "''new-session''" "[''-A'', ''-s'']"]
  show "sh_words (attach_session_command bin s) = Some [bin, ''-u'', ''-CC'', ''attach-session'', ''-t'', s]"
    using c(1) [of bin s] p by (simp add: attach_session_command_def)
  show "sh_words (attach_window_command bin s w) =
     Some [bin, ''-u'', ''-CC'', ''attach-session'', ''-t'', s @ '':'' @ show_int w]"
    using c(1) [of bin "s @ '':'' @ show_int w"] p by (simp add: attach_window_command_def)
  show "sh_words (new_session_or_attach_command bin s) = Some [bin, ''-u'', ''-CC'', ''new-session'', ''-A'', ''-s'', s]"
    using c(3) [of bin s] p by (simp add: new_session_or_attach_command_def)
  show "sh_words (attach_session_plain_command bin s) = Some [bin, ''-u'', ''attach-session'', ''-t'', s]"
    using c(2) [of bin s] p by (simp add: attach_session_plain_command_def)
  show "sh_words (new_session_plain_command bin s) = Some [bin, ''-u'', ''new-session'', ''-A'', ''-s'', s]"
    using c(4) [of bin s] p by (simp add: new_session_plain_command_def)
qed

text \<open>
  What opens a terminal is one tmux run with the target it was asked for.
  However the path and the name are written, \<open>sh\<close> makes exactly these words of the
  command, expanding nothing; a name that was accepted is one word that tmux takes
  neither for an option nor for a target inside a session, and is accepted as it is
  when checked again; an accepted id holds no separator, so the target of a window
  parts at its one colon.
\<close>

theorem terminal_commands_name_their_target:
  assumes "normalize_session_name raw = Ok (uni name)" and "validate_session_id (uni sid) = Ok ()"
  shows "sh_words (new_session_plain_command bin name) = Some [bin, ''-u'', ''new-session'', ''-A'', ''-s'', name]
    \<and> sh_words (attach_session_plain_command bin sid) = Some [bin, ''-u'', ''attach-session'', ''-t'', sid]
    \<and> sh_words (attach_window_command bin sid w) =
        Some [bin, ''-u'', ''-CC'', ''attach-session'', ''-t'', sid @ '':'' @ show_int w]
    \<and> split_once (CHR '':'') (sid @ '':'' @ show_int w) = Some (sid, show_int w)
    \<and> name \<noteq> [] \<and> hd name \<noteq> CHR ''-'' \<and> CHR '':'' \<notin> set name \<and> CHR ''.'' \<notin> set name
    \<and> normalize_session_name (uni name) = Ok (uni name)"
proof -
  have n: "usable_name (uni name)" using assms(1) unfolding normalize_Ok by blast
  have "CHR '':'' \<notin> set sid"
  proof
    assume "CHR '':'' \<in> set sid"
    then have "58 \<in> set (uni sid)" by (force simp: uni_def)
    then show False
      using assms(2) by (auto simp: validate_session_id_def is_id_def uni_digit_def list_all_iff split: list.splits if_splits)
  qed
  then have "split_once (CHR '':'') (sid @ '':'' @ show_int w) = Some (sid, show_int w)" by simp
  moreover have "name \<noteq> []" "hd name \<noteq> CHR ''-''" "CHR '':'' \<notin> set name" "CHR ''.'' \<notin> set name"
    using n by (auto simp: usable_name_def uni_def hd_map)
  ultimately show ?thesis using tmux_words normalize_normalized [OF assms(1)] by simp
qed

lemma find_rev_last: "find P (rev xs) = Some x \<longleftrightarrow> (\<exists>a b. xs = a @ x # b \<and> P x \<and> (\<forall>y \<in> set b. \<not> P y))"
proof (induction xs rule: rev_induct)
  case (snoc y xs)
  show ?case
  proof (cases "P y")
    case True
    have "(\<exists>a b. xs @ [y] = a @ x # b \<and> P x \<and> (\<forall>z \<in> set b. \<not> P z)) \<longleftrightarrow> x = y"
    proof
      assume "\<exists>a b. xs @ [y] = a @ x # b \<and> P x \<and> (\<forall>z \<in> set b. \<not> P z)"
      then obtain a b where ab: "xs @ [y] = a @ x # b" "\<forall>z \<in> set b. \<not> P z" by blast
      then show "x = y" using True by (cases b rule: rev_cases) auto
    next
      assume "x = y"
      then show "\<exists>a b. xs @ [y] = a @ x # b \<and> P x \<and> (\<forall>z \<in> set b. \<not> P z)"
        using True by (intro exI [of _ xs] exI [of _ "[]"]) simp
    qed
    then show ?thesis using True by auto
  next
    case False
    have "(\<exists>a b. xs @ [y] = a @ x # b \<and> P x \<and> (\<forall>z \<in> set b. \<not> P z)) \<longleftrightarrow>
        (\<exists>a b. xs = a @ x # b \<and> P x \<and> (\<forall>z \<in> set b. \<not> P z))" (is "?l \<longleftrightarrow> ?r")
    proof
      assume ?l
      then obtain a b where ab: "xs @ [y] = a @ x # b" "P x" "\<forall>z \<in> set b. \<not> P z" by blast
      then have "b \<noteq> []" using False by auto
      then have "xs = a @ x # butlast b" using ab(1) by (metis butlast.simps(2) butlast_append butlast_snoc list.distinct(1))
      moreover have "\<forall>z \<in> set (butlast b). \<not> P z" using ab(3) by (auto dest: in_set_butlastD)
      ultimately show ?r using ab(2) by blast
    next
      assume ?r
      then obtain a b where "xs = a @ x # b" "P x" "\<forall>z \<in> set b. \<not> P z" by blast
      then show ?l using False by (intro exI [of _ a] exI [of _ "b @ [y]"]) auto
    qed
    then show ?thesis using False snoc by simp
  qed
qed simp

text \<open>What an interactive shell printed before the answer is passed over.\<close>

lemma parse_find_last:
  "parse_find out True = Some p \<longleftrightarrow>
     (\<exists>a b. map trim (str_lines out) = a @ p # b \<and> starts_with ''/'' p \<and> ends_with ''/tmux'' p
       \<and> (\<forall>l \<in> set b. \<not> (starts_with ''/'' l \<and> ends_with ''/tmux'' l)))"
  using find_rev_last [of "\<lambda>l. starts_with ''/'' l \<and> ends_with ''/tmux'' l" "map trim (str_lines out)" p]
  by (simp add: parse_find_def del: starts_with_char)

end
