(* ===== verification/Common.thy ===== *)
theory Common
  imports Rust_Str
begin

text \<open>
  The platform-independent text parsers of \<open>crates/sbm_parser/src/common.rs\<close>:
  line endings, uptime, os-release values and host names.
\<close>

section \<open>Line endings\<close>

definition normalize_newlines :: "string \<Rightarrow> string" where
  "normalize_newlines text = replace_char cr [nl] (replace_sub [cr, nl] [nl] text)"

section \<open>Uptime\<close>

text \<open>\<open>s.splitn(2, pat)\<close> and \<open>s.split(pat)\<close> for a non-empty pattern string.\<close>

definition split2_sub :: "string \<Rightarrow> string \<Rightarrow> (string \<times> string) option" where
  "split2_sub pat s = map_option (\<lambda>i. (take i s, drop (i + length pat) s)) (find_sub pat s)"

fun split_sub_fuel :: "nat \<Rightarrow> string \<Rightarrow> string \<Rightarrow> string list" where
  "split_sub_fuel 0 pat s = [s]"
| "split_sub_fuel (Suc n) pat s =
     (case split2_sub pat s of None \<Rightarrow> [s] | Some (a, b) \<Rightarrow> a # split_sub_fuel n pat b)"

definition split_sub :: "string \<Rightarrow> string \<Rightarrow> string list" where
  "split_sub pat s = split_sub_fuel (length s) pat s"

definition uptime_units :: "string list" where
  "uptime_units = [''min'', ''mins'', ''hr'', ''hrs'', ''sec'', ''secs'']"

definition is_uptime_remainder :: "string \<Rightarrow> bool" where
  "is_uptime_remainder part =
     (if CHR '':'' \<in> set part then \<not> contains_sub ''user'' part \<and> \<not> contains_sub ''load'' part
      else case split_once (CHR '' '') part of None \<Rightarrow> False
           | Some (count, unit) \<Rightarrow> count \<noteq> [] \<and> all_digits count \<and> unit \<in> set uptime_units)"

definition parse_uptime :: "string \<Rightarrow> string option" where
  "parse_uptime raw =
     (case split2_sub ''up '' raw of None \<Rightarrow> None
      | Some (_, uptime_part) \<Rightarrow>
          if contains_sub ''up '' uptime_part then None
          else (let segments = split_sub '', '' uptime_part; first = trim (hd segments) in
            if contains_sub ''day'' first then
              (case tl segments of [] \<Rightarrow> Some first
               | t # _ \<Rightarrow> if is_uptime_remainder (trim t) then Some (first @ '', '' @ trim t) else Some first)
            else Some first))"

text \<open>
  The products and sums are those of \<open>u64\<close> in a release build, which wrap; a
  build with overflow checks panics instead on the inputs where they do.
\<close>

definition u64_mul :: "nat \<Rightarrow> nat \<Rightarrow> nat" where
  "u64_mul a b = (a * b) mod 18446744073709551616"

definition u64_add :: "nat \<Rightarrow> nat \<Rightarrow> nat" where
  "u64_add a b = (a + b) mod 18446744073709551616"

definition DAY :: nat where
  "DAY = 86400"

definition digits :: "string \<Rightarrow> bool" where
  "digits s \<longleftrightarrow> s \<noteq> [] \<and> all_digits s"

definition unit_seconds :: "string \<Rightarrow> nat option" where
  "unit_seconds u =
     (if u = ''hr'' \<or> u = ''hrs'' then Some 3600
      else if u = ''min'' \<or> u = ''mins'' then Some 60
      else if u = ''sec'' \<or> u = ''secs'' then Some 1 else None)"

text \<open>The time of day part, after the day count: \<open>H:MM\<close> or a count and a unit.\<close>

definition uptime_rest :: "nat \<Rightarrow> string \<Rightarrow> nat option" where
  "uptime_rest days rest =
     (case split_once (CHR '':'') rest of
        Some (h, m) \<Rightarrow>
          if \<not> (digits h \<and> digits m \<and> length m = 2) then None
          else (case (parse_u64 h, parse_u64 m) of
                  (Some hv, Some mv) \<Rightarrow>
                    Some (u64_add (u64_add (u64_mul days DAY) (u64_mul hv 3600)) (u64_mul mv 60))
                | _ \<Rightarrow> None)
      | None \<Rightarrow>
          if all_digits rest then None
          else (let count = takeWhile is_ascii_digit rest; unit = dropWhile is_ascii_digit rest in
            case unit_seconds (trim_start unit) of None \<Rightarrow> None
            | Some per \<Rightarrow>
                if \<not> digits count then None
                else map_option (\<lambda>c. u64_add (u64_mul days DAY) (u64_mul c per)) (parse_u64 count)))"

datatype day_part = Answer "nat option" | Rest nat string

definition uptime_days :: "string \<Rightarrow> day_part" where
  "uptime_days rest =
     (case split_once (CHR '' '') rest of None \<Rightarrow> Rest 0 rest
      | Some (n, after) \<Rightarrow>
          if \<not> (all_digits n \<and> n \<noteq> []) then Rest 0 rest
          else (let after = trim_start after in
            case (case strip_prefix ''days'' after of Some t \<Rightarrow> Some t | None \<Rightarrow> strip_prefix ''day'' after) of
              None \<Rightarrow> Rest 0 rest
            | Some tail \<Rightarrow>
                if tail = [] then Answer (map_option (\<lambda>d. u64_mul d DAY) (parse_u64 n))
                else (case (parse_u64 n, strip_prefix '','' tail) of
                        (Some d, Some t) \<Rightarrow> Rest d (trim_start t)
                      | _ \<Rightarrow> Answer None)))"

definition uptime_seconds :: "string \<Rightarrow> nat option" where
  "uptime_seconds formatted =
     (case uptime_days (trim formatted) of Answer a \<Rightarrow> a | Rest days rest \<Rightarrow> uptime_rest days rest)"

section \<open>os-release\<close>

fun unescape_double_quoted_loop :: "string \<Rightarrow> string" where
  "unescape_double_quoted_loop [] = []"
| "unescape_double_quoted_loop [c] = [c]"
| "unescape_double_quoted_loop (c # d # s) =
     (if c \<noteq> CHR 0x5C then c # unescape_double_quoted_loop (d # s)
      else if d \<in> {CHR 0x22, CHR 0x5C, CHR ''$'', CHR 0x60} then d # unescape_double_quoted_loop s
      else CHR 0x5C # d # unescape_double_quoted_loop s)"

definition unescape_double_quoted :: "string \<Rightarrow> string" where
  "unescape_double_quoted value =
     (if CHR 0x5C \<notin> set value then value else unescape_double_quoted_loop value)"

definition strip_quotes :: "char \<Rightarrow> string \<Rightarrow> string option" where
  "strip_quotes q value = (case strip_prefix [q] value of None \<Rightarrow> None | Some v \<Rightarrow> strip_suffix [q] v)"

definition unquote :: "string \<Rightarrow> string" where
  "unquote value =
     (let v = trim value in
      case strip_quotes (CHR 0x22) v of Some inner \<Rightarrow> unescape_double_quoted inner
      | None \<Rightarrow> (case strip_quotes (CHR 0x27) v of Some inner \<Rightarrow> inner | None \<Rightarrow> v))"

fun find_map :: "('a \<Rightarrow> 'b option) \<Rightarrow> 'a list \<Rightarrow> 'b option" where
  "find_map f [] = None"
| "find_map f (x # xs) = (case f x of Some y \<Rightarrow> Some y | None \<Rightarrow> find_map f xs)"

definition os_release_value :: "string \<Rightarrow> string \<Rightarrow> string option" where
  "os_release_value raw key =
     map_option unquote
       (find_map (\<lambda>line. case strip_prefix key line of None \<Rightarrow> None | Some r \<Rightarrow> strip_prefix ''='' r)
         (map trim (str_lines raw)))"

definition parse_sys_version :: "string \<Rightarrow> string option" where
  "parse_sys_version raw =
     (case os_release_value raw ''PRETTY_NAME'' of None \<Rightarrow> None | Some v \<Rightarrow> if v = [] then None else Some v)"

definition parse_os_id :: "string \<Rightarrow> string option" where
  "parse_os_id raw =
     (case map_option to_ascii_lowercase (os_release_value raw ''ID'') of None \<Rightarrow> None
      | Some v \<Rightarrow> if v = [] then None else Some v)"

definition parse_os_id_like :: "string \<Rightarrow> string list" where
  "parse_os_id_like raw =
     (case os_release_value raw ''ID_LIKE'' of None \<Rightarrow> [] | Some v \<Rightarrow> split_whitespace (to_ascii_lowercase v))"

definition parse_hostname :: "string \<Rightarrow> string option" where
  "parse_hostname raw = (let trimmed = trim raw in if trimmed = [] then None else Some trimmed)"

section \<open>Facts about line endings\<close>

lemma replace_char_none: "c \<notin> set s \<Longrightarrow> replace_char c to s = s"
  by (induction s) (auto simp: replace_char_def)

lemma replace_char_set: "c \<notin> set to \<Longrightarrow> c \<notin> set (replace_char c to s)"
  by (auto simp: replace_char_def)

lemma replace_fuel_none: "cr \<notin> set s \<Longrightarrow> replace_fuel n [cr, nl] [nl] s = s"
  by (induction n "[cr, nl]" "[nl]" s rule: replace_fuel.induct) auto

lemma normalize_no_cr [simp]: "cr \<notin> set (normalize_newlines s)"
  unfolding normalize_newlines_def by (rule replace_char_set) (simp add: cr_def nl_def)

lemma normalize_id: "cr \<notin> set s \<Longrightarrow> normalize_newlines s = s"
  by (simp add: normalize_newlines_def replace_sub_def replace_fuel_none replace_char_none)

end
