(* ===== verification/Users.thy ===== *)
theory Users
  imports Prelude Shell Common "HOL-Library.Multiset" "HOL-Library.List_Lexorder" "HOL-Library.Product_Lexorder" "HOL-Library.Char_ord"
begin

text \<open>
  The machine's accounts and groups (\<open>crates/sbm_parser/src/users.rs\<close>): the catalog
  read from passwd and group files, one account's detail, and the commands that
  create, change and remove an account or a group. The two regular expressions
  are arguments: \<open>user_name\<close> says whether a name is one \<open>useradd\<close> accepts, \<open>sudo_rule\<close>
  gives what its two groups capture. The script that lists the catalog is text.
\<close>

declare less_char_simp [simp del] less_eq_char_simp [simp del]

section \<open>Names of accounts\<close>

definition valid_name :: "(string \<Rightarrow> bool) \<Rightarrow> string \<Rightarrow> bool" where
  "valid_name user_name name = user_name name"

text \<open>\<open>^[a-z_][a-z0-9_.-]*\$?$\<close> of \<open>users.rs\<close>.\<close>

definition name_tail_char :: "char \<Rightarrow> bool" where
  "name_tail_char c \<longleftrightarrow> is_ascii_lower c \<or> is_ascii_digit c \<or> c \<in> set ''_.-''"

definition matches_user_name :: "string \<Rightarrow> bool" where
  "matches_user_name s =
     (case s of [] \<Rightarrow> False
      | c # cs \<Rightarrow> (is_ascii_lower c \<or> c = CHR ''_'')
          \<and> list_all name_tail_char (if cs \<noteq> [] \<and> last cs = CHR ''$'' then butlast cs else cs))"

definition is_user_name_regex :: "(string \<Rightarrow> bool) \<Rightarrow> bool" where
  "is_user_name_regex re \<longleftrightarrow> (\<forall>s. re s = matches_user_name s)"

lemma name_tail_plain:
  "name_tail_char c \<Longrightarrow> \<not> is_whitespace c \<and> c \<noteq> CHR '','' \<and> c \<noteq> CHR '' '' \<and> c \<noteq> nl \<and> c \<noteq> cr"
  by (auto simp: name_tail_char_def is_whitespace_def is_ascii_lower_def is_ascii_digit_def nl_def cr_def)


section \<open>Data\<close>

record SystemUser =
  su_name :: string
  su_uid :: nat
  su_gid :: nat
  su_comment :: string
  su_home :: string
  su_shell :: string
  su_primary_group :: "string option"
  su_supplementary :: "string list"

record SystemGroup =
  sg_name :: string
  sg_gid :: nat
  sg_members :: "string list"
  sg_primary_members :: "string list"
  sg_local :: bool

record UserCatalog =
  cat_current :: string
  cat_uid_min :: nat
  cat_gid_min :: nat
  cat_users :: "SystemUser list"
  cat_groups :: "SystemGroup list"

datatype PasswordState = PasswordSet | PasswordLocked | PasswordNone

record UserDetail =
  det_password_state :: "PasswordState option"
  det_password_changed :: "int option"
  det_expires :: "int option"
  det_never_expires :: bool
  det_ssh_key_types :: "string list option"
  det_sudo_rule :: "string option"

record UserDraft =
  ud_name :: string
  ud_comment :: string
  ud_home :: string
  ud_shell :: string
  ud_primary_group :: string
  ud_supplementary :: "string list"
  ud_create_home :: bool
  ud_move_home :: bool
  ud_system :: bool
  ud_password :: "string option"

record GroupDraft =
  gd_name :: string
  gd_members :: "string list"
  gd_system :: bool

datatype UserError =
    InvalidName | LineBreak | InvalidPrimaryGroup | InvalidSupplementaryGroup | PasswordLineBreak | Renaming
  | RootNotDeletable | CurrentUserNotDeletable | CurrentUserUnknown | UnknownMember | RootGroupNotDeletable
  | GroupInUse | GroupNotLocal

fun user_error_str :: "UserError \<Rightarrow> string" where
  "user_error_str InvalidName = ''invalidName''"
| "user_error_str LineBreak = ''lineBreak''"
| "user_error_str InvalidPrimaryGroup = ''invalidPrimaryGroup''"
| "user_error_str InvalidSupplementaryGroup = ''invalidSupplementaryGroup''"
| "user_error_str PasswordLineBreak = ''passwordLineBreak''"
| "user_error_str Renaming = ''renaming''"
| "user_error_str RootNotDeletable = ''rootNotDeletable''"
| "user_error_str CurrentUserNotDeletable = ''currentUserNotDeletable''"
| "user_error_str CurrentUserUnknown = ''currentUserUnknown''"
| "user_error_str UnknownMember = ''unknownMember''"
| "user_error_str RootGroupNotDeletable = ''rootGroupNotDeletable''"
| "user_error_str GroupInUse = ''groupInUse''"
| "user_error_str GroupNotLocal = ''groupNotLocal''"

definition user_is_root :: "SystemUser \<Rightarrow> bool" where
  "user_is_root u \<longleftrightarrow> su_uid u = 0"

definition user_delete_refusal :: "(string \<Rightarrow> bool) \<Rightarrow> SystemUser \<Rightarrow> string option \<Rightarrow> UserError option" where
  "user_delete_refusal user_name u current =
     (if user_is_root u \<or> su_name u = ''root'' then Some RootNotDeletable
      else if current = Some (su_name u) then Some CurrentUserNotDeletable
      else if \<not> valid_name user_name (su_name u) then Some InvalidName else None)"

definition user_is_system :: "SystemUser \<Rightarrow> nat \<Rightarrow> bool" where
  "user_is_system u uid_min \<longleftrightarrow> su_uid u < uid_min"

definition login_disabled :: "SystemUser \<Rightarrow> bool" where
  "login_disabled u = (let executable = to_lowercase (last (split_on (CHR ''/'') (su_shell u)))
     in executable = ''false'' \<or> executable = ''nologin'')"

definition group_is_root :: "SystemGroup \<Rightarrow> bool" where
  "group_is_root g \<longleftrightarrow> sg_gid g = 0 \<or> sg_name g = ''root''"

definition group_delete_refusal :: "(string \<Rightarrow> bool) \<Rightarrow> SystemGroup \<Rightarrow> UserError option" where
  "group_delete_refusal user_name g =
     (if group_is_root g then Some RootGroupNotDeletable
      else if \<not> sg_local g then Some GroupNotLocal
      else if \<not> valid_name user_name (sg_name g) then Some InvalidName
      else if sg_primary_members g \<noteq> [] then Some GroupInUse else None)"

definition group_is_system :: "SystemGroup \<Rightarrow> nat \<Rightarrow> bool" where
  "group_is_system g gid_min \<longleftrightarrow> sg_gid g < gid_min"

definition find_user :: "UserCatalog \<Rightarrow> string \<Rightarrow> SystemUser option" where
  "find_user c name = find (\<lambda>u. su_name u = name) (cat_users c)"

definition find_group :: "UserCatalog \<Rightarrow> string \<Rightarrow> SystemGroup option" where
  "find_group c name = find (\<lambda>g. sg_name g = name) (cat_groups c)"

definition account_names :: "UserCatalog \<Rightarrow> string list" where
  "account_names c = map su_name (cat_users c)"

definition detail_is_empty :: "UserDetail \<Rightarrow> bool" where
  "detail_is_empty d \<longleftrightarrow> det_password_state d = None \<and> det_password_changed d = None \<and> det_expires d = None
     \<and> \<not> det_never_expires d \<and> det_ssh_key_types d = None \<and> det_sudo_rule d = None"

section \<open>Reading the catalog\<close>

definition CURRENT_MARKER :: string where
  "CURRENT_MARKER = ''SrvBoxUsers.Current'' @ [tab]"

definition UID_MIN_MARKER :: string where
  "UID_MIN_MARKER = ''SrvBoxUsers.UidMin'' @ [tab]"

definition GID_MIN_MARKER :: string where
  "GID_MIN_MARKER = ''SrvBoxUsers.GidMin'' @ [tab]"

definition PASSWD_MARKER :: string where
  "PASSWD_MARKER = ''SrvBoxUsers.Passwd''"

definition GROUP_MARKER :: string where
  "GROUP_MARKER = ''SrvBoxUsers.Group''"

definition LOCAL_GROUP_MARKER :: string where
  "LOCAL_GROUP_MARKER = ''SrvBoxUsers.LocalGroup''"

definition group_record :: "string \<Rightarrow> SystemGroup option" where
  "group_record line =
     (let fs = split_on (CHR '':'') line in
      if length fs < 4 then None
      else map_option (\<lambda>gid. \<lparr>sg_name = fs ! 0, sg_gid = gid,
             sg_members = remdups_adj (sort (filter (\<lambda>n. n \<noteq> []) (map trim (split_on (CHR '','') (fs ! 3))))),
             sg_primary_members = [], sg_local = False\<rparr>)
        (parse_u32 (fs ! 2)))"

record Listing =
  ls_current :: "string option"
  ls_uid_min :: nat
  ls_gid_min :: nat
  ls_passwd :: "string list list"
  ls_listed :: "SystemGroup list"
  ls_local :: "SystemGroup list"
  ls_seen :: "string list"
  ls_section :: string

definition passwd_row :: "string list \<Rightarrow> bool" where
  "passwd_row fs \<longleftrightarrow> length fs \<ge> 7 \<and> parse_u32 (fs ! 2) \<noteq> None \<and> parse_u32 (fs ! 3) \<noteq> None"

definition list_line :: "Listing \<Rightarrow> string \<Rightarrow> Listing" where
  "list_line st raw =
     (let line = trim_end raw in
      case strip_prefix CURRENT_MARKER line of Some rest \<Rightarrow> st\<lparr>ls_current := Some (trim rest)\<rparr>
      | None \<Rightarrow>
      (case strip_prefix UID_MIN_MARKER line of Some rest \<Rightarrow> st\<lparr>ls_uid_min := unwrap_or 1000 (parse_u32 (trim rest))\<rparr>
      | None \<Rightarrow>
      (case strip_prefix GID_MIN_MARKER line of Some rest \<Rightarrow> st\<lparr>ls_gid_min := unwrap_or 1000 (parse_u32 (trim rest))\<rparr>
      | None \<Rightarrow>
        if line = PASSWD_MARKER \<or> line = GROUP_MARKER \<or> line = LOCAL_GROUP_MARKER then st\<lparr>ls_section := line\<rparr>
        else if line = [] then st
        else if ls_section st = PASSWD_MARKER then
          (let fs = split_on (CHR '':'') line in
           if passwd_row fs \<and> fs ! 0 \<notin> set (ls_seen st)
           then st\<lparr>ls_seen := fs ! 0 # ls_seen st, ls_passwd := ls_passwd st @ [fs]\<rparr> else st)
        else (case group_record line of None \<Rightarrow> st
          | Some g \<Rightarrow>
              if ls_section st = GROUP_MARKER then st\<lparr>ls_listed := ls_listed st @ [g]\<rparr>
              else if ls_section st = LOCAL_GROUP_MARKER then st\<lparr>ls_local := ls_local st @ [g\<lparr>sg_local := True\<rparr>]\<rparr>
              else st))))"

definition empty_listing :: Listing where
  "empty_listing = \<lparr>ls_current = None, ls_uid_min = 1000, ls_gid_min = 1000, ls_passwd = [], ls_listed = [],
     ls_local = [], ls_seen = [], ls_section = []\<rparr>"

fun first_of_name :: "string list \<Rightarrow> SystemGroup list \<Rightarrow> SystemGroup list" where
  "first_of_name seen [] = []"
| "first_of_name seen (g # gs) =
     (if sg_name g \<in> set seen then first_of_name seen gs else g # first_of_name (sg_name g # seen) gs)"

fun index_groups :: "(nat, string) hashmap \<Rightarrow> (string, string list) hashmap \<Rightarrow> SystemGroup list \<Rightarrow>
    (nat, string) hashmap \<times> (string, string list) hashmap" where
  "index_groups by_gid supplementary [] = (by_gid, supplementary)"
| "index_groups by_gid supplementary (g # gs) =
     index_groups (hm_insert (sg_gid g) (sg_name g) by_gid)
       (foldl (\<lambda>m member. hm_modify member [] (\<lambda>v. v @ [sg_name g]) m) supplementary (sg_members g)) gs"

definition user_of :: "(nat, string) hashmap \<Rightarrow> (string, string list) hashmap \<Rightarrow> string list \<Rightarrow> SystemUser" where
  "user_of by_gid supplementary fs =
     (let gid = unwrap_or 0 (parse_u32 (fs ! 3));
          primary = hm_get by_gid gid;
          extra = unwrap_or [] (hm_get supplementary (fs ! 0));
          extra1 = (case primary of Some p \<Rightarrow> remove1 p extra | None \<Rightarrow> extra)
      in \<lparr>su_name = fs ! 0, su_uid = unwrap_or 0 (parse_u32 (fs ! 2)), su_gid = gid, su_comment = fs ! 4,
          su_home = fs ! 5, su_shell = fs ! 6, su_primary_group = primary, su_supplementary = sort extra1\<rparr>)"

definition with_primary_members :: "SystemUser list \<Rightarrow> SystemGroup \<Rightarrow> SystemGroup" where
  "with_primary_members users g =
     g\<lparr>sg_primary_members := sort (map su_name (filter (\<lambda>u. su_gid u = sg_gid g) users))\<rparr>"

definition parse_list :: "string \<Rightarrow> (UserError, UserCatalog) result" where
  "parse_list out =
     (let st = foldl list_line empty_listing (split_on nl (normalize_newlines out));
          groups = first_of_name [] (ls_local st @ ls_listed st);
          (by_gid, supplementary) = index_groups hm_empty hm_empty groups
      in case ls_current st of None \<Rightarrow> Err CurrentUserUnknown
         | Some current \<Rightarrow>
             if current = [] then Err CurrentUserUnknown
             else (let users = sort_key (\<lambda>u. (su_uid u, su_name u)) (map (user_of by_gid supplementary) (ls_passwd st))
               in Ok \<lparr>cat_current = current, cat_uid_min = ls_uid_min st, cat_gid_min = ls_gid_min st, cat_users = users,
                  cat_groups = sort_key (\<lambda>g. (sg_gid g, sg_name g)) (map (with_primary_members users) groups)\<rparr>))"

section \<open>One account's detail\<close>

definition DETAIL_SHADOW_MARKER :: string where
  "DETAIL_SHADOW_MARKER = ''SrvBoxUserDetail.Shadow''"

definition DETAIL_STATUS_MARKER :: string where
  "DETAIL_STATUS_MARKER = ''SrvBoxUserDetail.Status''"

definition DETAIL_KEYS_MARKER :: string where
  "DETAIL_KEYS_MARKER = ''SrvBoxUserDetail.Keys''"

definition DETAIL_SUDO_MARKER :: string where
  "DETAIL_SUDO_MARKER = ''SrvBoxUserDetail.Sudo''"

definition DETAIL_KEYS_READ_MARKER :: string where
  "DETAIL_KEYS_READ_MARKER = ''SrvBoxUserDetail.KeysRead''"

definition KEY_TYPE_FILTER :: string where
  "KEY_TYPE_FILTER = ''awk '' @ sq ''{ for (i = 1; i <= NF; i++) if ($i ~ /^(ssh-|ecdsa-|sk-)/) { print $i; break } }''"

definition say :: "string \<Rightarrow> string" where
  "say marker = ''printf '' @ sq (marker @ [CHR 0x5C] @ ''n'')"

definition detail_script :: "(string \<Rightarrow> bool) \<Rightarrow> SystemUser \<Rightarrow> (UserError, string) result" where
  "detail_script user_name u =
     (if \<not> valid_name user_name (su_name u) then Err InvalidName
      else (let name = shell_quote_unix (su_name u); keys = shell_quote_unix (su_home u @ ''/.ssh/authorized_keys'')
        in Ok (join [nl]
          [say DETAIL_SHADOW_MARKER, ''getent shadow '' @ name @ '' 2>/dev/null || true'',
           say DETAIL_STATUS_MARKER, ''passwd -S '' @ name @ '' 2>/dev/null || true'',
           say DETAIL_KEYS_MARKER, ''if [ -r '' @ keys @ '' ]; then'', say DETAIL_KEYS_READ_MARKER,
           KEY_TYPE_FILTER @ '' '' @ keys @ '' 2>/dev/null'', ''fi'',
           say DETAIL_SUDO_MARKER, ''sudo -nlU '' @ name @ '' 2>/dev/null || true'', []])))"

definition password_state :: "string \<Rightarrow> PasswordState option" where
  "password_state hash =
     (let v = trim hash in
      if v = [] then Some PasswordNone
      else if v = ''*'' \<or> starts_with ''!'' v then Some PasswordLocked else Some PasswordSet)"

definition days_to_millis :: "string \<Rightarrow> int option" where
  "days_to_millis raw =
     (case parse_i64 (trim raw) of None \<Rightarrow> None
      | Some days \<Rightarrow>
          if days \<le> 0 then None
          else if days * 86400000 \<le> 9223372036854775807 then Some (days * 86400000) else None)"

fun key_type_of :: "string list \<Rightarrow> string option" where
  "key_type_of [] = None"
| "key_type_of (t # ts) =
     (let token = to_lowercase t in
      case strip_prefix ''sk-ssh-'' token of Some rest \<Rightarrow> Some (''sk-'' @ rest)
      | None \<Rightarrow>
          if starts_with ''sk-ecdsa-'' token then Some ''sk-ecdsa''
          else (case strip_prefix ''ssh-'' token of Some rest \<Rightarrow> Some rest
            | None \<Rightarrow> if starts_with ''ecdsa-'' token then Some ''ecdsa'' else key_type_of ts))"

definition ssh_key_type :: "string \<Rightarrow> string option" where
  "ssh_key_type line =
     (let v = trim line in if v = [] \<or> starts_with ''#'' v then None else key_type_of (split_whitespace v))"

fun key_types :: "string list \<Rightarrow> string list \<Rightarrow> string list" where
  "key_types types [] = types"
| "key_types types (l # ls) =
     (case ssh_key_type l of None \<Rightarrow> key_types types ls
      | Some t \<Rightarrow> key_types (if t \<in> set types then types else types @ [t]) ls)"

definition detail_line ::
  "(string, string list) hashmap \<times> string \<Rightarrow> string \<Rightarrow> (string, string list) hashmap \<times> string" where
  "detail_line st raw = (case st of (m, current) \<Rightarrow>
     (let line = trim_end raw in
      if line \<in> set [DETAIL_SHADOW_MARKER, DETAIL_STATUS_MARKER, DETAIL_KEYS_MARKER, DETAIL_SUDO_MARKER]
      then (hm_insert line [] m, line)
      else if current = [] then (m, current)
      else (case hm_get m current of None \<Rightarrow> (m, current) | Some ls \<Rightarrow> (hm_insert current (ls @ [line]) m, current))))"

definition detail_sections :: "string \<Rightarrow> (string, string list) hashmap" where
  "detail_sections out = fst (foldl detail_line (hm_empty, []) (split_on nl (normalize_newlines out)))"

definition status_state :: "string \<Rightarrow> string list \<Rightarrow> PasswordState option" where
  "status_state name ls =
     (case find (\<lambda>l. split_whitespace l \<noteq> [] \<and> hd (split_whitespace l) = name) ls of None \<Rightarrow> None
      | Some l \<Rightarrow>
          (let fs = split_whitespace l in
           if length fs < 2 then None
           else (let word = to_ascii_uppercase (fs ! 1) in
             if word = ''P'' then Some PasswordSet else if word = ''L'' then Some PasswordLocked
             else if word = ''NP'' then Some PasswordNone else None)))"

definition no_detail :: UserDetail where
  "no_detail = \<lparr>det_password_state = None, det_password_changed = None, det_expires = None,
     det_never_expires = False, det_ssh_key_types = None, det_sudo_rule = None\<rparr>"

definition shadow_detail :: "string \<Rightarrow> UserDetail" where
  "shadow_detail shadow =
     (let fs = split_on (CHR '':'') shadow;
          d1 = (if length fs \<ge> 2 then no_detail\<lparr>det_password_state := password_state (fs ! 1)\<rparr> else no_detail);
          d2 = (if length fs \<ge> 3 then d1\<lparr>det_password_changed := days_to_millis (fs ! 2)\<rparr> else d1)
      in if length fs \<ge> 8
         then d2\<lparr>det_never_expires := (trim (fs ! 7) = []),
                det_expires := (if trim (fs ! 7) = [] then None else days_to_millis (trim (fs ! 7)))\<rparr>
         else d2)"

definition parse_detail :: "(string \<Rightarrow> (string \<times> string) option) \<Rightarrow> string \<Rightarrow> string \<Rightarrow> UserDetail" where
  "parse_detail sudo_rule out name =
     (let m = detail_sections out;
          shadow = Option.bind (hm_get m DETAIL_SHADOW_MARKER) (find (\<lambda>l. hd (split_on (CHR '':'') l) = name));
          d1 = (case shadow of Some l \<Rightarrow> shadow_detail l
                | None \<Rightarrow> no_detail\<lparr>det_password_state :=
                    Option.bind (hm_get m DETAIL_STATUS_MARKER) (status_state name)\<rparr>);
          keys = (case hm_get m DETAIL_KEYS_MARKER of
                    Some (l # ls) \<Rightarrow> if trim l = DETAIL_KEYS_READ_MARKER then Some (key_types [] ls) else None
                  | _ \<Rightarrow> None);
          rules = List.map_filter (\<lambda>l. map_option (\<lambda>(_, r). trim r) (sudo_rule l))
                    (unwrap_or [] (hm_get m DETAIL_SUDO_MARKER))
      in d1\<lparr>det_ssh_key_types := keys, det_sudo_rule := (case rules of [] \<Rightarrow> None | r # _ \<Rightarrow> Some r)\<rparr>)"

section \<open>Commands on accounts\<close>

definition has_line_break :: "string \<Rightarrow> bool" where
  "has_line_break v \<longleftrightarrow> nl \<in> set v \<or> cr \<in> set v \<or> nul \<in> set v"

definition validate_draft :: "(string \<Rightarrow> bool) \<Rightarrow> UserDraft \<Rightarrow> UserError option" where
  "validate_draft user_name d =
     (if \<not> valid_name user_name (ud_name d) then Some InvalidName
      else if list_ex has_line_break [ud_comment d, ud_home d, ud_shell d, ud_primary_group d] then Some LineBreak
      else if ud_primary_group d \<noteq> [] \<and> \<not> valid_name user_name (ud_primary_group d) then Some InvalidPrimaryGroup
      else if list_ex (\<lambda>g. \<not> valid_name user_name g) (ud_supplementary d) then Some InvalidSupplementaryGroup
      else if (case ud_password d of None \<Rightarrow> False | Some p \<Rightarrow> has_line_break p) then Some PasswordLineBreak
      else None)"

definition with_password :: "string \<Rightarrow> string \<Rightarrow> string option \<Rightarrow> string" where
  "with_password command user password =
     (case password of None \<Rightarrow> command
      | Some p \<Rightarrow>
          if p = [] then command
          else ''set -e'' @ [nl] @ command @ [nl] @ ''chpasswd <<'' @ sq ''SrvBoxUserPassword'' @ [nl] @ user @ '':'' @ p
            @ [nl] @ ''SrvBoxUserPassword'')"

definition opt :: "bool \<Rightarrow> string list \<Rightarrow> string list" where
  "opt b ws = (if b then ws else [])"

definition create_args :: "UserDraft \<Rightarrow> string list" where
  "create_args d = [''useradd''] @ opt (ud_system d) [''-r''] @ [if ud_create_home d then ''-m'' else ''-M'']
     @ opt (ud_comment d \<noteq> []) [''-c'', shell_quote_unix (ud_comment d)]
     @ opt (ud_home d \<noteq> []) [''-d'', shell_quote_unix (ud_home d)]
     @ opt (ud_shell d \<noteq> []) [''-s'', shell_quote_unix (ud_shell d)]
     @ opt (ud_primary_group d \<noteq> []) [''-g'', shell_quote_unix (ud_primary_group d)]
     @ opt (ud_supplementary d \<noteq> []) [''-G'', shell_quote_unix (join '','' (ud_supplementary d))]
     @ [shell_quote_unix (ud_name d)]"

definition create_command :: "(string \<Rightarrow> bool) \<Rightarrow> UserDraft \<Rightarrow> (UserError, string) result" where
  "create_command user_name d =
     (case validate_draft user_name d of Some e \<Rightarrow> Err e
      | None \<Rightarrow> Ok (with_password (join '' '' (create_args d)) (ud_name d) (ud_password d)))"

definition edit_args :: "SystemUser \<Rightarrow> UserDraft \<Rightarrow> string list" where
  "edit_args u d = [''usermod'']
     @ opt (ud_comment d \<noteq> su_comment u) [''-c'', shell_quote_unix (ud_comment d)]
     @ opt (ud_home d \<noteq> [] \<and> ud_home d \<noteq> su_home u)
         ([''-d'', shell_quote_unix (ud_home d)] @ opt (ud_move_home d) [''-m''])
     @ opt (ud_shell d \<noteq> [] \<and> ud_shell d \<noteq> su_shell u) [''-s'', shell_quote_unix (ud_shell d)]
     @ opt (ud_primary_group d \<noteq> [] \<and> Some (ud_primary_group d) \<noteq> su_primary_group u)
         [''-g'', shell_quote_unix (ud_primary_group d)]
     @ opt (ud_supplementary d \<noteq> su_supplementary u) [''-G'', shell_quote_unix (join '','' (ud_supplementary d))]"

definition edit_command :: "(string \<Rightarrow> bool) \<Rightarrow> SystemUser \<Rightarrow> UserDraft \<Rightarrow> (UserError, string) result" where
  "edit_command user_name u d =
     (case validate_draft user_name d of Some e \<Rightarrow> Err e
      | None \<Rightarrow>
          if ud_name d \<noteq> su_name u then Err Renaming
          else (let args = edit_args u d;
                    command = (if length args = 1 then '':'' else join '' '' (args @ [shell_quote_unix (su_name u)]))
            in Ok (with_password command (su_name u) (ud_password d))))"

definition delete_command :: "(string \<Rightarrow> bool) \<Rightarrow> SystemUser \<Rightarrow> bool \<Rightarrow> (UserError, string) result" where
  "delete_command user_name u remove_home =
     (if user_is_root u \<or> su_name u = ''root'' then Err RootNotDeletable
      else if \<not> valid_name user_name (su_name u) then Err InvalidName
      else Ok (join '' '' ([''userdel''] @ opt remove_home [''-r''] @ [shell_quote_unix (su_name u)])))"

definition login_shell_command :: "string \<Rightarrow> string" where
  "login_shell_command user = ''su - '' @ shell_quote_unix user"

section \<open>Commands on groups\<close>

definition validate_group_draft ::
  "(string \<Rightarrow> bool) \<Rightarrow> GroupDraft \<Rightarrow> SystemGroup option \<Rightarrow> string list \<Rightarrow> UserError option" where
  "validate_group_draft user_name d original accounts =
     (let kept = (case original of None \<Rightarrow> [] | Some g \<Rightarrow> sg_members g);
          wrong = (case original of
             None \<Rightarrow> if \<not> valid_name user_name (gd_name d) then Some InvalidName else None
           | Some g \<Rightarrow> if gd_name d \<noteq> sg_name g then Some Renaming else if \<not> sg_local g then Some GroupNotLocal else None)
      in case wrong of Some e \<Rightarrow> Some e
         | None \<Rightarrow> if list_ex (\<lambda>m. m \<notin> set kept \<and> m \<notin> set accounts) (gd_members d) then Some UnknownMember else None)"

definition sorted_members :: "string list \<Rightarrow> string list" where
  "sorted_members ms = remdups_adj (sort ms)"

definition gpasswd_members :: "string \<Rightarrow> string list \<Rightarrow> string" where
  "gpasswd_members grp ms =
     ''gpasswd -M '' @ shell_quote_unix (join '','' (sorted_members ms)) @ '' '' @ shell_quote_unix grp"

definition group_create_command ::
  "(string \<Rightarrow> bool) \<Rightarrow> GroupDraft \<Rightarrow> string list \<Rightarrow> (UserError, string) result" where
  "group_create_command user_name d accounts =
     (case validate_group_draft user_name d None accounts of Some e \<Rightarrow> Err e
      | None \<Rightarrow>
          (let command = ''groupadd '' @ (if gd_system d then ''-r '' else []) @ shell_quote_unix (gd_name d) in
           if gd_members d = [] then Ok command
           else Ok (''set -e'' @ [nl] @ ''command -v gpasswd >/dev/null || { echo '' @ sq ''gpasswd: not found''
             @ '' >&2; exit 127; }'' @ [nl] @ command @ [nl] @ gpasswd_members (gd_name d) (gd_members d))))"

definition edit_steps :: "SystemGroup \<Rightarrow> string list \<Rightarrow> string list" where
  "edit_steps g wanted =
     map (\<lambda>m. ''gpasswd -d '' @ shell_quote_unix m @ '' '' @ shell_quote_unix (sg_name g))
       (filter (\<lambda>m. m \<notin> set wanted) (sg_members g))
     @ map (\<lambda>m. ''gpasswd -a '' @ shell_quote_unix m @ '' '' @ shell_quote_unix (sg_name g))
       (filter (\<lambda>m. m \<notin> set (sg_members g)) wanted)"

definition group_edit_command ::
  "(string \<Rightarrow> bool) \<Rightarrow> SystemGroup \<Rightarrow> GroupDraft \<Rightarrow> string list \<Rightarrow> (UserError, string) result" where
  "group_edit_command user_name g d accounts =
     (case validate_group_draft user_name d (Some g) accounts of Some e \<Rightarrow> Err e
      | None \<Rightarrow>
          (case edit_steps g (sorted_members (gd_members d)) of
             [] \<Rightarrow> Ok '':''
           | [step] \<Rightarrow> Ok step
           | steps \<Rightarrow> Ok (''set -e'' @ [nl] @ join [nl] steps)))"

definition group_delete_command :: "(string \<Rightarrow> bool) \<Rightarrow> SystemGroup \<Rightarrow> (UserError, string) result" where
  "group_delete_command user_name g =
     (case group_delete_refusal user_name g of Some e \<Rightarrow> Err e
      | None \<Rightarrow> Ok (''groupdel '' @ shell_quote_unix (sg_name g)))"

section \<open>The catalog agrees with itself\<close>

definition listing_ok :: "Listing \<Rightarrow> bool" where
  "listing_ok st \<longleftrightarrow> distinct (map hd (ls_passwd st)) \<and> hd ` set (ls_passwd st) = set (ls_seen st)
     \<and> (\<forall>fs \<in> set (ls_passwd st). passwd_row fs)
     \<and> (\<forall>g \<in> set (ls_local st @ ls_listed st). distinct (sg_members g))"

lemma distinct_remdups_adj_sorted: "sorted xs \<Longrightarrow> distinct (remdups_adj xs)" for xs :: "'a::linorder list"
  by (induction xs rule: remdups_adj.induct) (auto simp: less_le_not_le)

lemma group_record_distinct: "group_record line = Some g \<Longrightarrow> distinct (sg_members g)"
  by (auto simp: group_record_def Let_def distinct_remdups_adj_sorted split: if_splits)

lemma passwd_row_hd: "passwd_row fs \<Longrightarrow> fs ! 0 = hd fs"
  by (cases fs) (auto simp: passwd_row_def)

lemma listing_ok_updates:
  "listing_ok (st\<lparr>ls_current := x\<rparr>) = listing_ok st"
  "listing_ok (st\<lparr>ls_uid_min := n\<rparr>) = listing_ok st"
  "listing_ok (st\<lparr>ls_gid_min := n\<rparr>) = listing_ok st"
  "listing_ok (st\<lparr>ls_section := sec\<rparr>) = listing_ok st"
  by (simp_all add: listing_ok_def)

lemma listing_ok_passwd:
  "listing_ok st \<Longrightarrow> passwd_row fs \<and> fs ! 0 \<notin> set (ls_seen st) \<Longrightarrow>
     listing_ok (st\<lparr>ls_seen := fs ! 0 # ls_seen st, ls_passwd := ls_passwd st @ [fs]\<rparr>)"
proof -
  assume st: "listing_ok st" and fs: "passwd_row fs \<and> fs ! 0 \<notin> set (ls_seen st)"
  have h: "fs ! 0 = hd fs" using fs passwd_row_hd by blast
  show ?thesis using st fs unfolding listing_ok_def h by auto
qed

lemma listing_ok_groups:
  "listing_ok st \<Longrightarrow> distinct (sg_members g) \<Longrightarrow> listing_ok (st\<lparr>ls_listed := ls_listed st @ [g]\<rparr>)"
  "listing_ok st \<Longrightarrow> distinct (sg_members g) \<Longrightarrow> listing_ok (st\<lparr>ls_local := ls_local st @ [g\<lparr>sg_local := True\<rparr>]\<rparr>)"
  by (auto simp: listing_ok_def)

definition list_row :: "Listing \<Rightarrow> string \<Rightarrow> Listing" where
  "list_row st line =
     (if ls_section st = PASSWD_MARKER then
        (if passwd_row (split_on (CHR '':'') line) \<and> split_on (CHR '':'') line ! 0 \<notin> set (ls_seen st)
         then st\<lparr>ls_seen := split_on (CHR '':'') line ! 0 # ls_seen st, ls_passwd := ls_passwd st @ [split_on (CHR '':'') line]\<rparr>
         else st)
      else (case group_record line of None \<Rightarrow> st
        | Some g \<Rightarrow>
            if ls_section st = GROUP_MARKER then st\<lparr>ls_listed := ls_listed st @ [g]\<rparr>
            else if ls_section st = LOCAL_GROUP_MARKER then st\<lparr>ls_local := ls_local st @ [g\<lparr>sg_local := True\<rparr>]\<rparr>
            else st))"

lemma list_row_ok: "listing_ok st \<Longrightarrow> listing_ok (list_row st line)"
proof (cases "ls_section st = PASSWD_MARKER")
  case True
  assume "listing_ok st"
  then show ?thesis
    by (cases "passwd_row (split_on (CHR '':'') line) \<and> split_on (CHR '':'') line ! 0 \<notin> set (ls_seen st)")
      (simp_all only: list_row_def True if_True if_False listing_ok_passwd simp_thms)
next
  case False
  assume st: "listing_ok st"
  show ?thesis
  proof (cases "group_record line")
    case None
    then show ?thesis using st False by (simp only: list_row_def if_False option.case)
  next
    case (Some g)
    have "distinct (sg_members g)" by (rule group_record_distinct [OF Some])
    then show ?thesis
      using st listing_ok_groups [of st g]
      by (simp only: list_row_def False Some if_False option.case simp_thms split: if_split)
  qed
qed

lemma list_line_ok:
  assumes "listing_ok st"
  shows "listing_ok (list_line st raw)"
proof -
  define line where "line = trim_end raw"
  have unf: "list_line st raw =
     (case strip_prefix CURRENT_MARKER line of Some rest \<Rightarrow> st\<lparr>ls_current := Some (trim rest)\<rparr>
      | None \<Rightarrow>
      (case strip_prefix UID_MIN_MARKER line of Some rest \<Rightarrow> st\<lparr>ls_uid_min := unwrap_or 1000 (parse_u32 (trim rest))\<rparr>
      | None \<Rightarrow>
      (case strip_prefix GID_MIN_MARKER line of Some rest \<Rightarrow> st\<lparr>ls_gid_min := unwrap_or 1000 (parse_u32 (trim rest))\<rparr>
      | None \<Rightarrow>
        if line = PASSWD_MARKER \<or> line = GROUP_MARKER \<or> line = LOCAL_GROUP_MARKER then st\<lparr>ls_section := line\<rparr>
        else if line = [] then st else list_row st line)))"
    by (simp only: list_line_def list_row_def Let_def line_def)
  note ok = assms listing_ok_updates list_row_ok [OF assms, of line]
  show ?thesis
  proof (cases "strip_prefix CURRENT_MARKER line")
    case None
    note 1 = this
    show ?thesis
    proof (cases "strip_prefix UID_MIN_MARKER line")
      case None
      note 2 = this
      show ?thesis by (cases "strip_prefix GID_MIN_MARKER line") (simp_all only: unf 1 2 option.case ok if_cancel simp_thms split: if_split)
    qed (simp only: unf 1 option.case ok)
  qed (simp only: unf option.case ok)
qed

lemma list_lines_ok: "listing_ok st \<Longrightarrow> listing_ok (foldl list_line st ls)"
  by (induction ls arbitrary: st) (simp_all add: list_line_ok)

lemma empty_listing_ok: "listing_ok empty_listing"
  by (simp add: empty_listing_def listing_ok_def)

lemma first_of_name:
  "distinct (map sg_name (first_of_name seen gs)) \<and> set (first_of_name seen gs) \<subseteq> set gs
   \<and> (\<forall>g \<in> set (first_of_name seen gs). sg_name g \<notin> set seen)"
proof (induction gs arbitrary: seen)
  case (Cons g gs)
  show ?case
  proof (cases "sg_name g \<in> set seen")
    case True
    then show ?thesis using Cons [of seen] by auto
  next
    case False
    then show ?thesis using Cons [of "sg_name g # seen"] by (auto simp: image_iff)
  qed
qed simp

lemma push_members:
  "distinct ms \<Longrightarrow>
     unwrap_or [] (hm_get (foldl (\<lambda>m member. hm_modify member [] (\<lambda>v. v @ [x]) m) sp ms) n) =
       unwrap_or [] (hm_get sp n) @ (if n \<in> set ms then [x] else [])"
proof (induction ms arbitrary: sp)
  case (Cons m ms)
  have "hm_get (hm_modify m [] (\<lambda>v. v @ [x]) sp) n =
      (if n = m then Some (unwrap_or [] (hm_get sp n) @ [x]) else hm_get sp n)"
    by (simp add: unwrap_or_def split: option.split)
  then show ?case using Cons by (simp add: unwrap_or_def)
qed simp

lemma index_supplementary:
  "\<forall>g \<in> set gs. distinct (sg_members g) \<Longrightarrow>
     unwrap_or [] (hm_get (snd (index_groups bg sp gs)) n) =
       unwrap_or [] (hm_get sp n) @ map sg_name (filter (\<lambda>g. n \<in> set (sg_members g)) gs)"
proof (induction gs arbitrary: bg sp)
  case (Cons g gs)
  then show ?case by (simp add: push_members)
qed simp

lemma index_by_gid:
  "hm_get (fst (index_groups bg sp gs)) gid =
     (case filter (\<lambda>g. sg_gid g = gid) gs of [] \<Rightarrow> hm_get bg gid | hs \<Rightarrow> Some (sg_name (last hs)))"
proof (induction gs arbitrary: bg sp)
  case (Cons g gs)
  then show ?case by (auto split: list.splits)
qed simp

lemma distinct_map_sort_key: "distinct (map f (sort_key k xs)) = distinct (map f xs)"
  by (rule mset_eq_imp_distinct_iff) simp

lemma catalog_parts:
  assumes "parse_list out = Ok c"
  obtains rows groups sp bg where
    "distinct (map hd rows)" "\<forall>fs \<in> set rows. fs ! 0 = hd fs"
    "distinct (map sg_name groups)" "\<forall>g \<in> set groups. distinct (sg_members g)"
    "index_groups hm_empty hm_empty groups = (bg, sp)"
    "cat_users c = sort_key (\<lambda>u. (su_uid u, su_name u)) (map (user_of bg sp) rows)"
    "cat_groups c = sort_key (\<lambda>g. (sg_gid g, sg_name g)) (map (with_primary_members (cat_users c)) groups)"
proof -
  define st where "st = foldl list_line empty_listing (split_on nl (normalize_newlines out))"
  define groups where "groups = first_of_name [] (ls_local st @ ls_listed st)"
  obtain bg sp where ix: "index_groups hm_empty hm_empty groups = (bg, sp)" by fastforce
  have "listing_ok st" unfolding st_def by (rule list_lines_ok [OF empty_listing_ok])
  then have rows: "distinct (map hd (ls_passwd st))" "\<forall>fs \<in> set (ls_passwd st). fs ! 0 = hd fs"
    and members: "\<forall>g \<in> set (ls_local st @ ls_listed st). distinct (sg_members g)"
    using passwd_row_hd by (auto simp: listing_ok_def)
  have names: "distinct (map sg_name groups)" "\<forall>g \<in> set groups. distinct (sg_members g)"
    using first_of_name [of "[]" "ls_local st @ ls_listed st"] members unfolding groups_def by blast+
  have "cat_users c = sort_key (\<lambda>u. (su_uid u, su_name u)) (map (user_of bg sp) (ls_passwd st))
      \<and> cat_groups c = sort_key (\<lambda>g. (sg_gid g, sg_name g)) (map (with_primary_members (cat_users c)) groups)"
    using assms ix unfolding parse_list_def st_def [symmetric] Let_def groups_def [symmetric]
    by (auto split: option.splits if_splits)
  then show ?thesis using that [OF rows names ix] by blast
qed

lemma user_of_simps [simp]:
  "su_name (user_of bg sp fs) = fs ! 0"
  "su_primary_group (user_of bg sp fs) = hm_get bg (su_gid (user_of bg sp fs))"
  by (simp_all add: user_of_def Let_def)

lemma with_primary_simps [simp]:
  "sg_name (with_primary_members us g) = sg_name g" "sg_gid (with_primary_members us g) = sg_gid g"
  "sg_members (with_primary_members us g) = sg_members g"
  by (simp_all add: with_primary_members_def)

text \<open>
  C23. The catalog agrees with itself. Whatever the machine printed, no account and no
  group is listed twice, and the two lists say the same: a group is among an
  account's supplementary groups exactly when it lists the account as a member and
  is not its primary group; an account is among a group's primary members exactly
  when their gids agree; and an account without a primary group has a gid no group
  carries.
\<close>

theorem catalog_agrees_with_itself:
  assumes "parse_list out = Ok c"
  shows "distinct (map su_name (cat_users c)) \<and> distinct (map sg_name (cat_groups c))
    \<and> (\<forall>u \<in> set (cat_users c). \<forall>g \<in> set (cat_groups c).
        (sg_name g \<in> set (su_supplementary u) \<longleftrightarrow>
           su_name u \<in> set (sg_members g) \<and> su_primary_group u \<noteq> Some (sg_name g))
      \<and> (su_name u \<in> set (sg_primary_members g) \<longleftrightarrow> su_gid u = sg_gid g)
      \<and> (su_primary_group u = Some (sg_name g) \<longrightarrow> su_gid u = sg_gid g)
      \<and> (su_primary_group u = None \<longrightarrow> su_gid u \<noteq> sg_gid g))"
proof -
  obtain rows groups sp bg where
    rows: "distinct (map hd rows)" "\<forall>fs \<in> set rows. fs ! 0 = hd fs"
    and names: "distinct (map sg_name groups)" and members: "\<forall>g \<in> set groups. distinct (sg_members g)"
    and ix: "index_groups hm_empty hm_empty groups = (bg, sp)"
    and users: "cat_users c = sort_key (\<lambda>u. (su_uid u, su_name u)) (map (user_of bg sp) rows)"
    and gs: "cat_groups c = sort_key (\<lambda>g. (sg_gid g, sg_name g)) (map (with_primary_members (cat_users c)) groups)"
    by (rule catalog_parts [OF assms])
  have bg: "hm_get bg gid = (case filter (\<lambda>g. sg_gid g = gid) groups of [] \<Rightarrow> None | hs \<Rightarrow> Some (sg_name (last hs)))" for gid
    using index_by_gid [of hm_empty hm_empty groups gid] by (simp add: ix split: list.split)
  have sp: "unwrap_or [] (hm_get sp n) = map sg_name (filter (\<lambda>g. n \<in> set (sg_members g)) groups)" for n
    using index_supplementary [OF members, of hm_empty hm_empty n] by (simp add: ix unwrap_or_def)
  have "map su_name (map (user_of bg sp) rows) = map hd rows" using rows(2) by simp
  then have du: "distinct (map su_name (cat_users c))"
    using rows(1) by (simp only: users distinct_map_sort_key)
  moreover have "distinct (map sg_name (cat_groups c))"
    using names by (simp add: gs distinct_map_sort_key comp_def)
  moreover have "(sg_name g \<in> set (su_supplementary u) \<longleftrightarrow>
           su_name u \<in> set (sg_members g) \<and> su_primary_group u \<noteq> Some (sg_name g))
      \<and> (su_name u \<in> set (sg_primary_members g) \<longleftrightarrow> su_gid u = sg_gid g)
      \<and> (su_primary_group u = Some (sg_name g) \<longrightarrow> su_gid u = sg_gid g)
      \<and> (su_primary_group u = None \<longrightarrow> su_gid u \<noteq> sg_gid g)"
    if u: "u \<in> set (cat_users c)" and g: "g \<in> set (cat_groups c)" for u g
  proof -
    obtain fs where fs: "u = user_of bg sp fs" using u by (auto simp: users)
    obtain h where h: "h \<in> set groups" "g = with_primary_members (cat_users c) h" using g by (auto simp: gs)
    have same: "k = h" if "k \<in> set groups" "sg_name k = sg_name h" for k
      using names h(1) that by (auto simp: distinct_map dest: inj_onD)
    let ?extra = "map sg_name (filter (\<lambda>g. su_name u \<in> set (sg_members g)) groups)"
    have "set (su_supplementary u) = set (case su_primary_group u of Some p \<Rightarrow> remove1 p ?extra | None \<Rightarrow> ?extra)"
      by (simp add: fs user_of_def Let_def sp split: option.split)
    moreover have "distinct ?extra" using names by (simp add: distinct_map_filter)
    ultimately have supp: "set (su_supplementary u) = {n \<in> set ?extra. su_primary_group u \<noteq> Some n}"
      by (auto split: option.splits)
    have 1: "sg_name g \<in> set (su_supplementary u) \<longleftrightarrow>
        su_name u \<in> set (sg_members g) \<and> su_primary_group u \<noteq> Some (sg_name g)"
    proof -
      have "sg_name h \<in> set ?extra \<longleftrightarrow> su_name u \<in> set (sg_members h)"
      proof
        assume "sg_name h \<in> set ?extra"
        then obtain k where "k \<in> set groups" "su_name u \<in> set (sg_members k)" "sg_name k = sg_name h" by fastforce
        then show "su_name u \<in> set (sg_members h)" using same by blast
      qed (use h(1) in force)
      then show ?thesis unfolding supp by (simp add: h(2))
    qed
    have same_user: "v = u" if "v \<in> set (cat_users c)" "su_name v = su_name u" for v
      using du u that unfolding distinct_map by (blast dest: inj_onD)
    have mem: "set (sg_primary_members g) = su_name ` {v \<in> set (cat_users c). su_gid v = sg_gid g}"
      by (auto simp: h(2) with_primary_members_def)
    have 2: "su_name u \<in> set (sg_primary_members g) \<longleftrightarrow> su_gid u = sg_gid g"
    proof
      assume "su_name u \<in> set (sg_primary_members g)"
      then obtain v where "v \<in> set (cat_users c)" "su_gid v = sg_gid g" "su_name v = su_name u"
        unfolding mem by force
      then show "su_gid u = sg_gid g" using same_user by blast
    next
      assume "su_gid u = sg_gid g"
      then show "su_name u \<in> set (sg_primary_members g)" unfolding mem using u by blast
    qed
    have 3: "su_gid u = sg_gid g" if p: "su_primary_group u = Some (sg_name g)"
    proof -
      have ne: "filter (\<lambda>k. sg_gid k = su_gid u) groups \<noteq> []" (is "?hs \<noteq> []")
        using p by (auto simp: fs bg)
      then have "sg_name (last ?hs) = sg_name g" using p by (cases ?hs) (auto simp: fs bg)
      moreover have "last ?hs \<in> set groups \<and> sg_gid (last ?hs) = su_gid u" using last_in_set [OF ne] by auto
      ultimately have "last ?hs = h" using same [of "last ?hs"] h(2) by simp
      then show ?thesis using \<open>last ?hs \<in> set groups \<and> sg_gid (last ?hs) = su_gid u\<close> h(2) by simp
    qed
    have 4: "su_gid u \<noteq> sg_gid g" if p: "su_primary_group u = None"
    proof
      assume "su_gid u = sg_gid g"
      then have "filter (\<lambda>k. sg_gid k = su_gid u) groups \<noteq> []" using h by (auto simp: filter_empty_conv)
      then show False using p by (cases "filter (\<lambda>k. sg_gid k = su_gid u) groups") (simp_all add: fs bg)
    qed
    show ?thesis using 1 2 3 4 by blast
  qed
  ultimately show ?thesis by blast
qed

definition demo_lines :: "string list" where
  "demo_lines = [''SrvBoxUsers.Current'' @ [tab] @ ''a'', ''SrvBoxUsers.Passwd'', ''a:x:1:2:c:/h:s'', ''SrvBoxUsers.Group'',
     ''g:x:2:'', ''h:x:3:a'']"

lemma demo_prefixes:
  "list_all (\<lambda>l. trim_end l = l) demo_lines"
  "map (\<lambda>l. (strip_prefix CURRENT_MARKER l, strip_prefix UID_MIN_MARKER l, strip_prefix GID_MIN_MARKER l)) demo_lines =
     [(Some ''a'', None, None), (None, None, None), (None, None, None), (None, None, None), (None, None, None), (None, None, None)]"
  "map (split_on (CHR '':'')) demo_lines = [[''SrvBoxUsers.Current'' @ [tab] @ ''a''], [''SrvBoxUsers.Passwd''],
     [''a'', ''x'', ''1'', ''2'', ''c'', ''/h'', ''s''], [''SrvBoxUsers.Group''], [''g'', ''x'', ''2'', []], [''h'', ''x'', ''3'', ''a'']]"
  "map trim [[], ''a''] = [[], ''a'']" "map (split_on (CHR '','')) [[], ''a''] = [[[]], [''a'']]"
  by code_simp+

lemma demo_numbers: "parse_u32 ''1'' = Some 1" "parse_u32 ''2'' = Some 2" "parse_u32 ''3'' = Some 3"
  by (simp_all add: parse_uint_def parse_digits_def all_digits_def is_ascii_digit_def digits_val_def digit_val_def)

lemma demo_groups:
  "group_record ''g:x:2:'' = Some \<lparr>sg_name = ''g'', sg_gid = 2, sg_members = [], sg_primary_members = [], sg_local = False\<rparr>"
  "group_record ''h:x:3:a'' = Some \<lparr>sg_name = ''h'', sg_gid = 3, sg_members = [''a''], sg_primary_members = [], sg_local = False\<rparr>"
  using demo_prefixes by (simp_all add: group_record_def demo_lines_def demo_numbers)

lemma demo_text: "split_on nl (normalize_newlines (join [nl] demo_lines)) = demo_lines"
proof -
  have "cr \<notin> set (join [nl] demo_lines)" by (simp add: demo_lines_def tab_def nl_def cr_def)
  then have n: "normalize_newlines (join [nl] demo_lines) = join [nl] demo_lines" by (rule normalize_id)
  have "\<forall>w \<in> set demo_lines. nl \<notin> set w" "demo_lines \<noteq> []" by (simp_all add: demo_lines_def tab_def nl_def)
  then show ?thesis unfolding n by (intro split_on_join) blast+
qed

lemma demo_listing: "foldl list_line empty_listing demo_lines =
   \<lparr>ls_current = Some ''a'', ls_uid_min = 1000, ls_gid_min = 1000,
    ls_passwd = [[''a'', ''x'', ''1'', ''2'', ''c'', ''/h'', ''s'']],
    ls_listed = [\<lparr>sg_name = ''g'', sg_gid = 2, sg_members = [], sg_primary_members = [], sg_local = False\<rparr>,
      \<lparr>sg_name = ''h'', sg_gid = 3, sg_members = [''a''], sg_primary_members = [], sg_local = False\<rparr>],
    ls_local = [], ls_seen = [''a''], ls_section = GROUP_MARKER\<rparr>"
  using demo_prefixes
  by (simp add: demo_lines_def list_line_def empty_listing_def PASSWD_MARKER_def GROUP_MARKER_def
      LOCAL_GROUP_MARKER_def passwd_row_def demo_numbers demo_groups)

lemma demo_catalog:
  "split_on nl (normalize_newlines out) = demo_lines \<Longrightarrow> \<exists>c. parse_list out = Ok c \<and> map su_name (cat_users c) = [''a'']
     \<and> map su_primary_group (cat_users c) = [Some ''g''] \<and> map sg_name (cat_groups c) = [''g'', ''h'']"
  by (simp add: parse_list_def demo_listing user_of_def Let_def demo_numbers with_primary_members_def unwrap_or_def)

lemma catalog_agrees_with_itself_witness:
  "\<exists>c u. parse_list (join [nl] demo_lines) = Ok c \<and> cat_users c = [u] \<and> su_primary_group u = Some ''g''
     \<and> map sg_name (cat_groups c) = [''g'', ''h''] \<and> su_gid u = sg_gid (hd (cat_groups c))"
proof -
  obtain c where c: "parse_list (join [nl] demo_lines) = Ok c" "map su_name (cat_users c) = [''a'']"
    "map su_primary_group (cat_users c) = [Some ''g'']" "map sg_name (cat_groups c) = [''g'', ''h'']"
    using demo_catalog [OF demo_text] by (elim exE conjE) (rule that)
  obtain u where u: "cat_users c = [u]" "su_primary_group u = Some ''g''"
    using c(2,3) by (cases "cat_users c") auto
  obtain g gs where g: "cat_groups c = g # gs" "sg_name g = ''g''" using c(4) by (cases "cat_groups c") auto
  have "u \<in> set (cat_users c)" "g \<in> set (cat_groups c)" using u g by simp_all
  from catalog_agrees_with_itself [OF c(1), THEN conjunct2, THEN conjunct2, THEN bspec, OF this(1), THEN bspec, OF this(2)]
  have "su_gid u = sg_gid g" using u g by simp
  then show ?thesis using c(1,4) u g(1) by (intro exI [of _ c] exI [of _ u]) simp
qed

end
