(* ===== verification/Shares.thy ===== *)
theory Shares
  imports Prelude Users
begin

text \<open>
  The file shares a machine serves (\<open>crates/sbm_parser/src/shares.rs\<close>): what is read
  of Samba's and the NFS server's configuration, the two files ServerBox writes
  whole, and the scripts that put them there. Who is connected is read from JSON
  by \<open>serde_json\<close> and not modelled; that the scripts for \<open>systemctl\<close> do what they say
  is outside the model, but how \<open>sh\<close> reads the here-document in them is not.
  The expression for account names (\<open>Users\<close>) is the argument \<open>user_name\<close>.
\<close>

section \<open>Data\<close>

record SmbShare =
  smb_name :: string
  smb_path :: string
  smb_comment :: "string option"
  smb_read_only :: bool
  smb_guest :: bool
  smb_users :: "string list"
  smb_time_machine :: bool
  smb_recycle :: bool
  smb_managed :: bool

record NfsClient =
  cl_host :: string
  cl_read_only :: bool
  cl_squash :: string
  cl_options :: "string list"

record NfsExport =
  exp_path :: string
  exp_clients :: "NfsClient list"
  exp_managed :: bool

record Shares =
  tools :: "string list"
  smb_active :: bool
  nfs_active :: bool
  smb_shares :: "SmbShare list"
  nfs_exports :: "NfsExport list"

datatype ShareError =
    InvalidName | InvalidPath | InvalidComment | InvalidUser | InvalidClient | InvalidSquash | Duplicate
  | InvalidPassword

fun share_code :: "ShareError \<Rightarrow> string" where
  "share_code InvalidName = ''invalidName''"
| "share_code InvalidPath = ''invalidPath''"
| "share_code InvalidComment = ''invalidComment''"
| "share_code InvalidUser = ''invalidUser''"
| "share_code InvalidClient = ''invalidClient''"
| "share_code InvalidSquash = ''invalidSquash''"
| "share_code Duplicate = ''duplicate''"
| "share_code InvalidPassword = ''invalidPassword''"

definition SMB_FILE :: string where
  "SMB_FILE = ''/etc/samba/serverbox.conf''"

definition NFS_FILE :: string where
  "NFS_FILE = ''/etc/exports.d/serverbox.exports''"

definition SMB_INCLUDE :: string where
  "SMB_INCLUDE = ''include = /etc/samba/serverbox.conf''"

section \<open>Reading Samba's configuration\<close>

fun split_any :: "char list \<Rightarrow> string \<Rightarrow> string list" where
  "split_any seps [] = [[]]"
| "split_any seps (c # cs) =
     (if c \<in> set seps then [] # split_any seps cs
      else (case split_any seps cs of [] \<Rightarrow> [[c]] | w # ws \<Rightarrow> (c # w) # ws))"

definition RESERVED_SECTIONS :: "string list" where
  "RESERVED_SECTIONS = [''global'', ''homes'', ''printers'', ''print$'']"

definition new_section :: "string \<Rightarrow> SmbShare" where
  "new_section name = \<lparr>smb_name = name, smb_path = [], smb_comment = None, smb_read_only = True, smb_guest = False,
     smb_users = [], smb_time_machine = False, smb_recycle = False, smb_managed = False\<rparr>"

definition says_yes :: "string \<Rightarrow> bool" where
  "says_yes value \<longleftrightarrow> to_ascii_lowercase value \<in> set [''yes'', ''true'', ''1'']"

definition smb_set :: "SmbShare \<Rightarrow> string \<Rightarrow> string \<Rightarrow> SmbShare" where
  "smb_set share key value =
     (if key = ''path'' then share\<lparr>smb_path := value\<rparr>
      else if key = ''comment'' then share\<lparr>smb_comment := if value \<noteq> [] then Some value else None\<rparr>
      else if key = ''readonly'' then share\<lparr>smb_read_only := says_yes value\<rparr>
      else if key = ''writeable'' \<or> key = ''writable'' then share\<lparr>smb_read_only := \<not> says_yes value\<rparr>
      else if key = ''guestok'' \<or> key = ''public'' then share\<lparr>smb_guest := says_yes value\<rparr>
      else if key = ''validusers''
      then share\<lparr>smb_users := filter (\<lambda>u. u \<noteq> []) (split_any [CHR '','', CHR '' ''] value)\<rparr>
      else if key = ''fruit:timemachine'' then share\<lparr>smb_time_machine := says_yes value\<rparr>
      else if key = ''vfsobjects'' then share\<lparr>smb_recycle := (''recycle'' \<in> set (split_whitespace value))\<rparr>
      else share)"

definition option_list :: "'a option \<Rightarrow> 'a list" where
  "option_list x = (case x of None \<Rightarrow> [] | Some y \<Rightarrow> [y])"

definition smb_line :: "SmbShare list \<times> SmbShare option \<Rightarrow> string \<Rightarrow> SmbShare list \<times> SmbShare option" where
  "smb_line st raw = (case st of (out, current) \<Rightarrow>
     (let line = trim raw in
      if line = [] \<or> starts_with ''#'' line \<or> starts_with '';'' line then (out, current)
      else (case Option.bind (strip_prefix ''['' line) (strip_suffix '']'') of
          Some name \<Rightarrow>
            (out @ option_list current,
             if list_ex (\<lambda>r. eq_ignore_ascii_case name r) RESERVED_SECTIONS then None else Some (new_section name))
        | None \<Rightarrow>
            (case (current, split_once (CHR ''='') line) of
               (Some share, Some (key, value)) \<Rightarrow>
                 (out, Some (smb_set share (filter (\<lambda>c. c \<noteq> CHR '' '') (to_ascii_lowercase (trim key))) (trim value)))
             | _ \<Rightarrow> (out, current)))))"

definition parse_smb :: "string \<Rightarrow> SmbShare list" where
  "parse_smb text = (case foldl smb_line ([], None) (str_lines text) of (out, current) \<Rightarrow> out @ option_list current)"

section \<open>Reading exports\<close>

fun split_once_ws :: "string \<Rightarrow> (string \<times> string) option" where
  "split_once_ws [] = None"
| "split_once_ws (c # s) =
     (if is_whitespace c then Some ([], s) else map_option (\<lambda>(a, b). (c # a, b)) (split_once_ws s))"

definition client_option :: "NfsClient \<Rightarrow> string \<Rightarrow> NfsClient" where
  "client_option client o' =
     (if o' = ''rw'' then client\<lparr>cl_read_only := False\<rparr>
      else if o' = ''ro'' then client\<lparr>cl_read_only := True\<rparr>
      else if o' = ''root_squash'' then client\<lparr>cl_squash := ''root''\<rparr>
      else if o' = ''all_squash'' then client\<lparr>cl_squash := ''all''\<rparr>
      else if o' = ''no_root_squash'' then client\<lparr>cl_squash := ''none''\<rparr>
      else if o' = ''sync'' \<or> o' = ''no_subtree_check'' then client
      else client\<lparr>cl_options := cl_options client @ [o']\<rparr>)"

definition parse_client :: "string \<Rightarrow> NfsClient" where
  "parse_client c =
     (let (host, opts) = (case split_once (CHR ''('') c of
          Some (h, o') \<Rightarrow> (h, rev (dropWhile (\<lambda>x. x = CHR '')'') (rev o'))) | None \<Rightarrow> (c, []))
      in foldl client_option
           \<lparr>cl_host = (if host = [] then ''*'' else host), cl_read_only = True, cl_squash = ''root'', cl_options = []\<rparr>
           (filter (\<lambda>o'. o' \<noteq> []) (split_on (CHR '','') opts)))"

definition export_line :: "string \<Rightarrow> NfsExport option" where
  "export_line raw =
     (let line = trim (hd (split_on (CHR ''#'') raw)) in
      if line = [] then None
      else map_option (\<lambda>(path, rest). \<lparr>exp_path = path, exp_clients = map parse_client (split_whitespace rest),
             exp_managed = False\<rparr>)
        (case strip_prefix [CHR 0x22] line of
           Some quoted \<Rightarrow> split_once (CHR 0x22) quoted
         | None \<Rightarrow> (case split_once_ws line of Some pr \<Rightarrow> Some pr | None \<Rightarrow> Some (line, []))))"

definition parse_exports :: "string \<Rightarrow> NfsExport list" where
  "parse_exports text = List.map_filter export_line (str_lines (replace_sub [CHR 0x5C, nl] '' '' text))"

section \<open>Reading everything\<close>

fun sections_loop :: "(string \<times> string) list \<Rightarrow> string list \<Rightarrow> (string \<times> string) list" where
  "sections_loop found [] = found"
| "sections_loop found (line # ls) =
     (case strip_prefix ''### '' line of
        Some name \<Rightarrow> sections_loop (found @ [(trim name, [])]) ls
      | None \<Rightarrow>
          if found = [] then sections_loop found ls
          else sections_loop (butlast found @ [(fst (last found), snd (last found) @ line @ [nl])]) ls)"

definition get_section :: "string \<Rightarrow> string \<Rightarrow> string" where
  "get_section stdout name =
     (case find (\<lambda>(n, _). n = name) (sections_loop [] (str_lines stdout)) of None \<Rightarrow> [] | Some (_, t) \<Rightarrow> t)"

definition parse_shares :: "string \<Rightarrow> Shares" where
  "parse_shares stdout =
     (let active = map trim (str_lines (get_section stdout ''active''));
          managed_smb = map smb_name (parse_smb (get_section stdout ''smbManaged''))
      in \<lparr>tools = filter (\<lambda>l. l \<noteq> []) (map trim (str_lines (get_section stdout ''tools''))),
          smb_active = list_ex (\<lambda>s. s = ''smbd'' \<or> s = ''smb'') active,
          nfs_active = list_ex (\<lambda>s. s = ''nfs-server'' \<or> s = ''nfs-kernel-server'') active,
          smb_shares = map (\<lambda>s. s\<lparr>smb_managed := list_ex (\<lambda>m. eq_ignore_ascii_case m (smb_name s)) managed_smb\<rparr>)
            (parse_smb (get_section stdout ''smb'')),
          nfs_exports = parse_exports (get_section stdout ''nfs'')
            @ map (\<lambda>e. e\<lparr>exp_managed := True\<rparr>) (parse_exports (get_section stdout ''nfsManaged''))\<rparr>)"

section \<open>Checks and rendering\<close>

definition plain_text :: "string \<Rightarrow> bool" where
  "plain_text value \<longleftrightarrow> \<not> list_ex is_control value"

definition path_ok :: "string \<Rightarrow> (ShareError, unit) result" where
  "path_ok path =
     (if starts_with ''/'' path \<and> byte_len path > 1 \<and> byte_len path \<le> 4096 \<and> plain_text path
         \<and> CHR 0x22 \<notin> set path \<and> CHR 0x5C \<notin> set path
         \<and> \<not> list_ex (\<lambda>p. p = ''..'') (split_on (CHR ''/'') path)
      then Ok () else Err InvalidPath)"

definition user_ok :: "(string \<Rightarrow> bool) \<Rightarrow> string \<Rightarrow> bool" where
  "user_ok user_name user \<longleftrightarrow> valid_name user_name user \<and> \<not> ends_with ''$'' user"

definition smb_name_ok :: "string \<Rightarrow> bool" where
  "smb_name_ok name \<longleftrightarrow> 1 \<le> byte_len name \<and> byte_len name \<le> 32
     \<and> list_all (\<lambda>c. is_ascii_alphanumeric c \<or> c \<in> set ''_.-'') name
     \<and> \<not> list_ex (\<lambda>r. eq_ignore_ascii_case name r) [''global'', ''homes'', ''printers'', ''ipc$'']"

definition yes_no :: "bool \<Rightarrow> string" where
  "yes_no b = (if b then ''yes'' else ''no'')"

definition smb_vfs :: "SmbShare \<Rightarrow> string list" where
  "smb_vfs s = (if smb_time_machine s then [''catia'', ''fruit'', ''streams_xattr''] else [])
     @ (if smb_recycle s then [''recycle''] else [])"

definition smb_section :: "SmbShare \<Rightarrow> string" where
  "smb_section s =
     [nl] @ ''['' @ smb_name s @ '']'' @ [nl] @ ''   path = '' @ smb_path s @ [nl]
     @ (case smb_comment s of None \<Rightarrow> []
        | Some c \<Rightarrow> if trim c \<noteq> [] then ''   comment = '' @ trim c @ [nl] else [])
     @ ''   read only = '' @ yes_no (smb_read_only s) @ [nl]
     @ ''   guest ok = '' @ yes_no (smb_guest s) @ [nl]
     @ (if smb_users s \<noteq> [] then ''   valid users = '' @ join '' '' (smb_users s) @ [nl] else [])
     @ (if smb_vfs s \<noteq> [] then ''   vfs objects = '' @ join '' '' (smb_vfs s) @ [nl] else [])
     @ (if smb_time_machine s then ''   fruit:time machine = yes'' @ [nl] @ ''   fruit:metadata = stream'' @ [nl] else [])
     @ (if smb_recycle s
        then ''   recycle:repository = .recycle'' @ [nl] @ ''   recycle:keeptree = yes'' @ [nl]
          @ ''   recycle:versions = yes'' @ [nl] else [])
     @ ''   browseable = yes'' @ [nl]"

fun render_smb_loop ::
  "(string \<Rightarrow> bool) \<Rightarrow> string list \<Rightarrow> string \<Rightarrow> SmbShare list \<Rightarrow> (ShareError, string) result" where
  "render_smb_loop user_name seen out [] = Ok out"
| "render_smb_loop user_name seen out (s # ss) =
     (if \<not> smb_name_ok (smb_name s) then Err InvalidName
      else if list_ex (\<lambda>n. eq_ignore_ascii_case n (smb_name s)) seen then Err Duplicate
      else (case path_ok (smb_path s) of Inl e \<Rightarrow> Err e
        | Inr _ \<Rightarrow>
            if (case smb_comment s of None \<Rightarrow> False | Some c \<Rightarrow> byte_len c > 128 \<or> \<not> plain_text c)
            then Err InvalidComment
            else if \<not> list_all (user_ok user_name) (smb_users s) then Err InvalidUser
            else render_smb_loop user_name (seen @ [smb_name s]) (out @ smb_section s) ss))"

definition SMB_HEADER :: string where
  "SMB_HEADER = ''# Shares made in ServerBox. Rewritten by it: changes here are lost.'' @ [nl]"

definition render_smb :: "(string \<Rightarrow> bool) \<Rightarrow> SmbShare list \<Rightarrow> (ShareError, string) result" where
  "render_smb user_name shares = render_smb_loop user_name [] SMB_HEADER shares"

definition host_ok :: "string \<Rightarrow> bool" where
  "host_ok host \<longleftrightarrow> 1 \<le> byte_len host \<and> byte_len host \<le> 253
     \<and> list_all (\<lambda>c. is_ascii_alphanumeric c \<or> c \<in> set ''.-*:/_[]'') host"

definition squash_word :: "string \<Rightarrow> string option" where
  "squash_word s = (if s = ''root'' then Some ''root_squash'' else if s = ''all'' then Some ''all_squash''
     else if s = ''none'' then Some ''no_root_squash'' else None)"

fun render_clients :: "string \<Rightarrow> NfsClient list \<Rightarrow> (ShareError, string) result" where
  "render_clients line [] = Ok line"
| "render_clients line (c # cs) =
     (if \<not> host_ok (cl_host c) then Err InvalidClient
      else (case squash_word (cl_squash c) of None \<Rightarrow> Err InvalidSquash
        | Some squash \<Rightarrow>
            render_clients (line @ '' '' @ cl_host c @ ''('' @ (if cl_read_only c then ''ro'' else ''rw'')
              @ '',sync,no_subtree_check,'' @ squash @ '')'') cs))"

fun render_nfs_loop :: "string list \<Rightarrow> string \<Rightarrow> NfsExport list \<Rightarrow> (ShareError, string) result" where
  "render_nfs_loop seen out [] = Ok out"
| "render_nfs_loop seen out (e # es) =
     (case path_ok (exp_path e) of Inl err \<Rightarrow> Err err
      | Inr _ \<Rightarrow>
          if exp_path e \<in> set seen then Err Duplicate
          else if exp_clients e = [] then Err InvalidClient
          else (case render_clients ([CHR 0x22] @ exp_path e @ [CHR 0x22]) (exp_clients e) of Inl err \<Rightarrow> Err err
            | Inr line \<Rightarrow> render_nfs_loop (seen @ [exp_path e]) (out @ line @ [nl]) es))"

definition NFS_HEADER :: string where
  "NFS_HEADER = ''# Exports made in ServerBox. Rewritten by it: changes here are lost.'' @ [nl]"

definition render_nfs :: "NfsExport list \<Rightarrow> (ShareError, string) result" where
  "render_nfs exports = render_nfs_loop [] NFS_HEADER exports"

section \<open>The scripts\<close>

definition EXIT_NOT_A_FOLDER :: nat where
  "EXIT_NOT_A_FOLDER = 3"

definition EXIT_REFUSED :: nat where
  "EXIT_REFUSED = 4"

definition folders :: "string list \<Rightarrow> string" where
  "folders paths =
     (if paths = [] then []
      else ''for p in '' @ join '' '' (map shell_quote_unix paths) @ ''; do [ -d '' @ dq ''$p'' @ '' ] || { echo ''
        @ dq ''$p'' @ '' >&2; exit '' @ show_nat EXIT_NOT_A_FOLDER @ ''; }; done'' @ [nl])"

definition replace_script :: "string \<Rightarrow> string \<Rightarrow> string \<Rightarrow> string" where
  "replace_script file content check = replace_file_script file content check ''SrvBoxShares'' EXIT_REFUSED"

definition SMB_CHECK :: string where
  "SMB_CHECK = ''testparm -s >/dev/null 2>&1''"

definition smb_reload :: string where
  "smb_reload = [nl] @ ''conf=/etc/samba/smb.conf; grep -qxF '' @ sq SMB_INCLUDE @ '' '' @ dq ''$conf'' @ '' || printf ''
     @ sq ([CHR 0x5C] @ ''n# ServerBox shares (%s)'' @ [CHR 0x5C] @ ''n'' @ SMB_INCLUDE @ [CHR 0x5C] @ ''n'')
     @ '' '' @ SMB_FILE @ '' >> '' @ dq ''$conf'' @ ''; '' @ SMB_CHECK @ '' || { echo '' @ sq ''smb.conf does not check''
     @ '' >&2; exit 1; }; for s in smbd smb; do systemctl list-unit-files '' @ dq ''$s.service''
     @ '' >/dev/null 2>&1 || continue; if systemctl is-active -q '' @ dq ''$s'' @ ''; then systemctl reload '' @ dq ''$s''
     @ '' || systemctl restart '' @ dq ''$s'' @ ''; else systemctl enable --now '' @ dq ''$s'' @ ''; fi; break; done''"

definition smb_script :: "(string \<Rightarrow> bool) \<Rightarrow> SmbShare list \<Rightarrow> (ShareError, string) result" where
  "smb_script user_name shares =
     (case render_smb user_name shares of Inl e \<Rightarrow> Err e
      | Inr content \<Rightarrow> Ok (folders (map smb_path shares) @ replace_script SMB_FILE content SMB_CHECK @ smb_reload))"

definition nfs_start :: string where
  "nfs_start = ''for s in nfs-server nfs-kernel-server; do systemctl list-unit-files '' @ dq ''$s.service''
     @ '' >/dev/null 2>&1 || continue; systemctl is-active -q '' @ dq ''$s'' @ '' || systemctl enable --now '' @ dq ''$s''
     @ ''; break; done'' @ [nl]"

definition nfs_script :: "NfsExport list \<Rightarrow> (ShareError, string) result" where
  "nfs_script exports =
     (case render_nfs exports of Inl e \<Rightarrow> Err e
      | Inr content \<Rightarrow> Ok (folders (map exp_path exports) @ nfs_start @ replace_script NFS_FILE content ''exportfs -ra''))"

definition smb_password_script :: "(string \<Rightarrow> bool) \<Rightarrow> string \<Rightarrow> string \<Rightarrow> (ShareError, string) result" where
  "smb_password_script user_name user password =
     (if \<not> user_ok user_name user then Err InvalidUser
      else if password = [] \<or> byte_len password > 256 \<or> \<not> plain_text password \<or> password = ''SrvBoxSmbPassword''
      then Err InvalidPassword
      else Ok (''set -e; id -u '' @ shell_quote_unix user @ '' >/dev/null; smbpasswd -s -a '' @ shell_quote_unix user
        @ '' <<'' @ sq ''SrvBoxSmbPassword'' @ [nl] @ password @ [nl] @ password @ [nl] @ ''SrvBoxSmbPassword''))"

definition install_script :: "bool \<Rightarrow> string" where
  "install_script nfs =
     (let (apt, dnf, apk) = (if nfs then (''nfs-kernel-server'', ''nfs-utils'', ''nfs-utils'') else (''samba'', ''samba'', ''samba''))
      in ''if command -v apt-get >/dev/null; then DEBIAN_FRONTEND=noninteractive apt-get install -y '' @ apt
       @ ''; elif command -v dnf >/dev/null; then dnf install -y '' @ dnf
       @ ''; elif command -v apk >/dev/null; then apk add '' @ apk
       @ ''; else echo '' @ sq ''no package manager this knows (apt, dnf, apk)'' @ '' >&2; exit 1; fi'')"

section \<open>Lines of the rendered files\<close>

definition smb_lines :: "SmbShare \<Rightarrow> string list" where
  "smb_lines s =
     [[], ''['' @ smb_name s @ '']'', ''   path = '' @ smb_path s]
     @ (case smb_comment s of None \<Rightarrow> [] | Some c \<Rightarrow> if trim c \<noteq> [] then [''   comment = '' @ trim c] else [])
     @ [''   read only = '' @ yes_no (smb_read_only s), ''   guest ok = '' @ yes_no (smb_guest s)]
     @ (if smb_users s \<noteq> [] then [''   valid users = '' @ join '' '' (smb_users s)] else [])
     @ (if smb_vfs s \<noteq> [] then [''   vfs objects = '' @ join '' '' (smb_vfs s)] else [])
     @ (if smb_time_machine s then [''   fruit:time machine = yes'', ''   fruit:metadata = stream''] else [])
     @ (if smb_recycle s
        then [''   recycle:repository = .recycle'', ''   recycle:keeptree = yes'', ''   recycle:versions = yes''] else [])
     @ [''   browseable = yes'']"

lemma smb_section_lines: "smb_section s = unlines (smb_lines s)"
  by (simp add: smb_section_def smb_lines_def split: option.split)

definition smb_ok :: "(string \<Rightarrow> bool) \<Rightarrow> SmbShare \<Rightarrow> bool" where
  "smb_ok user_name s \<longleftrightarrow> smb_name_ok (smb_name s) \<and> path_ok (smb_path s) = Ok ()
     \<and> (\<forall>c. smb_comment s = Some c \<longrightarrow> plain_text c) \<and> list_all (user_ok user_name) (smb_users s)"

lemma render_smb_loop_Ok:
  "render_smb_loop user_name seen out ss = Ok text \<Longrightarrow>
     list_all (smb_ok user_name) ss \<and> text = out @ unlines (concat (map smb_lines ss))"
proof (induction ss arbitrary: seen out)
  case (Cons s ss)
  have "smb_ok user_name s"
    "render_smb_loop user_name (seen @ [smb_name s]) (out @ unlines (smb_lines s)) ss = Ok text"
    using Cons.prems
    by (simp_all add: smb_ok_def smb_section_lines list_all_iff split: if_splits sum.splits option.splits)
  then show ?case using Cons.IH [of "seen @ [smb_name s]" "out @ unlines (smb_lines s)"] by simp
qed simp

lemma plain_no_break: "plain_text s \<Longrightarrow> nl \<notin> set s \<and> cr \<notin> set s"
  by (auto simp: plain_text_def list_ex_iff is_control_def nl_def cr_def)

lemma path_ok_D: "path_ok p = Ok () \<Longrightarrow> plain_text p \<and> CHR 0x22 \<notin> set p \<and> CHR 0x5C \<notin> set p \<and> p \<noteq> [] \<and> hd p = CHR ''/''"
  by (auto simp: path_ok_def split: if_splits)

lemma user_word:
  assumes "is_user_name_regex user_name" "user_ok user_name u"
  shows "u \<noteq> [] \<and> list_all name_tail_char u"
proof -
  have m: "matches_user_name u" "\<not> ends_with ''$'' u"
    using assms by (auto simp: user_ok_def valid_name_def is_user_name_regex_def)
  then obtain c cs where u: "u = c # cs" by (cases u) (auto simp: matches_user_name_def)
  have "cs = [] \<or> last cs \<noteq> CHR ''$''"
    using m(2) u strip_suffix_Some_iff [of "''$''" u] by (auto simp: ends_with_def) (metis append_butlast_last_id append_Cons)
  then show ?thesis using m(1) u by (auto simp: matches_user_name_def name_tail_char_def split: if_splits)
qed

section \<open>What is read of a rendered share\<close>

definition share_as_read :: "SmbShare \<Rightarrow> SmbShare" where
  "share_as_read s = s\<lparr>smb_path := trim_end (smb_path s),
     smb_comment := (case smb_comment s of None \<Rightarrow> None | Some c \<Rightarrow> if trim c \<noteq> [] then Some (trim c) else None),
     smb_managed := False\<rparr>"

lemma trim_indented: "trim (CHR '' '' # s) = trim s"
  by (simp add: trim_def str_simps)

lemma smb_setting:
  assumes k: "k \<noteq> []" "\<not> is_whitespace (hd k)" "\<not> is_whitespace (last k)" "CHR ''='' \<notin> set k" "hd k \<notin> set ''#;[''"
    and v: "trim_end v \<noteq> []"
  shows "smb_line (out, Some sh) (''   '' @ k @ '' = '' @ v) =
     (out, Some (smb_set sh (filter (\<lambda>c. c \<noteq> CHR '' '') (to_ascii_lowercase k)) (trim v)))"
proof -
  have start: "trim_start (k @ r) = k @ r" for r using k by (intro trim_start_eq_self) simp
  have line: "trim (''   '' @ k @ '' = '' @ v) = k @ '' = '' @ trim_end v"
  proof -
    have "trim (''   '' @ k @ '' = '' @ v) = trim (k @ '' = '' @ v)" by (simp add: trim_indented)
    also have "\<dots> = trim_end ((k @ '' = '') @ v)" using start [of "'' = '' @ v"] by (simp add: trim_def)
    also have "\<dots> = (k @ '' = '') @ trim_end v" by (rule trim_end_append [OF v])
    finally show ?thesis by simp
  qed
  have key: "trim (k @ '' '') = k"
  proof -
    have "trim_end (k @ '' '') = trim_end k" by (rule trim_end_ws_append) simp
    also have "\<dots> = k" using k by (intro trim_end_eq_self) simp
    finally show ?thesis using start [of "'' ''"] by (simp add: trim_def)
  qed
  have val: "trim ('' '' @ trim_end v) = trim v"
  proof -
    have "trim (trim_end v) = trim v" by simp
    then show ?thesis by (simp add: trim_indented)
  qed
  have "split_once (CHR ''='') ((k @ '' '') @ CHR ''='' # ('' '' @ trim_end v)) = Some (k @ '' '', '' '' @ trim_end v)"
    using k by (intro split_once_append) simp
  then have split: "split_once (CHR ''='') (k @ '' = '' @ trim_end v) = Some (k @ '' '', '' '' @ trim_end v)" by simp
  obtain c cs where c: "k = c # cs" using k by (cases k) auto
  have no: "strip_prefix ''['' (k @ '' = '' @ trim_end v) = None" "k @ '' = '' @ trim_end v \<noteq> []"
    "\<not> starts_with ''#'' (k @ '' = '' @ trim_end v)" "\<not> starts_with '';'' (k @ '' = '' @ trim_end v)"
    using k(5) by (auto simp: c)
  show ?thesis
    unfolding smb_line_def line Let_def prod.case using no key val split by (simp del: append_assoc append_Cons)
qed

lemma smb_blank: "smb_line st [] = st"
  by (cases st) (simp add: smb_line_def)

lemma smb_header: "smb_line (out, current) (''['' @ name @ '']'') =
    (out @ option_list current,
     if list_ex (\<lambda>r. eq_ignore_ascii_case name r) RESERVED_SECTIONS then None else Some (new_section name))"
proof -
  have "trim (''['' @ name @ '']'') = ''['' @ name @ '']''" by (rule trim_eq_self) (simp add: is_whitespace_def)
  moreover have "strip_suffix '']'' (name @ '']'') = Some name" by (simp add: strip_suffix_Some_iff)
  ultimately show ?thesis by (simp add: smb_line_def)
qed

lemma yes_no_read: "says_yes (trim (yes_no b)) = b" "trim_end (yes_no b) \<noteq> []"
  by (cases b; simp add: yes_no_def; code_simp)+

lemma split_any_join:
  "ws \<noteq> [] \<Longrightarrow> \<forall>w \<in> set ws. \<forall>c \<in> set w. c \<notin> set seps \<Longrightarrow> sep \<in> set seps \<Longrightarrow> split_any seps (join [sep] ws) = ws"
proof (induction ws rule: induct_list012)
  case (2 w)
  then show ?case by (induction w) auto
next
  case (3 w v ws)
  have "split_any seps (w @ sep # r) = w # split_any seps r" for r
    using 3(4,5) by (induction w) auto
  then show ?case using 3 by simp
qed simp

lemma join_last: "ws \<noteq> [] \<Longrightarrow> last ws \<noteq> [] \<Longrightarrow> join sep ws \<noteq> [] \<and> last (join sep ws) = last (last ws)"
  by (induction ws rule: induct_list012) auto

lemma users_line:
  assumes "is_user_name_regex re" "list_all (user_ok re) us" "us \<noteq> []"
  shows "trim_end (join '' '' us) \<noteq> []"
    "filter (\<lambda>u. u \<noteq> []) (split_any [CHR '','', CHR '' ''] (trim (join '' '' us))) = us"
proof -
  have u: "u \<noteq> []" "\<forall>c \<in> set u. name_tail_char c" if "u \<in> set us" for u
    using user_word [OF assms(1), of u] assms(2) that by (auto simp: list_all_iff)
  have j: "join '' '' us \<noteq> []" "last (join '' '' us) = last (last us)"
    using join_last [OF assms(3)] u(1) assms(3) by (metis last_in_set)+
  have "\<not> is_whitespace (last (join '' '' us))"
    using u [OF last_in_set [OF assms(3)]] name_tail_plain by (simp add: j)
  moreover have "\<not> is_whitespace (hd (join '' '' us))"
  proof -
    obtain w ws where us: "us = w # ws" using assms(3) by (cases us) auto
    then have w: "w \<noteq> []" "\<forall>c \<in> set w. name_tail_char c" using u by auto
    then have "hd (join '' '' us) = hd w" by (cases ws) (auto simp: us)
    then show ?thesis using w name_tail_plain [of "hd w"] by simp
  qed
  ultimately have t: "trim (join '' '' us) = join '' '' us" by (intro trim_eq_self) simp
  then show "trim_end (join '' '' us) \<noteq> []" using j(1) by (metis trim_Nil_iff trim_end_Nil_iff)
  have "split_any [CHR '','', CHR '' ''] (join '' '' us) = us"
    using u name_tail_plain assms(3) by (intro split_any_join) auto
  then show "filter (\<lambda>u. u \<noteq> []) (split_any [CHR '','', CHR '' ''] (trim (join '' '' us))) = us"
    using u(1) by (simp add: t filter_id_conv)
qed

lemma vfs_line:
  "smb_vfs s \<noteq> [] \<Longrightarrow> trim_end (join '' '' (smb_vfs s)) \<noteq> []"
  "(''recycle'' \<in> set (split_whitespace (trim (join '' '' (smb_vfs s))))) = smb_recycle s"
  by (cases "smb_time_machine s"; cases "smb_recycle s"; simp add: smb_vfs_def; code_simp)+

lemma smb_known_lines:
  "trim_end v \<noteq> [] \<Longrightarrow> smb_line (out, Some sh) (''   path = '' @ v) = (out, Some (sh\<lparr>smb_path := trim v\<rparr>))"
  "trim_end v \<noteq> [] \<Longrightarrow> smb_line (out, Some sh) (''   comment = '' @ v) = (out, Some (sh\<lparr>smb_comment := if trim v \<noteq> [] then Some (trim v) else None\<rparr>))"
  "trim_end v \<noteq> [] \<Longrightarrow> smb_line (out, Some sh) (''   read only = '' @ v) = (out, Some (sh\<lparr>smb_read_only := says_yes (trim v)\<rparr>))"
  "trim_end v \<noteq> [] \<Longrightarrow> smb_line (out, Some sh) (''   guest ok = '' @ v) = (out, Some (sh\<lparr>smb_guest := says_yes (trim v)\<rparr>))"
  "trim_end v \<noteq> [] \<Longrightarrow> smb_line (out, Some sh) (''   valid users = '' @ v) = (out, Some (sh\<lparr>smb_users := filter (\<lambda>u. u \<noteq> []) (split_any [CHR '','', CHR '' ''] (trim v))\<rparr>))"
  "trim_end v \<noteq> [] \<Longrightarrow> smb_line (out, Some sh) (''   vfs objects = '' @ v) = (out, Some (sh\<lparr>smb_recycle := (''recycle'' \<in> set (split_whitespace (trim v)))\<rparr>))"
  using smb_setting [of "''path''" v out sh]
    smb_setting [of "''comment''" v out sh]
    smb_setting [of "''read only''" v out sh]
    smb_setting [of "''guest ok''" v out sh]
    smb_setting [of "''valid users''" v out sh]
    smb_setting [of "''vfs objects''" v out sh]
  by (simp_all add: is_whitespace_def smb_set_def to_ascii_lowercase_def ascii_lower_char_def is_ascii_upper_def)

lemma smb_fixed_lines:
  "smb_line (out, Some sh) ''   fruit:time machine = yes'' = (out, Some (sh\<lparr>smb_time_machine := True\<rparr>))"
  "smb_line (out, Some sh) ''   fruit:metadata = stream'' = (out, Some (sh))"
  "smb_line (out, Some sh) ''   recycle:repository = .recycle'' = (out, Some (sh))"
  "smb_line (out, Some sh) ''   recycle:keeptree = yes'' = (out, Some (sh))"
  "smb_line (out, Some sh) ''   recycle:versions = yes'' = (out, Some (sh))"
  "smb_line (out, Some sh) ''   browseable = yes'' = (out, Some (sh))"
proof -
  have y: "says_yes (trim ''yes'')" "trim_end ''yes'' \<noteq> []" "trim_end ''stream'' \<noteq> []" "trim_end ''.recycle'' \<noteq> []"
    by code_simp+
  show "smb_line (out, Some sh) ''   fruit:time machine = yes'' = (out, Some (sh\<lparr>smb_time_machine := True\<rparr>))"
    using smb_setting [of "''fruit:time machine''" "''yes''" out sh] y by (simp add: is_whitespace_def smb_set_def to_ascii_lowercase_def ascii_lower_char_def is_ascii_upper_def)
  show "smb_line (out, Some sh) ''   fruit:metadata = stream'' = (out, Some (sh))"
    using smb_setting [of "''fruit:metadata''" "''stream''" out sh] y by (simp add: is_whitespace_def smb_set_def to_ascii_lowercase_def ascii_lower_char_def is_ascii_upper_def)
  show "smb_line (out, Some sh) ''   recycle:repository = .recycle'' = (out, Some (sh))"
    using smb_setting [of "''recycle:repository''" "''.recycle''" out sh] y by (simp add: is_whitespace_def smb_set_def to_ascii_lowercase_def ascii_lower_char_def is_ascii_upper_def)
  show "smb_line (out, Some sh) ''   recycle:keeptree = yes'' = (out, Some (sh))"
    using smb_setting [of "''recycle:keeptree''" "''yes''" out sh] y by (simp add: is_whitespace_def smb_set_def to_ascii_lowercase_def ascii_lower_char_def is_ascii_upper_def)
  show "smb_line (out, Some sh) ''   recycle:versions = yes'' = (out, Some (sh))"
    using smb_setting [of "''recycle:versions''" "''yes''" out sh] y by (simp add: is_whitespace_def smb_set_def to_ascii_lowercase_def ascii_lower_char_def is_ascii_upper_def)
  show "smb_line (out, Some sh) ''   browseable = yes'' = (out, Some (sh))"
    using smb_setting [of "''browseable''" "''yes''" out sh] y by (simp add: is_whitespace_def smb_set_def to_ascii_lowercase_def ascii_lower_char_def is_ascii_upper_def)
qed

lemma name_not_reserved: "smb_name_ok n \<Longrightarrow> \<not> list_ex (\<lambda>r. eq_ignore_ascii_case n r) RESERVED_SECTIONS"
proof -
  assume n: "smb_name_ok n"
  have "\<not> eq_ignore_ascii_case n ''print$''"
  proof
    assume "eq_ignore_ascii_case n ''print$''"
    then have "map ascii_lower_char n = ''print$''"
      by (simp add: eq_ignore_ascii_case_def to_ascii_lowercase_def ascii_lower_char_def is_ascii_upper_def)
    then have "CHR ''$'' \<in> ascii_lower_char ` set n" by (metis list.set_intros list.set_map)
    then obtain c where c: "c \<in> set n" "ascii_lower_char c = CHR ''$''" by auto
    then have "is_ascii_alphanumeric c \<or> c \<in> set ''_.-''" using n by (auto simp: smb_name_ok_def list_all_iff)
    then have "ascii_lower_char c \<noteq> CHR ''$''"
      by (auto simp: ascii_lower_char_def is_ascii_upper_def is_ascii_alphanumeric_def is_ascii_lower_def
          is_ascii_digit_def dest!: arg_cong [of _ _ "of_char :: char \<Rightarrow> nat"])
    with c show False by simp
  qed
  with n show ?thesis by (simp add: smb_name_ok_def RESERVED_SECTIONS_def)
qed

lemma smb_lines_read:
  assumes "is_user_name_regex re" "smb_ok re s"
  shows "foldl smb_line (out, current) (smb_lines s) = (out @ option_list current, Some (share_as_read s))"
proof -
  have path: "trim_end (smb_path s) \<noteq> []" "trim (smb_path s) = trim_end (smb_path s)"
  proof -
    have p: "smb_path s \<noteq> []" "hd (smb_path s) = CHR ''/''"
      using assms(2) path_ok_D by (auto simp: smb_ok_def)
    then have h: "\<not> is_whitespace (hd (smb_path s))" by (simp add: is_whitespace_def)
    then show "trim_end (smb_path s) \<noteq> []" using p by (metis hd_in_set trim_end_Nil_iff)
    show "trim (smb_path s) = trim_end (smb_path s)" using h p by (simp add: trim_def trim_start_eq_self)
  qed
  have c: "trim_end (trim v) \<noteq> []" if "trim v \<noteq> []" for v
    using that trim_last [OF that] by (subst trim_end_eq_self) auto
  have name: "\<not> list_ex (\<lambda>r. eq_ignore_ascii_case (smb_name s) r) RESERVED_SECTIONS"
    using assms(2) name_not_reserved by (simp add: smb_ok_def)
  note users = users_line [OF assms(1), of "smb_users s"]
  have u: "list_all (user_ok re) (smb_users s)" using assms(2) by (simp add: smb_ok_def)
  define sh1 where "sh1 = (new_section (smb_name s))\<lparr>smb_path := trim_end (smb_path s),
     smb_comment := (case smb_comment s of None \<Rightarrow> None | Some c \<Rightarrow> if trim c \<noteq> [] then Some (trim c) else None)\<rparr>"
  define sh2 where "sh2 = sh1\<lparr>smb_read_only := smb_read_only s, smb_guest := smb_guest s, smb_users := smb_users s\<rparr>"
  define sh3 where "sh3 = sh2\<lparr>smb_recycle := smb_recycle s, smb_time_machine := smb_time_machine s\<rparr>"
  let ?out = "out @ option_list current"
  have 1: "foldl smb_line (out, current) ([[], ''['' @ smb_name s @ '']'', ''   path = '' @ smb_path s]
     @ (case smb_comment s of None \<Rightarrow> [] | Some c \<Rightarrow> if trim c \<noteq> [] then [''   comment = '' @ trim c] else []))
     = (?out, Some sh1)"
    using name path c
    by (cases "smb_comment s") (simp_all add: smb_blank smb_header smb_known_lines sh1_def new_section_def
        del: append_Cons append_assoc)
  have 2: "foldl smb_line (?out, Some sh1)
     ([''   read only = '' @ yes_no (smb_read_only s), ''   guest ok = '' @ yes_no (smb_guest s)]
      @ (if smb_users s \<noteq> [] then [''   valid users = '' @ join '' '' (smb_users s)] else [])) = (?out, Some sh2)"
    using users [OF u] yes_no_read
    by (simp add: smb_known_lines sh2_def sh1_def new_section_def del: append_Cons append_assoc)
  have 3: "foldl smb_line (?out, Some sh2)
     ((if smb_vfs s \<noteq> [] then [''   vfs objects = '' @ join '' '' (smb_vfs s)] else [])
      @ (if smb_time_machine s then [''   fruit:time machine = yes'', ''   fruit:metadata = stream''] else [])
      @ (if smb_recycle s
         then [''   recycle:repository = .recycle'', ''   recycle:keeptree = yes'', ''   recycle:versions = yes''] else [])
      @ [''   browseable = yes'']) = (?out, Some sh3)"
  proof -
    have ne: "smb_vfs s \<noteq> [] \<longleftrightarrow> smb_time_machine s \<or> smb_recycle s" by (simp add: smb_vfs_def)
    show ?thesis
      using vfs_line [of s]
      by (cases "smb_time_machine s"; cases "smb_recycle s")
        (simp_all add: ne smb_known_lines smb_fixed_lines sh3_def sh2_def sh1_def new_section_def
          del: append_Cons append_assoc)
  qed
  have "sh3 = share_as_read s"
    by (simp add: sh3_def sh2_def sh1_def new_section_def share_as_read_def)
  then show ?thesis
    unfolding smb_lines_def append_assoc [symmetric]
    using 1 2 3 by (simp only: foldl_append append_assoc)
qed

section \<open>The whole file\<close>

definition breaks :: "string \<Rightarrow> bool" where
  "breaks s \<longleftrightarrow> nl \<in> set s \<or> cr \<in> set s"

lemma breaks_append [simp]: "breaks (a @ b) \<longleftrightarrow> breaks a \<or> breaks b"
  by (auto simp: breaks_def)

lemma breaks_Cons [simp]: "breaks (c # s) \<longleftrightarrow> c = nl \<or> c = cr \<or> breaks s"
  by (auto simp: breaks_def)

lemma breaks_Nil [simp]: "\<not> breaks []"
  by (simp add: breaks_def)

lemma breaks_join: "\<forall>w \<in> set ws. \<not> breaks w \<Longrightarrow> \<not> breaks sep \<Longrightarrow> \<not> breaks (join sep ws)"
  by (induction ws rule: induct_list012) auto

lemma nl_cr_codes: "nl \<noteq> c" "cr \<noteq> c" if "32 \<le> code_of c" for c
  using that by (auto simp: nl_def cr_def)

lemma not_breaks_if: "list_all (\<lambda>c. 32 \<le> code_of c) s \<Longrightarrow> \<not> breaks s"
  by (auto simp: breaks_def list_all_iff nl_def cr_def)

lemma smb_lines_shape:
  assumes "is_user_name_regex re" "smb_ok re s" "l \<in> set (smb_lines s)"
  shows "\<not> breaks l \<and> (l = [] \<or> hd l = CHR ''['' \<or> hd l = CHR '' '')"
proof -
  have name: "\<not> breaks (smb_name s)"
    using assms(2) by (intro not_breaks_if) (auto simp: smb_ok_def smb_name_ok_def list_all_iff is_ascii_alphanumeric_def
        is_ascii_digit_def is_ascii_lower_def is_ascii_upper_def)
  have path: "\<not> breaks (smb_path s)"
    using assms(2) path_ok_D plain_no_break by (auto simp: smb_ok_def breaks_def)
  have comment: "\<not> breaks (trim c)" if "smb_comment s = Some c" for c
    using assms(2) that plain_no_break [of c] set_trim [of c] by (auto simp: smb_ok_def breaks_def)
  have users: "\<not> breaks (join '' '' (smb_users s))"
  proof (rule breaks_join)
    show "\<forall>w \<in> set (smb_users s). \<not> breaks w"
      using assms(2) user_word [OF assms(1)] name_tail_plain by (fastforce simp: smb_ok_def breaks_def list_all_iff)
  qed (simp add: nl_cr_codes [symmetric] nl_def cr_def)
  have vfs: "\<not> breaks (join '' '' (smb_vfs s))"
    by (simp add: smb_vfs_def nl_def cr_def)
  have yn: "\<not> breaks (yes_no b)" for b by (simp add: yes_no_def nl_def cr_def)
  show ?thesis
    using assms(3) name path comment users vfs yn
    by (auto simp: smb_lines_def nl_def [symmetric] cr_def [symmetric] nl_cr_codes [symmetric] split: option.splits if_splits)
qed

lemma smb_fold_read:
  assumes "is_user_name_regex re"
  shows "list_all (smb_ok re) ss \<Longrightarrow>
     (case foldl smb_line (out, current) (concat (map smb_lines ss)) of (o', c) \<Rightarrow> o' @ option_list c) =
       out @ option_list current @ map share_as_read ss"
proof (induction ss arbitrary: out current)
  case (Cons s ss)
  then show ?case using smb_lines_read [OF assms, of s out current] by (simp add: option_list_def)
qed simp

section \<open>The here-document\<close>

lemma replace_script_split:
  assumes "nl \<notin> set file"
  shows "\<exists>pre rest. replace_script file content check =
     pre @ ''<<'' @ sq ''SrvBoxShares'' @ [nl] @ content @ ''SrvBoxShares'' @ [nl] @ rest \<and> nl \<notin> set pre"
proof -
  let ?pre = "''set -e; f='' @ shell_quote_unix file
     @ ''; mkdir -p '' @ [CHR 0x22] @ ''$(dirname '' @ [CHR 0x22] @ ''$f'' @ [CHR 0x22] @ '')'' @ [CHR 0x22]
     @ ''; [ -f '' @ [CHR 0x22] @ ''$f'' @ [CHR 0x22] @ '' ] && cp '' @ [CHR 0x22] @ ''$f'' @ [CHR 0x22]
     @ '' '' @ [CHR 0x22] @ ''$f.sbm-bak'' @ [CHR 0x22] @ '' || rm -f '' @ [CHR 0x22] @ ''$f.sbm-bak'' @ [CHR 0x22]
     @ ''; cat > '' @ [CHR 0x22] @ ''$f.new'' @ [CHR 0x22] @ '' ''"
  have "nl \<notin> set ?pre" using assms by (auto simp: shell_quote_unix_def replace_char_def nl_def)
  moreover have "\<exists>rest. replace_script file content check =
     ?pre @ ''<<'' @ sq ''SrvBoxShares'' @ [nl] @ content @ ''SrvBoxShares'' @ [nl] @ rest"
    by (simp add: replace_script_def replace_file_script_def sq_def)
  ultimately show ?thesis by blast
qed

lemma folders_lead:
  assumes "\<forall>p \<in> set paths. nl \<notin> set p"
  shows "\<exists>leads. folders paths = unlines leads
     \<and> (\<forall>l \<in> set leads. nl \<notin> set l \<and> \<not> ends_with (''<<'' @ sq ''SrvBoxShares'') l)"
proof (cases "paths = []")
  case True
  then show ?thesis by (intro exI [of _ "[]"]) (simp add: folders_def)
next
  case False
  let ?l = "''for p in '' @ join '' '' (map shell_quote_unix paths) @ ''; do [ -d '' @ dq ''$p'' @ '' ] || { echo ''
        @ dq ''$p'' @ '' >&2; exit '' @ show_nat EXIT_NOT_A_FOLDER @ ''; }; done''"
  have q: "nl \<notin> set (shell_quote_unix p)" if "nl \<notin> set p" for p
    using that by (auto simp: shell_quote_unix_def replace_char_def nl_def)
  have "nl \<notin> set (join '' '' ws)" if "\<forall>w \<in> set ws. nl \<notin> set w" for ws
    using that by (induction ws rule: induct_list012) (auto simp: nl_def)
  then have "nl \<notin> set (join '' '' (map shell_quote_unix paths))" using q assms by auto
  moreover have "nl \<notin> set (show_nat n)" for n
    using show_nat_chars [of nl n] by (auto simp: is_ascii_digit_def nl_def)
  ultimately have "nl \<notin> set ?l" by (simp add: dq_def nl_def)
  moreover have "last w = CHR 0x27" if "ends_with (''<<'' @ sq ''SrvBoxShares'') w" for w
    using that by (auto simp: ends_with_def strip_suffix_Some_iff sq_def)
  then have "\<not> ends_with (''<<'' @ sq ''SrvBoxShares'') ?l" by fastforce
  ultimately show ?thesis using False by (intro exI [of _ "[?l]"]) (simp add: folders_def)
qed

lemma rendered_smb:
  assumes "is_user_name_regex re" "render_smb re shares = Ok content"
  shows "\<exists>ls. content = unlines ls \<and> (\<forall>l \<in> set ls. \<not> breaks l \<and> l \<noteq> ''SrvBoxShares'')
    \<and> parse_smb content = map share_as_read shares \<and> (\<forall>s \<in> set shares. path_ok (smb_path s) = Ok ())"
proof -
  let ?head = "''# Shares made in ServerBox. Rewritten by it: changes here are lost.''"
  let ?ls = "?head # concat (map smb_lines shares)"
  have ok: "list_all (smb_ok re) shares" and t: "content = unlines ?ls"
    using render_smb_loop_Ok [of re "[]" SMB_HEADER shares content] assms(2)
    by (simp_all add: render_smb_def SMB_HEADER_def)
  have shape: "\<not> breaks l \<and> l \<noteq> ''SrvBoxShares''" if l: "l \<in> set ?ls" for l
  proof (cases "l = ?head")
    case False
    then obtain s where "s \<in> set shares" "l \<in> set (smb_lines s)" using l by auto
    then show ?thesis using smb_lines_shape [OF assms(1), of s l] ok by (auto simp: list_all_iff)
  qed (simp add: nl_def cr_def)
  then have "str_lines content = ?ls" unfolding t by (intro str_lines_unlines) (auto simp: breaks_def)
  moreover have "smb_line ([], None) ?head = ([], None)"
  proof -
    have "trim ?head = ?head" by (rule trim_eq_self) (simp add: is_whitespace_def)
    then show ?thesis by (simp add: smb_line_def)
  qed
  ultimately have "parse_smb content = map share_as_read shares"
    using smb_fold_read [OF assms(1) ok, of "[]" None] by (simp add: parse_smb_def option_list_def)
  moreover have "\<forall>s \<in> set shares. path_ok (smb_path s) = Ok ()" using ok by (simp add: list_all_iff smb_ok_def)
  ultimately show ?thesis using t shape by blast
qed

text \<open>
  C9. The shares ServerBox writes are the shares it reads back. When the shares pass
  the checks, the script gives \<open>sh\<close> exactly the rendered file as the here-document,
  none of their values ending it early, and reading that file gives the same
  shares in the same order, each with every setting as it was, but for blanks
  around a comment and behind a path; no value starts a section of its own.
\<close>

theorem smb_file_is_read_back:
  assumes "is_user_name_regex re" and "smb_script re shares = Ok script"
  shows "\<exists>content. here_document ''SrvBoxShares'' script = Some content \<and> render_smb re shares = Ok content
    \<and> parse_smb content = map share_as_read shares"
proof -
  obtain content where c: "render_smb re shares = Ok content"
    and script: "script = folders (map smb_path shares) @ replace_script SMB_FILE content SMB_CHECK @ smb_reload"
    using assms(2) by (auto simp: smb_script_def split: sum.splits)
  obtain ls where ls: "content = unlines ls" "\<forall>l \<in> set ls. \<not> breaks l \<and> l \<noteq> ''SrvBoxShares''"
    and read: "parse_smb content = map share_as_read shares" and paths: "\<forall>s \<in> set shares. path_ok (smb_path s) = Ok ()"
    using rendered_smb [OF assms(1) c] by blast
  have "\<forall>p \<in> set (map smb_path shares). nl \<notin> set p" using paths path_ok_D plain_no_break by auto
  then obtain leads where leads: "folders (map smb_path shares) = unlines leads"
    "\<forall>l \<in> set leads. nl \<notin> set l \<and> \<not> ends_with (''<<'' @ sq ''SrvBoxShares'') l"
    using folders_lead by blast
  have "nl \<notin> set SMB_FILE" by (simp add: SMB_FILE_def nl_def)
  then obtain pre rest where pre: "replace_script SMB_FILE content SMB_CHECK =
     pre @ ''<<'' @ sq ''SrvBoxShares'' @ [nl] @ content @ ''SrvBoxShares'' @ [nl] @ rest" "nl \<notin> set pre"
    using replace_script_split by blast
  have "here_document ''SrvBoxShares'' script = Some content"
    using here_document_body [OF leads(2) pre(2), of ls "[nl] @ rest @ smb_reload"] ls(2)
    unfolding script pre(1) leads(1) by (simp add: breaks_def nl_def ls(1) del: append_Cons)
  then show ?thesis using c read by blast
qed

lemma smb_file_is_read_back_witness:
  "\<exists>content. here_document ''SrvBoxShares'' (projr (smb_script matches_user_name
       [\<lparr>smb_name = ''photos'', smb_path = ''/mnt/p'', smb_comment = Some '' [x] '', smb_read_only = False,
         smb_guest = False, smb_users = [''alice'', ''bob''], smb_time_machine = True, smb_recycle = False,
         smb_managed = True\<rparr>])) = Some content
    \<and> map smb_comment (parse_smb content) = [Some ''[x]''] \<and> map smb_users (parse_smb content) = [[''alice'', ''bob'']]"
proof -
  let ?s = "\<lparr>smb_name = ''photos'', smb_path = ''/mnt/p'', smb_comment = Some '' [x] '', smb_read_only = False,
         smb_guest = False, smb_users = [''alice'', ''bob''], smb_time_machine = True, smb_recycle = False,
         smb_managed = True\<rparr>"
  have re: "is_user_name_regex matches_user_name" by (simp add: is_user_name_regex_def)
  have u: "list_all (user_ok matches_user_name) [''alice'', ''bob'']" by code_simp
  have n: "smb_name_ok ''photos''" by code_simp
  have p: "path_ok ''/mnt/p'' = Ok ()"
    by (simp add: path_ok_def byte_len_def plain_text_def is_control_def)
  have "\<exists>script. smb_script matches_user_name [?s] = Ok script"
    using u n p by (simp add: smb_script_def render_smb_def byte_len_def plain_text_def is_control_def)
  then obtain script where script: "smb_script matches_user_name [?s] = Ok script" by blast
  then obtain content where "here_document ''SrvBoxShares'' script = Some content"
    "parse_smb content = map share_as_read [?s]"
    using smb_file_is_read_back [OF re] by blast
  moreover have "trim '' [x] '' = ''[x]''" by code_simp
  ultimately show ?thesis by (intro exI [of _ content]) (simp add: script share_as_read_def)
qed

section \<open>Exports\<close>

definition client_token :: "NfsClient \<Rightarrow> string" where
  "client_token c = cl_host c @ ''('' @ (if cl_read_only c then ''ro'' else ''rw'') @ '',sync,no_subtree_check,''
     @ the (squash_word (cl_squash c)) @ '')''"

definition client_ok :: "NfsClient \<Rightarrow> bool" where
  "client_ok c \<longleftrightarrow> host_ok (cl_host c) \<and> squash_word (cl_squash c) \<noteq> None"

definition nfs_line :: "NfsExport \<Rightarrow> string" where
  "nfs_line e = [CHR 0x22] @ exp_path e @ [CHR 0x22] @ concat (map (\<lambda>c. '' '' @ client_token c) (exp_clients e))"

definition nfs_ok :: "NfsExport \<Rightarrow> bool" where
  "nfs_ok e \<longleftrightarrow> path_ok (exp_path e) = Ok () \<and> list_all client_ok (exp_clients e)"

definition export_as_read :: "NfsExport \<Rightarrow> NfsExport" where
  "export_as_read e = e\<lparr>exp_clients := map (\<lambda>c. c\<lparr>cl_options := []\<rparr>) (exp_clients e), exp_managed := False\<rparr>"

lemma render_clients_Ok:
  "render_clients line cs = Ok out \<Longrightarrow>
     list_all client_ok cs \<and> out = line @ concat (map (\<lambda>c. '' '' @ client_token c) cs)"
proof (induction cs arbitrary: line)
  case (Cons c cs)
  have "client_ok c" "render_clients (line @ '' '' @ client_token c) cs = Ok out"
    using Cons.prems by (simp_all add: client_ok_def client_token_def split: if_splits option.splits)
  then show ?case using Cons.IH [of "line @ '' '' @ client_token c"] by simp
qed simp

lemma render_nfs_loop_Ok:
  "render_nfs_loop seen out es = Ok content \<Longrightarrow>
     list_all nfs_ok es \<and> content = out @ unlines (map nfs_line es) \<and> list_all (\<lambda>e. exp_clients e \<noteq> []) es"
proof (induction es arbitrary: seen out)
  case (Cons e es)
  obtain line where line: "render_clients ([CHR 0x22] @ exp_path e @ [CHR 0x22]) (exp_clients e) = Ok line"
    and e: "path_ok (exp_path e) = Ok ()" "exp_clients e \<noteq> []"
    and more: "render_nfs_loop (seen @ [exp_path e]) (out @ line @ [nl]) es = Ok content"
    using Cons.prems by (auto split: if_splits sum.splits)
  have "line = nfs_line e" "list_all client_ok (exp_clients e)"
    using render_clients_Ok [OF line] by (simp_all add: nfs_line_def)
  then show ?case using Cons.IH [OF more] e by (simp add: nfs_ok_def)
qed simp

lemma host_chars:
  "is_ascii_alphanumeric c \<or> c \<in> set ''.-*:/_[]'' \<Longrightarrow>
     \<not> is_whitespace c \<and> c \<noteq> CHR ''('' \<and> c \<noteq> CHR ''#'' \<and> c \<noteq> CHR 0x5C \<and> c \<noteq> nl \<and> c \<noteq> cr"
  by (auto simp: is_ascii_alphanumeric_def is_whitespace_def is_ascii_lower_def is_ascii_upper_def is_ascii_digit_def
      nl_def cr_def)

lemma squash_cases:
  assumes "squash_word s = Some w"
  obtains "s = ''root''" "w = ''root_squash''" | "s = ''all''" "w = ''all_squash''" | "s = ''none''" "w = ''no_root_squash''"
  using assms by (auto simp: squash_word_def split: if_splits)

lemma token_chars:
  assumes "client_ok c" "x \<in> set (client_token c)"
  shows "\<not> is_whitespace x \<and> x \<noteq> CHR ''#'' \<and> x \<noteq> CHR 0x5C \<and> x \<noteq> nl \<and> x \<noteq> cr"
proof -
  have "x \<in> set (cl_host c) \<or> x \<in> set ''(rorw,sync,no_subtree_check,root_squash all_squash)'' - {CHR '' ''}"
  proof -
    obtain w where w: "squash_word (cl_squash c) = Some w" using assms(1) by (auto simp: client_ok_def)
    show ?thesis
      using w by (cases rule: squash_cases) (use assms(2) in \<open>auto simp: client_token_def squash_word_def split: if_splits\<close>)
  qed
  then show ?thesis
  proof
    assume "x \<in> set (cl_host c)"
    then show ?thesis using assms(1) host_chars [of x] by (auto simp: client_ok_def host_ok_def list_all_iff)
  next
    define S where "S = ''(rorw,sync,no_subtree_check,root_squash all_squash)''"
    assume "x \<in> set ''(rorw,sync,no_subtree_check,root_squash all_squash)'' - {CHR '' ''}"
    then have x: "x \<in> set S - {CHR '' ''}" by (simp only: S_def)
    have "list_all (\<lambda>x. x = CHR '' '' \<or> \<not> is_whitespace x \<and> x \<noteq> CHR ''#'' \<and> x \<noteq> CHR 0x5C \<and> x \<noteq> nl \<and> x \<noteq> cr) S"
      by (simp add: S_def is_whitespace_def nl_def cr_def)
    then have "x = CHR '' '' \<or> \<not> is_whitespace x \<and> x \<noteq> CHR ''#'' \<and> x \<noteq> CHR 0x5C \<and> x \<noteq> nl \<and> x \<noteq> cr"
      using x unfolding list_all_iff by (metis DiffD1)
    moreover have "x \<noteq> CHR '' ''" using x by (metis DiffD2 singletonI)
    ultimately show ?thesis by (simp only: simp_thms)
  qed
qed

definition client_opts :: "string \<Rightarrow> string \<Rightarrow> string" where
  "client_opts ro w = ro @ '',sync,no_subtree_check,'' @ w"

lemma client_opts_split:
  assumes "ro = ''ro'' \<or> ro = ''rw''" "w = ''root_squash'' \<or> w = ''all_squash'' \<or> w = ''no_root_squash''"
  shows "rev (dropWhile (\<lambda>x. x = CHR '')'') (rev (client_opts ro w @ '')''))) = client_opts ro w"
    and "filter (\<lambda>o'. o' \<noteq> []) (split_on (CHR '','') (client_opts ro w)) = [ro, ''sync'', ''no_subtree_check'', w]"
proof -
  have "last w \<noteq> CHR '')''" "w \<noteq> []" using assms(2) by auto
  then show "rev (dropWhile (\<lambda>x. x = CHR '')'') (rev (client_opts ro w @ '')''))) = client_opts ro w"
    by (cases w rule: rev_cases) (auto simp: client_opts_def)
  have w: "CHR '','' \<notin> set w" "w \<noteq> []" and ro: "CHR '','' \<notin> set ro" "ro \<noteq> []" using assms by auto
  have "split_on (CHR '','') (ro @ CHR '','' # ''sync'' @ CHR '','' # ''no_subtree_check'' @ CHR '','' # w) =
      [ro, ''sync'', ''no_subtree_check'', w]"
    using split_on_append [OF ro(1)] split_on_append [of "CHR '',''" "''sync''"]
      split_on_append [of "CHR '',''" "''no_subtree_check''"] split_on_no_sep [OF w(1)] by simp
  then show "filter (\<lambda>o'. o' \<noteq> []) (split_on (CHR '','') (client_opts ro w)) = [ro, ''sync'', ''no_subtree_check'', w]"
    using w ro by (simp add: client_opts_def)
qed

lemma client_option_root: "client_option c ''root_squash'' = c\<lparr>cl_squash := ''root''\<rparr>"
  and client_option_all: "client_option c ''all_squash'' = c\<lparr>cl_squash := ''all''\<rparr>"
  and client_option_none: "client_option c ''no_root_squash'' = c\<lparr>cl_squash := ''none''\<rparr>"
  and client_option_sync: "client_option c ''sync'' = c" "client_option c ''no_subtree_check'' = c"
  and client_option_access: "client_option c ''ro'' = c\<lparr>cl_read_only := True\<rparr>"
    "client_option c ''rw'' = c\<lparr>cl_read_only := False\<rparr>"
  by (simp_all add: client_option_def)

lemmas client_options = client_option_root client_option_all client_option_none client_option_sync client_option_access

lemma parse_client_token: "client_ok c \<Longrightarrow> parse_client (client_token c) = c\<lparr>cl_options := []\<rparr>"
proof -
  assume c: "client_ok c"
  obtain w where w: "squash_word (cl_squash c) = Some w" using c by (auto simp: client_ok_def)
  define ro where "ro = (if cl_read_only c then ''ro'' else ''rw'')"
  have ro: "ro = ''ro'' \<or> ro = ''rw''" by (simp add: ro_def)
  have w': "w = ''root_squash'' \<or> w = ''all_squash'' \<or> w = ''no_root_squash''" using w by (cases rule: squash_cases) auto
  have host: "CHR ''('' \<notin> set (cl_host c)"
    using c host_chars [of "CHR ''(''"] unfolding client_ok_def host_ok_def list_all_iff by blast
  have "cl_host c \<noteq> []" using c by (auto simp: client_ok_def host_ok_def byte_len_def)
  note host = host this
  have "client_token c = cl_host c @ CHR ''('' # client_opts ro w @ '')''"
    by (simp add: client_token_def client_opts_def ro_def w)
  then have "split_once (CHR ''('') (client_token c) = Some (cl_host c, client_opts ro w @ '')'')" using host by simp
  then have "parse_client (client_token c) =
      foldl client_option \<lparr>cl_host = cl_host c, cl_read_only = True, cl_squash = ''root'', cl_options = []\<rparr>
       [ro, ''sync'', ''no_subtree_check'', w]"
    using host client_opts_split(1) [OF ro w'] unfolding parse_client_def
    by (simp add: client_opts_split(2) [OF ro w'])
  also have "\<dots> = c\<lparr>cl_options := []\<rparr>"
    using w by (cases rule: squash_cases) (simp_all add: ro_def client_options)
  finally show ?thesis .
qed

lemma clients_words:
  "list_all client_ok cs \<Longrightarrow> split_whitespace (concat (map (\<lambda>c. '' '' @ client_token c) cs)) = map client_token cs"
proof (induction cs)
  case (Cons c cs)
  have w: "is_word (client_token c)" using Cons.prems token_chars [of c] by (auto simp: is_word_def client_token_def)
  have "split_whitespace (client_token c @ concat (map (\<lambda>c. '' '' @ client_token c) cs)) =
      client_token c # split_whitespace (concat (map (\<lambda>c. '' '' @ client_token c) cs))"
    using w by (cases cs) (simp_all add: split_whitespace_word split_whitespace_word_ws split_whitespace_Cons_ws)
  then show ?case using Cons by (simp add: split_whitespace_Cons_ws)
qed simp

lemma nfs_line_chars:
  assumes "nfs_ok e"
  shows "CHR ''#'' \<notin> set (exp_path e) \<Longrightarrow> CHR ''#'' \<notin> set (nfs_line e)"
    and "CHR 0x5C \<notin> set (nfs_line e)" "\<not> breaks (nfs_line e)"
proof -
  have path: "CHR 0x5C \<notin> set (exp_path e)" "\<not> breaks (exp_path e)"
    using assms(1) path_ok_D plain_no_break by (auto simp: nfs_ok_def breaks_def)
  have c: "CHR ''#'' \<notin> set (client_token c)" "CHR 0x5C \<notin> set (client_token c)" "\<not> breaks (client_token c)"
    if "c \<in> set (exp_clients e)" for c
    using assms(1) that token_chars [of c] by (auto simp: nfs_ok_def list_all_iff breaks_def)
  show "CHR ''#'' \<notin> set (nfs_line e)" if "CHR ''#'' \<notin> set (exp_path e)" using that c by (auto simp: nfs_line_def)
  show "CHR 0x5C \<notin> set (nfs_line e)" using path c by (auto simp: nfs_line_def)
  show "\<not> breaks (nfs_line e)" using path c by (auto simp: nfs_line_def breaks_def nl_def cr_def)
qed

lemma export_line_read:
  assumes "nfs_ok e" "exp_clients e \<noteq> []" "CHR ''#'' \<notin> set (exp_path e)"
  shows "export_line (nfs_line e) = Some (export_as_read e)"
proof -
  let ?rest = "concat (map (\<lambda>c. '' '' @ client_token c) (exp_clients e))"
  have line: "nfs_line e = CHR 0x22 # exp_path e @ CHR 0x22 # ?rest" by (simp add: nfs_line_def)
  obtain cs c where cs: "exp_clients e = cs @ [c]" using assms(2) by (cases "exp_clients e" rule: rev_cases) auto
  have "last (nfs_line e) = CHR '')''" by (simp add: line cs client_token_def)
  then have "trim (nfs_line e) = nfs_line e"
    by (intro trim_eq_self) (simp add: line is_whitespace_def)
  moreover have "hd (split_on (CHR ''#'') (nfs_line e)) = nfs_line e"
    using nfs_line_chars(1) [OF assms(1,3)] by (simp add: split_on_no_sep)
  moreover have "split_once (CHR 0x22) (exp_path e @ CHR 0x22 # ?rest) = Some (exp_path e, ?rest)"
    using assms(1) path_ok_D by (intro split_once_append) (auto simp: nfs_ok_def)
  moreover have "map parse_client (split_whitespace ?rest) = map (\<lambda>c. c\<lparr>cl_options := []\<rparr>) (exp_clients e)"
    using assms(1) by (subst clients_words) (auto simp: nfs_ok_def list_all_iff parse_client_token)
  ultimately show ?thesis by (simp add: export_line_def line export_as_read_def)
qed

lemma replace_fuel_absent: "p \<notin> set s \<Longrightarrow> replace_fuel n (p # ps) to s = s"
  by (induction n "p # ps" to s rule: replace_fuel.induct) auto

text \<open>
  C21. The exports ServerBox writes are the exports it reads back: where no path holds a
  \<open>#\<close>, the script gives \<open>sh\<close> exactly the rendered file, and reading it gives the same
  exports in the same order, with the same clients, access and squashing.
\<close>

theorem nfs_file_is_read_back:
  assumes "nfs_script exports = Ok script" and "\<forall>e \<in> set exports. CHR ''#'' \<notin> set (exp_path e)"
  shows "\<exists>content. here_document ''SrvBoxShares'' script = Some content \<and> render_nfs exports = Ok content
    \<and> parse_exports content = map export_as_read exports"
proof -
  obtain content where c: "render_nfs exports = Ok content"
    and script: "script = folders (map exp_path exports) @ nfs_start @ replace_script NFS_FILE content ''exportfs -ra''"
    using assms(1) by (auto simp: nfs_script_def split: sum.splits)
  let ?head = "''# Exports made in ServerBox. Rewritten by it: changes here are lost.''"
  let ?ls = "?head # map nfs_line exports"
  have ok: "list_all nfs_ok exports" "list_all (\<lambda>e. exp_clients e \<noteq> []) exports" and t: "content = unlines ?ls"
    using render_nfs_loop_Ok [of "[]" NFS_HEADER exports content] c by (simp_all add: render_nfs_def NFS_HEADER_def)
  have l: "CHR 0x5C \<notin> set l \<and> \<not> breaks l \<and> l \<noteq> ''SrvBoxShares''" if "l \<in> set ?ls" for l
    using that ok assms(2) nfs_line_chars by (auto simp: list_all_iff nl_def cr_def nfs_line_def [of "_"])
  have "str_lines content = ?ls" unfolding t using l by (intro str_lines_unlines) (auto simp: breaks_def)
  moreover have "replace_sub [CHR 0x5C, nl] '' '' content = content"
  proof -
    have "CHR 0x5C \<notin> set content" unfolding t using l by (auto simp: unlines_def nl_def)
    then show ?thesis by (simp add: replace_sub_def replace_fuel_absent)
  qed
  moreover have "export_line ?head = None" by (simp add: export_line_def)
  moreover have "List.map_filter export_line (map nfs_line exports) = map export_as_read exports"
    using ok assms(2) by (induction exports) (simp_all add: List.map_filter_def export_line_read)
  ultimately have read: "parse_exports content = map export_as_read exports"
    by (simp add: parse_exports_def List.map_filter_def)
  have "\<forall>p \<in> set (map exp_path exports). nl \<notin> set p"
    using ok(1) path_ok_D plain_no_break by (auto simp: list_all_iff nfs_ok_def)
  then obtain leads where leads: "folders (map exp_path exports) = unlines leads"
    "\<forall>l \<in> set leads. nl \<notin> set l \<and> \<not> ends_with (''<<'' @ sq ''SrvBoxShares'') l"
    using folders_lead by blast
  define start where "start = butlast nfs_start"
  have "nfs_start \<noteq> []" "last nfs_start = nl" by (simp_all add: nfs_start_def)
  then have start: "nfs_start = unlines [start]" using append_butlast_last_id [of nfs_start] by (simp add: start_def)
  have start': "nl \<notin> set start \<and> \<not> ends_with (''<<'' @ sq ''SrvBoxShares'') start"
    unfolding start_def by code_simp
  have "nl \<notin> set NFS_FILE" by (simp add: NFS_FILE_def nl_def)
  then obtain pre rest where pre: "replace_script NFS_FILE content ''exportfs -ra'' =
     pre @ ''<<'' @ sq ''SrvBoxShares'' @ [nl] @ content @ ''SrvBoxShares'' @ [nl] @ rest" "nl \<notin> set pre"
    using replace_script_split by blast
  have all: "\<forall>l \<in> set (leads @ [start]). nl \<notin> set l \<and> \<not> ends_with (''<<'' @ sq ''SrvBoxShares'') l"
    using leads(2) start' by auto
  have "\<forall>x \<in> set ?ls. nl \<notin> set x \<and> x \<noteq> ''SrvBoxShares''" using l by (auto simp: breaks_def)
  then have "here_document ''SrvBoxShares'' script = Some content"
    using here_document_body [OF all pre(2), of ?ls "[nl] @ rest"]
    unfolding script pre(1) leads(1) start by (simp add: nl_def t del: append_Cons)
  then show ?thesis using c read by blast
qed

definition an_export :: "string \<Rightarrow> NfsExport" where
  "an_export path = \<lparr>exp_path = path, exp_clients = [\<lparr>cl_host = ''10.0.0.0/8'', cl_read_only = False, cl_squash = ''all'',
     cl_options = []\<rparr>], exp_managed = True\<rparr>"

lemma an_export_renders:
  assumes "path_ok path = Ok ()"
  shows "render_nfs [an_export path] = Ok (NFS_HEADER @ [CHR 0x22] @ path @ [CHR 0x22]
     @ '' 10.0.0.0/8(rw,sync,no_subtree_check,all_squash)'' @ [nl])"
proof -
  have "host_ok ''10.0.0.0/8''" by code_simp
  then show ?thesis using assms by (simp add: render_nfs_def an_export_def squash_word_def)
qed

lemma path_ok_examples: "path_ok ''/srv/my data'' = Ok ()" "path_ok ''/srv/a#b'' = Ok ()"
  by (simp_all add: path_ok_def byte_len_def plain_text_def is_control_def)

lemma nfs_file_is_read_back_witness:
  "\<exists>content. here_document ''SrvBoxShares'' (projr (nfs_script [an_export ''/srv/my data''])) = Some content
    \<and> parse_exports content = [(an_export ''/srv/my data'')\<lparr>exp_managed := False\<rparr>]"
proof -
  obtain script where script: "nfs_script [an_export ''/srv/my data''] = Ok script"
    using an_export_renders [OF path_ok_examples(1)] by (simp add: nfs_script_def)
  have "\<forall>e \<in> set [an_export ''/srv/my data'']. CHR ''#'' \<notin> set (exp_path e)" by (simp add: an_export_def)
  from nfs_file_is_read_back [OF script this] obtain content where
    "here_document ''SrvBoxShares'' script = Some content"
    "parse_exports content = map export_as_read [an_export ''/srv/my data'']" by blast
  moreover have "export_as_read (an_export p) = (an_export p)\<lparr>exp_managed := False\<rparr>" for p
    by (simp add: export_as_read_def an_export_def)
  ultimately show ?thesis by (intro exI [of _ content]) (simp add: script)
qed

lemma trim_quote: "trim (CHR 0x22 # s) = CHR 0x22 # trim_end s"
  by (simp add: trim_def trim_start_def trim_end_def is_whitespace_def dropWhile_append)

lemma hash_line_lost:
  assumes "nfs_ok e" "CHR ''#'' \<in> set (exp_path e)"
  shows "export_line (nfs_line e) = None"
proof -
  obtain pre post where path: "exp_path e = pre @ CHR ''#'' # post" "CHR ''#'' \<notin> set pre"
    using split_list_first [OF assms(2)] by blast
  have "CHR 0x22 \<notin> set pre" using assms(1) path(1) path_ok_D [of "exp_path e"] by (simp add: nfs_ok_def)
  then have "split_once (CHR 0x22) (trim_end pre) = None"
    by (auto simp: split_once_None_iff trim_end_def dest: set_dropWhileD)
  moreover have "split_on (CHR ''#'') (nfs_line e) = (CHR 0x22 # pre) # split_on (CHR ''#'')
      (post @ [CHR 0x22] @ concat (map (\<lambda>c. '' '' @ client_token c) (exp_clients e)))"
    using split_on_append [of "CHR ''#''" "CHR 0x22 # pre"] path by (simp add: nfs_line_def)
  ultimately show ?thesis by (simp add: export_line_def trim_quote)
qed

text \<open>
  C39. An export of a folder with a \<open>#\<close> in its name passes the checks and is written,
  and then is not read back: the reader takes the \<open>#\<close> for a comment even between the
  quotes. Of any file \<open>render_nfs\<close> writes, exactly the exports whose path holds no
  \<open>#\<close> are listed, in their order; the others are in no listing, and the next change,
  which writes the whole file from what was listed, ends them.
\<close>

theorem export_with_a_hash_is_lost:
  assumes "render_nfs exports = Ok content"
  shows "parse_exports content = map export_as_read (filter (\<lambda>e. CHR ''#'' \<notin> set (exp_path e)) exports)"
proof -
  let ?head = "''# Exports made in ServerBox. Rewritten by it: changes here are lost.''"
  let ?ls = "?head # map nfs_line exports"
  have ok: "list_all nfs_ok exports" "list_all (\<lambda>e. exp_clients e \<noteq> []) exports" and t: "content = unlines ?ls"
    using render_nfs_loop_Ok [of "[]" NFS_HEADER exports content] assms by (simp_all add: render_nfs_def NFS_HEADER_def)
  have l: "CHR 0x5C \<notin> set l \<and> \<not> breaks l" if "l \<in> set ?ls" for l
    using that ok nfs_line_chars(2,3) by (auto simp: list_all_iff nl_def cr_def)
  have "str_lines content = ?ls" unfolding t using l by (intro str_lines_unlines) (auto simp: breaks_def)
  moreover have "CHR 0x5C \<notin> set content" unfolding t using l by (auto simp: unlines_def nl_def)
  then have "replace_sub [CHR 0x5C, nl] '' '' content = content" by (simp add: replace_sub_def replace_fuel_absent)
  moreover have "export_line ?head = None" by (simp add: export_line_def)
  moreover have "List.map_filter export_line (map nfs_line exports)
      = map export_as_read (filter (\<lambda>e. CHR ''#'' \<notin> set (exp_path e)) exports)"
    using ok by (induction exports) (simp_all add: List.map_filter_def export_line_read hash_line_lost)
  ultimately show ?thesis by (simp add: parse_exports_def List.map_filter_def)
qed

lemma export_with_a_hash_is_lost_witness:
  "\<exists>content. render_nfs [an_export ''/srv/a#b'', an_export ''/srv/my data''] = Ok content
     \<and> parse_exports content = [(an_export ''/srv/my data'')\<lparr>exp_managed := False\<rparr>]"
proof -
  have "host_ok ''10.0.0.0/8''" by code_simp
  then obtain content where c: "render_nfs [an_export ''/srv/a#b'', an_export ''/srv/my data''] = Ok content"
    using path_ok_examples by (simp add: render_nfs_def an_export_def squash_word_def)
  show ?thesis using c export_with_a_hash_is_lost [OF c] by (simp add: export_as_read_def an_export_def)
qed

end
