(* ===== verification/User_Commands.thy ===== *)
theory User_Commands
  imports Users
begin

text \<open>
  What the commands of \<open>crates/sbm_parser/src/users.rs\<close> do to the machine. The tools
  they call are parameters: \<open>usermod_documented\<close> and \<open>gpasswd_documented\<close> state what
  the manual pages of \<open>usermod\<close> and \<open>gpasswd\<close> say of the options the commands use.
\<close>

section \<open>Changing an account\<close>

text \<open>
  \<open>usermod\<close> on the account it is given last: \<open>run\<close> takes the words after the name of
  the program, \<open>gid_of\<close> is the number of a group.
\<close>

definition usermod_documented ::
  "(string \<Rightarrow> nat) \<Rightarrow> (string list \<Rightarrow> SystemUser \<Rightarrow> SystemUser) \<Rightarrow> bool" where
  "usermod_documented gid_of run \<longleftrightarrow>
     (\<forall>u name. run [name] u = u)
     \<and> (\<forall>u v w ws. run (''-c'' # v # w # ws) u = run (w # ws) (u\<lparr>su_comment := v\<rparr>))
     \<and> (\<forall>u v w ws. run (''-d'' # v # w # ws) u = run (w # ws) (u\<lparr>su_home := v\<rparr>))
     \<and> (\<forall>u w ws. run (''-m'' # w # ws) u = run (w # ws) u)
     \<and> (\<forall>u v w ws. run (''-s'' # v # w # ws) u = run (w # ws) (u\<lparr>su_shell := v\<rparr>))
     \<and> (\<forall>u v w ws. run (''-g'' # v # w # ws) u =
          run (w # ws) (u\<lparr>su_gid := gid_of v, su_primary_group := Some v\<rparr>))
     \<and> (\<forall>u v w ws. run (''-G'' # v # w # ws) u =
          run (w # ws) (u\<lparr>su_supplementary := (if v = [] then [] else split_on (CHR '','') v)\<rparr>))"

text \<open>The account a draft asks for: an empty home, shell or primary group is no change.\<close>

definition drafted :: "(string \<Rightarrow> nat) \<Rightarrow> SystemUser \<Rightarrow> UserDraft \<Rightarrow> SystemUser" where
  "drafted gid_of u d =
     u\<lparr>su_comment := ud_comment d,
       su_home := (if ud_home d = [] then su_home u else ud_home d),
       su_shell := (if ud_shell d = [] then su_shell u else ud_shell d),
       su_gid := (if ud_primary_group d = [] \<or> su_primary_group u = Some (ud_primary_group d) then su_gid u
                  else gid_of (ud_primary_group d)),
       su_primary_group := (if ud_primary_group d = [] then su_primary_group u else Some (ud_primary_group d)),
       su_supplementary := ud_supplementary d\<rparr>"

definition edit_words :: "SystemUser \<Rightarrow> UserDraft \<Rightarrow> string list" where
  "edit_words u d =
     opt (ud_comment d \<noteq> su_comment u) [''-c'', ud_comment d]
     @ opt (ud_home d \<noteq> [] \<and> ud_home d \<noteq> su_home u) ([''-d'', ud_home d] @ opt (ud_move_home d) [''-m''])
     @ opt (ud_shell d \<noteq> [] \<and> ud_shell d \<noteq> su_shell u) [''-s'', ud_shell d]
     @ opt (ud_primary_group d \<noteq> [] \<and> Some (ud_primary_group d) \<noteq> su_primary_group u) [''-g'', ud_primary_group d]
     @ opt (ud_supplementary d \<noteq> su_supplementary u) [''-G'', join '','' (ud_supplementary d)]"

lemma list_all2_opt: "list_all2 P xs ys \<Longrightarrow> list_all2 P (opt b xs) (opt b ys)"
  by (simp add: opt_def)

lemma flags_plain:
  "plain_word ''usermod''" "plain_word ''-c''" "plain_word ''-d''" "plain_word ''-m''" "plain_word ''-s''"
  "plain_word ''-g''" "plain_word ''-G''" "plain_word '':''"
  "plain_word ''gpasswd''" "plain_word ''-a''"
  by (simp_all add: plain_word_def sh_plain_def is_ascii_alphanumeric_def is_ascii_lower_def is_ascii_upper_def)

lemma edit_args_spell: "list_all2 spells (edit_args u d) (''usermod'' # edit_words u d)"
  unfolding edit_args_def edit_words_def append_Cons append_Nil
  by (intro list_all2_appendI list_all2_opt list.rel_intros spells_quote spells_plain flags_plain)

lemma edit_words_Nil: "edit_words u d = [] \<longleftrightarrow> length (edit_args u d) = 1"
  using list_all2_lengthD [OF edit_args_spell [of u d]] by simp

lemma run_opt:
  assumes "usermod_documented gid_of run"
  shows "ws \<noteq> [] \<Longrightarrow> run (opt b [''-c'', v] @ ws) u = run ws (if b then u\<lparr>su_comment := v\<rparr> else u)"
    and "ws \<noteq> [] \<Longrightarrow>
      run (opt b (''-d'' # v # opt m [''-m'']) @ ws) u = run ws (if b then u\<lparr>su_home := v\<rparr> else u)"
    and "ws \<noteq> [] \<Longrightarrow> run (opt b [''-s'', v] @ ws) u = run ws (if b then u\<lparr>su_shell := v\<rparr> else u)"
    and "ws \<noteq> [] \<Longrightarrow> run (opt b [''-g'', v] @ ws) u =
      run ws (if b then u\<lparr>su_gid := gid_of v, su_primary_group := Some v\<rparr> else u)"
    and "run (opt b [''-G'', v] @ [name]) u =
      (if b then u\<lparr>su_supplementary := (if v = [] then [] else split_on (CHR '','') v)\<rparr> else u)"
  using assms by (cases ws; simp add: usermod_documented_def opt_def)+

lemma user_name_chars:
  assumes "matches_user_name s"
  shows "s \<noteq> [] \<and> (\<forall>c \<in> set s. name_tail_char c \<or> c = CHR ''$'')"
proof (cases s)
  case Nil
  then show ?thesis using assms by (simp add: matches_user_name_def)
next
  case (Cons c cs)
  have head: "name_tail_char c" using assms Cons by (auto simp: matches_user_name_def name_tail_char_def)
  show ?thesis
  proof (cases "cs \<noteq> [] \<and> last cs = CHR ''$''")
    case True
    then have "cs = butlast cs @ [CHR ''$'']" by (metis append_butlast_last_id)
    moreover have "\<forall>x \<in> set (butlast cs). name_tail_char x"
      using assms Cons True by (simp add: matches_user_name_def list_all_iff)
    ultimately have "\<forall>x \<in> set cs. name_tail_char x \<or> x = CHR ''$''" by (metis UnE list.set(1,2) set_append singletonD)
    then show ?thesis using Cons head by simp
  next
    case False
    then have "(if cs \<noteq> [] \<and> last cs = CHR ''$'' then butlast cs else cs) = cs" by (rule if_not_P)
    then have "\<forall>x \<in> set cs. name_tail_char x"
      using assms Cons by (simp only: matches_user_name_def list.case list_all_iff) blast
    then show ?thesis using Cons head by simp
  qed
qed

lemma valid_name_chars:
  assumes "is_user_name_regex re" "valid_name re s"
  shows "s \<noteq> [] \<and> CHR '','' \<notin> set s \<and> nl \<notin> set s"
proof -
  have m: "s \<noteq> [] \<and> (\<forall>c \<in> set s. name_tail_char c \<or> c = CHR ''$'')"
    using assms by (intro user_name_chars) (simp add: is_user_name_regex_def valid_name_def)
  have dollar: "CHR '','' \<noteq> CHR ''$''" "nl \<noteq> CHR ''$''" by (simp_all add: nl_def)
  show ?thesis using m dollar name_tail_plain by metis
qed

lemma valid_member_list:
  assumes re: "is_user_name_regex re" and v: "\<forall>g \<in> set gs. valid_name re g"
  shows "(if join '','' gs = [] then [] else split_on (CHR '','') (join '','' gs)) = gs"
proof (cases gs)
  case (Cons g rest)
  have plain: "g \<noteq> [] \<and> CHR '','' \<notin> set g" if "g \<in> set gs" for g
    using valid_name_chars [OF re] v that by blast
  have "join '','' gs \<noteq> []" using Cons plain [of g] by (cases rest) (simp_all add: join_Cons)
  moreover have "split_on (CHR '','') (join '','' gs) = gs" using split_on_join [of gs] Cons plain by blast
  ultimately show ?thesis by simp
qed simp

lemma edit_effect:
  assumes "usermod_documented gid_of run" "is_user_name_regex re" "\<forall>g \<in> set (ud_supplementary d). valid_name re g"
  shows "run (edit_words u d @ [name]) u = drafted gid_of u d"
proof -
  show ?thesis
    by (auto simp: edit_words_def run_opt [OF assms(1)] drafted_def valid_member_list [OF assms(2,3)])
qed

subsection \<open>The script with the password\<close>

lemma quoted_set: "nl \<notin> set s \<Longrightarrow> nl \<notin> set (shell_quote_unix s)"
  by (auto simp: shell_quote_unix_def replace_char_def nl_def)

lemma edit_args_one_line:
  assumes "validate_draft re d = None" "is_user_name_regex re"
  shows "nl \<notin> set (join '' '' (edit_args u d))"
proof -
  have parts: "nl \<notin> set (ud_comment d)" "nl \<notin> set (ud_home d)" "nl \<notin> set (ud_shell d)" "nl \<notin> set (ud_primary_group d)"
    "\<forall>g \<in> set (ud_supplementary d). valid_name re g"
    using assms(1) by (auto simp: validate_draft_def has_line_break_def list_ex_iff split: if_splits)
  have "nl \<notin> set (join '','' (ud_supplementary d))"
    using set_join [of nl "'',''" "ud_supplementary d"] valid_name_chars [OF assms(2)] parts(5) by (auto simp: nl_def)
  then have "\<forall>w \<in> set (edit_args u d). nl \<notin> set w"
    using parts(1-4) by (auto simp: edit_args_def opt_def quoted_set) (auto simp: nl_def)
  then show ?thesis using set_join [of nl "'' ''" "edit_args u d"] by (auto simp: nl_def)
qed

lemma last_separator:
  assumes "xs @ q # b = ys @ q # c" "q \<notin> set b" "q \<notin> set c"
  shows "b = c"
proof -
  have "rev b = takeWhile (\<lambda>x. x \<noteq> q) (rev (xs @ q # b))" using assms(2) by (simp add: takeWhile_append)
  also have "\<dots> = rev c" unfolding assms(1) using assms(3) by (simp add: takeWhile_append)
  finally show ?thesis by simp
qed

lemma quoted_name:
  assumes "is_user_name_regex re" "valid_name re s"
  shows "shell_quote_unix s = sq s \<and> CHR 0x27 \<notin> set s \<and> s \<noteq> ''SrvBoxUserPassword''"
proof -
  have m: "s \<noteq> [] \<and> (\<forall>c \<in> set s. name_tail_char c \<or> c = CHR ''$'')"
    using assms by (intro user_name_chars) (simp add: is_user_name_regex_def valid_name_def)
  have ok: "\<not> (name_tail_char (CHR 0x27) \<or> CHR 0x27 = CHR ''$'')" "\<not> (name_tail_char (CHR ''S'') \<or> CHR ''S'' = CHR ''$'')"
    by (simp_all add: name_tail_char_def is_ascii_lower_def is_ascii_digit_def)
  have quote: "CHR 0x27 \<notin> set s" using m ok(1) by blast
  have "CHR ''S'' \<notin> set s" using m ok(2) by blast
  then have "s \<noteq> ''SrvBoxUserPassword''" by force
  then show ?thesis using quote by (simp add: shell_quote_unix_def sq_def replace_char_none)
qed

lemma not_the_tag:
  assumes "is_user_name_regex re" "valid_name re s"
  shows "\<not> ends_with (''<<'' @ sq ''SrvBoxUserPassword'') (xs @ shell_quote_unix s)"
proof
  assume "ends_with (''<<'' @ sq ''SrvBoxUserPassword'') (xs @ shell_quote_unix s)"
  then obtain r where r: "xs @ shell_quote_unix s = r @ ''<<'' @ sq ''SrvBoxUserPassword''"
    by (auto simp: ends_with_def strip_suffix_Some_iff)
  define tag where "tag = ''SrvBoxUserPassword''"
  have q: "shell_quote_unix s = sq s" "CHR 0x27 \<notin> set s" "s \<noteq> tag" using quoted_name [OF assms] by (simp_all add: tag_def)
  have "CHR 0x27 \<notin> set tag" by (simp add: tag_def)
  moreover have "(xs @ CHR 0x27 # s) @ [CHR 0x27] = ((r @ ''<<'') @ CHR 0x27 # tag) @ [CHR 0x27]"
    using r unfolding q(1) tag_def [symmetric] by (simp add: sq_def)
  then have "xs @ CHR 0x27 # s = (r @ ''<<'') @ CHR 0x27 # tag" by (simp only: append1_eq_conv)
  ultimately show False using last_separator [OF _ q(2)] q(3) by blast
qed

lemma password_document:
  assumes "nl \<notin> set command" "\<not> ends_with (''<<'' @ sq ''SrvBoxUserPassword'') command"
    and "nl \<notin> set user" "nl \<notin> set p" "p \<noteq> []"
  shows "here_document ''SrvBoxUserPassword'' (with_password command user (Some p)) = Some (user @ '':'' @ p @ [nl])
    \<and> take 3 (split_on nl (with_password command user (Some p))) =
      [''set -e'', command, ''chpasswd <<'' @ sq ''SrvBoxUserPassword'']"
proof -
  define tag where "tag = ''SrvBoxUserPassword''"
  let ?leads = "[''set -e'', command]" and ?line = "user @ '':'' @ p" and ?pre = "''chpasswd ''"
  have script: "with_password command user (Some p) =
      unlines ?leads @ ?pre @ ''<<'' @ sq tag @ [nl] @ unlines [?line] @ tag @ []"
    using assms(5) by (simp add: with_password_def tag_def)
  have tagl: "nl \<notin> set tag" "CHR '':'' \<notin> set tag" by (simp_all add: tag_def nl_def)
  have lead: "\<forall>l \<in> set ?leads. nl \<notin> set l \<and> \<not> ends_with (''<<'' @ sq tag) l"
  proof -
    have "\<not> ends_with (''<<'' @ sq tag) ''set -e''"
    proof
      assume "ends_with (''<<'' @ sq tag) ''set -e''"
      then obtain r where "''set -e'' = r @ ''<<'' @ sq tag" by (auto simp: ends_with_def strip_suffix_Some_iff)
      then have "length ''set -e'' = length (r @ ''<<'' @ sq tag)" by (rule arg_cong)
      then show False by (simp add: tag_def sq_def)
    qed
    then show ?thesis using assms(1,2) by (simp add: tag_def nl_def)
  qed
  have line: "\<forall>l \<in> set [?line]. nl \<notin> set l \<and> l \<noteq> tag" using assms(3,4) tagl(2) by (auto simp: nl_def)
  have pre: "nl \<notin> set ?pre" by (simp add: nl_def)
  have "here_document tag (with_password command user (Some p)) = Some (unlines [?line])"
    unfolding script by (rule here_document_body [OF lead pre line tagl(1)]) simp
  moreover have "take 3 (split_on nl (with_password command user (Some p))) = ?leads @ [?pre @ ''<<'' @ sq tag]"
  proof -
    have "nl \<notin> set (?pre @ ''<<'' @ sq tag)" using pre tagl(1) by (simp add: sq_def nl_def)
    from split_on_append [OF this] show ?thesis
      unfolding script using split_on_unlines [of ?leads] lead by simp
  qed
  ultimately show ?thesis by (simp add: tag_def)
qed

lemma edit_command_cases:
  assumes "edit_command re u d = Ok script"
  obtains command where "validate_draft re d = None" "ud_name d = su_name u"
    "script = with_password command (su_name u) (ud_password d)"
    "edit_words u d = [] \<Longrightarrow> command = '':''"
    "edit_words u d \<noteq> [] \<Longrightarrow> command = join '' '' (edit_args u d @ [shell_quote_unix (su_name u)])"
  using assms by (auto simp: edit_command_def Let_def edit_words_Nil split: option.splits if_splits)

lemma valid_draft_parts:
  assumes "validate_draft re d = None"
  shows "valid_name re (ud_name d)" "\<forall>g \<in> set (ud_supplementary d). valid_name re g"
    "ud_password d = Some p \<Longrightarrow> nl \<notin> set p"
  using assms by (auto simp: validate_draft_def list_ex_iff has_line_break_def split: if_splits option.splits)

lemma edit_command_line:
  assumes "validate_draft re d = None" "is_user_name_regex re" "valid_name re name"
    and "command = (if edit_words u d = [] then '':'' else join '' '' (edit_args u d @ [shell_quote_unix name]))"
  shows "sh_words command = Some (if edit_words u d = [] then ['':''] else ''usermod'' # edit_words u d @ [name])"
    and "nl \<notin> set command"
    and "\<not> ends_with (''<<'' @ sq ''SrvBoxUserPassword'') command"
proof -
  have name: "nl \<notin> set name" using valid_name_chars [OF assms(2,3)] by blast
  have args: "edit_args u d \<noteq> []" by (simp add: edit_args_def)
  have snoc: "join '' '' (edit_args u d @ [shell_quote_unix name]) =
      (join '' '' (edit_args u d) @ '' '') @ shell_quote_unix name"
    using join_snoc [OF args] by simp
  have colon: "nl \<notin> set '':''" "\<not> ends_with (''<<'' @ sq ''SrvBoxUserPassword'') '':''"
    by (auto simp: nl_def ends_with_def strip_suffix_Some_iff sq_def Cons_eq_append_conv)
  have "list_all2 spells (edit_args u d @ [shell_quote_unix name]) ((''usermod'' # edit_words u d) @ [name])"
    by (intro list_all2_appendI edit_args_spell list.rel_intros spells_quote)
  from sh_words_join [OF this] sh_words_join [of "['':'']" "['':'']"]
  show "sh_words command = Some (if edit_words u d = [] then ['':''] else ''usermod'' # edit_words u d @ [name])"
    unfolding assms(4) by (simp add: spells_plain flags_plain)
  show "nl \<notin> set command"
    using edit_args_one_line [OF assms(1,2), of u] quoted_set [OF name] colon(1)
    unfolding assms(4) snoc by (auto simp: nl_def)
  show "\<not> ends_with (''<<'' @ sq ''SrvBoxUserPassword'') command"
    unfolding assms(4) snoc
    using not_the_tag [OF assms(2,3), of "join '' '' (edit_args u d) @ '' ''"] colon(2) by (simp only: simp_thms split: if_split)
qed

text \<open>
  C22. Saving an account's form leaves the account as drafted. Whatever script
  \<open>edit_command\<close> gives, its command is one line that the shell reads as plain words:
  \<open>:\<close> when the account already is what the draft asks for, and otherwise a call of
  \<open>usermod\<close> on that account which, doing what its manual says of the options it is
  given, turns the account into exactly the drafted one, although only the fields
  that differ are named. Without a password that line is the script; with one the
  script stops at the first failure, runs that line and then \<open>chpasswd\<close>, whose input is the
  one line \<open>name:password\<close> to the letter, whatever the password holds.
\<close>

theorem edit_leaves_the_drafted_account:
  assumes "edit_command re u d = Ok script" "is_user_name_regex re" "usermod_documented gid_of run"
  shows "\<exists>command words. sh_words command = Some words
    \<and> (if words = ['':''] then drafted gid_of u d = u
       else \<exists>args. words = ''usermod'' # args @ [su_name u] \<and> run (args @ [su_name u]) u = drafted gid_of u d)
    \<and> (case ud_password d of None \<Rightarrow> script = command
       | Some p \<Rightarrow> if p = [] then script = command
           else take 3 (split_on nl script) = [''set -e'', command, ''chpasswd <<'' @ sq ''SrvBoxUserPassword'']
             \<and> here_document ''SrvBoxUserPassword'' script = Some (su_name u @ '':'' @ p @ [nl]))"
proof -
  obtain command where c: "validate_draft re d = None" "ud_name d = su_name u"
    "script = with_password command (su_name u) (ud_password d)"
    "command = (if edit_words u d = [] then '':'' else join '' '' (edit_args u d @ [shell_quote_unix (su_name u)]))"
    using edit_command_cases [OF assms(1)] by metis
  have name: "valid_name re (su_name u)" using valid_draft_parts(1) [OF c(1)] c(2) by simp
  note line = edit_command_line [OF c(1) assms(2) name c(4)]
  have effect: "run (edit_words u d @ [su_name u]) u = drafted gid_of u d"
    by (rule edit_effect [OF assms(3,2) valid_draft_parts(2) [OF c(1)]])
  then have idle: "drafted gid_of u d = u" if "edit_words u d = []"
    using that assms(3) by (simp add: usermod_documented_def)
  have shape: "if (if edit_words u d = [] then ['':''] else ''usermod'' # edit_words u d @ [su_name u]) = ['':'']
      then drafted gid_of u d = u
      else \<exists>args. (if edit_words u d = [] then ['':''] else ''usermod'' # edit_words u d @ [su_name u]) =
          ''usermod'' # args @ [su_name u] \<and> run (args @ [su_name u]) u = drafted gid_of u d"
    using effect idle by (cases "edit_words u d = []") auto
  have tail: "case ud_password d of None \<Rightarrow> script = command
       | Some p \<Rightarrow> if p = [] then script = command
           else take 3 (split_on nl script) = [''set -e'', command, ''chpasswd <<'' @ sq ''SrvBoxUserPassword'']
             \<and> here_document ''SrvBoxUserPassword'' script = Some (su_name u @ '':'' @ p @ [nl])"
  proof (cases "ud_password d")
    case (Some p)
    have "nl \<notin> set (su_name u)" "nl \<notin> set p"
      using valid_name_chars [OF assms(2) name] valid_draft_parts(3) [OF c(1) Some] by simp_all
    then show ?thesis
      using password_document [OF line(2,3), of "su_name u" p] Some c(3)
      by (cases "p = []") (simp_all add: with_password_def [of _ _ "Some []"])
  qed (simp add: c(3) with_password_def)
  show ?thesis using line(1) shape tail by blast
qed

fun usermod_words :: "(string \<Rightarrow> nat) \<Rightarrow> string list \<Rightarrow> SystemUser \<Rightarrow> SystemUser" where
  "usermod_words gid_of (flag # v # w # ws) u =
     (if flag = ''-m'' then usermod_words gid_of (v # w # ws) u
      else usermod_words gid_of (w # ws)
        (if flag = ''-c'' then u\<lparr>su_comment := v\<rparr>
         else if flag = ''-d'' then u\<lparr>su_home := v\<rparr>
         else if flag = ''-s'' then u\<lparr>su_shell := v\<rparr>
         else if flag = ''-g'' then u\<lparr>su_gid := gid_of v, su_primary_group := Some v\<rparr>
         else if flag = ''-G'' then u\<lparr>su_supplementary := (if v = [] then [] else split_on (CHR '','') v)\<rparr>
         else u))"
| "usermod_words gid_of [flag, v] u = u"
| "usermod_words gid_of [name] u = u"
| "usermod_words gid_of [] u = u"

lemma usermod_words_documented: "usermod_documented gid_of (usermod_words gid_of)"
proof -
  have "usermod_words gid_of (''-m'' # w # ws) u = usermod_words gid_of (w # ws) u" for w ws u by (cases ws) simp_all
  then show ?thesis by (simp add: usermod_documented_def)
qed

definition alice :: SystemUser where
  "alice = \<lparr>su_name = ''alice'', su_uid = 1000, su_gid = 1000, su_comment = ''Alice'', su_home = ''/home/alice'',
     su_shell = ''/bin/sh'', su_primary_group = Some ''alice'', su_supplementary = [''audio'']\<rparr>"

definition alice_draft :: UserDraft where
  "alice_draft = \<lparr>ud_name = ''alice'', ud_comment = ''It's Alice; $(id)'', ud_home = [], ud_shell = ''/bin/zsh'',
     ud_primary_group = [], ud_supplementary = [''audio'', ''video''], ud_create_home = False, ud_move_home = False,
     ud_system = False, ud_password = Some ''SrvBoxUserPassword''\<rparr>"

lemma alice_valid: "validate_draft matches_user_name alice_draft = None"
  by code_simp

lemma edit_leaves_the_drafted_account_witness:
  "\<exists>script. edit_command matches_user_name alice alice_draft = Ok script
     \<and> here_document ''SrvBoxUserPassword'' script = Some (''alice:SrvBoxUserPassword'' @ [nl])"
proof -
  obtain script where script: "edit_command matches_user_name alice alice_draft = Ok script"
    using alice_valid by (simp add: edit_command_def Let_def alice_def alice_draft_def)
  have re: "is_user_name_regex matches_user_name" by (simp add: is_user_name_regex_def)
  have pw: "ud_password alice_draft = Some ''SrvBoxUserPassword''" "su_name alice = ''alice''"
    by (simp_all add: alice_draft_def alice_def)
  from edit_leaves_the_drafted_account [OF script re usermod_words_documented [of "\<lambda>_. 1"]]
  have "here_document ''SrvBoxUserPassword'' script = Some (su_name alice @ '':'' @ ''SrvBoxUserPassword'' @ [nl])"
    unfolding pw(1) option.case by (elim exE conjE) (simp only: list.distinct if_False)
  then show ?thesis using script pw(2) by (intro exI [of _ script]) simp
qed

section \<open>Changing a group\<close>

text \<open>Who is in which group, and \<open>gpasswd\<close> as its manual describes the two options used.\<close>

type_synonym membership = "string \<Rightarrow> string set"

definition gpasswd_documented :: "(string list \<Rightarrow> membership \<Rightarrow> membership) \<Rightarrow> bool" where
  "gpasswd_documented run \<longleftrightarrow>
     (\<forall>m g st. run [''-d'', m, g] st = st(g := st g - {m}) \<and> run [''-a'', m, g] st = st(g := insert m (st g)))"

definition edit_step_words :: "SystemGroup \<Rightarrow> string list \<Rightarrow> string list list" where
  "edit_step_words g wanted =
     map (\<lambda>m. [''-d'', m, sg_name g]) (filter (\<lambda>m. m \<notin> set wanted) (sg_members g))
     @ map (\<lambda>m. [''-a'', m, sg_name g]) (filter (\<lambda>m. m \<notin> set (sg_members g)) wanted)"

lemma step_spelled:
  "sh_words (''gpasswd -d '' @ shell_quote_unix m @ '' '' @ shell_quote_unix g) = Some [''gpasswd'', ''-d'', m, g]"
  "sh_words (''gpasswd -a '' @ shell_quote_unix m @ '' '' @ shell_quote_unix g) = Some [''gpasswd'', ''-a'', m, g]"
proof -
  have s: "list_all2 spells [''gpasswd'', flag, shell_quote_unix m, shell_quote_unix g] [''gpasswd'', flag, m, g]"
    if "plain_word flag" for flag
    using that by (intro list.rel_intros spells_quote spells_plain flags_plain)
  show "sh_words (''gpasswd -d '' @ shell_quote_unix m @ '' '' @ shell_quote_unix g) = Some [''gpasswd'', ''-d'', m, g]"
    using sh_words_join [OF s [OF flags_plain(3)]] by simp
  show "sh_words (''gpasswd -a '' @ shell_quote_unix m @ '' '' @ shell_quote_unix g) = Some [''gpasswd'', ''-a'', m, g]"
    using sh_words_join [OF s [OF flags_plain(10)]] by simp
qed

lemma edit_steps_spelled: "map sh_words (edit_steps g wanted) = map (\<lambda>ws. Some (''gpasswd'' # ws)) (edit_step_words g wanted)"
  by (simp add: edit_steps_def edit_step_words_def step_spelled comp_def del: append.simps)

lemma removals:
  assumes "gpasswd_documented run"
  shows "foldl (\<lambda>st ws. run ws st) st (map (\<lambda>m. [''-d'', m, g]) ms) = st(g := st g - set ms)"
proof (induction ms arbitrary: st)
  case (Cons m ms)
  have "run [''-d'', m, g] st = st(g := st g - {m})" using assms by (simp add: gpasswd_documented_def)
  moreover have "st g - {m} - set ms = st g - set (m # ms)" by auto
  ultimately show ?case 
    using Cons [of "st(g := st g - {m})"] by (simp only: list.map foldl_Cons fun_upd_same fun_upd_upd)
qed simp

lemma additions:
  assumes "gpasswd_documented run"
  shows "foldl (\<lambda>st ws. run ws st) st (map (\<lambda>m. [''-a'', m, g]) ms) = st(g := st g \<union> set ms)"
proof (induction ms arbitrary: st)
  case (Cons m ms)
  have "run [''-a'', m, g] st = st(g := insert m (st g))" using assms by (simp add: gpasswd_documented_def)
  then show ?case 
    using Cons [of "st(g := insert m (st g))"]
    by (simp only: list.map foldl_Cons fun_upd_same fun_upd_upd list.set Un_insert_left Un_insert_right)
qed simp

lemma steps_effect:
  assumes "gpasswd_documented run" "st (sg_name g) = set (sg_members g)"
  shows "foldl (\<lambda>st ws. run ws st) st (edit_step_words g wanted) = st(sg_name g := set wanted)"
proof -
  have "set (sg_members g) - set (filter (\<lambda>m. m \<notin> set wanted) (sg_members g))
      \<union> set (filter (\<lambda>m. m \<notin> set (sg_members g)) wanted) = set wanted" by auto
  then show ?thesis
    by (simp only: edit_step_words_def foldl_append removals [OF assms(1)] additions [OF assms(1)] assms(2)
        fun_upd_same fun_upd_upd)
qed

text \<open>The commands of a script, without the line that makes it stop at the first failure and without no-ops.\<close>

definition commands_of :: "string \<Rightarrow> string list" where
  "commands_of script = filter (\<lambda>l. l \<noteq> ''set -e'' \<and> l \<noteq> '':'') (split_on nl script)"

lemma set_sorted_members [simp]: "set (sorted_members ms) = set ms"
  by (simp add: sorted_members_def)

lemma steps_are_commands:
  assumes "nl \<notin> set (sg_name g)" "\<forall>m \<in> set (sg_members g) \<union> set wanted. nl \<notin> set m" "c \<in> set (edit_steps g wanted)"
  shows "nl \<notin> set c \<and> c \<noteq> ''set -e'' \<and> c \<noteq> '':''"
proof -
  obtain w where w: "sh_words c = Some (''gpasswd'' # w)"
    using assms(3) edit_steps_spelled [of g wanted] by (metis (no_types, lifting) image_iff list.set_map)
  have no: "sh_words ''set -e'' = Some [''set'', ''-e'']" "sh_words '':'' = Some ['':'']" by code_simp+
  have "nl \<notin> set c"
    using assms quoted_set by (auto simp: edit_steps_def) (auto simp: nl_def)
  then show ?thesis using w no by auto
qed

lemma commands_of_script:
  assumes "\<forall>c \<in> set steps. nl \<notin> set c \<and> c \<noteq> ''set -e'' \<and> c \<noteq> '':''"
    and "script = (case steps of [] \<Rightarrow> '':'' | [step] \<Rightarrow> step | _ \<Rightarrow> ''set -e'' @ [nl] @ join [nl] steps)"
  shows "commands_of script = steps"
proof -
  have c: "nl \<notin> set '':''" "nl \<notin> set ''set -e''" by (simp_all add: nl_def)
  show ?thesis
  proof (cases steps)
    case Nil
    then show ?thesis using assms(2) split_on_no_sep [OF c(1)] by (simp add: commands_of_def)
  next
    case (Cons s ss)
    have "split_on nl (join [nl] steps) = steps" using assms(1) Cons by (intro split_on_join) auto
    moreover have "split_on nl (''set -e'' @ nl # join [nl] steps) = ''set -e'' # split_on nl (join [nl] steps)"
      by (rule split_on_append [OF c(2)])
    moreover have "filter (\<lambda>l. l \<noteq> ''set -e'' \<and> l \<noteq> '':'') steps = steps" using assms(1) by (simp add: filter_id_conv)
    ultimately show ?thesis
      using assms(1,2) Cons by (cases ss) (simp_all add: commands_of_def split_on_no_sep)
  qed
qed

text \<open>
  C24. Saving a group's form leaves the group with the members drafted. Every command
  of the script \<open>group_edit_command\<close> gives is one the shell reads as plain words, a
  call of \<open>gpasswd\<close>; run one after the other on a machine where the group has the
  members listed, they leave it with exactly the drafted ones, duplicates and order
  aside, and no other group is touched. The names come from lines of a file, so
  none of them holds a line break.
\<close>

theorem group_edit_leaves_the_drafted_members:
  assumes "group_edit_command re g d accounts = Ok script" "gpasswd_documented run"
    and "st (sg_name g) = set (sg_members g)"
    and "\<forall>n \<in> {sg_name g} \<union> set (sg_members g) \<union> set accounts. nl \<notin> set n"
  shows "\<exists>calls. map sh_words (commands_of script) = map (\<lambda>ws. Some (''gpasswd'' # ws)) calls
    \<and> foldl (\<lambda>st ws. run ws st) st calls = st(sg_name g := set (gd_members d))"
proof -
  let ?wanted = "sorted_members (gd_members d)"
  have v: "validate_group_draft re d (Some g) accounts = None"
    and script: "script = (case edit_steps g ?wanted of [] \<Rightarrow> '':'' | [step] \<Rightarrow> step
        | steps \<Rightarrow> ''set -e'' @ [nl] @ join [nl] steps)"
    using assms(1) by (auto simp: group_edit_command_def split: option.splits list.splits)
  have "\<forall>m \<in> set (gd_members d). m \<in> set (sg_members g) \<or> m \<in> set accounts"
    using v by (auto simp: validate_group_draft_def list_ex_iff split: if_splits)
  then have names: "\<forall>m \<in> set (sg_members g) \<union> set ?wanted. nl \<notin> set m" using assms(4) by auto
  have "\<forall>c \<in> set (edit_steps g ?wanted). nl \<notin> set c \<and> c \<noteq> ''set -e'' \<and> c \<noteq> '':''"
    using steps_are_commands [OF _ names] assms(4) by blast
  from commands_of_script [OF this, of script] have "commands_of script = edit_steps g ?wanted"
    using script by (simp split: list.splits)
  then show ?thesis
    using edit_steps_spelled [of g ?wanted] steps_effect [of run st g ?wanted, OF assms(2,3)] by auto
qed

fun gpasswd_words :: "string list \<Rightarrow> membership \<Rightarrow> membership" where
  "gpasswd_words ws st =
     (if length ws \<noteq> 3 then st
      else if ws ! 0 = ''-d'' then st(ws ! 2 := st (ws ! 2) - {ws ! 1})
      else st(ws ! 2 := insert (ws ! 1) (st (ws ! 2))))"

definition wheel :: SystemGroup where
  "wheel = \<lparr>sg_name = ''wheel'', sg_gid = 10, sg_members = [''al'', ''old''], sg_primary_members = [], sg_local = True\<rparr>"

lemma group_edit_leaves_the_drafted_members_witness:
  "\<exists>script calls. group_edit_command matches_user_name wheel
       \<lparr>gd_name = ''wheel'', gd_members = [''eve'', ''al''], gd_system = False\<rparr> [''al'', ''eve''] = Ok script
     \<and> map sh_words (commands_of script) = map (\<lambda>ws. Some (''gpasswd'' # ws)) calls
     \<and> foldl (\<lambda>st ws. gpasswd_words ws st) ((\<lambda>_. {})(''wheel'' := {''al'', ''old''})) calls ''wheel'' = {''eve'', ''al''}"
proof -
  let ?d = "\<lparr>gd_name = ''wheel'', gd_members = [''eve'', ''al''], gd_system = False\<rparr>"
  and ?st = "(\<lambda>_. {})(''wheel'' := {''al'', ''old''})"
  have "validate_group_draft matches_user_name ?d (Some wheel) [''al'', ''eve''] = None"
    by (simp add: validate_group_draft_def wheel_def)
  then have "\<exists>script. group_edit_command matches_user_name wheel ?d [''al'', ''eve''] = Ok script"
    by (auto simp: group_edit_command_def split: list.split)
  then obtain script where script: "group_edit_command matches_user_name wheel ?d [''al'', ''eve''] = Ok script" by blast
  have w: "sg_name wheel = ''wheel''" "sg_members wheel = [''al'', ''old'']" "gd_members ?d = [''eve'', ''al'']"
    by (simp_all add: wheel_def)
  have "\<forall>n \<in> {sg_name wheel} \<union> set (sg_members wheel) \<union> set [''al'', ''eve'']. nl \<notin> set n"
    unfolding w by (simp add: nl_def)
  from group_edit_leaves_the_drafted_members [OF script _ _ this, of gpasswd_words ?st]
  obtain calls where "map sh_words (commands_of script) = map (\<lambda>ws. Some (''gpasswd'' # ws)) calls"
    "foldl (\<lambda>st ws. gpasswd_words ws st) ?st calls = ?st(''wheel'' := {''eve'', ''al''})"
    unfolding w by (auto simp: gpasswd_documented_def)
  then show ?thesis using script by (intro exI [of _ script] exI [of _ calls]) simp
qed

end
