(* ===== verification/Civil.thy ===== *)
theory Civil
  imports Rust_Str
begin

text \<open>
  The calendar of \<open>crates/sbm_parser/src/cron.rs\<close>: civil dates to days since
  1970-01-01 and back (\<open>days_from_civil\<close>, \<open>civil_from_days\<close>), minutes since
  the epoch, weekdays and the printed form. Signed 64-bit values are integers;
  the casts to 32 bits are written out. The reference the code is proved
  against is the Gregorian calendar as a successor function on dates.
\<close>

named_theorems civil_simps \<open>calendar arithmetic\<close>

section \<open>Casts and truncating division\<close>

definition as_i32 :: "int \<Rightarrow> int" where
  "as_i32 x = (x + 2147483648) mod 4294967296 - 2147483648"

definition as_u32 :: "int \<Rightarrow> nat" where
  "as_u32 x = nat (x mod 4294967296)"

text \<open>Rust's \<open>/\<close> on signed integers rounds towards zero.\<close>

definition tdiv :: "int \<Rightarrow> int \<Rightarrow> int" where
  "tdiv a b = (if 0 \<le> a then a div b else - ((- a) div b))"

section \<open>Dates and days\<close>

definition days_from_civil :: "int \<Rightarrow> nat \<Rightarrow> nat \<Rightarrow> int" where
  "days_from_civil year month day =
     (let y = (if month \<le> 2 then year - 1 else year);
          era = tdiv (if y \<ge> 0 then y else y - 399) 400;
          yoe = y - era * 400;
          m = int month;
          doy = tdiv (153 * (if m > 2 then m - 3 else m + 9) + 2) 5 + int day - 1;
          doe = yoe * 365 + tdiv yoe 4 - tdiv yoe 100 + doy
      in era * 146097 + doe - 719468)"

definition civil_from_days :: "int \<Rightarrow> int \<times> nat \<times> nat" where
  "civil_from_days days =
     (let z = days + 719468;
          era = tdiv (if z \<ge> 0 then z else z - 146096) 146097;
          doe = z - era * 146097;
          yoe = tdiv (doe - tdiv doe 1460 + tdiv doe 36524 - tdiv doe 146096) 365;
          y = yoe + era * 400;
          doy = doe - (365 * yoe + tdiv yoe 4 - tdiv yoe 100);
          mp = tdiv (5 * doy + 2) 153;
          d = doy - tdiv (153 * mp + 2) 5 + 1;
          m = (if mp < 10 then mp + 3 else mp - 9);
          year = (if m \<le> 2 then y + 1 else y)
      in (as_i32 year, as_u32 m, as_u32 d))"

definition utc_millis :: "int \<Rightarrow> nat \<Rightarrow> nat \<Rightarrow> nat \<Rightarrow> nat \<Rightarrow> nat \<Rightarrow> int" where
  "utc_millis year month day hour minute second =
     days_from_civil year month day * 86400000 + int hour * 3600000 + int minute * 60000
       + int second * 1000"

record CivilTime =
  year :: int
  month :: nat
  day :: nat
  hour :: nat
  minute :: nat

definition new_civil :: "int \<Rightarrow> nat \<Rightarrow> nat \<Rightarrow> nat \<Rightarrow> nat \<Rightarrow> CivilTime" where
  "new_civil y m d h mi = \<lparr>year = y, month = m, day = d, hour = h, minute = mi\<rparr>"

definition days_from_epoch :: "CivilTime \<Rightarrow> int" where
  "days_from_epoch t = days_from_civil (year t) (month t) (day t)"

definition from_epoch_minute :: "int \<Rightarrow> CivilTime" where
  "from_epoch_minute m =
     (let days = m div 1440; rem = m mod 1440;
          (y, mo, d) = civil_from_days days
      in \<lparr>year = y, month = mo, day = d, hour = as_u32 (tdiv rem 60), minute = as_u32 (rem mod 60)\<rparr>)"

definition epoch_minute :: "CivilTime \<Rightarrow> int" where
  "epoch_minute t = days_from_epoch t * 1440 + int (hour t) * 60 + int (minute t)"

definition weekday :: "CivilTime \<Rightarrow> nat" where
  "weekday t = as_u32 ((days_from_epoch t + 4) mod 7)"

text \<open>\<open>{:04}\<close> on a signed number: the sign counts towards the width.\<close>

definition show_int_pad :: "nat \<Rightarrow> int \<Rightarrow> string" where
  "show_int_pad w x = (if 0 \<le> x then pad_left w (show_nat (nat x))
     else ''-'' @ pad_left (w - 1) (show_nat (nat (- x))))"

definition to_iso :: "CivilTime \<Rightarrow> string" where
  "to_iso t = show_int_pad 4 (year t) @ ''-'' @ pad_left 2 (show_nat (month t)) @ ''-''
     @ pad_left 2 (show_nat (day t)) @ ''T'' @ pad_left 2 (show_nat (hour t)) @ '':''
     @ pad_left 2 (show_nat (minute t))"

section \<open>The Gregorian calendar\<close>

definition leap :: "int \<Rightarrow> bool" where
  "leap y \<longleftrightarrow> 4 dvd y \<and> (\<not> 100 dvd y \<or> 400 dvd y)"

definition month_length :: "int \<Rightarrow> nat \<Rightarrow> nat" where
  "month_length y m =
     (if m = 2 then (if leap y then 29 else 28) else if m \<in> {4, 6, 9, 11} then 30 else 31)"

definition valid_date :: "int \<times> nat \<times> nat \<Rightarrow> bool" where
  "valid_date t = (case t of (y, m, d) \<Rightarrow> 1 \<le> m \<and> m \<le> 12 \<and> 1 \<le> d \<and> d \<le> month_length y m)"

definition next_date :: "int \<times> nat \<times> nat \<Rightarrow> int \<times> nat \<times> nat" where
  "next_date t = (case t of (y, m, d) \<Rightarrow>
     if d < month_length y m then (y, m, d + 1)
     else if m < 12 then (y, m + 1, 1) else (y + 1, 1, 1))"

abbreviation days_of :: "int \<times> nat \<times> nat \<Rightarrow> int" where
  "days_of t \<equiv> (case t of (y, m, d) \<Rightarrow> days_from_civil y m d)"

text \<open>Days before 1 March of the year \<open>y\<close>, and before each month of a year that starts in March.\<close>

definition march_days :: "int \<Rightarrow> int" where
  "march_days y = 365 * y + y div 4 - y div 100 + y div 400"

definition month_days :: "int \<Rightarrow> int" where
  "month_days mp = (153 * mp + 2) div 5"

lemma tdiv_nonneg: "0 \<le> a \<Longrightarrow> tdiv a b = a div b"
  by (simp add: tdiv_def)

lemma tdiv_era: "0 < b \<Longrightarrow> tdiv (if 0 \<le> y then y else y - (b - 1)) b = y div b"
proof -
  assume b: "0 < b"
  have "- ((b - 1 - y) div b) = y div b" if "y < 0"
  proof -
    have "(b - 1 - y) div b = - (y div b)"
    proof (rule int_div_pos_eq [where r = "b - 1 - y mod b"])
      show "b - 1 - y = b * - (y div b) + (b - 1 - y mod b)"
        by (simp add: minus_mult_div_eq_mod [symmetric])
    qed (use b pos_mod_bound [OF b, of y] pos_mod_sign [OF b, of y] in linarith)+
    then show ?thesis by simp
  qed
  then show ?thesis using b by (auto simp: tdiv_def)
qed

lemma yoe_parts:
  fixes y :: int
  defines "yoe \<equiv> y mod 400"
  shows "y div 4 = 100 * (y div 400) + yoe div 4" "y div 100 = 4 * (y div 400) + yoe div 100"
proof -
  have y: "y = 400 * (y div 400) + yoe" by (simp add: yoe_def)
  have "(400 * e + r) div 4 = 100 * e + r div 4" "(400 * e + r) div 100 = 4 * e + r div 100" for e r :: int
    by (simp_all add: div_mult_self1 [of 4 r "100 * e"] div_mult_self1 [of 100 r "4 * e"] add.commute
        flip: mult.assoc)
  from this [of "y div 400" yoe] y show "y div 4 = 100 * (y div 400) + yoe div 4"
    "y div 100 = 4 * (y div 400) + yoe div 100" by metis+
qed

lemma days_from_civil_eq:
  "days_from_civil y m d =
     march_days (if m \<le> 2 then y - 1 else y)
     + month_days (if m > 2 then int m - 3 else int m + 9) + int d - 719469"
proof -
  define s where "s = (if m \<le> 2 then y - 1 else y)"
  have era: "tdiv (if 0 \<le> s then s else s - 399) 400 = s div 400" using tdiv_era [of 400 s] by (auto split: if_splits)
  have yoe: "s - s div 400 * 400 = s mod 400" by (simp add: minus_div_mult_eq_mod)
  have "0 \<le> s mod 400" by simp
  then have "days_from_civil y m d = s div 400 * 146097 + ((s mod 400) * 365 + s mod 400 div 4
      - s mod 400 div 100 + (month_days (if m > 2 then int m - 3 else int m + 9) + int d - 1)) - 719468"
    unfolding days_from_civil_def Let_def s_def [symmetric] era yoe month_days_def
    by (simp add: tdiv_nonneg)
  also have "\<dots> = march_days s + month_days (if m > 2 then int m - 3 else int m + 9) + int d - 719469"
    using yoe_parts [of s] minus_div_mult_eq_mod [of s 400] by (simp add: march_days_def)
  finally show ?thesis by (simp add: s_def)
qed

lemma div_Suc_int: "0 < n \<Longrightarrow> (y + 1) div n = y div n + (if n dvd y + 1 then 1 else 0)" for y n :: int
proof -
  assume n: "0 < n"
  show ?thesis
  proof (cases "n dvd y + 1")
    case True
    then obtain k where k: "y + 1 = n * k" by blast
    have "y div n = k - 1"
      by (rule int_div_pos_eq [where r = "n - 1"]) (use k n in \<open>auto simp: algebra_simps\<close>)
    with k n True show ?thesis by simp
  next
    case False
    then have "(y + 1) mod n \<noteq> 0" by (simp add: dvd_eq_mod_eq_0)
    then have "y mod n \<noteq> n - 1"
      using mod_add_left_eq [of y n 1] by auto
    then have b: "0 \<le> y mod n + 1" "y mod n + 1 < n"
      using pos_mod_bound [OF n, of y] pos_mod_sign [OF n, of y] by auto
    have "(y + 1) div n = y div n"
      by (rule int_div_pos_eq [where r = "y mod n + 1"]) (use b in simp_all)
    with False show ?thesis by simp
  qed
qed

lemma march_days_step: "march_days y = march_days (y - 1) + (if leap y then 366 else 365)"
proof -
  define a b c where abc: "a = (y - 1) div 4" "b = (y - 1) div 100" "c = (y - 1) div 400"
  have step: "y div 4 = a + (if 4 dvd y then 1 else 0)" "y div 100 = b + (if 100 dvd y then 1 else 0)"
    "y div 400 = c + (if 400 dvd y then 1 else 0)"
    using div_Suc_int [of 4 "y - 1"] div_Suc_int [of 100 "y - 1"] div_Suc_int [of 400 "y - 1"]
    unfolding abc by simp_all
  have "100 dvd y \<longrightarrow> 4 dvd y" "400 dvd y \<longrightarrow> 100 dvd y" by (auto elim: dvd_trans [rotated])
  then have "(if 4 dvd y then 1 else 0) - (if 100 dvd y then 1 else 0) + (if 400 dvd y then 1 else 0)
    = (if leap y then 1 else (0::int))" unfolding leap_def by presburger
  moreover have "march_days (y - 1) = 365 * (y - 1) + a - b + c"
    by (simp only: march_days_def abc)
  moreover have "march_days y = 365 * y + (a + (if 4 dvd y then 1 else 0)) - (b + (if 100 dvd y then 1 else 0))
    + (c + (if 400 dvd y then 1 else 0))" by (simp only: march_days_def step)
  ultimately show ?thesis by (simp split: if_splits)
qed

lemma months_cases:
  assumes "1 \<le> m" "m \<le> (12::nat)"
  obtains "m = 1" | "m = 2" | "m = 3" | "m = 4" | "m = 5" | "m = 6" | "m = 7" | "m = 8" | "m = 9"
    | "m = 10" | "m = 11" | "m = 12"
proof -
  from assms have "m = 1 \<or> m = 2 \<or> m = 3 \<or> m = 4 \<or> m = 5 \<or> m = 6 \<or> m = 7 \<or> m = 8 \<or> m = 9
    \<or> m = 10 \<or> m = 11 \<or> m = 12" by presburger
  then show ?thesis using that by blast
qed

lemma days_month_end:
  assumes "1 \<le> m" "m < 12"
  shows "days_from_civil y (m + 1) 1 = days_from_civil y m (month_length y m) + 1"
proof -
  from assms have "1 \<le> m" "m \<le> 12" "m \<noteq> 12" by auto
  then show ?thesis
    by (cases rule: months_cases)
      (simp_all add: days_from_civil_eq month_days_def month_length_def march_days_step [of y])
qed

lemma days_year_end: "days_from_civil (y + 1) 1 1 = days_from_civil y 12 31 + 1"
  by (simp add: days_from_civil_eq month_days_def)

lemma days_next:
  assumes "valid_date t"
  shows "days_of (next_date t) = days_of t + 1"
proof -
  obtain y m d where t: "t = (y, m, d)" by (cases t)
  have v: "1 \<le> m" "m \<le> 12" "1 \<le> d" "d \<le> month_length y m" using assms by (auto simp: valid_date_def t)
  consider "d < month_length y m" | "d = month_length y m" "m < 12" | "d = 31" "m = 12"
  proof (cases "m = 12")
    case True
    with v that show ?thesis by (cases "d = 31") (auto simp: month_length_def)
  next
    case False
    with v that show ?thesis by (cases "d = month_length y m") auto
  qed
  then show ?thesis
  proof cases
    case 1 then show ?thesis by (simp add: t next_date_def days_from_civil_eq)
  next
    case 2 then show ?thesis using days_month_end [OF v(1)] by (simp add: t next_date_def)
  next
    case 3 then show ?thesis using days_year_end [of y] by (simp add: t next_date_def month_length_def)
  qed
qed

lemma month_length_bounds: "28 \<le> month_length y m" "month_length y m \<le> 31"
  by (simp_all add: month_length_def)

lemma month_length_pos [simp]: "Suc 0 \<le> month_length y m"
  using month_length_bounds(1) [of y m] by linarith

lemma valid_next: "valid_date t \<Longrightarrow> valid_date (next_date t)"
  by (auto simp: valid_date_def next_date_def split: prod.splits)

lemma prev_date:
  assumes "valid_date t"
  shows "\<exists>p. valid_date p \<and> next_date p = t"
proof -
  obtain y m d where t: "t = (y, m, d)" by (cases t)
  have v: "1 \<le> m" "m \<le> 12" "1 \<le> d" "d \<le> month_length y m" using assms by (auto simp: valid_date_def t)
  consider "1 < d" | "d = 1" "1 < m" | "d = 1" "m = 1" using v by linarith
  then show ?thesis
  proof cases
    case 1 then show ?thesis
      using v by (intro exI [of _ "(y, m, d - 1)"]) (auto simp: t valid_date_def next_date_def)
  next
    case 2 then show ?thesis
      using v
      by (intro exI [of _ "(y, m - 1, month_length y (m - 1))"]) (auto simp: t valid_date_def next_date_def)
  next
    case 3 then show ?thesis
      by (intro exI [of _ "(y - 1, 12, 31)"]) (auto simp: t valid_date_def next_date_def month_length_def)
  qed
qed

text \<open>Every day number is the day number of a date.\<close>

lemma days_surj: "\<exists>t. valid_date t \<and> days_of t = n"
proof (induction n rule: int_induct [of _ 0])
  case base
  have "valid_date (1970, 1, 1) \<and> days_of (1970, 1, 1) = 0"
    by (simp add: valid_date_def month_length_def days_from_civil_eq march_days_def month_days_def)
  then show ?case by blast
next
  case (step1 i)
  then show ?case using valid_next days_next by blast
next
  case (step2 i)
  then obtain t where t: "valid_date t" "days_of t = i" by blast
  then obtain p where p: "valid_date p" "next_date p = t" using prev_date by blast
  with days_next [OF p(1)] t show ?case by (intro exI [of _ p]) simp
qed

section \<open>The inverse\<close>

lemma month_from_doy:
  assumes "0 \<le> mp" "mp \<le> 11" "0 \<le> k" "k < 31" "mp = 11 \<Longrightarrow> k < 29" "mp \<in> {1, 3, 6, 8} \<Longrightarrow> k < 30"
  shows "(5 * (month_days mp + k) + 2) div 153 = mp"
proof -
  have "mp = 0 \<or> mp = 1 \<or> mp = 2 \<or> mp = 3 \<or> mp = 4 \<or> mp = 5 \<or> mp = 6 \<or> mp = 7 \<or> mp = 8
    \<or> mp = 9 \<or> mp = 10 \<or> mp = 11" using assms(1,2) by presburger
  then have "153 * mp \<le> 5 * (month_days mp + k) + 2 \<and> 5 * (month_days mp + k) + 2 < 153 * mp + 153"
    using assms by (elim disjE) (simp_all add: month_days_def)
  then show ?thesis
    by (intro int_div_pos_eq [where r = "5 * (month_days mp + k) + 2 - 153 * mp"]) auto
qed

text \<open>
  The year of an era from the day of the era: \<open>doy\<close> is 365 only on the last
  day of February of a leap year.
\<close>

lemma doe_century:
  fixes c s doy :: int
  defines "doe \<equiv> 36524 * c + (365 * s + s div 4 + doy)"
  assumes "0 \<le> c" "c \<le> 3" "0 \<le> s" "s \<le> 99" "0 \<le> doy" "doy \<le> 365"
    and leap: "doy = 365 \<Longrightarrow> s = 99 \<Longrightarrow> c = 3"
  shows "doe div 36524 - doe div 146096 = c" "0 \<le> doe" "doe \<le> 146096"
proof -
  have s4: "4 * (s div 4) \<le> s" "0 \<le> s div 4" using assms by presburger+
  show "0 \<le> doe" and le: "doe \<le> 146096" using s4 assms by (simp_all add: doe_def)
  show "doe div 36524 - doe div 146096 = c"
  proof (cases "doy = 365 \<and> s = 99")
    case True
    with leap show ?thesis by (simp add: doe_def)
  next
    case False
    then have rest: "0 \<le> 365 * s + s div 4 + doy" "365 * s + s div 4 + doy < 36524"
      using s4 assms by linarith+
    then have "doe div 36524 = c" by (intro int_div_pos_eq) (simp_all add: doe_def)
    moreover have "doe div 146096 = 0"
      using rest assms by (intro div_pos_pos_trivial) (auto simp: doe_def)
    ultimately show ?thesis by simp
  qed
qed

lemma doe_four_years:
  fixes q c r doy :: int
  defines "t \<equiv> q - c + 365 * r + doy"
  assumes "0 \<le> q - c" "q - c \<le> 96" "0 \<le> r" "r \<le> 3" "0 \<le> doy" "doy \<le> 365"
    and leap: "doy = 365 \<Longrightarrow> r = 3"
  shows "\<exists>k. (1460 * q + t) div 1460 = q + k \<and> 0 \<le> doy - k \<and> doy - k < 365"
proof -
  let ?k = "if t < 1460 then 0 else 1"
  have "(1460 * q + t) div 1460 = q + ?k"
    using assms by (intro int_div_pos_eq [where r = "if t < 1460 then t else t - 1460"]) (auto simp: t_def)
  moreover have "0 \<le> doy - ?k" using assms(2-7) by (auto simp: t_def)
  moreover have "doy - ?k < 365" using assms(2-7) leap by (cases "doy = 365") (auto simp: t_def)
  ultimately show ?thesis by blast
qed

lemma year_from_doe:
  fixes yoe doy :: int
  defines "doe \<equiv> 365 * yoe + yoe div 4 - yoe div 100 + doy"
  assumes yoe: "0 \<le> yoe" "yoe < 400" and doy: "0 \<le> doy" "doy \<le> 365"
    and leap: "doy = 365 \<Longrightarrow> yoe mod 4 = 3 \<and> (yoe mod 100 = 99 \<longrightarrow> yoe = 399)"
  shows "(doe - doe div 1460 + doe div 36524 - doe div 146096) div 365 = yoe"
    and "0 \<le> doe" and "doe \<le> 146096"
proof -
  define c s q r where csqr: "c = yoe div 100" "s = yoe mod 100" "q = yoe div 4" "r = yoe mod 4"
  have b: "0 \<le> c" "c \<le> 3" "0 \<le> s" "s \<le> 99" "0 \<le> r" "r \<le> 3" using yoe by (auto simp: csqr)
  have split: "yoe = 100 * c + s" "yoe = 4 * q + r" by (simp_all add: csqr)
  have "yoe div 4 = 25 * c + s div 4"
    using div_mult_self1 [of 4 s "25 * c"] by (simp add: split(1) add.commute flip: mult.assoc)
  then have q: "q = 25 * c + s div 4" by (simp add: csqr)
  have s4: "4 * (s div 4) \<le> s" "0 \<le> s div 4" using b by presburger+
  have doe: "doe = 365 * yoe + q - c + doy" unfolding doe_def csqr by simp
  then have doe1: "doe = 36524 * c + (365 * s + s div 4 + doy)" using split(1) q by simp
  from doe have doe2: "doe = 1460 * q + (q - c + 365 * r + doy)" using split(2) by simp
  have "c = 3" if "doy = 365" "s = 99" using leap that by (simp add: csqr)
  note cent = doe_century [OF b(1-4) doy this, folded doe1]
  then show "0 \<le> doe" "doe \<le> 146096" by blast+
  have "r = 3" if "doy = 365" using leap that by (simp add: csqr)
  moreover have "0 \<le> q - c" "q - c \<le> 96" using q b s4 by linarith+
  ultimately obtain k where k: "doe div 1460 = q + k" "0 \<le> doy - k" "doy - k < 365"
    using doe_four_years [of q c r doy] b doy unfolding doe2 by blast
  have "doe - doe div 1460 + doe div 36524 - doe div 146096 = 365 * yoe + (doy - k)"
    using cent(1) k(1) doe by simp
  then show "(doe - doe div 1460 + doe div 36524 - doe div 146096) div 365 = yoe"
    using k by (intro int_div_pos_eq) auto
qed

lemma month_days_bounds:
  assumes "1 \<le> m" "m \<le> 12" "1 \<le> d" "d \<le> month_length y m"
  defines "mp \<equiv> if m > 2 then int m - 3 else int m + 9"
  shows "(5 * (month_days mp + int d - 1) + 2) div 153 = mp"
    and "0 \<le> month_days mp + int d - 1" "month_days mp + int d - 1 \<le> 365"
    and "month_days mp + int d - 1 = 365 \<Longrightarrow> m = 2 \<and> leap y"
proof -
  have "(5 * (month_days mp + (int d - 1)) + 2) div 153 = mp"
    using assms(1-4) by (intro month_from_doy) (auto simp: mp_def month_length_def split: if_splits)
  then show "(5 * (month_days mp + int d - 1) + 2) div 153 = mp" by (simp add: algebra_simps)
  from assms(1,2) show "0 \<le> month_days mp + int d - 1" "month_days mp + int d - 1 \<le> 365"
    "month_days mp + int d - 1 = 365 \<Longrightarrow> m = 2 \<and> leap y"
    using assms(3,4)
    by (cases rule: months_cases; simp add: mp_def month_days_def month_length_def split: if_splits)+
qed

lemma as_i32_exact: "- 2147483648 \<le> x \<Longrightarrow> x \<le> 2147483647 \<Longrightarrow> as_i32 x = x"
  by (simp add: as_i32_def mod_pos_pos_trivial)

lemma as_u32_exact: "0 \<le> x \<Longrightarrow> x < 4294967296 \<Longrightarrow> as_u32 x = nat x"
  by (simp add: as_u32_def mod_pos_pos_trivial)

lemma pred_mod_iff: "0 < n \<Longrightarrow> (y - 1) mod n = n - 1 \<longleftrightarrow> n dvd y" for y n :: int
proof
  assume n: "0 < n" and "(y - 1) mod n = n - 1"
  then have "y = n * ((y - 1) div n + 1)"
    using mult_div_mod_eq [of n "y - 1"] by (simp add: distrib_left)
  then show "n dvd y" by (metis dvd_triv_left)
next
  assume n: "0 < n" and "n dvd y"
  then obtain k where "y = n * k" by blast
  then have "y - 1 = (n - 1) + n * (k - 1)" by (simp add: algebra_simps)
  then have "(y - 1) mod n = (n - 1) mod n" by (metis mod_mult_self2)
  also have "(n - 1) mod n = n - 1" using n by (intro mod_pos_pos_trivial) auto
  finally show "(y - 1) mod n = n - 1" .
qed

lemma leap_last_day:
  assumes "leap y"
  shows "(y - 1) mod 400 mod 4 = 3 \<and> ((y - 1) mod 400 mod 100 = 99 \<longrightarrow> (y - 1) mod 400 = 399)"
proof -
  have "(y - 1) mod 400 mod 4 = (y - 1) mod 4" by (rule mod_mod_cancel) simp
  moreover have "(y - 1) mod 400 mod 100 = (y - 1) mod 100" by (rule mod_mod_cancel) simp
  ultimately show ?thesis
    using assms pred_mod_iff [of 4 y] pred_mod_iff [of 100 y] pred_mod_iff [of 400 y]
    by (simp add: leap_def)
qed

lemma civil_from_days_inverse:
  assumes "valid_date (y, m, d)" and "- 2147483648 \<le> y" "y \<le> 2147483647"
  shows "civil_from_days (days_from_civil y m d) = (y, m, d)"
proof -
  define s where "s = (if m \<le> 2 then y - 1 else y)"
  define mp where "mp = (if m > 2 then int m - 3 else int m + 9)"
  define doy where "doy = month_days mp + int d - 1"
  define yoe where "yoe = s mod 400"
  define doe where "doe = 365 * yoe + yoe div 4 - yoe div 100 + doy"
  have v: "1 \<le> m" "m \<le> 12" "1 \<le> d" "d \<le> month_length y m" using assms(1) by (auto simp: valid_date_def)
  note md = month_days_bounds [OF v, folded mp_def, folded doy_def]
  have "yoe mod 4 = 3 \<and> (yoe mod 100 = 99 \<longrightarrow> yoe = 399)" if "doy = 365"
    using md(4) [OF that] leap_last_day [of y] by (simp add: s_def yoe_def)
  moreover have yoe: "0 \<le> yoe" "yoe < 400" by (simp_all add: yoe_def)
  ultimately have yd: "(doe - doe div 1460 + doe div 36524 - doe div 146096) div 365 = yoe"
    "0 \<le> doe" "doe \<le> 146096"
    using year_from_doe [of yoe doy] md(2,3) unfolding doe_def by blast+
  have "days_from_civil y m d + 719468 = s div 400 * 146097 + doe"
    using yoe_parts [of s] minus_div_mult_eq_mod [of s 400]
    by (simp add: days_from_civil_eq march_days_def s_def [symmetric] mp_def [symmetric] doy_def doe_def yoe_def)
  then obtain z where z: "z = days_from_civil y m d + 719468" "z = s div 400 * 146097 + doe" by blast
  have era: "tdiv (if z \<ge> 0 then z else z - 146096) 146097 = s div 400"
  proof -
    have "z div 146097 = s div 400"
      using yd z(2) by (intro int_div_pos_eq [where r = doe]) auto
    then show ?thesis using tdiv_era [of 146097 z] by (auto split: if_splits)
  qed
  have nonneg: "0 \<le> doe - doe div 1460 + doe div 36524 - doe div 146096"
    using yoe(1) iffD1 [OF pos_imp_zdiv_nonneg_iff [of "365 :: int" "doe - doe div 1460 + doe div 36524 - doe div 146096"]]
    unfolding yd(1) by (metis zero_less_numeral)
  have step1: "z - s div 400 * 146097 = doe" using z(2) by simp
  have step2: "tdiv (doe - tdiv doe 1460 + tdiv doe 36524 - tdiv doe 146096) 365 = yoe"
    by (simp only: tdiv_nonneg [OF yd(2)] tdiv_nonneg [OF nonneg] yd(1))
  have step3: "doe - (365 * yoe + tdiv yoe 4 - tdiv yoe 100) = doy"
    by (simp add: tdiv_nonneg [OF yoe(1)] doe_def)
  have "0 \<le> 5 * doy + 2" "0 \<le> 153 * mp + 2" using md(2) by (simp_all add: mp_def)
  then have step4: "tdiv (5 * doy + 2) 153 = mp" and step5: "doy - tdiv (153 * mp + 2) 5 + 1 = int d"
    using md(1) by (simp_all only: tdiv_nonneg) (simp add: doy_def month_days_def)
  have step6: "yoe + s div 400 * 400 = s" by (simp add: yoe_def)
  have "civil_from_days (days_from_civil y m d) =
    (as_i32 (if (if mp < 10 then mp + 3 else mp - 9) \<le> 2 then s + 1 else s),
     as_u32 (if mp < 10 then mp + 3 else mp - 9), as_u32 (int d))"
    unfolding civil_from_days_def Let_def z(1) [symmetric] era step1 step2 step3 step4 step5 step6
    by (rule refl)
  also have "\<dots> = (y, m, d)"
    using assms(2,3) v month_length_bounds(2) [of y m]
    by (auto simp: mp_def s_def as_i32_exact as_u32_exact)
  finally show ?thesis .
qed

section \<open>Minutes\<close>

text \<open>
  The day numbers whose year fits 32 bits with room to spare (about two million
  millennia either way), and the minutes that fall on those days.
\<close>

definition day_in_range :: "int \<Rightarrow> bool" where
  "day_in_range n \<longleftrightarrow> \<bar>n\<bar> \<le> 700000000000"

definition minute_in_range :: "int \<Rightarrow> bool" where
  "minute_in_range m \<longleftrightarrow> \<bar>m\<bar> \<le> 1000000000000000"

definition valid_time :: "CivilTime \<Rightarrow> bool" where
  "valid_time t \<longleftrightarrow> valid_date (year t, month t, day t) \<and> hour t < 24 \<and> minute t < 60"

lemma march_days_bounds: "365 * y - 1 \<le> march_days y \<or> y < 0" "march_days y \<le> 365 * y + 1 \<or> 0 < y"
proof -
  define a b c where abc: "a = y div 4" "b = y div 100" "c = y div 400"
  have "4 * a \<le> y" "y \<le> 4 * a + 3" "100 * b \<le> y" "y \<le> 100 * b + 99" "400 * c \<le> y" "y \<le> 400 * c + 399"
    unfolding abc by presburger+
  then show "365 * y - 1 \<le> march_days y \<or> y < 0" "march_days y \<le> 365 * y + 1 \<or> 0 < y"
    unfolding march_days_def abc [symmetric] by linarith+
qed

lemma month_days_small:
  assumes "valid_date (y, m, d)"
  shows "0 \<le> month_days (if m > 2 then int m - 3 else int m + 9) + int d - 1"
    "month_days (if m > 2 then int m - 3 else int m + 9) + int d - 1 \<le> 365"
  using assms month_days_bounds(2,3) [of m d y] by (auto simp: valid_date_def)

lemma year_in_range:
  assumes "valid_date (y, m, d)" "day_in_range (days_from_civil y m d)"
  shows "- 2147483648 \<le> y" "y \<le> 2147483647"
proof -
  note b = month_days_small [OF assms(1)]
  define s where "s = (if m \<le> 2 then y - 1 else y)"
  have "\<bar>march_days s + (month_days (if m > 2 then int m - 3 else int m + 9) + int d - 1) - 719468\<bar> \<le> 700000000000"
    using assms(2) by (simp add: day_in_range_def days_from_civil_eq s_def)
  with b have "march_days s \<le> 700000719468" "- 700000000000 \<le> march_days s" by linarith+
  with march_days_bounds [of s] have "s \<le> 2147483000" "- 2147483000 \<le> s" by linarith+
  then show "- 2147483648 \<le> y" "y \<le> 2147483647" by (auto simp: s_def split: if_splits)
qed

lemma civil_from_days_correct:
  assumes "day_in_range n"
  shows "valid_date (civil_from_days n)" "days_of (civil_from_days n) = n"
proof -
  obtain y m d where t: "valid_date (y, m, d)" "days_from_civil y m d = n" using days_surj [of n] by auto
  then have "civil_from_days n = (y, m, d)"
    using civil_from_days_inverse year_in_range assms by blast
  with t show "valid_date (civil_from_days n)" "days_of (civil_from_days n) = n" by simp_all
qed

lemma day_in_range_minute: "minute_in_range m \<Longrightarrow> day_in_range (m div 1440)"
  by (auto simp: minute_in_range_def day_in_range_def)

lemma from_epoch_minute_parts:
  assumes "minute_in_range m"
  shows "valid_date (year (from_epoch_minute m), month (from_epoch_minute m), day (from_epoch_minute m))"
    and "days_from_epoch (from_epoch_minute m) = m div 1440"
    and "hour (from_epoch_minute m) = nat (m mod 1440 div 60)"
    and "minute (from_epoch_minute m) = nat (m mod 60)"
proof -
  note c = civil_from_days_correct [OF day_in_range_minute [OF assms]]
  then show "valid_date (year (from_epoch_minute m), month (from_epoch_minute m), day (from_epoch_minute m))"
    "days_from_epoch (from_epoch_minute m) = m div 1440"
    by (auto simp: from_epoch_minute_def days_from_epoch_def Let_def split: prod.splits)
  have b: "0 \<le> m mod 1440" "m mod 1440 < 1440" by simp_all
  then have "m mod 1440 div 60 < 24" by (simp add: div_int_pos_iff)
  then show "hour (from_epoch_minute m) = nat (m mod 1440 div 60)"
    using b by (simp add: from_epoch_minute_def Let_def tdiv_nonneg as_u32_exact split: prod.splits)
  have "m mod 1440 mod 60 = m mod 60" by (rule mod_mod_cancel) simp
  then show "minute (from_epoch_minute m) = nat (m mod 60)"
    by (simp add: from_epoch_minute_def Let_def as_u32_exact order.strict_trans [OF pos_mod_bound]
        split: prod.splits)
qed

lemma hour_minute_split: "m mod 1440 = 60 * (m mod 1440 div 60) + m mod 60" for m :: int
proof -
  have "m mod 1440 mod 60 = m mod 60" by (rule mod_mod_cancel) simp
  then show ?thesis by (metis mult_div_mod_eq)
qed

lemma from_epoch_minute_correct:
  assumes "minute_in_range m"
  shows "valid_time (from_epoch_minute m)" "epoch_minute (from_epoch_minute m) = m"
proof -
  note p = from_epoch_minute_parts [OF assms]
  have "m mod 1440 div 60 < 24" by (rule less_le_trans [of _ 24]) (simp_all add: div_int_pos_iff)
  then have "nat (m mod 1440 div 60) < 24" "nat (m mod 60) < 60" by (simp_all add: nat_less_iff)
  then show "valid_time (from_epoch_minute m)" using p by (simp add: valid_time_def)
  show "epoch_minute (from_epoch_minute m) = m"
  proof -
    have "epoch_minute (from_epoch_minute m) = m div 1440 * 1440 + (60 * (m mod 1440 div 60) + m mod 60)"
      using p by (simp add: epoch_minute_def pos_imp_zdiv_nonneg_iff)
    also have "\<dots> = m" unfolding hour_minute_split [symmetric] by simp
    finally show ?thesis .
  qed
qed

lemma civil_inverse_in_range:
  "valid_date (y, m, d) \<Longrightarrow> day_in_range (days_from_civil y m d) \<Longrightarrow>
   civil_from_days (days_from_civil y m d) = (y, m, d)"
  by (blast intro: civil_from_days_inverse year_in_range)

lemma days_inject:
  assumes "valid_date s" "valid_date t" "day_in_range (days_of s)" "days_of s = days_of t"
  shows "s = t"
proof -
  obtain y m d y' m' d' where s: "s = (y, m, d)" and t: "t = (y', m', d')" by (cases s, cases t) auto
  have eq: "days_from_civil y m d = days_from_civil y' m' d'" using assms(4) by (simp add: s t)
  have "civil_from_days (days_from_civil y m d) = s" "civil_from_days (days_from_civil y' m' d') = t"
    using assms(1-3) civil_inverse_in_range [of y m d] civil_inverse_in_range [of y' m' d']
    unfolding s t prod.case eq by blast+
  with eq show ?thesis by metis
qed

lemma epoch_minute_div: "valid_time t \<Longrightarrow> epoch_minute t div 1440 = days_from_epoch t"
  by (rule int_div_pos_eq [where r = "int (hour t) * 60 + int (minute t)"])
    (auto simp: epoch_minute_def valid_time_def)

lemma from_epoch_minute_inverse:
  assumes "valid_time t" "minute_in_range (epoch_minute t)"
  shows "from_epoch_minute (epoch_minute t) = t"
proof -
  let ?m = "epoch_minute t"
  note p = from_epoch_minute_parts [OF assms(2)]
  have v: "valid_date (year t, month t, day t)" "hour t < 24" "minute t < 60"
    using assms(1) by (auto simp: valid_time_def)
  have days: "days_from_epoch t = ?m div 1440" using epoch_minute_div [OF assms(1)] by simp
  have "(year (from_epoch_minute ?m), month (from_epoch_minute ?m), day (from_epoch_minute ?m))
    = (year t, month t, day t)"
    by (rule days_inject [OF p(1) v(1)])
      (use p(2) days day_in_range_minute [OF assms(2)] in \<open>simp_all add: days_from_epoch_def\<close>)
  moreover have "?m = int (minute t) + 60 * (int (hour t) + 24 * days_from_epoch t)" by (simp add: epoch_minute_def)
  then have "?m mod 60 = int (minute t) mod 60" by (metis mod_mult_self2)
  then have "?m mod 60 = int (minute t)" using v(3) by simp
  moreover have "?m = (60 * int (hour t) + int (minute t)) + 1440 * days_from_epoch t" by (simp add: epoch_minute_def)
  then have "?m mod 1440 = (60 * int (hour t) + int (minute t)) mod 1440" by (metis mod_mult_self2)
  then have "?m mod 1440 = 60 * int (hour t) + int (minute t)"
    using v(2,3) mod_pos_pos_trivial [of "60 * int (hour t) + int (minute t)" 1440] by linarith
  then have "?m mod 1440 div 60 = int (hour t)" using v(3) by (intro int_div_pos_eq) auto
  ultimately show ?thesis using p(3,4) by simp
qed

lemma weekday_eq: "int (weekday t) = (days_from_epoch t + 4) mod 7"
proof -
  have "0 \<le> (days_from_epoch t + 4) mod 7" "(days_from_epoch t + 4) mod 7 < 7" by simp_all
  then show ?thesis by (simp add: weekday_def as_u32_exact)
qed

section \<open>Properties of the calendar\<close>

text \<open>
  Day numbers are the Gregorian calendar: 1970-01-01, a Thursday, is day 0,
  and going to the next date (month lengths, leap years and century rule
  included) adds exactly one day and moves to the next weekday.
\<close>

theorem days_follow_gregorian_calendar:
  "days_from_civil 1970 1 1 = 0 \<and> weekday (new_civil 1970 1 1 h mi) = 4
   \<and> (valid_date (y, m, d) \<and> next_date (y, m, d) = (y', m', d') \<longrightarrow>
        days_from_civil y' m' d' = days_from_civil y m d + 1
        \<and> weekday (new_civil y' m' d' h mi) = (weekday (new_civil y m d h mi) + 1) mod 7)"
proof (intro conjI impI)
  show zero: "days_from_civil 1970 1 1 = 0"
    by (simp add: days_from_civil_eq march_days_def month_days_def)
  show "weekday (new_civil 1970 1 1 h mi) = 4"
    by (simp add: weekday_def days_from_epoch_def new_civil_def zero [simplified] as_u32_def)
  assume v: "valid_date (y, m, d) \<and> next_date (y, m, d) = (y', m', d')"
  with days_next [of "(y, m, d)"] show step: "days_from_civil y' m' d' = days_from_civil y m d + 1" by simp
  have "int (weekday (new_civil y' m' d' h mi)) = int ((weekday (new_civil y m d h mi) + 1) mod 7)"
    by (simp add: weekday_eq zmod_int) (simp add: days_from_epoch_def new_civil_def step mod_simps ac_simps)
  then show "weekday (new_civil y' m' d' h mi) = (weekday (new_civil y m d h mi) + 1) mod 7"
    by (simp only: of_nat_eq_iff)
qed

theorem days_follow_gregorian_calendar_witness:
  "days_from_civil 2000 3 1 = days_from_civil 2000 2 29 + 1
   \<and> days_from_civil 1900 3 1 = days_from_civil 1900 2 28 + 1"
  using days_follow_gregorian_calendar [of 0 0 2000 2 29 2000 3 1]
    days_follow_gregorian_calendar [of 0 0 1900 2 28 1900 3 1]
  by (simp add: valid_date_def next_date_def month_length_def leap_def)

text \<open>
  The conversions are inverse to each other: every minute in range converts
  to a valid date and time that converts back to it, and every valid date and
  time is recovered from its minute.
\<close>

theorem civil_minute_roundtrip:
  "(minute_in_range m \<longrightarrow> valid_time (from_epoch_minute m) \<and> epoch_minute (from_epoch_minute m) = m)
   \<and> (valid_time t \<and> minute_in_range (epoch_minute t) \<longrightarrow> from_epoch_minute (epoch_minute t) = t)"
  using from_epoch_minute_correct from_epoch_minute_inverse by blast

theorem civil_minute_roundtrip_witness:
  "epoch_minute (from_epoch_minute (- 1)) = - 1
   \<and> from_epoch_minute (epoch_minute (new_civil 2024 2 29 23 59)) = new_civil 2024 2 29 23 59"
proof -
  have "minute_in_range (- 1)" by (simp add: minute_in_range_def)
  moreover have "valid_time (new_civil 2024 2 29 23 59)"
    by (simp add: valid_time_def new_civil_def valid_date_def month_length_def leap_def)
  moreover have "minute_in_range (epoch_minute (new_civil 2024 2 29 23 59))"
    by (simp add: minute_in_range_def epoch_minute_def days_from_epoch_def new_civil_def days_from_civil_eq
        march_days_def month_days_def)
  ultimately show ?thesis
    using civil_minute_roundtrip [of "- 1" "new_civil 2024 2 29 23 59"] by blast
qed

end
