(* ===== verification/Rust_Json.thy ===== *)
theory Rust_Json
  imports Main
begin

text \<open>
  \<open>serde_json::Value\<close>: what a JSON text decodes to, an object as its entries with
  distinct names. The decoder itself is a parameter wherever it is used.
\<close>

text \<open>A number as it is kept: \<open>as_u64\<close> answers for the first kind only.\<close>

datatype Num = PosInt nat | NegInt int | Float string

fun as_u64 :: "Num \<Rightarrow> nat option" where
  "as_u64 (PosInt n) = Some n"
| "as_u64 _ = None"

datatype Value =
    Null
  | Bool bool
  | Number Num
  | Text string
  | Array "Value list"
  | Object "(string \<times> Value) list"

fun as_object :: "Value \<Rightarrow> (string \<times> Value) list option" where
  "as_object (Object fields) = Some fields"
| "as_object _ = None"

fun as_array :: "Value \<Rightarrow> Value list option" where
  "as_array (Array items) = Some items"
| "as_array _ = None"

definition value_get :: "Value \<Rightarrow> string \<Rightarrow> Value option" where
  "value_get v key = Option.bind (as_object v) (\<lambda>entries. map_of entries key)"

text \<open>\<open>v["key"]\<close>: null where there is no such entry.\<close>

definition value_at :: "Value \<Rightarrow> string \<Rightarrow> Value" where
  "value_at v key = (case value_get v key of Some w \<Rightarrow> w | None \<Rightarrow> Null)"

lemma value_at_size: "value_at v key = Array items \<Longrightarrow> w \<in> set items \<Longrightarrow> size w < size v"
proof (cases v)
  case (Object entries)
  assume at: "value_at v key = Array items" and w: "w \<in> set items"
  from at Object have "map_of entries key = Some (Array items)"
    by (auto simp: value_at_def value_get_def split: option.splits)
  then have "(key, Array items) \<in> set entries" by (rule map_of_SomeD)
  then have "size_prod (\<lambda>_. 0) size (key, Array items) \<le> size_list (size_prod (\<lambda>_. 0) size) entries"
    by (rule size_list_estimation') simp
  moreover have "size w \<le> size_list size items" using w by (rule size_list_estimation') simp
  ultimately show ?thesis using Object by simp
qed (auto simp: value_at_def value_get_def)

end
