(* ===== verification/Service.thy ===== *)
theory Service
  imports Prelude Shell Common Civil Rust_Sort Rust_Json "HOL-Library.List_Lexorder" "HOL-Library.Product_Lexorder" "HOL-Library.Char_ord"
begin

text \<open>
  Services (\<open>crates/sbm_parser/src/service.rs\<close>, and \<open>output.rs\<close> for what a command
  printed): the unit model, the manager detector, and the listings, commands and logs
  of systemd, procd and OpenRC. The regular expressions are the arguments collected in
  \<open>ServiceRegex\<close>; the JSON decoder is the argument \<open>from_str\<close>.
\<close>

declare less_char_simp [simp del] less_eq_char_simp [simp del]

section \<open>What a command printed\<close>

record CommandOutput =
  co_stdout :: string
  co_stderr :: string
  co_succeeded :: bool

definition output_ok :: "string \<Rightarrow> CommandOutput" where
  "output_ok s = \<lparr>co_stdout = s, co_stderr = [], co_succeeded = True\<rparr>"

definition output_failed :: "string \<Rightarrow> CommandOutput" where
  "output_failed s = \<lparr>co_stdout = [], co_stderr = s, co_succeeded = False\<rparr>"

definition combined :: "CommandOutput \<Rightarrow> string" where
  "combined c = (if co_stderr c = [] then co_stdout c else co_stdout c @ co_stderr c)"

definition output_detail :: "CommandOutput \<Rightarrow> string option" where
  "output_detail c = (if trim (combined c) \<noteq> [] then Some (trim (combined c)) else None)"

section \<open>The model of a unit\<close>

datatype ServiceManagerType = Systemd | Procd | Openrc

fun manager_display_name :: "ServiceManagerType \<Rightarrow> string" where
  "manager_display_name Systemd = ''systemd''"
| "manager_display_name Procd = ''procd''"
| "manager_display_name Openrc = ''OpenRC''"

definition supports_user_scope :: "ServiceManagerType \<Rightarrow> bool" where
  "supports_user_scope m \<longleftrightarrow> m = Systemd"

datatype ServiceUnitType = Service | Socket | Mount | Timer

fun unit_type_str :: "ServiceUnitType \<Rightarrow> string" where
  "unit_type_str Service = ''service''"
| "unit_type_str Socket = ''socket''"
| "unit_type_str Mount = ''mount''"
| "unit_type_str Timer = ''timer''"

definition unit_type_parse :: "string \<Rightarrow> ServiceUnitType option" where
  "unit_type_parse v = (let w = to_ascii_lowercase v in
     if w = ''service'' then Some Service else if w = ''socket'' then Some Socket
     else if w = ''mount'' then Some Mount else if w = ''timer'' then Some Timer else None)"

datatype ServiceScope = System | User

fun scope_str :: "ServiceScope \<Rightarrow> string" where
  "scope_str System = ''system''"
| "scope_str User = ''user''"

datatype ServiceState = Running | Stopped | Failed | Starting | Stopping | Unknown

definition needs_attention :: "ServiceState \<Rightarrow> bool" where
  "needs_attention st \<longleftrightarrow> st \<in> {Failed, Starting, Stopping}"

definition from_systemd_active :: "string \<Rightarrow> ServiceState option" where
  "from_systemd_active w =
     (if w = ''active'' then Some Running else if w = ''inactive'' then Some Stopped
      else if w = ''failed'' then Some Failed else if w = ''activating'' then Some Starting
      else if w = ''deactivating'' then Some Stopping else None)"

definition from_openrc :: "string \<Rightarrow> ServiceState" where
  "from_openrc v = (let raw = to_ascii_lowercase (trim v) in
     if starts_with ''started'' raw then Running
     else if starts_with ''stopped'' raw \<or> starts_with ''inactive'' raw then Stopped
     else if starts_with ''crashed'' raw \<or> starts_with ''failed'' raw then Failed
     else if starts_with ''starting'' raw then Starting
     else if starts_with ''stopping'' raw then Stopping else Unknown)"

datatype ServiceAction = Start | Stop | Restart | Enable | Disable

fun action_str :: "ServiceAction \<Rightarrow> string" where
  "action_str Start = ''start''"
| "action_str Stop = ''stop''"
| "action_str Restart = ''restart''"
| "action_str Enable = ''enable''"
| "action_str Disable = ''disable''"

definition destructive :: "ServiceAction \<Rightarrow> bool" where
  "destructive a \<longleftrightarrow> a \<in> {Stop, Restart, Disable}"

fun state_actions :: "ServiceState \<Rightarrow> ServiceAction list" where
  "state_actions Running = [Stop, Restart]"
| "state_actions Stopped = [Start]"
| "state_actions Failed = [Restart]"
| "state_actions Starting = [Stop]"
| "state_actions Stopping = [Start]"
| "state_actions Unknown = [Start, Restart]"

definition service_actions :: "ServiceState \<Rightarrow> bool option \<Rightarrow> ServiceAction list" where
  "service_actions st enabled =
     state_actions st @ (case enabled of Some True \<Rightarrow> [Disable] | Some False \<Rightarrow> [Enable] | None \<Rightarrow> [])"

record ServiceUnit =
  un_name :: string
  un_full_name :: string
  un_type :: ServiceUnitType
  un_scope :: ServiceScope
  un_state :: ServiceState
  un_description :: "string option"
  un_enabled :: "bool option"
  un_unit_file_state :: "string option"
  un_sub_state :: "string option"
  un_result :: "string option"
  un_exit_status :: "int option"
  un_memory_bytes :: "int option"
  un_since_millis :: "int option"
  un_next_elapse_millis :: "int option"
  un_actions :: "ServiceAction list"
  un_needs_attention :: bool

definition new_unit :: "string \<Rightarrow> ServiceUnitType \<Rightarrow> ServiceScope \<Rightarrow> ServiceState \<Rightarrow> ServiceUnit" where
  "new_unit name ty scope st =
     \<lparr>un_name = name, un_full_name = name @ ''.'' @ unit_type_str ty, un_type = ty, un_scope = scope,
      un_state = st, un_description = None, un_enabled = None, un_unit_file_state = None,
      un_sub_state = None, un_result = None, un_exit_status = None, un_memory_bytes = None,
      un_since_millis = None, un_next_elapse_millis = None, un_actions = service_actions st None,
      un_needs_attention = needs_attention st\<rparr>"

definition unit_key :: "ServiceUnit \<Rightarrow> string" where
  "unit_key u = scope_str (un_scope u) @ '':'' @ un_full_name u"

definition startup :: "ServiceUnit \<Rightarrow> string option" where
  "startup u = (case un_unit_file_state u of Some s \<Rightarrow> Some s
     | None \<Rightarrow> (case un_enabled u of Some True \<Rightarrow> Some ''enabled'' | Some False \<Rightarrow> Some ''disabled'' | None \<Rightarrow> None))"

definition set_enabled :: "bool option \<Rightarrow> ServiceUnit \<Rightarrow> ServiceUnit" where
  "set_enabled enabled u = u\<lparr>un_enabled := enabled, un_actions := service_actions (un_state u) enabled\<rparr>"

definition compare_services :: "ServiceUnit \<Rightarrow> ServiceUnit \<Rightarrow> Ordering" where
  "compare_services a b =
     (if un_scope a \<noteq> un_scope b then (if un_scope a = User then Less else Greater)
      else if un_state a \<noteq> un_state b \<and> un_state a = Running then Less
      else if un_state a \<noteq> un_state b \<and> un_state b = Running then Greater
      else cmp (un_name a) (un_name b))"

type_synonym ServiceLoadError = string

datatype ServiceListingNotice = UserScopeUnavailable | DetailsUnavailable

record ServiceListing =
  sl_units :: "ServiceUnit list"
  sl_notice :: "ServiceListingNotice option"
  sl_detail :: "string option"
  sl_sampled_at_millis :: "int option"

section \<open>Detecting the manager\<close>

record ServiceManagerProbe =
  sp_manager_type :: "ServiceManagerType option"
  sp_detected_name :: string
  sp_os_name :: string
  sp_raw :: string

definition probe_description :: "ServiceManagerProbe \<Rightarrow> string" where
  "probe_description p =
     (if sp_detected_name p = [] then sp_os_name p
      else if sp_os_name p = [] then sp_detected_name p
      else sp_detected_name p @ '' ('' @ sp_os_name p @ '')'')"

definition parse_probe :: "string \<Rightarrow> ServiceManagerProbe" where
  "parse_probe raw =
     (let trimmed = trim raw;
          (id0, os) = (case split_once tab trimmed of Some (a, b) \<Rightarrow> (trim a, trim b) | None \<Rightarrow> (trimmed, []));
          manager = to_ascii_lowercase id0
      in \<lparr>sp_manager_type = (if manager = ''systemd'' then Some Systemd else if manager = ''procd'' then Some Procd
            else if manager = ''openrc'' then Some Openrc else None),
          sp_detected_name = (if manager = ''openrc'' then ''OpenRC''
            else if manager = ''unknown'' \<or> manager = [] then [] else manager),
          sp_os_name = os, sp_raw = raw\<rparr>)"

section \<open>Commands on a unit\<close>

definition SYSTEMD_TYPES :: string where
  "SYSTEMD_TYPES = ''service,socket,mount,timer''"

definition SYSTEMD_DETAIL_PROPERTIES :: "string list" where
  "SYSTEMD_DETAIL_PROPERTIES =
     [''Id'', ''UnitFileState'', ''SubState'', ''Result'', ''ExecMainStatus'', ''MemoryCurrent'',
      ''ActiveEnterTimestamp'', ''ActiveExitTimestamp'', ''InactiveEnterTimestamp'', ''InactiveExitTimestamp'',
      ''NextElapseUSecRealtime'']"

fun systemctl :: "ServiceScope \<Rightarrow> string" where
  "systemctl System = ''systemctl''"
| "systemctl User = ''systemctl --user''"

fun journalctl :: "ServiceScope \<Rightarrow> string" where
  "journalctl System = ''journalctl''"
| "journalctl User = ''journalctl --user''"

definition list_command :: "ServiceManagerType \<Rightarrow> ServiceScope \<Rightarrow> string option" where
  "list_command m scope =
     (if m = Systemd
      then Some (systemctl scope @ '' list-units --all --no-legend --no-pager --plain --type='' @ SYSTEMD_TYPES)
      else None)"

definition details_command :: "ServiceManagerType \<Rightarrow> ServiceScope \<Rightarrow> string option" where
  "details_command m scope =
     (if m = Systemd
      then Some (''date +%s; env TZ=UTC LC_ALL=C '' @ systemctl scope @ '' show --no-pager --property=''
        @ join '','' SYSTEMD_DETAIL_PROPERTIES @ '' -- ''
        @ join '' '' (map (\<lambda>ty. sq (''*.'' @ ty)) (split_on (CHR '','') SYSTEMD_TYPES)))
      else None)"

definition init_script :: "ServiceUnit \<Rightarrow> string" where
  "init_script u = shell_quote_unix (''/etc/init.d/'' @ un_name u)"

fun command_for :: "ServiceManagerType \<Rightarrow> ServiceUnit \<Rightarrow> ServiceAction \<Rightarrow> string" where
  "command_for Systemd u a = systemctl (un_scope u) @ '' '' @ action_str a @ '' '' @ shell_quote_unix (un_full_name u)"
| "command_for Procd u a = init_script u @ '' '' @ action_str a"
| "command_for Openrc u Enable = ''rc-update add '' @ shell_quote_unix (un_name u) @ '' default''"
| "command_for Openrc u Disable = ''rc-update --all delete '' @ shell_quote_unix (un_name u)"
| "command_for Openrc u a = ''rc-service '' @ shell_quote_unix (un_name u) @ '' '' @ action_str a"

fun needs_root :: "ServiceManagerType \<Rightarrow> ServiceUnit \<Rightarrow> bool" where
  "needs_root Systemd u \<longleftrightarrow> un_scope u = System"
| "needs_root _ u \<longleftrightarrow> True"

fun recent_log_command :: "ServiceManagerType \<Rightarrow> ServiceUnit \<Rightarrow> nat \<Rightarrow> string option" where
  "recent_log_command Systemd u n = Some (journalctl (un_scope u) @ '' --no-pager --output=short-iso -n '' @ show_nat n
     @ '' -u '' @ shell_quote_unix (un_full_name u))"
| "recent_log_command Procd u n = Some (''logread -e '' @ shell_quote_unix (un_name u) @ '' | tail -n '' @ show_nat n)"
| "recent_log_command Openrc u n = None"

fun log_command :: "ServiceManagerType \<Rightarrow> ServiceUnit \<Rightarrow> string option" where
  "log_command Systemd u = Some (journalctl (un_scope u) @ '' -e -u '' @ shell_quote_unix (un_full_name u))"
| "log_command Procd u = Some (''logread -e '' @ shell_quote_unix (un_name u))"
| "log_command Openrc u = None"

fun definition_command :: "ServiceManagerType \<Rightarrow> ServiceUnit \<Rightarrow> string" where
  "definition_command Systemd u = systemctl (un_scope u) @ '' cat '' @ shell_quote_unix (un_full_name u)"
| "definition_command _ u = ''cat '' @ init_script u"

fun unit_status_command :: "ServiceManagerType \<Rightarrow> ServiceUnit \<Rightarrow> string" where
  "unit_status_command Systemd u =
     systemctl (un_scope u) @ '' status --no-pager --full '' @ shell_quote_unix (un_full_name u)"
| "unit_status_command Procd u = init_script u @ '' status''"
| "unit_status_command Openrc u = ''rc-service '' @ shell_quote_unix (un_name u) @ '' status''"

definition terminal_command :: "string \<Rightarrow> bool \<Rightarrow> bool \<Rightarrow> string" where
  "terminal_command command root_needed is_root =
     (if root_needed \<and> \<not> is_root then ''sudo '' @ command else command)"

section \<open>The listing of systemd\<close>

text \<open>What the groups of each regular expression capture.\<close>

record ServiceRegex =
  rx_timestamp :: "string \<Rightarrow> (string \<times> string \<times> string \<times> string \<times> string \<times> string) option"
  rx_journal :: "string \<Rightarrow> (string \<times> string) option"
  rx_logread :: "string \<Rightarrow> (string \<times> string) option"
  rx_openrc_status :: "string \<Rightarrow> (string \<times> string) option"
  rx_openrc_startup :: "string \<Rightarrow> (string \<times> string) option"

definition list_unit :: "ServiceScope \<Rightarrow> string \<Rightarrow> ServiceUnit option" where
  "list_unit scope line =
     (let trimmed = trim line; parts = split_whitespace trimmed in
      if trimmed = [] \<or> length parts < 4 then None
      else (case rsplit_once (CHR ''.'') (parts ! 0) of
          None \<Rightarrow> None
        | Some (name, suffix) \<Rightarrow>
            if name = [] then None
            else (case unit_type_parse suffix of None \<Rightarrow> None
              | Some ty \<Rightarrow>
                (case from_systemd_active (to_ascii_lowercase (parts ! 2)) of None \<Rightarrow> None
                 | Some st \<Rightarrow> Some ((new_unit name ty scope st)
                     \<lparr>un_sub_state := (if parts ! 3 \<noteq> [] then Some (parts ! 3) else None),
                      un_description := (if length parts > 4 then Some (join '' '' (drop 4 parts)) else None)\<rparr>)))))"

definition parse_list_units :: "string \<Rightarrow> ServiceScope \<Rightarrow> ServiceUnit list" where
  "parse_list_units out scope = List.map_filter (list_unit scope) (split_on nl out)"

record SystemdUnitDetails =
  sd_unit_file_state :: "string option"
  sd_sub_state :: "string option"
  sd_result :: "string option"
  sd_exit_status :: "int option"
  sd_memory_bytes :: "int option"
  sd_active_enter_millis :: "int option"
  sd_active_exit_millis :: "int option"
  sd_inactive_enter_millis :: "int option"
  sd_inactive_exit_millis :: "int option"
  sd_next_elapse_millis :: "int option"

record SystemdDetails =
  sds_sampled_at_millis :: "int option"
  sds_units :: "(string, SystemdUnitDetails) hashmap"

definition parse_timestamp :: "ServiceRegex \<Rightarrow> string \<Rightarrow> int option" where
  "parse_timestamp rx v =
     map_option (\<lambda>(y, mo, d, h, mi, s).
       (let part = (\<lambda>p. unwrap_or 0 (parse_i64 p)) in
        utc_millis (as_i32 (part y)) (as_u32 (part mo)) (as_u32 (part d))
          (as_u32 (part h)) (as_u32 (part mi)) (as_u32 (part s))))
       (rx_timestamp rx (trim v))"

definition parse_memory :: "string \<Rightarrow> int option" where
  "parse_memory v = (case parse_i64 (trim v) of None \<Rightarrow> None | Some n \<Rightarrow> if n \<ge> 0 then Some n else None)"

definition block_text :: "(string, string) hashmap \<Rightarrow> string \<Rightarrow> string option" where
  "block_text block key =
     (case hm_get block key of None \<Rightarrow> None | Some v \<Rightarrow> if trim v = [] then None else Some (trim v))"

definition details_from_block :: "ServiceRegex \<Rightarrow> (string, string) hashmap \<Rightarrow> SystemdUnitDetails" where
  "details_from_block rx block =
     (let moment = (\<lambda>key. Option.bind (hm_get block key) (parse_timestamp rx)) in
      \<lparr>sd_unit_file_state = block_text block ''UnitFileState'',
       sd_sub_state = block_text block ''SubState'',
       sd_result = (case block_text block ''Result'' of None \<Rightarrow> None
                    | Some v \<Rightarrow> if v \<noteq> ''success'' then Some v else None),
       sd_exit_status = Option.bind (hm_get block ''ExecMainStatus'') (\<lambda>v. parse_i32 (trim v)),
       sd_memory_bytes = Option.bind (hm_get block ''MemoryCurrent'') parse_memory,
       sd_active_enter_millis = moment ''ActiveEnterTimestamp'',
       sd_active_exit_millis = moment ''ActiveExitTimestamp'',
       sd_inactive_enter_millis = moment ''InactiveEnterTimestamp'',
       sd_inactive_exit_millis = moment ''InactiveExitTimestamp'',
       sd_next_elapse_millis = moment ''NextElapseUSecRealtime''\<rparr>)"

text \<open>The loop over the lines carries the units so far and the block being read.\<close>

type_synonym Blocks = "(string, SystemdUnitDetails) hashmap \<times> (string, string) hashmap"

definition flush :: "ServiceRegex \<Rightarrow> Blocks \<Rightarrow> Blocks" where
  "flush rx st = (case st of (units, block) \<Rightarrow>
     (case hm_get block ''Id'' of
        Some i \<Rightarrow> (if i \<noteq> [] then hm_insert i (details_from_block rx block) units else units)
      | None \<Rightarrow> units, hm_empty))"

definition details_line :: "ServiceRegex \<Rightarrow> Blocks \<Rightarrow> string \<Rightarrow> Blocks" where
  "details_line rx st line =
     (if trim line = [] then flush rx st
      else (case split_once (CHR ''='') line of
          Some (key, v) \<Rightarrow> if key \<noteq> [] then (fst st, hm_insert key (trim v) (snd st)) else st
        | None \<Rightarrow> st))"

text \<open>A product of \<open>i64\<close>, which wraps in a release build.\<close>

definition i64_mul :: "int \<Rightarrow> int \<Rightarrow> int" where
  "i64_mul a b = (a * b + 9223372036854775808) mod 18446744073709551616 - 9223372036854775808"

definition parse_details :: "ServiceRegex \<Rightarrow> string \<Rightarrow> SystemdDetails" where
  "parse_details rx out =
     (let ls = split_on nl out;
          (sampled, rest) = (case ls of [] \<Rightarrow> (None, ls)
             | l # later \<Rightarrow> (case parse_i64 (trim l) of Some seconds \<Rightarrow> (Some (i64_mul seconds 1000), later)
                           | None \<Rightarrow> (None, ls)))
      in \<lparr>sds_sampled_at_millis = sampled,
          sds_units = fst (flush rx (foldl (details_line rx) (hm_empty, hm_empty) rest))\<rparr>)"

definition with_details :: "ServiceUnit \<Rightarrow> SystemdUnitDetails option \<Rightarrow> ServiceUnit" where
  "with_details u details = (case details of None \<Rightarrow> u
     | Some d \<Rightarrow>
        (let enabled = (if sd_unit_file_state d = Some ''enabled'' \<or> sd_unit_file_state d = Some ''enabled-runtime''
                then Some True else if sd_unit_file_state d = Some ''disabled'' then Some False else None);
             failed = (un_state u = Failed);
             merged = set_enabled enabled
               (u\<lparr>un_sub_state := (case sd_sub_state d of Some s \<Rightarrow> Some s | None \<Rightarrow> un_sub_state u),
                  un_unit_file_state := sd_unit_file_state d\<rparr>)
         in merged
           \<lparr>un_result := (if failed then sd_result d else None),
            un_exit_status := (if failed \<and> sd_result d = Some ''exit-code'' then sd_exit_status d else None),
            un_memory_bytes := sd_memory_bytes d,
            un_since_millis := (case un_state u of
                Running \<Rightarrow> sd_active_enter_millis d
              | Stopped \<Rightarrow> sd_inactive_enter_millis d
              | Failed \<Rightarrow> sd_inactive_enter_millis d
              | Starting \<Rightarrow> sd_inactive_exit_millis d
              | Stopping \<Rightarrow> sd_active_exit_millis d
              | Unknown \<Rightarrow> None),
            un_next_elapse_millis := (if un_type u = Timer then sd_next_elapse_millis d else None)\<rparr>))"

record SystemdOutputs =
  so_system_list :: CommandOutput
  so_system_details :: CommandOutput
  so_user_list :: CommandOutput
  so_user_details :: CommandOutput

record Sweep =
  sw_failed :: bool
  sw_sampled :: "int option"
  sw_by_key :: "(string, SystemdUnitDetails) hashmap"

definition sweep :: "ServiceRegex \<Rightarrow> bool \<Rightarrow> Sweep \<Rightarrow> ServiceScope \<times> CommandOutput \<Rightarrow> Sweep" where
  "sweep rx user_failed sw p = (case p of (scope, out) \<Rightarrow>
     if \<not> co_succeeded out
     then (if scope = System \<or> \<not> user_failed then sw\<lparr>sw_failed := True\<rparr> else sw)
     else (let details = parse_details rx (co_stdout out) in
       sw\<lparr>sw_sampled := (case sw_sampled sw of Some t \<Rightarrow> Some t | None \<Rightarrow> sds_sampled_at_millis details),
          sw_by_key := foldl (\<lambda>m (i, d). hm_insert (scope_str scope @ '':'' @ i) d m) (sw_by_key sw) (sds_units details)\<rparr>))"

definition parse_systemd_listing :: "ServiceRegex \<Rightarrow> SystemdOutputs \<Rightarrow> (ServiceLoadError, ServiceListing) result" where
  "parse_systemd_listing rx o4 =
     (if \<not> co_succeeded (so_system_list o4) then Err (trim (combined (so_system_list o4)))
      else (let system_units = parse_list_units (co_stdout (so_system_list o4)) System;
                user_failed = (\<not> co_succeeded (so_user_list o4));
                user_units = (if user_failed then [] else parse_list_units (co_stdout (so_user_list o4)) User);
                sw = foldl (sweep rx user_failed) \<lparr>sw_failed = False, sw_sampled = None, sw_by_key = hm_empty\<rparr>
                  [(System, so_system_details o4), (User, so_user_details o4)];
                units = map (\<lambda>u. with_details u (hm_get (sw_by_key sw) (unit_key u))) (user_units @ system_units)
        in Ok \<lparr>sl_units = sort_by compare_services units,
               sl_notice = (if user_failed then Some UserScopeUnavailable
                            else if sw_failed sw then Some DetailsUnavailable else None),
               sl_detail = (if user_failed then output_detail (so_user_list o4) else None),
               sl_sampled_at_millis = sw_sampled sw\<rparr>))"

section \<open>A unit's log\<close>

record ServiceLogLine =
  ll_time :: "string option"
  ll_text :: string

record ServiceLog =
  sg_lines :: "ServiceLogLine list"
  sg_unreadable :: bool

definition log_line :: "(string \<Rightarrow> (string \<times> string) option) \<Rightarrow> string \<Rightarrow> ServiceLogLine" where
  "log_line re line = (case re line of
      Some (time, message) \<Rightarrow> \<lparr>ll_time = Some time, ll_text = message\<rparr>
    | None \<Rightarrow> \<lparr>ll_time = None, ll_text = line\<rparr>)"

definition parse_journal :: "ServiceRegex \<Rightarrow> string \<Rightarrow> string \<Rightarrow> ServiceLog" where
  "parse_journal rx out errors =
     (let ls = map (log_line (rx_journal rx))
            (filter (\<lambda>l. trim l \<noteq> [] \<and> \<not> starts_with ''-- '' l) (split_on nl (normalize_newlines out)))
      in \<lparr>sg_lines = ls,
          sg_unreadable = (ls = [] \<and> (contains_sub ''insufficient permissions'' errors
             \<or> contains_sub ''not seeing messages from other users'' errors))\<rparr>)"

definition parse_logread :: "ServiceRegex \<Rightarrow> string \<Rightarrow> ServiceLogLine list" where
  "parse_logread rx out =
     map (log_line (rx_logread rx)) (filter (\<lambda>l. trim l \<noteq> []) (split_on nl (normalize_newlines out)))"

definition parse_recent_log :: "ServiceRegex \<Rightarrow> ServiceManagerType \<Rightarrow> CommandOutput \<Rightarrow> ServiceLog option" where
  "parse_recent_log rx m out =
     (case m of
        Systemd \<Rightarrow> Some (parse_journal rx (co_stdout out) (co_stderr out))
      | Procd \<Rightarrow> if \<not> co_succeeded out \<and> trim (co_stdout out) = [] then None
          else Some \<lparr>sg_lines = parse_logread rx (co_stdout out), sg_unreadable = False\<rparr>
      | Openrc \<Rightarrow> None)"

section \<open>The listing of procd\<close>

definition PROCD_CATALOG_SCRIPT :: string where
  "PROCD_CATALOG_SCRIPT = join [nl]
     [[], ''if [ ! -d /etc/init.d ]; then exit 1; fi'',
      ''for path in /etc/init.d/*; do'',
      ''  [ -f '' @ dq ''$path'' @ '' ] && [ -x '' @ dq ''$path'' @ '' ] || continue'',
      ''  name=${path##*/}'',
      ''  enabled=0'',
      ''  for link in /etc/rc.d/S??'' @ dq ''$name'' @ ''; do'',
      ''    if [ -e '' @ dq ''$link'' @ '' ]; then enabled=1; break; fi'',
      ''  done'',
      ''  printf '' @ sq (''%s'' @ [CHR 0x5C] @ ''t%s'' @ [CHR 0x5C] @ ''n'') @ '' '' @ dq ''$name'' @ '' '' @ dq ''$enabled'',
      ''done'', []]"

definition PROCD_STATUS_COMMAND :: string where
  "PROCD_STATUS_COMMAND = ''ubus call service list''"

text \<open>A \<open>BTreeMap\<close> is its entries in the order of their keys, a \<open>BTreeSet\<close> its elements.\<close>

fun bm_insert :: "'k::linorder \<Rightarrow> 'v \<Rightarrow> ('k \<times> 'v) list \<Rightarrow> ('k \<times> 'v) list" where
  "bm_insert k v [] = [(k, v)]"
| "bm_insert k v ((j, w) # m) =
     (if k = j then (k, v) # m else if k < j then (k, v) # (j, w) # m else (j, w) # bm_insert k v m)"

definition bs_collect :: "'k::linorder list \<Rightarrow> 'k list" where
  "bs_collect xs = remdups_adj (sort xs)"

definition catalog_line :: "(string \<times> bool) list \<Rightarrow> string \<Rightarrow> (string \<times> bool) list" where
  "catalog_line m line =
     (let parts = split_on tab (trim line) in
      if length parts \<noteq> 2 \<or> parts ! 0 = [] then m else bm_insert (parts ! 0) (parts ! 1 = ''1'') m)"

definition parse_procd_catalog :: "string \<Rightarrow> (string \<times> bool) list" where
  "parse_procd_catalog out = foldl catalog_line [] (split_on nl out)"

definition instance_running :: "Value \<Rightarrow> bool" where
  "instance_running v \<longleftrightarrow> value_get v ''running'' = Some (Bool True)"

definition procd_state :: "Value \<Rightarrow> ServiceState" where
  "procd_state v =
     (case as_object v of None \<Rightarrow> Unknown
      | Some service \<Rightarrow>
          (case Option.bind (map_of service ''instances'') as_object of
             Some instances \<Rightarrow> if list_ex (\<lambda>(_, i). instance_running i) instances then Running else Stopped
           | None \<Rightarrow> Stopped))"

definition parse_procd_states ::
  "(string \<Rightarrow> (string, Value) result) \<Rightarrow> string \<Rightarrow> (string, (string, ServiceState) hashmap) result" where
  "parse_procd_states from_str out =
     (case from_str out of Err e \<Rightarrow> Err e
      | Ok decoded \<Rightarrow>
          (case as_object decoded of None \<Rightarrow> Err ''procd service list is not an object''
           | Some services \<Rightarrow> Ok (foldl (\<lambda>m (name, v). hm_insert name (procd_state v) m) hm_empty services)))"

definition listed_unit :: "(string, ServiceState) hashmap \<Rightarrow> string \<Rightarrow> bool option \<Rightarrow> ServiceUnit" where
  "listed_unit states name enabled =
     set_enabled enabled (new_unit name Service System (unwrap_or Unknown (hm_get states name)))"

definition parse_procd_listing ::
  "(string \<Rightarrow> (string, Value) result) \<Rightarrow> CommandOutput \<Rightarrow> CommandOutput \<Rightarrow> (ServiceLoadError, ServiceListing) result" where
  "parse_procd_listing from_str catalog status =
     (if \<not> co_succeeded catalog then Err (trim (combined catalog))
      else (let enabled_by_name = parse_procd_catalog (co_stdout catalog);
                (states, detail) =
                  (if co_succeeded status
                   then (case parse_procd_states from_str (co_stdout status) of
                           Ok parsed \<Rightarrow> (parsed, None) | Err e \<Rightarrow> (hm_empty, Some e))
                   else (hm_empty, output_detail status));
                units = map (\<lambda>(name, enabled). listed_unit states name (Some enabled)) enabled_by_name
        in Ok \<lparr>sl_units = sort_by compare_services units,
               sl_notice = (case detail of None \<Rightarrow> None | Some _ \<Rightarrow> Some DetailsUnavailable),
               sl_detail = detail, sl_sampled_at_millis = None\<rparr>))"

section \<open>The listing of OpenRC\<close>

definition OPENRC_CATALOG_SCRIPT :: string where
  "OPENRC_CATALOG_SCRIPT = join [nl]
     [[], ''for directory in /etc/init.d /usr/local/etc/init.d; do'',
      ''  [ -d '' @ dq ''$directory'' @ '' ] || continue'',
      ''  for path in '' @ dq ''$directory'' @ ''/*; do'',
      ''    [ -f '' @ dq ''$path'' @ '' ] && [ -x '' @ dq ''$path'' @ '' ] || continue'',
      ''    printf '' @ sq (''%s'' @ [CHR 0x5C] @ ''n'') @ '' '' @ dq ''${path##*/}'',
      ''  done'', ''done'', []]"

definition OPENRC_STATUS_COMMAND :: string where
  "OPENRC_STATUS_COMMAND = ''rc-status -s -C''"

definition OPENRC_STARTUP_COMMAND :: string where
  "OPENRC_STARTUP_COMMAND = ''rc-update show''"

definition parse_openrc_catalog :: "string \<Rightarrow> string list" where
  "parse_openrc_catalog out = bs_collect (filter (\<lambda>l. l \<noteq> []) (map trim (split_on nl out)))"

definition parse_openrc_status :: "ServiceRegex \<Rightarrow> string \<Rightarrow> (string, ServiceState) hashmap" where
  "parse_openrc_status rx out =
     foldl (\<lambda>m line. case rx_openrc_status rx line of None \<Rightarrow> m
              | Some (name, st) \<Rightarrow> hm_insert name (from_openrc st) m)
       hm_empty (split_on nl (normalize_newlines out))"

definition startup_name :: "ServiceRegex \<Rightarrow> string \<Rightarrow> string option" where
  "startup_name rx line = (case rx_openrc_startup rx line of None \<Rightarrow> None
     | Some (name, levels) \<Rightarrow>
         if eq_ignore_ascii_case name ''service'' then None
         else if trim levels \<noteq> [] then Some name else None)"

definition parse_openrc_enabled :: "ServiceRegex \<Rightarrow> string \<Rightarrow> string list" where
  "parse_openrc_enabled rx out =
     bs_collect (List.map_filter (startup_name rx) (split_on nl (normalize_newlines out)))"

definition parse_openrc_listing ::
  "ServiceRegex \<Rightarrow> CommandOutput \<Rightarrow> CommandOutput \<Rightarrow> CommandOutput \<Rightarrow> (ServiceLoadError, ServiceListing) result" where
  "parse_openrc_listing rx catalog status startup_out =
     (if \<not> co_succeeded status then Err (trim (combined status))
      else (let states = parse_openrc_status rx (co_stdout status);
                can_report = co_succeeded startup_out;
                enabled_names = (if can_report then parse_openrc_enabled rx (co_stdout startup_out) else []);
                scripts = (if co_succeeded catalog then parse_openrc_catalog (co_stdout catalog) else []);
                names = bs_collect (scripts @ map fst states);
                detail = join [nl] (filter (\<lambda>d. d \<noteq> [])
                  ((if \<not> co_succeeded catalog then [trim (combined catalog)] else [])
                   @ (if \<not> can_report then [trim (combined startup_out)] else [])));
                units = map (\<lambda>name. listed_unit states name
                  (if can_report then Some (name \<in> set enabled_names) else None)) names
        in Ok \<lparr>sl_units = sort_by compare_services units,
               sl_notice = (if \<not> (can_report \<and> co_succeeded catalog) then Some DetailsUnavailable else None),
               sl_detail = (if detail \<noteq> [] then Some detail else None), sl_sampled_at_millis = None\<rparr>))"

section \<open>Whichever the manager\<close>

fun listing_commands :: "ServiceManagerType \<Rightarrow> (string \<times> string option) list" where
  "listing_commands Systemd =
     [(''system_list'', list_command Systemd System), (''system_details'', details_command Systemd System),
      (''user_list'', list_command Systemd User), (''user_details'', details_command Systemd User)]"
| "listing_commands Procd =
     [(''catalog'', Some PROCD_CATALOG_SCRIPT), (''status'', Some PROCD_STATUS_COMMAND)]"
| "listing_commands Openrc =
     [(''catalog'', Some OPENRC_CATALOG_SCRIPT), (''status'', Some OPENRC_STATUS_COMMAND),
      (''startup'', Some OPENRC_STARTUP_COMMAND)]"

definition parse_listing ::
  "(string \<Rightarrow> (string, Value) result) \<Rightarrow> ServiceRegex \<Rightarrow> ServiceManagerType \<Rightarrow> (string, CommandOutput) hashmap
     \<Rightarrow> (ServiceLoadError, ServiceListing) result" where
  "parse_listing from_str rx m outputs =
     (let get = (\<lambda>name. unwrap_or (output_failed ''not run'') (hm_get outputs name)) in
      case m of
        Systemd \<Rightarrow> parse_systemd_listing rx
          \<lparr>so_system_list = get ''system_list'', so_system_details = get ''system_details'',
           so_user_list = get ''user_list'', so_user_details = get ''user_details''\<rparr>
      | Procd \<Rightarrow> parse_procd_listing from_str (get ''catalog'') (get ''status'')
      | Openrc \<Rightarrow> parse_openrc_listing rx (get ''catalog'') (get ''status'') (get ''startup''))"

end
