(* ===== verification/Service_Listing.thy ===== *)
theory Service_Listing
  imports Service
begin

text \<open>
  What the listings and commands of \<open>crates/sbm_parser/src/service.rs\<close> promise: units in
  one order with actions that agree with their state, details attached to the unit
  they are of, and commands that name the unit and nothing else.
\<close>

section \<open>The order of a listing\<close>

definition service_key :: "ServiceUnit \<Rightarrow> bool \<times> bool \<times> string" where
  "service_key u = (un_scope u \<noteq> User, un_state u \<noteq> Running, un_name u)"

lemma scope_cases: "s = System \<or> s = User" for s :: ServiceScope
  by (cases s) simp_all

lemma compare_services_key: "compare_services a b = Greater \<longleftrightarrow> service_key b < service_key a"
  using scope_cases [of "un_scope a"] scope_cases [of "un_scope b"]
  by (auto simp: compare_services_def service_key_def cmp_def)

lemma sorted_services: "sort_by compare_services us = sort_key service_key us"
  by (rule sort_by_key) (rule compare_services_key)

section \<open>Every unit agrees with itself\<close>

definition unit_consistent :: "ServiceUnit \<Rightarrow> bool" where
  "unit_consistent u \<longleftrightarrow>
     un_actions u = service_actions (un_state u) (un_enabled u)
     \<and> un_needs_attention u = needs_attention (un_state u)
     \<and> un_full_name u = un_name u @ ''.'' @ unit_type_str (un_type u)
     \<and> (un_result u \<noteq> None \<longrightarrow> un_state u = Failed)
     \<and> (un_exit_status u \<noteq> None \<longrightarrow> un_result u = Some ''exit-code'')
     \<and> (un_next_elapse_millis u \<noteq> None \<longrightarrow> un_type u = Timer)"

lemma new_unit_consistent: "unit_consistent (new_unit name ty scope st)"
  by (simp add: unit_consistent_def new_unit_def)

lemma set_enabled_consistent: "unit_consistent u \<Longrightarrow> unit_consistent (set_enabled e u)"
  by (simp add: unit_consistent_def set_enabled_def)

lemma with_details_consistent: "unit_consistent u \<Longrightarrow> unit_consistent (with_details u d)"
  by (cases d) (auto simp: unit_consistent_def with_details_def set_enabled_def Let_def)

lemma with_details_scope [simp]: "un_scope (with_details u d) = un_scope u"
  by (simp add: with_details_def set_enabled_def Let_def split: option.split)

lemma list_unit_consistent:
  assumes "list_unit scope line = Some u"
  shows "unit_consistent u \<and> un_scope u = scope"
  using assms new_unit_consistent
  by (auto simp: list_unit_def Let_def unit_consistent_def new_unit_def split: if_splits option.splits)

lemma parse_list_units_consistent:
  "u \<in> set (parse_list_units out scope) \<Longrightarrow> unit_consistent u \<and> un_scope u = scope"
  using list_unit_consistent by (auto simp: parse_list_units_def List.map_filter_def)

lemma listed_unit_consistent: "unit_consistent (listed_unit states name e) \<and> un_scope (listed_unit states name e) = System"
  unfolding listed_unit_def
  by (intro conjI set_enabled_consistent new_unit_consistent) (simp add: set_enabled_def new_unit_def)

definition units_ok :: "ServiceManagerType \<Rightarrow> ServiceUnit list \<Rightarrow> bool" where
  "units_ok m us \<longleftrightarrow> (\<forall>u \<in> set us. unit_consistent u \<and> (un_scope u = User \<longrightarrow> supports_user_scope m))"

lemma systemd_units_ok: "parse_systemd_listing rx o4 = Ok l \<Longrightarrow> units_ok Systemd (sl_units l)"
  using parse_list_units_consistent with_details_consistent
  by (auto simp: parse_systemd_listing_def Let_def units_ok_def supports_user_scope_def split: if_splits)

lemma procd_units_ok: "parse_procd_listing from_str c s = Ok l \<Longrightarrow> units_ok Procd (sl_units l)"
  using listed_unit_consistent
  by (auto simp: parse_procd_listing_def Let_def units_ok_def split: if_splits prod.splits)

lemma openrc_units_ok: "parse_openrc_listing rx c s e = Ok l \<Longrightarrow> units_ok Openrc (sl_units l)"
  using listed_unit_consistent by (auto simp: parse_openrc_listing_def Let_def units_ok_def split: if_splits)

lemma listing_sorted:
  "parse_systemd_listing rx o4 = Ok l \<Longrightarrow> sorted (map service_key (sl_units l))"
  "parse_procd_listing from_str c s = Ok l \<Longrightarrow> sorted (map service_key (sl_units l))"
  "parse_openrc_listing rx c s e = Ok l \<Longrightarrow> sorted (map service_key (sl_units l))"
  by (auto simp: parse_systemd_listing_def parse_procd_listing_def parse_openrc_listing_def Let_def sorted_services
      split: if_splits prod.splits)

text \<open>
  C20. Whatever the manager and whatever its commands printed, a listing is in the one
  order the page shows (the account's own units, then what runs, then by name), and
  every unit in it agrees with itself: the actions offered are those of its state and
  its startup registration, the mark for attention is that of its state, the full name
  is the name with its type, a reason is given only for a failed unit and an exit
  status only with the reason \<open>exit-code\<close>, a next run only for a timer, and a unit of
  the user's scope only where the manager has one.
\<close>

theorem listing_is_consistent:
  assumes "parse_listing from_str rx m outputs = Ok l"
  shows "sorted (map service_key (sl_units l))
    \<and> (\<forall>u \<in> set (sl_units l). unit_consistent u \<and> (un_scope u = User \<longrightarrow> supports_user_scope m))"
proof (cases m)
  case Systemd
  then show ?thesis using assms systemd_units_ok listing_sorted(1) by (simp add: parse_listing_def units_ok_def Let_def)
next
  case Procd
  then show ?thesis using assms procd_units_ok listing_sorted(2) by (simp add: parse_listing_def units_ok_def Let_def)
next
  case Openrc
  then show ?thesis using assms openrc_units_ok listing_sorted(3) by (simp add: parse_listing_def units_ok_def Let_def)
qed

definition no_regex :: ServiceRegex where
  "no_regex = \<lparr>rx_timestamp = (\<lambda>_. None), rx_journal = (\<lambda>_. None), rx_logread = (\<lambda>_. None),
     rx_openrc_status = (\<lambda>_. None), rx_openrc_startup = (\<lambda>_. None)\<rparr>"

definition ssh_row :: string where
  "ssh_row = join '' '' [''ssh.service'', ''loaded'', ''failed'', ''failed'', ''A'', ''server'']"

lemma ssh_row_read: "split_on nl ssh_row = [ssh_row] \<and> trim ssh_row = ssh_row \<and> ssh_row \<noteq> []
    \<and> split_whitespace ssh_row = [''ssh.service'', ''loaded'', ''failed'', ''failed'', ''A'', ''server'']"
  by (simp add: ssh_row_def trim_def trim_start_def trim_end_def split_whitespace_def is_whitespace_def nl_def)

lemma ssh_row_unit: "list_unit System ssh_row \<noteq> None"
  using ssh_row_read
  by (simp add: list_unit_def Let_def rsplit_once_def unit_type_parse_def from_systemd_active_def to_ascii_lowercase_def
      ascii_lower_char_def is_ascii_upper_def)

lemma listing_is_consistent_witness:
  "\<exists>l u. parse_listing (\<lambda>_. Err []) no_regex Systemd (hm_insert ''system_list'' (output_ok ssh_row) hm_empty) = Ok l
     \<and> u \<in> set (sl_units l) \<and> un_actions u = service_actions (un_state u) (un_enabled u)"
proof -
  let ?out = "hm_insert ''system_list'' (output_ok ssh_row) hm_empty"
  obtain u where u: "u \<in> set (parse_list_units ssh_row System)"
    using ssh_row_read ssh_row_unit by (auto simp: parse_list_units_def List.map_filter_def)
  define l where "l = projr (parse_listing (\<lambda>_. Err []) no_regex Systemd ?out)"
  have ok: "co_succeeded (output_ok ssh_row)" "co_stdout (output_ok ssh_row) = ssh_row" by (simp_all add: output_ok_def)
  have l: "parse_listing (\<lambda>_. Err []) no_regex Systemd ?out = Ok l"
    by (simp add: l_def parse_listing_def parse_systemd_listing_def Let_def ok unwrap_or_def)
  have "\<exists>v. v \<in> set (sl_units l)"
    using u by (auto simp: l_def parse_listing_def parse_systemd_listing_def Let_def ok unwrap_or_def)
  then obtain v where v: "v \<in> set (sl_units l)" by blast
  have "unit_consistent v" using listing_is_consistent [OF l] v by blast
  then show ?thesis using l v by (auto simp: unit_consistent_def)
qed

section \<open>Details are of the unit they are attached to\<close>

definition scope_details :: "ServiceRegex \<Rightarrow> CommandOutput \<Rightarrow> string \<Rightarrow> SystemdUnitDetails option" where
  "scope_details rx out full_name =
     (if co_succeeded out then hm_get (sds_units (parse_details rx (co_stdout out))) full_name else None)"

lemma keys_apart: "scope_str s @ '':'' @ i = scope_str t @ '':'' @ j \<longleftrightarrow> s = t \<and> i = j"
  by (cases s; cases t) auto

lemma hm_get_insert_all:
  "hm_get (foldl (\<lambda>m (i, d). hm_insert (f i) d m) m0 es) k =
     (case map_of (rev (map (\<lambda>(i, d). (f i, d)) es)) k of Some d \<Rightarrow> Some d | None \<Rightarrow> hm_get m0 k)"
proof (induction es arbitrary: m0)
  case (Cons e es)
  obtain i d where e: "e = (i, d)" by (cases e)
  show ?case unfolding e by (simp add: Cons map_add_def split: option.split)
qed simp

lemma map_of_scoped:
  "map_of (map (\<lambda>(i, d). (scope_str s @ '':'' @ i, d)) es) (scope_str t @ '':'' @ j) = (if s = t then map_of es j else None)"
proof (induction es)
  case (Cons e es)
  obtain i d where e: "e = (i, d)" by (cases e)
  show ?case using Cons keys_apart [of t j s i] unfolding e by (cases "s = t") auto
qed simp

definition scoped_insert :: "ServiceScope \<Rightarrow> (string, 'd) hashmap \<Rightarrow> (string, 'd) hashmap \<Rightarrow> (string, 'd) hashmap" where
  "scoped_insert s m0 es = foldl (\<lambda>m (i, d). hm_insert (scope_str s @ '':'' @ i) d m) m0 es"

lemma get_scoped_insert:
  assumes "hm_wf es"
  shows "hm_get (scoped_insert s m0 es) (scope_str t @ '':'' @ j) =
     (if s = t \<and> hm_get es j \<noteq> None then hm_get es j else hm_get m0 (scope_str t @ '':'' @ j))"
proof -
  have "map_of (rev es) k = Some d \<longleftrightarrow> map_of es k = Some d" for k d
    using assms by (simp add: hm_wf_def map_of_eq_Some_iff rev_map [symmetric])
  then have "map_of (rev es) = map_of es" by (intro ext) (metis option.exhaust)
  then have "map_of (rev (map (\<lambda>(i, d). (scope_str s @ '':'' @ i, d)) es)) (scope_str t @ '':'' @ j) =
      (if s = t then hm_get es j else None)"
    unfolding rev_map map_of_scoped hm_get_def by simp
  then show ?thesis
    unfolding scoped_insert_def hm_get_insert_all by (auto split: option.split)
qed

lemma flush_wf: "hm_wf (fst st) \<Longrightarrow> hm_wf (fst (flush rx st))"
  by (auto simp: flush_def hm.wf_insert split: prod.split option.split)

lemma details_line_wf: "hm_wf (fst st) \<Longrightarrow> hm_wf (fst (details_line rx st line))"
  by (auto simp: details_line_def flush_wf split: option.split prod.split)

lemma details_lines_wf: "hm_wf (fst st) \<Longrightarrow> hm_wf (fst (foldl (details_line rx) st ls))"
  by (induction ls arbitrary: st) (simp_all add: details_line_wf)

lemma parse_details_wf: "hm_wf (sds_units (parse_details rx out))"
  by (simp add: parse_details_def Let_def flush_wf details_lines_wf hm.wf_empty split: prod.split)

lemma sweep_by_key:
  "hm_get (sw_by_key (sweep rx failed sw (s, out))) (scope_str t @ '':'' @ j) =
     (if s = t \<and> scope_details rx out j \<noteq> None then scope_details rx out j
      else hm_get (sw_by_key sw) (scope_str t @ '':'' @ j))"
  using get_scoped_insert [OF parse_details_wf, of s "sw_by_key sw" rx "co_stdout out" t j]
  by (auto simp: sweep_def scope_details_def scoped_insert_def Let_def)

fun details_output :: "SystemdOutputs \<Rightarrow> ServiceScope \<Rightarrow> CommandOutput" where
  "details_output o4 System = so_system_details o4"
| "details_output o4 User = so_user_details o4"

text \<open>
  C19. What is shown about a unit is about that unit. In a listing of systemd every unit
  of either scope carries exactly what the details command of its own scope printed
  under its own full name, and nothing when that command failed or did not print it: a
  system and a user unit of one name are never confused.
\<close>

theorem details_are_of_their_own_unit:
  assumes "parse_systemd_listing rx o4 = Ok l"
  shows "sl_units l = sort_by compare_services
    (map (\<lambda>u. with_details u (scope_details rx (details_output o4 (un_scope u)) (un_full_name u)))
      ((if co_succeeded (so_user_list o4) then parse_list_units (co_stdout (so_user_list o4)) User else [])
       @ parse_list_units (co_stdout (so_system_list o4)) System))"
proof -
  let ?start = "\<lparr>sw_failed = False, sw_sampled = None, sw_by_key = hm_empty\<rparr>"
  let ?failed = "\<not> co_succeeded (so_user_list o4)"
  let ?sw = "sweep rx ?failed (sweep rx ?failed ?start (System, so_system_details o4)) (User, so_user_details o4)"
  have "hm_get (sw_by_key ?sw) (unit_key u) = scope_details rx (details_output o4 (un_scope u)) (un_full_name u)" for u
    unfolding unit_key_def sweep_by_key using scope_cases [of "un_scope u"] by (auto simp del: scope_str.simps)
  then show ?thesis
    using assms by (auto simp: parse_systemd_listing_def Let_def split: if_splits)
qed

definition lone_row :: SystemdOutputs where
  "lone_row = \<lparr>so_system_list = output_ok ssh_row, so_system_details = output_failed ''denied'',
     so_user_list = output_failed ''no bus'', so_user_details = output_failed ''no bus''\<rparr>"

lemma details_are_of_their_own_unit_witness:
  "\<exists>l. parse_systemd_listing no_regex lone_row = Ok l
     \<and> sl_units l = sort_by compare_services (map (\<lambda>u. with_details u None) (parse_list_units ssh_row System))
     \<and> sl_units l \<noteq> []"
proof -
  have p: "co_succeeded (so_system_list lone_row)" "\<not> co_succeeded (so_user_list lone_row)"
    "co_stdout (so_system_list lone_row) = ssh_row" "\<And>s. \<not> co_succeeded (details_output lone_row s)"
    subgoal by (simp add: lone_row_def output_ok_def)
    subgoal by (simp add: lone_row_def output_failed_def)
    subgoal by (simp add: lone_row_def output_ok_def)
    subgoal for s by (cases s) (simp_all add: lone_row_def output_failed_def)
    done
  obtain l where l: "parse_systemd_listing no_regex lone_row = Ok l"
    using p(1) by (simp add: parse_systemd_listing_def Let_def)
  have none: "scope_details no_regex (details_output lone_row s) n = None" for s n
    using p(4) by (simp add: scope_details_def)
  have units: "sl_units l = sort_by compare_services (map (\<lambda>u. with_details u None) (parse_list_units ssh_row System))"
    using details_are_of_their_own_unit [OF l] unfolding p(3) none by (simp add: p(2))
  have "parse_list_units ssh_row System \<noteq> []"
    using ssh_row_read ssh_row_unit by (auto simp: parse_list_units_def List.map_filter_def)
  then have "sl_units l \<noteq> []" using units set_sort_by by (metis map_is_Nil_conv set_empty2)
  then show ?thesis using l units by blast
qed

section \<open>Commands name the unit\<close>

fun action_words :: "ServiceManagerType \<Rightarrow> ServiceUnit \<Rightarrow> ServiceAction \<Rightarrow> string list" where
  "action_words Systemd u a =
     (if un_scope u = User then [''systemctl'', ''--user''] else [''systemctl'']) @ [action_str a, un_full_name u]"
| "action_words Procd u a = [''/etc/init.d/'' @ un_name u, action_str a]"
| "action_words Openrc u Enable = [''rc-update'', ''add'', un_name u, ''default'']"
| "action_words Openrc u Disable = [''rc-update'', ''--all'', ''delete'', un_name u]"
| "action_words Openrc u a = [''rc-service'', un_name u, action_str a]"

fun status_words :: "ServiceManagerType \<Rightarrow> ServiceUnit \<Rightarrow> string list" where
  "status_words Systemd u = (if un_scope u = User then [''systemctl'', ''--user''] else [''systemctl''])
     @ [''status'', ''--no-pager'', ''--full'', un_full_name u]"
| "status_words Procd u = [''/etc/init.d/'' @ un_name u, ''status'']"
| "status_words Openrc u = [''rc-service'', un_name u, ''status'']"

lemma service_words_plain:
  "plain_word ''systemctl''" "plain_word ''--user''" "plain_word ''rc-update''" "plain_word ''add''" "plain_word ''default''"
  "plain_word ''--all''" "plain_word ''delete''" "plain_word ''rc-service''" "plain_word ''sudo''" "plain_word ''status''"
  "plain_word ''--no-pager''" "plain_word ''--full''"
  by (simp_all add: plain_word_def sh_plain_def is_ascii_alphanumeric_def is_ascii_lower_def is_ascii_upper_def)

lemma action_plain: "plain_word (action_str a)"
  by (cases a) (simp_all add: plain_word_def sh_plain_def is_ascii_alphanumeric_def is_ascii_lower_def is_ascii_upper_def)

lemmas spelled = list.rel_intros spells_quote spells_plain service_words_plain action_plain

lemma systemctl_spelled:
  "\<exists>ts. list_all2 spells ts (if scope = User then [''systemctl'', ''--user''] else [''systemctl''])
     \<and> systemctl scope = join '' '' ts"
proof (cases scope)
  case System
  then show ?thesis by (intro exI [of _ "[''systemctl'']"]) (simp add: spells_plain service_words_plain)
next
  case User
  then show ?thesis by (intro exI [of _ "[''systemctl'', ''--user'']"]) (simp add: spells_plain service_words_plain)
qed

lemma join_append: "as \<noteq> [] \<Longrightarrow> bs \<noteq> [] \<Longrightarrow> join sep (as @ bs) = join sep as @ sep @ join sep bs"
proof (induction "as" rule: induct_list012)
  case (2 x)
  then show ?case by (simp add: join_Cons)
qed auto

lemma after_systemctl:
  assumes "list_all2 spells ts ws" "ts \<noteq> []"
  shows "\<exists>us. us \<noteq> [] \<and> list_all2 spells us ((if scope = User then [''systemctl'', ''--user''] else [''systemctl'']) @ ws)
     \<and> systemctl scope @ '' '' @ join '' '' ts = join '' '' us"
proof -
  obtain cs where c: "list_all2 spells cs (if scope = User then [''systemctl'', ''--user''] else [''systemctl''])"
    "systemctl scope = join '' '' cs" using systemctl_spelled by blast
  have "cs \<noteq> []" using c(1) by (auto split: if_splits)
  then have "join '' '' (cs @ ts) = systemctl scope @ '' '' @ join '' '' ts"
    using c(2) assms(2) join_append [of cs ts "'' ''"] by simp
  moreover note list_all2_appendI [OF c(1) assms(1)]
  ultimately show ?thesis using \<open>cs \<noteq> []\<close> by (intro exI [of _ "cs @ ts"]) simp
qed

lemma command_spelled:
  "\<exists>ts. ts \<noteq> [] \<and> list_all2 spells ts (action_words m u a) \<and> command_for m u a = join '' '' ts"
proof (cases m)
  case Systemd
  have "list_all2 spells [action_str a, shell_quote_unix (un_full_name u)] [action_str a, un_full_name u]" by (intro spelled)
  from after_systemctl [OF this, of "un_scope u"] show ?thesis by (simp add: Systemd)
next
  case Procd
  have "list_all2 spells [init_script u, action_str a] [''/etc/init.d/'' @ un_name u, action_str a]"
    unfolding init_script_def by (intro spelled)
  then show ?thesis by (intro exI [of _ "[init_script u, action_str a]"]) (simp add: Procd)
next
  case Openrc
  let ?q = "shell_quote_unix (un_name u)"
  have "list_all2 spells [''rc-update'', ''add'', ?q, ''default''] [''rc-update'', ''add'', un_name u, ''default'']"
    "list_all2 spells [''rc-update'', ''--all'', ''delete'', ?q] [''rc-update'', ''--all'', ''delete'', un_name u]"
    "list_all2 spells [''rc-service'', ?q, action_str a] [''rc-service'', un_name u, action_str a]"
    by (intro spelled)+
  then show ?thesis
    unfolding Openrc
    by (cases a) (fastforce intro: exI [of _ "[''rc-update'', ''add'', ?q, ''default'']"]
        exI [of _ "[''rc-update'', ''--all'', ''delete'', ?q]"] exI [of _ "[''rc-service'', ?q, action_str a]"])+
qed

lemma status_spelled:
  "\<exists>ts. list_all2 spells ts (status_words m u) \<and> unit_status_command m u = join '' '' ts"
proof (cases m)
  case Systemd
  have "list_all2 spells [''status'', ''--no-pager'', ''--full'', shell_quote_unix (un_full_name u)]
      [''status'', ''--no-pager'', ''--full'', un_full_name u]" by (intro spelled)
  from after_systemctl [OF this, of "un_scope u"] show ?thesis by (auto simp: Systemd)
next
  case Procd
  have "list_all2 spells [init_script u, ''status''] [''/etc/init.d/'' @ un_name u, ''status'']"
    unfolding init_script_def by (intro spelled)
  then show ?thesis by (intro exI [of _ "[init_script u, ''status'']"]) (simp add: Procd)
next
  case Openrc
  let ?ts = "[''rc-service'', shell_quote_unix (un_name u), ''status'']"
  have "list_all2 spells ?ts [''rc-service'', un_name u, ''status'']" by (intro spelled)
  then show ?thesis by (intro exI [of _ ?ts]) (simp add: Openrc)
qed

text \<open>
  A command on a unit is read by the shell as plain words, the tool, the action and
  the unit's name as one word each, whatever characters the name has. In a terminal it
  has \<open>sudo\<close> in front exactly when the account is not root and the unit is not one of
  systemd's user scope, and for such a unit the words name the user's manager.
\<close>

theorem service_commands_name_the_unit:
  "sh_words (terminal_command (command_for m u a) (needs_root m u) is_root) =
     Some ((if is_root \<or> (m = Systemd \<and> un_scope u = User) then [] else [''sudo'']) @ action_words m u a)
   \<and> sh_words (unit_status_command m u) = Some (status_words m u)"
proof -
  obtain ts where ts: "ts \<noteq> []" "list_all2 spells ts (action_words m u a)" "command_for m u a = join '' '' ts"
    using command_spelled by blast
  have "list_all2 spells (''sudo'' # ts) (''sudo'' # action_words m u a)"
    by (intro list.rel_intros ts(2) spells_plain service_words_plain)
  from sh_words_join [OF this] have "sh_words (''sudo '' @ command_for m u a) = Some (''sudo'' # action_words m u a)"
    using ts(1) by (simp add: ts(3) join_Cons)
  moreover have "sh_words (command_for m u a) = Some (action_words m u a)" using sh_words_join [OF ts(2)] ts(3) by simp
  moreover have "sh_words (unit_status_command m u) = Some (status_words m u)" using status_spelled sh_words_join by metis
  moreover have "needs_root m u = (\<not> (m = Systemd \<and> un_scope u = User))" by (cases m; cases "un_scope u") simp_all
  ultimately show ?thesis by (simp add: terminal_command_def)
qed

section \<open>Procd: the init scripts and nothing else\<close>

lemma bm_insert_keys: "set (map fst (bm_insert k v m)) = insert k (set (map fst m))"
  by (induction k v m rule: bm_insert.induct) auto

lemma bm_insert_sorted:
  "sorted_wrt (<) (map fst m) \<Longrightarrow> sorted_wrt (<) (map fst (bm_insert k v m))" for k :: "'k::linorder"
proof (induction m)
  case (Cons p m)
  obtain j w where p: "p = (j, w)" by (cases p)
  show ?case
  proof (cases "k = j \<or> k < j")
    case True
    then show ?thesis using Cons.prems unfolding p by auto
  next
    case False
    have "\<forall>x \<in> set (map fst (bm_insert k v m)). j < x" using False Cons.prems unfolding p bm_insert_keys by auto
    then show ?thesis using False Cons unfolding p by auto
  qed
qed simp

lemma bm_insert_get:
  "sorted_wrt (<) (map fst m) \<Longrightarrow> map_of (bm_insert k v m) j = (if j = k then Some v else map_of m j)"
  for k :: "'k::linorder"
proof (induction m)
  case (Cons p m)
  then show ?case by (cases p) (auto dest: map_of_SomeD)
qed simp

text \<open>What one line of the catalog says, if it is one.\<close>

definition script_entry :: "string \<Rightarrow> (string \<times> bool) option" where
  "script_entry line = (case split_on tab (trim line) of
      [name, flag] \<Rightarrow> if name \<noteq> [] then Some (name, flag = ''1'') else None
    | _ \<Rightarrow> None)"

lemma catalog_line_entry:
  "catalog_line m line = (case script_entry line of None \<Rightarrow> m | Some (name, e) \<Rightarrow> bm_insert name e m)"
  by (auto simp: catalog_line_def script_entry_def Let_def length_Suc_conv numeral_2_eq_2 split: list.split)

lemma catalog_lines:
  assumes "sorted_wrt (<) (map fst m)"
  shows "sorted_wrt (<) (map fst (foldl catalog_line m ls))
    \<and> map_of (foldl catalog_line m ls) = map_of m ++ map_of (rev (List.map_filter script_entry ls))"
  using assms
proof (induction ls arbitrary: m)
  case (Cons l ls)
  show ?case
  proof (cases "script_entry l")
    case None
    then show ?thesis using Cons by (simp add: catalog_line_entry List.map_filter_simps)
  next
    case (Some e)
    obtain name flag where e: "e = (name, flag)" by (cases e)
    have upd: "map_of (bm_insert name flag m) = map_of m ++ map_of [(name, flag)]"
      using bm_insert_get [OF Cons.prems] by (intro ext) (simp add: map_add_def)
    have "foldl catalog_line m (l # ls) = foldl catalog_line (bm_insert name flag m) ls"
      using Some by (simp add: e catalog_line_entry)
    moreover have "rev (List.map_filter script_entry (l # ls)) = rev (List.map_filter script_entry ls) @ [(name, flag)]"
      using Some by (simp add: e List.map_filter_simps)
    ultimately show ?thesis
      using Cons.IH [OF bm_insert_sorted [OF Cons.prems], of name flag] by (simp only: upd map_of_append map_add_assoc)
  qed
qed simp

definition catalog_says :: "CommandOutput \<Rightarrow> string \<Rightarrow> bool option" where
  "catalog_says c = map_of (rev (List.map_filter script_entry (split_on nl (co_stdout c))))"

definition ubus_says :: "(string \<Rightarrow> (string, Value) result) \<Rightarrow> CommandOutput \<Rightarrow> string \<Rightarrow> ServiceState" where
  "ubus_says from_str status name =
     (if co_succeeded status
      then (case parse_procd_states from_str (co_stdout status) of
              Ok states \<Rightarrow> unwrap_or Unknown (hm_get states name) | Err _ \<Rightarrow> Unknown)
      else Unknown)"

lemma listed_unit_parts:
  "un_name (listed_unit states name e) = name" "un_enabled (listed_unit states name e) = e"
  "un_state (listed_unit states name e) = unwrap_or Unknown (hm_get states name)"
  by (simp_all add: listed_unit_def set_enabled_def new_unit_def)

lemma parse_procd_catalog_says:
  "sorted_wrt (<) (map fst (parse_procd_catalog out))"
  "map_of (parse_procd_catalog out) = map_of (rev (List.map_filter script_entry (split_on nl out)))"
  using catalog_lines [of "[]" "split_on nl out"] by (simp_all add: parse_procd_catalog_def)

lemma procd_units:
  assumes "parse_procd_listing from_str c status = Ok l"
  shows "\<exists>states. (\<forall>name. unwrap_or Unknown (hm_get states name) = ubus_says from_str status name)
    \<and> sl_units l = sort_by compare_services
        (map (\<lambda>(name, e). listed_unit states name (Some e)) (parse_procd_catalog (co_stdout c)))"
proof -
  define states where "states = (if co_succeeded status
    then (case parse_procd_states from_str (co_stdout status) of Ok p \<Rightarrow> p | Err _ \<Rightarrow> hm_empty) else hm_empty)"
  have "unwrap_or Unknown (hm_get states name) = ubus_says from_str status name" for name
    by (simp add: states_def ubus_says_def unwrap_or_def split: sum.split)
  moreover have "sl_units l = sort_by compare_services
      (map (\<lambda>(name, e). listed_unit states name (Some e)) (parse_procd_catalog (co_stdout c)))"
    using assms by (auto simp: parse_procd_listing_def Let_def states_def split: if_splits prod.splits sum.splits)
  ultimately show ?thesis by blast
qed

text \<open>
  Under procd the list is the executable init scripts and nothing else: each name the
  catalog has is there once, none that only the JSON of \<open>ubus\<close> mentions is, so no action
  is ever offered on a path made up from it. A script is registered for startup as the
  catalog's last line on it says, and its state is what \<open>ubus\<close> said, unknown where it
  said nothing or could not be read.
\<close>

theorem procd_lists_the_init_scripts:
  assumes "parse_procd_listing from_str c status = Ok l"
  shows "set (map un_name (sl_units l)) = dom (catalog_says c)
    \<and> distinct (map un_name (sl_units l))
    \<and> (\<forall>u \<in> set (sl_units l). un_enabled u = catalog_says c (un_name u)
        \<and> un_state u = ubus_says from_str status (un_name u))"
proof -
  let ?m = "parse_procd_catalog (co_stdout c)"
  obtain states where st: "\<And>name. unwrap_or Unknown (hm_get states name) = ubus_says from_str status name"
    and units: "sl_units l = sort_by compare_services (map (\<lambda>(name, e). listed_unit states name (Some e)) ?m)"
    using procd_units [OF assms] by blast
  have says: "map_of ?m = catalog_says c" unfolding catalog_says_def by (rule parse_procd_catalog_says(2))
  have keys: "distinct (map fst ?m)" using parse_procd_catalog_says(1) strict_sorted_iff by blast
  have names: "map un_name (map (\<lambda>(name, e). listed_unit states name (Some e)) ?m) = map fst ?m"
    by (simp add: listed_unit_parts comp_def case_prod_unfold)
  have all: "set (sl_units l) = (\<lambda>(name, e). listed_unit states name (Some e)) ` set ?m" by (simp add: units)
  have "mset (map un_name (sl_units l)) = mset (map fst ?m)"
    using names by (simp only: mset_map units mset_sort_by) (metis mset_map)
  then have "set (map un_name (sl_units l)) = set (map fst ?m)" "distinct (map un_name (sl_units l))"
    using keys by (metis set_mset_mset, metis mset_eq_imp_distinct_iff)
  moreover have "set (map fst ?m) = dom (catalog_says c)" by (simp add: says [symmetric] dom_map_of_conv_image_fst)
  moreover have "un_enabled u = catalog_says c (un_name u) \<and> un_state u = ubus_says from_str status (un_name u)"
    if mem: "u \<in> set (sl_units l)" for u
  proof -
    obtain name e where u: "(name, e) \<in> set ?m" "u = listed_unit states name (Some e)" using mem unfolding all by auto
    have "map_of ?m name = Some e" using u(1) keys by (rule map_of_is_SomeI [rotated])
    then show ?thesis using st u(2) by (simp add: says listed_unit_parts)
  qed
  ultimately show ?thesis by metis
qed

lemma procd_listing_succeeds: "co_succeeded c \<Longrightarrow> \<exists>l. parse_procd_listing from_str c status = Ok l"
  by (simp add: parse_procd_listing_def Let_def case_prod_unfold)

lemma only_element: "set xs = {x} \<Longrightarrow> distinct xs \<Longrightarrow> xs = [x]"
  by (cases xs; cases "tl xs") auto

definition ghost_json :: Value where
  "ghost_json = Object [(''ghost'', Object [(''instances'', Object [(''x'', Object [(''running'', Bool True)])])])]"

lemma procd_lists_the_init_scripts_witness:
  "\<exists>l. parse_procd_listing (\<lambda>_. Ok ghost_json) (output_ok (''dns'' @ [tab] @ ''1'')) (output_ok []) = Ok l
     \<and> map un_name (sl_units l) = [''dns'']"
proof -
  let ?c = "output_ok (''dns'' @ [tab] @ ''1'')"
  have row: "List.map_filter script_entry (split_on nl (co_stdout ?c)) = [(''dns'', True)]"
    by (simp add: output_ok_def script_entry_def trim_def trim_start_def trim_end_def is_whitespace_def nl_def tab_def
        List.map_filter_simps)
  then have says: "dom (catalog_says ?c) = {''dns''}" by (simp add: catalog_says_def)
  have "\<exists>l. parse_procd_listing (\<lambda>_. Ok ghost_json) ?c (output_ok []) = Ok l"
    by (rule procd_listing_succeeds) (simp add: output_ok_def)
  then obtain l where l: "parse_procd_listing (\<lambda>_. Ok ghost_json) ?c (output_ok []) = Ok l" by blast
  note all = procd_lists_the_init_scripts [OF l]
  have "set (map un_name (sl_units l)) = {''dns''}" unfolding says [symmetric] by (rule conjunct1 [OF all])
  then have "map un_name (sl_units l) = [''dns'']" by (rule only_element) (rule conjunct1 [OF conjunct2 [OF all]])
  with l show ?thesis by (intro exI conjI)
qed

section \<open>What \<open>systemctl show\<close> printed is read back\<close>

definition prop_line :: "string \<times> string \<Rightarrow> string" where
  "prop_line p = fst p @ ''='' @ snd p"

text \<open>A clock, then a block of properties for each unit, each block closed by an empty line.\<close>

definition show_output :: "string \<Rightarrow> (string \<times> string) list list \<Rightarrow> string" where
  "show_output clock blocks = join [nl] (clock # concat (map (\<lambda>b. map prop_line b @ [[]]) blocks))"

definition property_ok :: "string \<times> string \<Rightarrow> bool" where
  "property_ok p \<longleftrightarrow> fst p \<noteq> [] \<and> CHR ''='' \<notin> set (fst p) \<and> nl \<notin> set (fst p) \<and> nl \<notin> set (snd p) \<and> trim (snd p) = snd p"

definition block_ok :: "(string \<times> string) list \<Rightarrow> bool" where
  "block_ok b \<longleftrightarrow> (\<forall>p \<in> set b. property_ok p) \<and> distinct (map fst b) \<and> map_of b ''Id'' \<notin> {None, Some []}"

definition block_id :: "(string \<times> string) list \<Rightarrow> string" where
  "block_id b = unwrap_or [] (map_of b ''Id'')"

lemma trim_not_blank:
  assumes "c \<in> set s" "\<not> is_whitespace c"
  shows "trim s \<noteq> []"
proof -
  obtain d r where d: "dropWhile is_whitespace s = d # r" "\<not> is_whitespace d"
    using assms by (metis dropWhile_eq_Nil_conv hd_dropWhile list.exhaust list.sel(1))
  have "dropWhile is_whitespace (rev (d # r)) \<noteq> []" using d(2) by (simp add: dropWhile_append)
  then show ?thesis using d(1) by (simp add: trim_def trim_start_def trim_end_def)
qed

lemma prop_line_read:
  assumes "property_ok p"
  shows "details_line rx st (prop_line p) = (fst st, hm_insert (fst p) (snd p) (snd st))"
proof -
  have "\<not> is_whitespace (CHR ''='')" by (simp add: is_whitespace_def)
  then have "trim (prop_line p) \<noteq> []" by (rule trim_not_blank [rotated]) (simp add: prop_line_def)
  moreover have "split_once (CHR ''='') (prop_line p) = Some (fst p, snd p)"
    using assms by (simp add: prop_line_def property_ok_def)
  ultimately show ?thesis using assms by (cases p) (simp add: details_line_def property_ok_def)
qed

lemma prop_lines_read:
  "\<forall>p \<in> set b. property_ok p \<Longrightarrow>
     foldl (details_line rx) st (map prop_line b) = (fst st, foldl (\<lambda>m (k, v). hm_insert k v m) (snd st) b)"
proof (induction b arbitrary: st)
  case (Cons p b)
  then show ?case by (simp add: prop_line_read case_prod_unfold)
qed simp

text \<open>A description depends only on what the block says of each property.\<close>

lemma details_from_block_cong:
  "(\<And>k. hm_get a k = hm_get b k) \<Longrightarrow> details_from_block rx a = details_from_block rx b"
  by (simp add: details_from_block_def block_text_def)

lemma block_lookup:
  assumes "distinct (map fst b)"
  shows "hm_get (foldl (\<lambda>m (k, v). hm_insert k v m) hm_empty b) k = hm_get b k"
proof -
  have "map_of (rev b) k = Some v \<longleftrightarrow> map_of b k = Some v" for v
    using assms by (simp add: map_of_eq_Some_iff rev_map [symmetric])
  then have "map_of (rev b) k = map_of b k" by (metis option.exhaust)
  then show ?thesis
    using hm_get_insert_all [of "\<lambda>i. i" hm_empty b k] by (simp add: hm_get_def hm_empty_def split: option.split)
qed

lemma block_read:
  assumes "block_ok b"
  shows "foldl (details_line rx) (units, hm_empty) (map prop_line b @ [[]]) =
    (hm_insert (block_id b) (details_from_block rx b) units, hm_empty)"
proof -
  let ?m = "foldl (\<lambda>m (k, v). hm_insert k v m) hm_empty b"
  have ok: "\<forall>p \<in> set b. property_ok p" "distinct (map fst b)" "map_of b ''Id'' \<notin> {None, Some []}"
    using assms unfolding block_ok_def by blast+
  have look: "hm_get ?m k = hm_get b k" for k by (rule block_lookup [OF ok(2)])
  have i: "hm_get ?m ''Id'' = Some (block_id b)" "block_id b \<noteq> []"
    using ok(3) unfolding look by (auto simp: block_id_def hm_get_def unwrap_or_def)
  have "trim [] = []" by (simp add: trim_def trim_start_def trim_end_def)
  then have "foldl (details_line rx) (units, hm_empty) (map prop_line b @ [[]]) = flush rx (units, ?m)"
    using prop_lines_read [OF ok(1), of rx "(units, hm_empty)"] by (simp add: details_line_def)
  then show ?thesis using i details_from_block_cong [of ?m b rx, OF look] by (simp add: flush_def)
qed

lemma blocks_read:
  "\<forall>b \<in> set blocks. block_ok b \<Longrightarrow>
     foldl (details_line rx) (units, hm_empty) (concat (map (\<lambda>b. map prop_line b @ [[]]) blocks)) =
       (foldl (\<lambda>m (i, d). hm_insert i d m) units (map (\<lambda>b. (block_id b, details_from_block rx b)) blocks), hm_empty)"
proof (induction blocks arbitrary: units)
  case (Cons b blocks)
  then show ?case using block_read [of b rx units] by (simp del: append.simps add: foldl_append)
qed simp

text \<open>
  C18. What \<open>systemctl show\<close> prints after the clock is read back: for any units with
  distinct names, each with any properties in any order, the reading has one entry for
  each, made from exactly that unit's properties, and none for any other name; the
  server's time is the first line in milliseconds.
\<close>

theorem show_output_is_read_back:
  assumes "\<forall>b \<in> set blocks. block_ok b" "distinct (map block_id blocks)" "now \<le> 9223372036854775"
  shows "sds_sampled_at_millis (parse_details rx (show_output (show_nat now) blocks)) = Some (int now * 1000)
    \<and> hm_get (sds_units (parse_details rx (show_output (show_nat now) blocks))) name =
        map_option (details_from_block rx) (find (\<lambda>b. block_id b = name) blocks)"
proof -
  let ?rows = "concat (map (\<lambda>b. map prop_line b @ [[]]) blocks)"
  let ?entries = "map (\<lambda>b. (block_id b, details_from_block rx b)) blocks"
  have clock: "nl \<notin> set (show_nat now)" "parse_i64 (show_nat now) = Some (int now)"
  proof -
    show "nl \<notin> set (show_nat now)" using show_nat_chars [of nl now] by (auto simp: nl_def is_ascii_digit_def)
    show "parse_i64 (show_nat now) = Some (int now)" using assms(3) by (simp add: parse_sint_show_nat)
  qed
  have rows: "\<forall>r \<in> set ?rows. nl \<notin> set r"
    using assms(1) by (auto simp: block_ok_def property_ok_def prop_line_def) (auto simp: nl_def)
  have split: "split_on nl (show_output (show_nat now) blocks) = show_nat now # ?rows"
    unfolding show_output_def using rows clock(1) by (intro split_on_join) auto
  have ms: "i64_mul (int now) 1000 = int now * 1000" using assms(3) by (simp add: i64_mul_def)
  have "flush rx (units, hm_empty) = (units, hm_empty)" for units by (simp add: flush_def)
  then have units: "sds_units (parse_details rx (show_output (show_nat now) blocks)) =
      foldl (\<lambda>m (i, d). hm_insert i d m) hm_empty ?entries"
    using blocks_read [OF assms(1), of rx hm_empty] by (simp add: parse_details_def split Let_def clock(2))
  have "distinct (map fst ?entries)" using assms(2) by (simp add: comp_def)
  from block_lookup [OF this] have "hm_get (sds_units (parse_details rx (show_output (show_nat now) blocks))) name =
      map_of ?entries name" unfolding units by (simp add: hm_get_def)
  also have "\<dots> = map_option (details_from_block rx) (find (\<lambda>b. block_id b = name) blocks)"
    by (induction blocks) auto
  finally show ?thesis by (simp add: parse_details_def split Let_def clock(2) ms)
qed

definition two_units :: "(string \<times> string) list list" where
  "two_units = [[(''Id'', ''a.service''), (''SubState'', ''dead'')], [(''Result'', ''a=b''), (''Id'', ''b.timer'')]]"

lemma show_output_is_read_back_witness:
  "sds_sampled_at_millis (parse_details no_regex (show_output (show_nat 12) two_units)) = Some 12000
   \<and> hm_get (sds_units (parse_details no_regex (show_output (show_nat 12) two_units))) ''b.timer'' =
       Some (details_from_block no_regex [(''Result'', ''a=b''), (''Id'', ''b.timer'')])"
proof -
  have ok: "\<forall>b \<in> set two_units. block_ok b"
    by (simp add: two_units_def block_ok_def property_ok_def nl_def trim_def trim_start_def trim_end_def is_whitespace_def)
  have ids: "map block_id two_units = [''a.service'', ''b.timer'']" by (simp add: two_units_def block_id_def unwrap_or_def)
  have found: "find (\<lambda>b. block_id b = ''b.timer'') two_units = Some [(''Result'', ''a=b''), (''Id'', ''b.timer'')]"
    by (simp add: two_units_def block_id_def unwrap_or_def)
  have "distinct (map block_id two_units)" unfolding ids by simp
  from show_output_is_read_back [OF ok this, of 12 no_regex "''b.timer''"]
  show ?thesis unfolding found by simp
qed

end
