(* ===== verification/Storage.thy ===== *)
theory Storage
  imports Prelude Shell Common Rust_Json
begin

text \<open>
  A machine's storage (\<open>crates/sbm_parser/src/storage.rs\<close>): the tree of block devices that
  \<open>lsblk\<close> prints, the arrays of \<open>/proc/mdstat\<close> and the pools of \<open>zpool\<close>, what is in use, and
  the view a page draws. The JSON decoder is the argument \<open>from_str\<close>, the reading of a
  percentage as tenths of a percent, which Rust does in floating point, is the argument
  \<open>permille_of\<close>. Disk health, whose readings are floating point, is not modelled.
\<close>

definition trim_end_char :: "char \<Rightarrow> string \<Rightarrow> string" where
  "trim_end_char c s = rev (dropWhile (\<lambda>x. x = c) (rev s))"

section \<open>Where a filesystem may be mounted\<close>

definition SYSTEM_DIRS :: "string list" where
  "SYSTEM_DIRS =
     [''/'', ''/bin'', ''/boot'', ''/dev'', ''/etc'', ''/home'', ''/lib'', ''/lib32'', ''/lib64'', ''/opt'', ''/proc'',
      ''/root'', ''/run'', ''/sbin'', ''/srv'', ''/sys'', ''/tmp'', ''/usr'', ''/var'']"

definition SYSTEM_TREES :: "string list" where
  "SYSTEM_TREES =
     [''/bin/'', ''/boot/'', ''/dev/'', ''/etc/'', ''/lib/'', ''/lib32/'', ''/lib64/'', ''/proc/'', ''/run/'', ''/sbin/'',
      ''/sys/'', ''/usr/'']"

definition REMOVABLE_MEDIA :: string where
  "REMOVABLE_MEDIA = ''/run/media/''"

datatype StorageError =
    InvalidDevice | InvalidMountpoint | InvalidLabel | InvalidFilesystem | InvalidName | InvalidLevel
  | TooFewDevices | KeyRequired | InvalidPassphrase

definition dot_part :: "string \<Rightarrow> bool" where
  "dot_part p \<longleftrightarrow> p = [] \<or> p = ''.'' \<or> p = ''..''"

definition mountpoint_ok :: "string \<Rightarrow> (StorageError, unit) result" where
  "mountpoint_ok path =
     (let trimmed = trim_end_char (CHR ''/'') path in
      if starts_with ''/'' trimmed \<and> byte_len trimmed \<le> 256 \<and> trimmed \<notin> set SYSTEM_DIRS
         \<and> \<not> list_ex (\<lambda>t. starts_with t trimmed) SYSTEM_TREES
         \<and> \<not> list_ex dot_part (drop 1 (split_on (CHR ''/'') trimmed))
         \<and> list_all (\<lambda>c. is_ascii_alphanumeric c \<or> c \<in> set ''/_.-@+'') trimmed
      then Ok () else Err InvalidMountpoint)"

section \<open>Block devices\<close>

definition LSBLK_COMMAND :: string where
  "LSBLK_COMMAND = ''lsblk -J -b -o NAME,PATH,TYPE,SIZE,MODEL,SERIAL,ROTA,TRAN,RM,RO,PARTTYPE,FSTYPE,LABEL,UUID,''
     @ ''MOUNTPOINTS,FSSIZE,FSAVAIL,FSUSED''"

record BlockFields =
  bd_name :: string
  bd_path :: string
  bd_kind :: string
  bd_size :: nat
  bd_model :: "string option"
  bd_serial :: "string option"
  bd_rotational :: bool
  bd_transport :: "string option"
  bd_removable :: bool
  bd_read_only :: bool
  bd_part_type :: "string option"
  bd_fstype :: "string option"
  bd_label :: "string option"
  bd_uuid :: "string option"
  bd_mountpoints :: "string list"
  bd_mounted :: bool
  bd_mountable :: bool
  bd_expandable :: bool
  bd_fs_size :: "nat option"
  bd_available :: "nat option"
  bd_used :: "nat option"

datatype BlockDevice = BlockDevice (own: BlockFields) (children: "BlockDevice list")

fun json_text :: "Value \<Rightarrow> string option" where
  "json_text (Text s) = (if trim s \<noteq> [] then Some (trim s) else None)"
| "json_text _ = None"

fun json_number :: "Value \<Rightarrow> nat option" where
  "json_number (Number n) = as_u64 n"
| "json_number (Text s) = parse_u64 (trim s)"
| "json_number _ = None"

fun json_flag :: "Value \<Rightarrow> bool" where
  "json_flag (Bool b) = b"
| "json_flag (Text s) = (trim s = ''1'')"
| "json_flag (Number n) = (as_u64 n = Some 1)"
| "json_flag _ = False"

definition is_member_fs :: "string \<Rightarrow> bool" where
  "is_member_fs fs \<longleftrightarrow> fs \<in> set [''LVM2_member'', ''linux_raid_member'', ''crypto_LUKS'', ''zfs_member'',
     ''ceph_bluestore'', ''bcache'', ''drbd'']"

definition growable :: "BlockFields \<Rightarrow> bool" where
  "growable d \<longleftrightarrow> list_ex (starts_with ''/'') (bd_mountpoints d)
     \<and> (case bd_fstype d of None \<Rightarrow> False | Some f \<Rightarrow> f \<in> set [''ext2'', ''ext3'', ''ext4'', ''xfs'', ''btrfs''])"

definition device_fields :: "Value \<Rightarrow> string \<Rightarrow> BlockFields" where
  "device_fields v name =
     (let mountpoints = (case value_at v ''mountpoints'' of
            Array items \<Rightarrow> List.map_filter json_text items
          | _ \<Rightarrow> (case json_text (value_at v ''mountpoint'') of None \<Rightarrow> [] | Some m \<Rightarrow> [m]));
          fstype = json_text (value_at v ''fstype'');
          mounted = list_ex (starts_with ''/'') mountpoints;
          d = \<lparr>bd_name = name, bd_path = unwrap_or (''/dev/'' @ name) (json_text (value_at v ''path'')),
            bd_kind = unwrap_or [] (json_text (value_at v ''type'')), bd_size = unwrap_or 0 (json_number (value_at v ''size'')),
            bd_model = json_text (value_at v ''model''), bd_serial = json_text (value_at v ''serial''),
            bd_rotational = json_flag (value_at v ''rota''), bd_transport = json_text (value_at v ''tran''),
            bd_removable = json_flag (value_at v ''rm''), bd_read_only = json_flag (value_at v ''ro''),
            bd_part_type = map_option to_ascii_lowercase (json_text (value_at v ''parttype'')), bd_fstype = fstype,
            bd_label = json_text (value_at v ''label''), bd_uuid = json_text (value_at v ''uuid''),
            bd_mountpoints = mountpoints, bd_mounted = mounted,
            bd_mountable = (\<not> mounted \<and> (case fstype of None \<Rightarrow> False | Some f \<Rightarrow> f \<noteq> ''swap'' \<and> \<not> is_member_fs f)),
            bd_expandable = False, bd_fs_size = json_number (value_at v ''fssize''),
            bd_available = json_number (value_at v ''fsavail''), bd_used = json_number (value_at v ''fsused'')\<rparr>
      in d\<lparr>bd_expandable := growable d \<and> (case bd_fs_size d of None \<Rightarrow> False
              | Some fs \<Rightarrow> bd_size d - fs > max (bd_size d div 10) 268435456)\<rparr>)"

lemma map_filter_cong [fundef_cong]:
  "xs = ys \<Longrightarrow> (\<And>x. x \<in> set ys \<Longrightarrow> f x = g x) \<Longrightarrow> List.map_filter f xs = List.map_filter g ys"
  by (auto simp: List.map_filter_def cong: map_cong filter_cong)

function device_of :: "Value \<Rightarrow> BlockDevice option" where
  "device_of v = (case json_text (value_at v ''name'') of None \<Rightarrow> None
     | Some name \<Rightarrow> Some (BlockDevice (device_fields v name)
         (case value_at v ''children'' of Array items \<Rightarrow> List.map_filter device_of items | _ \<Rightarrow> [])))"
  by pat_completeness auto
termination
  by (relation "measure size") (simp_all add: value_at_size)

declare device_of.simps [simp del]

definition block_devices :: "Value \<Rightarrow> BlockDevice list" where
  "block_devices lsblk =
     (case value_at lsblk ''blockdevices'' of Array items \<Rightarrow> List.map_filter device_of items | _ \<Rightarrow> [])"

definition parse_lsblk :: "(string \<Rightarrow> (string, Value) result) \<Rightarrow> string \<Rightarrow> BlockDevice list" where
  "parse_lsblk from_str out = (case from_str out of Err _ \<Rightarrow> [] | Ok v \<Rightarrow> block_devices v)"

text \<open>A device and everything under it, as the devices themselves.\<close>

fun walk :: "BlockDevice \<Rightarrow> BlockDevice list" where
  "walk (BlockDevice d cs) = BlockDevice d cs # concat (map walk cs)"

abbreviation walk_all :: "BlockDevice list \<Rightarrow> BlockDevice list" where
  "walk_all devices \<equiv> concat (map walk devices)"

abbreviation dev_path :: "BlockDevice \<Rightarrow> string" where
  "dev_path d \<equiv> bd_path (own d)"

definition find_device :: "BlockDevice list \<Rightarrow> string \<Rightarrow> BlockDevice option" where
  "find_device devices path = find (\<lambda>d. dev_path d = path) (walk_all devices)"

definition overlapping :: "BlockDevice list \<Rightarrow> string list \<Rightarrow> bool" where
  "overlapping devices paths \<longleftrightarrow>
     list_ex (\<lambda>p. case find_device devices p of None \<Rightarrow> False
       | Some d \<Rightarrow> list_ex (\<lambda>c. dev_path c \<in> set paths) (drop 1 (walk d))) paths"

definition SYSTEM_PART_TYPES :: "string list" where
  "SYSTEM_PART_TYPES =
     [''c12a7328-f81f-11d2-ba4b-00a0c93ec93b'', ''21686148-6449-6e6f-744e-656564454649'',
      ''e3c9e316-0b5c-4db8-817d-f92df00215ae'', ''de94bba4-06d1-4d40-a16a-bfd50179d6ac'', ''0xef'', ''0xee'']"

definition system_mounted :: "BlockFields \<Rightarrow> bool" where
  "system_mounted d \<longleftrightarrow> list_ex (\<lambda>m. m \<noteq> ''[SWAP]'' \<and> mountpoint_ok m \<noteq> Ok ()) (bd_mountpoints d)"

definition unmount_refusal :: "BlockDevice list \<Rightarrow> string \<Rightarrow> string option" where
  "unmount_refusal devices mountpoint =
     (let at = (case trim_end_char (CHR ''/'') mountpoint of [] \<Rightarrow> ''/'' | m \<Rightarrow> m) in
      case find (\<lambda>d. at \<in> set (bd_mountpoints (own d))) (walk_all devices) of
        None \<Rightarrow> Some ''notMounted''
      | Some d \<Rightarrow> if system_mounted (own d) then Some ''systemMount'' else None)"

section \<open>Software RAID\<close>

record MdMember =
  mm_name :: string
  mm_faulty :: bool
  mm_spare :: bool

record MdSync =
  sy_action :: string
  sy_permille :: nat
  sy_finish :: "string option"

record MdArray =
  md_name :: string
  md_state :: string
  md_level :: "string option"
  md_members :: "MdMember list"
  md_raid_disks :: "nat option"
  md_working_disks :: "nat option"
  md_sync :: "MdSync option"
  md_growable :: bool

definition raid_growable :: "string option \<Rightarrow> bool" where
  "raid_growable level \<longleftrightarrow> level \<in> {Some ''raid1'', Some ''raid5'', Some ''raid6''}"

definition degraded :: "MdArray \<Rightarrow> bool" where
  "degraded a \<longleftrightarrow> (case (md_raid_disks a, md_working_disks a) of (Some n, Some w) \<Rightarrow> w < n | _ \<Rightarrow> False)"

definition md_member :: "string \<Rightarrow> MdMember option" where
  "md_member w = map_option (\<lambda>(name, _). \<lparr>mm_name = name, mm_faulty = ends_with ''(F)'' w, mm_spare = ends_with ''(S)'' w\<rparr>)
     (split_once (CHR ''['') w)"

definition md_head :: "string \<Rightarrow> string \<Rightarrow> MdArray" where
  "md_head name rest =
     (let ws = split_whitespace rest;
          (state0, ws1) = (case ws of [] \<Rightarrow> ([], []) | w # later \<Rightarrow> (w, later));
          (state, ws2) = (case ws1 of w # later \<Rightarrow> if starts_with ''('' w then (state0 @ '' '' @ w, later) else (state0, ws1)
                          | [] \<Rightarrow> (state0, ws1));
          (level, ws3) = (case ws2 of w # later \<Rightarrow> if starts_with ''raid'' w \<or> w = ''linear'' then (Some w, later) else (None, ws2)
                          | [] \<Rightarrow> (None, ws2))
      in \<lparr>md_name = name, md_state = state, md_level = level, md_members = List.map_filter md_member ws3,
          md_raid_disks = None, md_working_disks = None, md_sync = None, md_growable = raid_growable level\<rparr>)"

definition md_counts :: "string \<Rightarrow> MdArray \<Rightarrow> MdArray" where
  "md_counts trimmed a =
     (case find (\<lambda>w. starts_with ''['' w \<and> CHR ''/'' \<in> set w \<and> ends_with '']'' w) (split_whitespace trimmed) of
        None \<Rightarrow> a
      | Some counts \<Rightarrow>
          (case split_once (CHR ''/'') (butlast (tl counts)) of None \<Rightarrow> a
           | Some (n, w) \<Rightarrow> a\<lparr>md_raid_disks := parse_u32 n, md_working_disks := parse_u32 w\<rparr>))"

definition md_sync_action :: "(string \<Rightarrow> nat option) \<Rightarrow> string \<Rightarrow> MdArray \<Rightarrow> string \<Rightarrow> MdArray" where
  "md_sync_action permille_of trimmed a action =
     (case split2_sub (action @ '' ='') trimmed of None \<Rightarrow> a
      | Some (_, tail) \<Rightarrow>
          (let after = trim_start tail in
           a\<lparr>md_sync := Some \<lparr>sy_action = action,
               sy_permille = unwrap_or 0 (permille_of (trim (hd (split_on (CHR ''%'') after)))),
               sy_finish = find_map (strip_prefix ''finish='') (split_whitespace after)\<rparr>\<rparr>))"

definition mdstat_line :: "(string \<Rightarrow> nat option) \<Rightarrow> MdArray list \<Rightarrow> string \<Rightarrow> MdArray list" where
  "mdstat_line permille_of arrays line =
     (let trimmed = trim line;
          detail = (if arrays = [] then arrays
            else butlast arrays @ [foldl (md_sync_action permille_of trimmed) (md_counts trimmed (last arrays))
              [''resync'', ''recovery'', ''check'', ''reshape'', ''repair'']])
      in case split2_sub '' : '' line of
           Some (name, rest) \<Rightarrow>
             if starts_with ''md'' name \<and> CHR '' '' \<notin> set name then arrays @ [md_head name rest] else detail
         | None \<Rightarrow> detail)"

definition parse_mdstat :: "(string \<Rightarrow> nat option) \<Rightarrow> string \<Rightarrow> MdArray list" where
  "parse_mdstat permille_of s = foldl (mdstat_line permille_of) [] (str_lines s)"

section \<open>ZFS\<close>

definition ZPOOL_LIST_COMMAND :: string where
  "ZPOOL_LIST_COMMAND = ''zpool list -Hp -o name,size,alloc,free,health''"

definition ZPOOL_STATUS_COMMAND :: string where
  "ZPOOL_STATUS_COMMAND = ''zpool status -P''"

record VdevActions =
  va_replace :: bool
  va_attach :: bool
  va_remove :: bool
  va_online :: bool

definition no_actions :: VdevActions where
  "no_actions = \<lparr>va_replace = False, va_attach = False, va_remove = False, va_online = False\<rparr>"

record Vdev =
  vd_name :: string
  vd_state :: string
  vd_depth :: nat
  vd_errors :: nat
  vd_section :: "string option"
  vd_actions :: VdevActions

record Pool =
  po_name :: string
  po_size :: nat
  po_allocated :: nat
  po_free :: nat
  po_health :: string
  po_scan :: "string option"
  po_scanning :: bool
  po_vdevs :: "Vdev list"

definition vdev_actions :: "Vdev list \<Rightarrow> nat \<Rightarrow> VdevActions" where
  "vdev_actions vdevs index =
     (if index < length vdevs \<and> starts_with ''/'' (vd_name (vdevs ! index))
      then (let v = vdevs ! index; online = (vd_state v = ''OFFLINE'') in
        case vd_section v of
          Some section \<Rightarrow> no_actions\<lparr>va_remove := section = ''spares'' \<or> section = ''cache'', va_online := online\<rparr>
        | None \<Rightarrow>
            (let parent = (if vd_depth v > 0
                then find (\<lambda>p. vd_depth p < vd_depth v \<and> vd_section p = None) (rev (take index vdevs)) else None)
             in \<lparr>va_replace = True,
                 va_attach = (vd_depth v = 0 \<or> (case parent of None \<Rightarrow> False | Some p \<Rightarrow> starts_with ''mirror'' (vd_name p))),
                 va_remove = False, va_online = online\<rparr>))
      else no_actions)"

definition zpool_row :: "string \<Rightarrow> Pool option" where
  "zpool_row l =
     (let f = split_on tab l in
      if length f \<ge> 5
      then Some \<lparr>po_name = f ! 0, po_size = unwrap_or 0 (parse_u64 (f ! 1)), po_allocated = unwrap_or 0 (parse_u64 (f ! 2)),
        po_free = unwrap_or 0 (parse_u64 (f ! 3)), po_health = f ! 4, po_scan = None, po_scanning = False, po_vdevs = []\<rparr>
      else None)"

definition parse_zpool_list :: "string \<Rightarrow> Pool list" where
  "parse_zpool_list out = List.map_filter zpool_row (str_lines out)"

definition SECTIONS :: "string list" where
  "SECTIONS = [''spares'', ''logs'', ''cache'', ''special'', ''dedup'']"

record StatusScan =
  ss_pools :: "Pool list"
  ss_current :: "nat option"
  ss_in_config :: bool
  ss_base_indent :: nat
  ss_section :: "string option"

definition indent_of :: "string \<Rightarrow> nat" where
  "indent_of line = byte_len line - byte_len (trim_start line)"

definition position_of :: "('a \<Rightarrow> bool) \<Rightarrow> 'a list \<Rightarrow> nat option" where
  "position_of p xs = find (\<lambda>i. p (xs ! i)) [0..<length xs]"

definition vdev_row :: "nat \<Rightarrow> string option \<Rightarrow> nat \<Rightarrow> string list \<Rightarrow> Vdev" where
  "vdev_row base section indent f =
     \<lparr>vd_name = f ! 0, vd_state = f ! 1, vd_depth = ((indent - (base + 2)) div 2) mod 4294967296,
      vd_errors = foldl u64_add 0 (List.map_filter parse_u64 (take 3 (drop 2 f))), vd_section = section,
      vd_actions = no_actions\<rparr>"

definition status_line :: "StatusScan \<Rightarrow> string \<Rightarrow> StatusScan" where
  "status_line st line =
     (let trimmed = trim line in
      case strip_prefix ''pool: '' trimmed of
        Some name \<Rightarrow> st\<lparr>ss_current := position_of (\<lambda>p. po_name p = name) (ss_pools st), ss_in_config := False,
          ss_section := None\<rparr>
      | None \<Rightarrow>
      (case ss_current st of None \<Rightarrow> st
       | Some i \<Rightarrow>
          (let pool = ss_pools st ! i in
           case strip_prefix ''scan: '' trimmed of
             Some scan \<Rightarrow> st\<lparr>ss_pools := (ss_pools st)[i := pool\<lparr>po_scanning := contains_sub '' in progress'' scan,
                po_scan := Some scan\<rparr>]\<rparr>
           | None \<Rightarrow>
             if starts_with ''NAME'' trimmed \<and> contains_sub ''STATE'' trimmed
             then st\<lparr>ss_in_config := True, ss_base_indent := indent_of line\<rparr>
             else if starts_with ''errors:'' trimmed \<or> (trimmed = [] \<and> ss_in_config st \<and> po_vdevs pool \<noteq> [])
             then st\<lparr>ss_in_config := False\<rparr>
             else if ss_in_config st \<and> trimmed \<noteq> []
             then (let indent = indent_of line; f = split_whitespace trimmed in
               if length f = 1 \<and> indent = ss_base_indent st \<and> f ! 0 \<in> set SECTIONS then st\<lparr>ss_section := Some (f ! 0)\<rparr>
               else if length f < 2 \<or> f ! 0 = po_name pool then st
               else st\<lparr>ss_pools := (ss_pools st)[i := pool\<lparr>po_vdevs := po_vdevs pool
                    @ [vdev_row (ss_base_indent st) (ss_section st) indent f]\<rparr>]\<rparr>)
             else st)))"

definition with_actions :: "Pool \<Rightarrow> Pool" where
  "with_actions p = p\<lparr>po_vdevs := map (\<lambda>i. (po_vdevs p ! i)\<lparr>vd_actions := vdev_actions (po_vdevs p) i\<rparr>)
     [0..<length (po_vdevs p)]\<rparr>"

definition merge_zpool_status :: "Pool list \<Rightarrow> string \<Rightarrow> Pool list" where
  "merge_zpool_status pools out =
     map with_actions (ss_pools (foldl status_line
       \<lparr>ss_pools = pools, ss_current = None, ss_in_config = False, ss_base_indent = 0, ss_section = None\<rparr>
       (str_lines out)))"

section \<open>What is in use\<close>

record Held =
  hd_md_members :: "string list"
  hd_pool_devices :: "string list"

definition held_of :: "MdArray list \<Rightarrow> Pool list \<Rightarrow> Held" where
  "held_of arrays pools =
     \<lparr>hd_md_members = concat (map (\<lambda>a. map mm_name (md_members a)) arrays),
      hd_pool_devices = filter (starts_with ''/'') (concat (map (\<lambda>p. map vd_name (po_vdevs p)) pools))\<rparr>"

text \<open>Why one device of the tree below \<open>path\<close> keeps it from being given away.\<close>

definition claim_on :: "Held \<Rightarrow> string \<Rightarrow> BlockFields \<Rightarrow> string option" where
  "claim_on held path d =
     (if ''[SWAP]'' \<in> set (bd_mountpoints d) then Some ''swap''
      else if bd_mountpoints d \<noteq> [] then Some ''mounted''
      else if bd_name d \<in> set (hd_md_members held) then Some ''raidMember''
      else if bd_path d \<in> set (hd_pool_devices held) then Some ''poolMember''
      else if (case bd_part_type d of None \<Rightarrow> False | Some t \<Rightarrow> t \<in> set SYSTEM_PART_TYPES) then Some ''systemPartition''
      else if bd_fstype d = Some ''LVM2_member'' then Some ''lvmMember''
      else if bd_path d \<noteq> path \<and> bd_kind d \<noteq> ''part'' then Some ''holdsVolume''
      else None)"

definition in_use :: "BlockDevice list \<Rightarrow> string \<Rightarrow> Held \<Rightarrow> string option" where
  "in_use devices path held =
     (case find_device devices path of None \<Rightarrow> Some ''notFound''
      | Some dev \<Rightarrow>
          if bd_read_only (own dev) then Some ''readOnly''
          else find_map (\<lambda>d. claim_on held (dev_path dev) (own d)) (walk dev))"

section \<open>The view\<close>

definition TOOLS_COMMAND :: string where
  "TOOLS_COMMAND = ''for t in mdadm zpool smartctl mkfs.ext4 mkfs.xfs mkfs.btrfs sfdisk wipefs cryptsetup; ''
     @ ''do command -v $t >/dev/null 2>&1 && echo $t; done; true''"

definition view_command :: string where
  "view_command = ''echo '' @ sq ''### lsblk'' @ ''; '' @ LSBLK_COMMAND @ '' 2>/dev/null'' @ [nl]
     @ ''echo '' @ sq ''### mdstat'' @ ''; cat /proc/mdstat 2>/dev/null'' @ [nl]
     @ ''echo '' @ sq ''### zpool'' @ ''; '' @ ZPOOL_LIST_COMMAND @ '' 2>/dev/null'' @ [nl]
     @ ''echo '' @ sq ''### zstatus'' @ ''; '' @ ZPOOL_STATUS_COMMAND @ '' 2>/dev/null'' @ [nl]
     @ ''echo '' @ sq ''### tools'' @ ''; '' @ TOOLS_COMMAND @ [nl] @ ''true''"

definition parse_tools :: "string \<Rightarrow> string list" where
  "parse_tools out = filter (\<lambda>l. l \<noteq> []) (map trim (str_lines out))"

record StorageView =
  sv_disks :: "BlockDevice list"
  sv_busy :: "(string, string) hashmap"
  sv_system :: "string list"
  sv_free :: "string list"
  sv_overlaps :: "(string, string list) hashmap"
  sv_growable_partitions :: "string list"
  sv_next_md :: string
  sv_raid_levels :: "(nat \<times> nat) list"
  sv_pool_layouts :: "(string \<times> nat) list"
  sv_arrays :: "MdArray list"
  sv_pools :: "Pool list"
  sv_tools :: "string list"

definition view_held :: "StorageView \<Rightarrow> Held" where
  "view_held v = held_of (sv_arrays v) (sv_pools v)"

definition is_disk :: "BlockFields \<Rightarrow> bool" where
  "is_disk d \<longleftrightarrow> bd_kind d \<noteq> ''rom'' \<and> bd_size d > 0"

definition free_devices :: "BlockDevice list \<Rightarrow> (string, string) hashmap \<Rightarrow> string list" where
  "free_devices disks busy =
     map dev_path (filter (\<lambda>d. bd_kind (own d) \<in> set [''disk'', ''part'', ''loop''] \<and> bd_size (own d) > 0
         \<and> hm_get busy (dev_path d) = None)
       (walk_all (filter (\<lambda>d. is_disk (own d)) disks)))"

definition growable_partition :: "BlockDevice list \<Rightarrow> string \<Rightarrow> bool" where
  "growable_partition disks path =
     list_ex (\<lambda>disk.
       (let parts = filter (\<lambda>c. bd_kind (own c) = ''part'') (children disk) in
        parts \<noteq> [] \<and> dev_path (last parts) = path
        \<and> bd_size (own disk) - foldl u64_add 0 (map (\<lambda>p. bd_size (own p)) parts)
            > max (bd_size (own disk) div 100) 67108864))
       (filter (\<lambda>d. is_disk (own d)) disks)"

definition raid_minimum :: "nat \<Rightarrow> nat" where
  "raid_minimum level = (if level = 5 then 3 else if level = 6 \<or> level = 10 then 4 else 2)"

definition pool_minimum :: "string \<Rightarrow> nat" where
  "pool_minimum layout = (if layout = ''stripe'' then 1 else if layout = ''mirror'' then 2 else if layout = ''raidz1'' then 3
     else if layout = ''raidz2'' then 4 else 5)"

definition RAID_LEVELS :: "nat list" where
  "RAID_LEVELS = [0, 1, 5, 6, 10]"

definition POOL_LAYOUTS :: "string list" where
  "POOL_LAYOUTS = [''stripe'', ''mirror'', ''raidz1'', ''raidz2'', ''raidz3'']"

definition view_section_line :: "(string \<times> string) list \<Rightarrow> string \<Rightarrow> (string \<times> string) list" where
  "view_section_line sections line =
     (case strip_prefix ''### '' line of Some name \<Rightarrow> sections @ [(trim name, [])]
      | None \<Rightarrow>
          (if sections = [] then []
           else butlast sections @ [(fst (last sections), snd (last sections) @ line @ [nl])]))"

definition busy_of :: "BlockDevice list \<Rightarrow> Held \<Rightarrow> (string, string) hashmap" where
  "busy_of disks held =
     foldl (\<lambda>m (path, why). hm_insert path why m) hm_empty
       (List.map_filter (\<lambda>d. map_option (\<lambda>why. (dev_path d, why)) (in_use disks (dev_path d) held)) (walk_all disks))"

definition overlaps_of :: "BlockDevice list \<Rightarrow> string list \<Rightarrow> (string, string list) hashmap" where
  "overlaps_of disks free =
     foldl (\<lambda>m (a, others). hm_insert a others m) hm_empty
       (filter (\<lambda>(_, others). others \<noteq> [])
         (map (\<lambda>a. (a, filter (\<lambda>b. b \<noteq> a \<and> overlapping disks [a, b]) free)) free))"

definition next_md :: "MdArray list \<Rightarrow> string" where
  "next_md arrays = unwrap_or ''md999''
     (find (\<lambda>n. n \<notin> set (map md_name arrays)) (map (\<lambda>n. ''md'' @ show_nat n) [0..<1000]))"

definition parse_view ::
  "(string \<Rightarrow> (string, Value) result) \<Rightarrow> (string \<Rightarrow> nat option) \<Rightarrow> string \<Rightarrow> StorageView option" where
  "parse_view from_str permille_of out =
     (let sections = foldl view_section_line [] (str_lines out);
          part = (\<lambda>name. unwrap_or [] (map_of sections name));
          lsblk = part ''lsblk''
      in case from_str lsblk of Err _ \<Rightarrow> None
         | Ok _ \<Rightarrow>
            (let disks = parse_lsblk from_str lsblk;
                 arrays = parse_mdstat permille_of (part ''mdstat'');
                 pools0 = parse_zpool_list (part ''zpool'');
                 pools = (if pools0 \<noteq> [] then merge_zpool_status pools0 (part ''zstatus'') else pools0);
                 busy = busy_of disks (held_of arrays pools);
                 free = free_devices disks busy
             in Some \<lparr>sv_disks = disks, sv_busy = busy,
               sv_system = map dev_path (filter (\<lambda>d. system_mounted (own d)) (walk_all disks)), sv_free = free,
               sv_overlaps = overlaps_of disks free,
               sv_growable_partitions = map dev_path (filter (\<lambda>d. growable_partition disks (dev_path d)) (walk_all disks)),
               sv_next_md = next_md arrays, sv_raid_levels = map (\<lambda>l. (l, raid_minimum l)) RAID_LEVELS,
               sv_pool_layouts = map (\<lambda>l. (l, pool_minimum l)) POOL_LAYOUTS, sv_arrays = arrays, sv_pools = pools,
               sv_tools = parse_tools (part ''tools'')\<rparr>))"

section \<open>Where backups may go\<close>

definition backup_system :: "string \<Rightarrow> bool" where
  "backup_system m =
     (let trimmed = trim_end_char (CHR ''/'') m in
      trimmed = [] \<or> trimmed \<in> set SYSTEM_DIRS
      \<or> (list_ex (\<lambda>t. starts_with t trimmed) SYSTEM_TREES \<and> \<not> starts_with REMOVABLE_MEDIA trimmed))"

definition backup_step ::
  "nat option \<Rightarrow> (string \<times> nat option) list \<Rightarrow> string \<Rightarrow> (string \<times> nat option) list" where
  "backup_step available seen m =
     (if starts_with ''/'' m \<and> \<not> backup_system m \<and> m \<notin> set (map fst seen) then seen @ [(m, available)] else seen)"

definition backup_destinations :: "BlockDevice list \<Rightarrow> (string \<times> nat option) list" where
  "backup_destinations devices =
     foldl (\<lambda>seen d. foldl (backup_step (bd_available (own d))) seen (bd_mountpoints (own d))) [] (walk_all devices)"

end
