(* ===== verification/Storage_Change.thy ===== *)
theory Storage_Change
  imports Storage
begin

text \<open>
  Changes to a machine's storage (\<open>crates/sbm_parser/src/storage.rs\<close>): what a change is,
  what is wrong with it, the shell text that does it, and the check it passes against
  the machine as it is.
\<close>

section \<open>Names\<close>

fun storage_error_code :: "StorageError \<Rightarrow> string" where
  "storage_error_code InvalidDevice = ''invalidDevice''"
| "storage_error_code InvalidMountpoint = ''invalidMountpoint''"
| "storage_error_code InvalidLabel = ''invalidLabel''"
| "storage_error_code InvalidFilesystem = ''invalidFilesystem''"
| "storage_error_code InvalidName = ''invalidName''"
| "storage_error_code InvalidLevel = ''invalidLevel''"
| "storage_error_code TooFewDevices = ''tooFewDevices''"
| "storage_error_code KeyRequired = ''keyRequired''"
| "storage_error_code InvalidPassphrase = ''invalidPassphrase''"

definition device_ok :: "string \<Rightarrow> (StorageError, unit) result" where
  "device_ok path =
     (case strip_prefix ''/dev/'' path of None \<Rightarrow> Err InvalidDevice
      | Some rest \<Rightarrow>
          if rest \<noteq> [] \<and> byte_len rest \<le> 128 \<and> \<not> list_ex dot_part (split_on (CHR ''/'') rest)
             \<and> list_all (\<lambda>c. is_ascii_alphanumeric c \<or> c \<in> set ''/_.-:'') rest
          then Ok () else Err InvalidDevice)"

definition md_ok :: "string \<Rightarrow> (StorageError, unit) result" where
  "md_ok name =
     (case strip_prefix ''md'' name of None \<Rightarrow> Err InvalidName
      | Some n \<Rightarrow> if 1 \<le> byte_len n \<and> byte_len n \<le> 3 \<and> list_all is_ascii_digit n then Ok () else Err InvalidName)"

definition is_ascii_alphabetic :: "char \<Rightarrow> bool" where
  "is_ascii_alphabetic c \<longleftrightarrow> is_ascii_lower c \<or> is_ascii_upper c"

definition pool_ok :: "string \<Rightarrow> (StorageError, unit) result" where
  "pool_ok name =
     (if 1 \<le> byte_len name \<and> byte_len name \<le> 64 \<and> is_ascii_alphabetic (hd name)
         \<and> list_all (\<lambda>c. is_ascii_alphanumeric c \<or> c \<in> set ''_-.:'') name
         \<and> \<not> list_ex (\<lambda>r. starts_with r name) [''mirror'', ''raidz'', ''spare'', ''log'', ''cache'']
      then Ok () else Err InvalidName)"

definition passphrase_ok :: "string \<Rightarrow> bool" where
  "passphrase_ok p \<longleftrightarrow> 8 \<le> byte_len p \<and> byte_len p \<le> 512 \<and> nl \<notin> set p \<and> cr \<notin> set p \<and> nul \<notin> set p"

section \<open>Maintenance\<close>

definition UNATTENDED :: string where
  "UNATTENDED = ''S=; [ '' @ dq ''$(id -u)'' @ '' = 0 ] || S='' @ dq ''sudo -n'' @ '';''"

datatype Maintenance = Scrub | SmartShort | SmartLong

fun maintenance_name :: "Maintenance \<Rightarrow> string" where
  "maintenance_name Scrub = ''scrub''"
| "maintenance_name SmartShort = ''smartShort''"
| "maintenance_name SmartLong = ''smartLong''"

definition maintenance_from_name :: "string \<Rightarrow> Maintenance option" where
  "maintenance_from_name name = find (\<lambda>m. maintenance_name m = name) [Scrub, SmartShort, SmartLong]"

text \<open>\<open>try_for_each\<close>: the first error stops it.\<close>

fun each_ok :: "('a \<Rightarrow> ('e, unit) result) \<Rightarrow> 'a list \<Rightarrow> ('e, unit) result" where
  "each_ok f [] = Ok ()"
| "each_ok f (x # xs) = (case f x of Err e \<Rightarrow> Err e | Ok _ \<Rightarrow> each_ok f xs)"

definition seq_ok :: "('e, unit) result \<Rightarrow> ('e, unit) result \<Rightarrow> ('e, unit) result" where
  "seq_ok a b = (case a of Err e \<Rightarrow> Err e | Ok _ \<Rightarrow> b)"

definition maintenance_script :: "Maintenance \<Rightarrow> string list \<Rightarrow> (StorageError, string) result" where
  "maintenance_script m disks =
     (case m of
        Scrub \<Rightarrow> Ok (UNATTENDED @ '' r=0; for p in $(zpool list -H -o name 2>/dev/null); do zpool status '' @ dq ''$p''
          @ '' | grep -q '' @ sq ''scrub in progress'' @ '' && continue; $S zpool scrub '' @ dq ''$p''
          @ '' || r=1; done; for a in /sys/block/md*/md/sync_action; do [ -r '' @ dq ''$a'' @ '' ] || continue; [ ''
          @ dq (''$(cat '' @ dq ''$a'' @ '')'') @ '' = idle ] || continue; md=${a#/sys/block/}; md=${md%%/*}; $S mdadm --action=check ''
          @ dq ''/dev/$md'' @ '' || r=1; done; exit $r'')
      | _ \<Rightarrow> (case each_ok device_ok disks of Err e \<Rightarrow> Err e
          | Ok _ \<Rightarrow> Ok (UNATTENDED @ '' r=0; for d in '' @ join '' '' (map shell_quote_unix disks) @ ''; do $S smartctl -t ''
              @ (if m = SmartLong then ''long'' else ''short'') @ '' '' @ dq ''$d'' @ '' >/dev/null || r=1; done; exit $r'')))"

section \<open>Changes\<close>

datatype StorageAction =
    Partition string
  | Format string string "string option" bool
  | Mount string string bool bool
  | Unmount string
  | CreateRaid string nat "string list"
  | AddToRaid string string
  | RemoveFromRaid string string
  | DeleteRaid string
  | CreatePool string string "string list"
  | ScrubPool string
  | DestroyPool string
  | SmartTest string bool
  | GrowRaid string string
  | ExpandFilesystem string
  | AddToPool string string "string list"
  | ReplaceInPool string string string
  | AttachToPool string string string
  | AddSpare string "string list"
  | RemoveFromPool string string
  | OnlineInPool string string
  | GrowPartition string
  | Unlock string
  | Lock string

fun consumes :: "StorageAction \<Rightarrow> string list" where
  "consumes (Partition device) = [device]"
| "consumes (Format device _ _ _) = [device]"
| "consumes (CreateRaid _ _ devices) = devices"
| "consumes (CreatePool _ _ devices) = devices"
| "consumes (AddToRaid _ device) = [device]"
| "consumes (GrowRaid _ device) = [device]"
| "consumes (AddToPool _ _ devices) = devices"
| "consumes (AddSpare _ devices) = devices"
| "consumes (ReplaceInPool _ _ new) = [new]"
| "consumes (AttachToPool _ _ new) = [new]"
| "consumes _ = []"

definition has_duplicates :: "string list \<Rightarrow> bool" where
  "has_duplicates items \<longleftrightarrow> \<not> distinct items"

definition FILESYSTEMS :: "string list" where
  "FILESYSTEMS = [''ext4'', ''xfs'', ''btrfs'']"

definition label_wrong :: "string option \<Rightarrow> bool" where
  "label_wrong label \<longleftrightarrow> (case label of None \<Rightarrow> False
     | Some l \<Rightarrow> \<not> (1 \<le> byte_len l \<and> byte_len l \<le> 16) \<or> \<not> list_all (\<lambda>c. is_ascii_alphanumeric c \<or> c \<in> set ''_-'') l)"

definition ok_unless :: "bool \<Rightarrow> 'e \<Rightarrow> ('e, unit) result" where
  "ok_unless wrong e = (if wrong then Err e else Ok ())"

definition validate_pool_devices :: "string \<Rightarrow> string \<Rightarrow> string list \<Rightarrow> (StorageError, unit) result" where
  "validate_pool_devices name layout devices =
     seq_ok (pool_ok name)
       (if layout \<notin> set POOL_LAYOUTS then Err InvalidLevel
        else seq_ok (each_ok device_ok devices)
          (ok_unless (length devices < pool_minimum layout \<or> has_duplicates devices) TooFewDevices))"

fun validate_action :: "StorageAction \<Rightarrow> (StorageError, unit) result" where
  "validate_action (Partition device) = device_ok device"
| "validate_action (SmartTest device _) = device_ok device"
| "validate_action (ExpandFilesystem device) = device_ok device"
| "validate_action (GrowPartition device) = device_ok device"
| "validate_action (Unlock device) = device_ok device"
| "validate_action (Lock device) = device_ok device"
| "validate_action (ReplaceInPool name a b) = seq_ok (pool_ok name) (seq_ok (device_ok a) (device_ok b))"
| "validate_action (AttachToPool name a b) = seq_ok (pool_ok name) (seq_ok (device_ok a) (device_ok b))"
| "validate_action (AddSpare name devices) =
     seq_ok (pool_ok name) (if devices = [] \<or> has_duplicates devices then Err TooFewDevices else each_ok device_ok devices)"
| "validate_action (RemoveFromPool name device) = seq_ok (pool_ok name) (device_ok device)"
| "validate_action (OnlineInPool name device) = seq_ok (pool_ok name) (device_ok device)"
| "validate_action (Format device fstype label _) =
     seq_ok (device_ok device)
       (if fstype \<notin> set FILESYSTEMS then Err InvalidFilesystem else ok_unless (label_wrong label) InvalidLabel)"
| "validate_action (Mount device mountpoint _ _) = seq_ok (device_ok device) (mountpoint_ok mountpoint)"
| "validate_action (Unmount mountpoint) = mountpoint_ok mountpoint"
| "validate_action (CreateRaid name level devices) =
     seq_ok (md_ok name)
       (if level \<notin> set RAID_LEVELS then Err InvalidLevel
        else seq_ok (each_ok device_ok devices)
          (ok_unless (length devices < raid_minimum level \<or> has_duplicates devices) TooFewDevices))"
| "validate_action (AddToRaid array device) = seq_ok (md_ok array) (device_ok device)"
| "validate_action (RemoveFromRaid array device) = seq_ok (md_ok array) (device_ok device)"
| "validate_action (GrowRaid array device) = seq_ok (md_ok array) (device_ok device)"
| "validate_action (DeleteRaid array) = md_ok array"
| "validate_action (CreatePool name layout devices) = validate_pool_devices name layout devices"
| "validate_action (AddToPool name layout devices) = validate_pool_devices name layout devices"
| "validate_action (ScrubPool name) = pool_ok name"
| "validate_action (DestroyPool name) = pool_ok name"

section \<open>The script of a change\<close>

definition SETTLE :: string where
  "SETTLE = ''{ partprobe 2>/dev/null; udevadm trigger --action=change --subsystem-match=block; udevadm settle; }''"

definition MDADM_CONF :: string where
  "MDADM_CONF = ''conf=/etc/mdadm/mdadm.conf; [ -d /etc/mdadm ] || conf=/etc/mdadm.conf''"

text \<open>A backslash and an \<open>n\<close>, for \<open>printf\<close>.\<close>

definition esc_n :: string where
  "esc_n = [CHR 0x5C, CHR ''n'']"

definition and_then :: string where
  "and_then = '' && ''"

definition quoted_list :: "string list \<Rightarrow> string" where
  "quoted_list ds = join '' '' (map shell_quote_unix ds)"

definition vdev_word :: "string \<Rightarrow> string" where
  "vdev_word layout = (if layout = ''stripe'' then [] else layout @ '' '')"

definition wipe :: "string list \<Rightarrow> string" where
  "wipe ds = ''wipefs -a '' @ quoted_list ds"

definition format_script :: "string \<Rightarrow> string \<Rightarrow> string option \<Rightarrow> bool \<Rightarrow> string \<Rightarrow> string" where
  "format_script device fstype label encrypt key =
     (let d = shell_quote_unix device;
          lab = (case label of None \<Rightarrow> [] | Some l \<Rightarrow> '' -L '' @ shell_quote_unix l);
          force = (if fstype = ''ext4'' then '' -F'' else '' -f'');
          mk = ''mkfs.'' @ fstype @ force @ lab @ '' ''
      in if encrypt
         then wipe [device] @ and_then @ ''cryptsetup luksFormat --batch-mode --type luks2 --key-file '' @ key @ '' '' @ d
           @ and_then @ ''name='' @ dq (''luks-$(cryptsetup luksUUID '' @ d @ '')'') @ and_then
           @ ''cryptsetup open --key-file '' @ key @ '' '' @ d @ '' '' @ dq ''$name'' @ and_then @ mk @ dq ''/dev/mapper/$name''
           @ and_then @ SETTLE
         else wipe [device] @ and_then @ mk @ d @ and_then @ SETTLE)"

definition mount_script :: "string \<Rightarrow> string \<Rightarrow> bool \<Rightarrow> bool \<Rightarrow> string" where
  "mount_script device mountpoint persist own_it =
     (let mp = shell_quote_unix (trim_end_char (CHR ''/'') mountpoint); d = shell_quote_unix device in
      ''mkdir -p '' @ mp @ and_then @ ''mount '' @ d @ '' '' @ mp
      @ (if own_it then and_then @ ''chown '' @ dq ''${SUDO_UID:-0}:${SUDO_GID:-0}'' @ '' '' @ mp else [])
      @ (if persist
         then and_then @ ''uuid=$(blkid -s UUID -o value '' @ d @ '')'' @ and_then @ ''fst=$(blkid -s TYPE -o value '' @ d @ '')''
           @ and_then @ ''[ -n '' @ dq ''$uuid'' @ '' ]'' @ and_then @ ''cp /etc/fstab /etc/fstab.sbm-bak'' @ and_then
           @ ''awk -v u='' @ dq ''UUID=$uuid'' @ '' -v m='' @ mp @ '' '' @ sq ''$1 != u && $2 != m''
           @ '' /etc/fstab > /etc/fstab.sbm'' @ and_then
           @ ''printf '' @ sq (''UUID=%s %s %s defaults,nofail 0 2'' @ esc_n) @ '' '' @ dq ''$uuid'' @ '' '' @ mp @ '' '' @ dq ''$fst''
           @ '' >> /etc/fstab.sbm'' @ and_then @ ''mv /etc/fstab.sbm /etc/fstab''
         else []))"

definition unmount_script :: "string \<Rightarrow> string" where
  "unmount_script mountpoint =
     (let mp = shell_quote_unix (trim_end_char (CHR ''/'') mountpoint) in
      ''umount '' @ mp @ and_then @ ''cp /etc/fstab /etc/fstab.sbm-bak'' @ and_then @ ''awk -v m='' @ mp @ '' ''
      @ sq ''$2 != m'' @ '' /etc/fstab > /etc/fstab.sbm'' @ and_then @ ''mv /etc/fstab.sbm /etc/fstab'')"

definition zero_superblock :: "string \<Rightarrow> string" where
  "zero_superblock device = ''mdadm --zero-superblock '' @ shell_quote_unix device @ '' 2>/dev/null''"

definition delete_raid_script :: "string \<Rightarrow> string" where
  "delete_raid_script array =
     ''uuid=$(mdadm --detail --export /dev/'' @ array @ '' | sed -n '' @ sq ''s/^MD_UUID=//p'' @ '')'' @ and_then
     @ ''members=$(mdadm --detail --export /dev/'' @ array @ '' | sed -n '' @ sq ''s/^MD_DEVICE_.*_DEV=//p'' @ '')'' @ and_then
     @ ''mdadm --stop /dev/'' @ array @ and_then @ ''for m in $members; do mdadm --zero-superblock '' @ dq ''$m'' @ ''; done''
     @ and_then @ MDADM_CONF @ ''; [ -f '' @ dq ''$conf'' @ '' ]'' @ and_then @ ''[ -n '' @ dq ''$uuid'' @ '' ]'' @ and_then
     @ ''sed -i '' @ dq ''/UUID=$uuid/d'' @ '' '' @ dq ''$conf'' @ ''; true''"

definition grow_raid_script :: "string \<Rightarrow> string \<Rightarrow> string" where
  "grow_raid_script array device =
     ''n=$(mdadm --detail --export /dev/'' @ array @ '' | sed -n '' @ sq ''s/^MD_DEVICES=//p'' @ '')'' @ and_then
     @ ''[ -n '' @ dq ''$n'' @ '' ]'' @ and_then @ ''{ '' @ zero_superblock device @ ''; true; }'' @ and_then
     @ ''mdadm --manage /dev/'' @ array @ '' --add '' @ shell_quote_unix device @ and_then
     @ ''mdadm --grow /dev/'' @ array @ '' --raid-devices=$((n + 1))''"

definition expand_script :: "string \<Rightarrow> string" where
  "expand_script device =
     (let d = shell_quote_unix device in
      ''mp=$(findmnt -nro TARGET -S '' @ d @ '' | head -n 1)'' @ and_then @ ''[ -n '' @ dq ''$mp'' @ '' ] || { echo ''
      @ sq ''not mounted'' @ '' >&2; exit 1; }; case $(lsblk -dno FSTYPE '' @ d @ '') in ext2|ext3|ext4) resize2fs '' @ d
      @ '' ;; xfs) xfs_growfs '' @ dq ''$mp'' @ '' ;; btrfs) btrfs filesystem resize max '' @ dq ''$mp''
      @ '' ;; *) echo '' @ sq ''this filesystem cannot be grown here'' @ '' >&2; exit 1 ;; esac'')"

definition grow_partition_script :: "string \<Rightarrow> string" where
  "grow_partition_script device =
     ''d='' @ shell_quote_unix device @ ''; disk='' @ dq (''/dev/$(lsblk -dno PKNAME '' @ dq ''$d'' @ '')'')
     @ ''; n=$(cat '' @ dq (''/sys/class/block/$(basename '' @ dq (''$(readlink -f '' @ dq ''$d'' @ '')'') @ '')/partition'') @ '')''
     @ and_then @ ''[ -n '' @ dq ''$n'' @ '' ]'' @ and_then @ ''echo '' @ sq '', +'' @ '' | sfdisk --no-reread --force -N ''
     @ dq ''$n'' @ '' '' @ dq ''$disk'' @ and_then @ ''partx -u '' @ dq ''$disk''"

definition luks_name :: "string \<Rightarrow> string" where
  "luks_name device = dq (''luks-$(cryptsetup luksUUID '' @ shell_quote_unix device @ '')'')"

fun script_text :: "string \<Rightarrow> StorageAction \<Rightarrow> string" where
  "script_text key (Partition device) =
     wipe [device] @ and_then @ ''printf '' @ sq (''label: gpt'' @ esc_n @ '',,L'' @ esc_n) @ '' | sfdisk --quiet ''
     @ shell_quote_unix device @ and_then @ SETTLE"
| "script_text key (Format device fstype label encrypt) = format_script device fstype label encrypt key"
| "script_text key (Mount device mountpoint persist own_it) = mount_script device mountpoint persist own_it"
| "script_text key (Unmount mountpoint) = unmount_script mountpoint"
| "script_text key (CreateRaid name level devices) =
     ''mdadm --create /dev/'' @ name @ '' --run --level='' @ show_nat level @ '' --raid-devices='' @ show_nat (length devices)
     @ '' '' @ quoted_list devices @ and_then @ MDADM_CONF @ ''; mdadm --detail --brief /dev/'' @ name @ '' >> '' @ dq ''$conf''"
| "script_text key (AddToRaid array device) =
     zero_superblock device @ ''; mdadm --manage /dev/'' @ array @ '' --add '' @ shell_quote_unix device"
| "script_text key (RemoveFromRaid array device) =
     ''mdadm --manage /dev/'' @ array @ '' --fail '' @ shell_quote_unix device @ and_then
     @ ''for i in 1 2 3 4 5 6 7 8 9 10; do mdadm --manage /dev/'' @ array @ '' --remove '' @ shell_quote_unix device @ and_then
     @ ''exit 0; sleep 1; done; exit 1''"
| "script_text key (DeleteRaid array) = delete_raid_script array"
| "script_text key (CreatePool name layout devices) =
     ''zpool create -f -o autoexpand=on '' @ shell_quote_unix name @ '' '' @ vdev_word layout @ quoted_list devices"
| "script_text key (ScrubPool name) = ''zpool scrub '' @ shell_quote_unix name"
| "script_text key (DestroyPool name) = ''zpool destroy '' @ shell_quote_unix name"
| "script_text key (SmartTest device long) =
     ''smartctl -t '' @ (if long then ''long'' else ''short'') @ '' '' @ shell_quote_unix device"
| "script_text key (GrowRaid array device) = grow_raid_script array device"
| "script_text key (ExpandFilesystem device) = expand_script device"
| "script_text key (AddToPool name layout devices) =
     ''zpool add '' @ shell_quote_unix name @ '' '' @ vdev_word layout @ quoted_list devices"
| "script_text key (ReplaceInPool name old new) =
     wipe [new] @ and_then @ ''zpool set autoexpand=on '' @ shell_quote_unix name @ and_then
     @ ''zpool replace '' @ quoted_list [name, old, new]"
| "script_text key (AttachToPool name existing new) =
     wipe [new] @ and_then @ ''zpool attach '' @ quoted_list [name, existing, new]"
| "script_text key (AddSpare name devices) =
     wipe devices @ and_then @ ''zpool add '' @ shell_quote_unix name @ '' spare '' @ quoted_list devices"
| "script_text key (RemoveFromPool name device) = ''zpool remove '' @ quoted_list [name, device]"
| "script_text key (OnlineInPool name device) = ''zpool online -e '' @ quoted_list [name, device]"
| "script_text key (GrowPartition device) = grow_partition_script device"
| "script_text key (Unlock device) =
     ''cryptsetup open --key-file '' @ key @ '' '' @ shell_quote_unix device @ '' '' @ luks_name device @ and_then @ SETTLE"
| "script_text key (Lock device) = ''cryptsetup close '' @ luks_name device"

fun needs_key :: "StorageAction \<Rightarrow> bool" where
  "needs_key (Format _ _ _ encrypt) = encrypt"
| "needs_key (Unlock _) = True"
| "needs_key _ = False"

definition script_keyed :: "StorageAction \<Rightarrow> string option \<Rightarrow> (StorageError, string) result" where
  "script_keyed action key =
     (case validate_action action of Err e \<Rightarrow> Err e
      | Ok _ \<Rightarrow>
          if needs_key action
          then (case key of None \<Rightarrow> Err KeyRequired | Some k \<Rightarrow> Ok (script_text k action))
          else Ok (script_text [] action))"

definition script_with_key :: "StorageAction \<Rightarrow> string option \<Rightarrow> (StorageError, string) result" where
  "script_with_key action key_file = script_keyed action (map_option shell_quote_unix key_file)"

definition action_script :: "StorageAction \<Rightarrow> (StorageError, string) result" where
  "action_script action = script_with_key action None"

definition script_with_passphrase :: "StorageAction \<Rightarrow> string \<Rightarrow> (StorageError, string) result" where
  "script_with_passphrase action passphrase =
     (if \<not> passphrase_ok passphrase then Err InvalidPassphrase
      else (case script_keyed action (Some (dq ''$k'')) of Err e \<Rightarrow> Err e
        | Ok inner \<Rightarrow> Ok (''k=$(mktemp)'' @ and_then @ ''chmod 600 '' @ dq ''$k'' @ and_then @ ''trap ''
            @ sq (''rm -f '' @ dq ''$k'') @ '' EXIT'' @ and_then @ ''printf %s '' @ shell_quote_unix passphrase @ '' > '' @ dq ''$k''
            @ and_then @ ''{ '' @ inner @ ''; }'')))"

section \<open>The check against the machine\<close>

record Refusal =
  rf_status :: nat
  rf_error :: string
  rf_device :: "string option"
  rf_why :: "string option"

definition refusal :: "nat \<Rightarrow> string \<Rightarrow> Refusal" where
  "refusal status e = \<lparr>rf_status = status, rf_error = e, rf_device = None, rf_why = None\<rparr>"

definition refuse_if :: "bool \<Rightarrow> nat \<Rightarrow> string \<Rightarrow> (Refusal, unit) result" where
  "refuse_if b status e = (if b then Err (refusal status e) else Ok ())"

definition pool_removable :: "StorageView \<Rightarrow> string \<Rightarrow> string \<Rightarrow> bool" where
  "pool_removable view name device =
     (case find (\<lambda>p. po_name p = name) (sv_pools view) of None \<Rightarrow> False
      | Some p \<Rightarrow> list_ex (\<lambda>i. vd_name (po_vdevs p ! i) = device \<and> va_remove (vdev_actions (po_vdevs p) i))
          [0..<length (po_vdevs p)])"

fun check_kind :: "StorageView \<Rightarrow> StorageAction \<Rightarrow> (Refusal, unit) result" where
  "check_kind view (Unmount mountpoint) =
     (case unmount_refusal (sv_disks view) mountpoint of None \<Rightarrow> Ok () | Some why \<Rightarrow> Err (refusal 409 why))"
| "check_kind view (ExpandFilesystem device) =
     (case find_device (sv_disks view) device of None \<Rightarrow> Err (refusal 409 ''notFound'')
      | Some d \<Rightarrow> refuse_if (\<not> growable (own d)) 409 ''notGrowable'')"
| "check_kind view (Lock device) =
     (case find_device (sv_disks view) device of None \<Rightarrow> Err (refusal 409 ''notFound'')
      | Some d \<Rightarrow> refuse_if (list_ex (\<lambda>c. bd_mountpoints (own c) \<noteq> []) (walk d)) 409 ''mounted'')"
| "check_kind view (GrowPartition device) =
     refuse_if (\<not> growable_partition (sv_disks view) device) 409 ''notGrowable''"
| "check_kind view (RemoveFromPool name device) = refuse_if (\<not> pool_removable view name device) 409 ''notRemovable''"
| "check_kind view (GrowRaid array _) =
     refuse_if (\<not> raid_growable (Option.bind (find (\<lambda>a. md_name a = array) (sv_arrays view)) md_level)) 409 ''notGrowable''"
| "check_kind view _ = Ok ()"

fun check_free :: "BlockDevice list \<Rightarrow> Held \<Rightarrow> string list \<Rightarrow> (Refusal, unit) result" where
  "check_free disks held [] = Ok ()"
| "check_free disks held (device # devices) =
     (case in_use disks device held of
        Some why \<Rightarrow> Err \<lparr>rf_status = 409, rf_error = ''inUse'', rf_device = Some device, rf_why = Some why\<rparr>
      | None \<Rightarrow> check_free disks held devices)"

definition check_change :: "StorageView \<Rightarrow> StorageAction \<Rightarrow> (Refusal, unit) result" where
  "check_change view action =
     (case validate_action action of Err e \<Rightarrow> Err (refusal 400 (storage_error_code e))
      | Ok _ \<Rightarrow> seq_ok (check_kind view action)
          (if overlapping (sv_disks view) (consumes action) then Err (refusal 400 ''overlapping'')
           else check_free (sv_disks view) (view_held view) (consumes action)))"

end
