(* ===== verification/Storage_Safety.thy ===== *)
theory Storage_Safety
  imports Storage_Change
begin

text \<open>
  What the check of \<open>crates/sbm_parser/src/storage.rs\<close> promises: a change that is let through
  takes only devices nothing uses, what a script wipes was checked, what the page offers
  is what the check takes, and filesystems are mounted outside where the system lives.
\<close>

section \<open>A device nothing uses\<close>

definition unclaimed :: "Held \<Rightarrow> string \<Rightarrow> BlockFields \<Rightarrow> bool" where
  "unclaimed held path d \<longleftrightarrow>
     bd_mountpoints d = [] \<and> bd_name d \<notin> set (hd_md_members held) \<and> bd_path d \<notin> set (hd_pool_devices held)
     \<and> bd_part_type d \<notin> Some ` set SYSTEM_PART_TYPES \<and> bd_fstype d \<noteq> Some ''LVM2_member''
     \<and> (bd_path d = path \<or> bd_kind d = ''part'')"

definition device_free :: "BlockDevice list \<Rightarrow> Held \<Rightarrow> string \<Rightarrow> bool" where
  "device_free disks held path \<longleftrightarrow>
     (case find_device disks path of None \<Rightarrow> False
      | Some dev \<Rightarrow> \<not> bd_read_only (own dev) \<and> list_all (\<lambda>c. unclaimed held path (own c)) (walk dev))"

lemma claim_on_None: "claim_on held path d = None \<longleftrightarrow> unclaimed held path d"
  by (auto simp: claim_on_def unclaimed_def split: option.splits if_splits)

lemma unclaimed_view:
  "unclaimed (view_held view) path (own c) \<longleftrightarrow>
     bd_mountpoints (own c) = []
     \<and> (\<forall>array \<in> set (sv_arrays view). \<forall>m \<in> set (md_members array). mm_name m \<noteq> bd_name (own c))
     \<and> (\<forall>p \<in> set (sv_pools view). \<forall>v \<in> set (po_vdevs p). starts_with ''/'' (vd_name v) \<longrightarrow> vd_name v \<noteq> dev_path c)
     \<and> bd_part_type (own c) \<notin> Some ` set SYSTEM_PART_TYPES \<and> bd_fstype (own c) \<noteq> Some ''LVM2_member''
     \<and> (dev_path c = path \<or> bd_kind (own c) = ''part'')"
proof -
  have "bd_name (own c) \<notin> set (hd_md_members (view_held view)) \<longleftrightarrow>
      (\<forall>array \<in> set (sv_arrays view). \<forall>m \<in> set (md_members array). mm_name m \<noteq> bd_name (own c))"
    unfolding view_held_def held_of_def by (simp add: image_iff) metis
  moreover have "dev_path c \<notin> set (hd_pool_devices (view_held view)) \<longleftrightarrow>
      (\<forall>p \<in> set (sv_pools view). \<forall>v \<in> set (po_vdevs p). starts_with ''/'' (vd_name v) \<longrightarrow> vd_name v \<noteq> dev_path c)"
    unfolding view_held_def held_of_def by (simp add: image_iff) metis
  ultimately show ?thesis by (simp add: unclaimed_def)
qed

lemma find_map_None: "find_map f xs = None \<longleftrightarrow> list_all (\<lambda>x. f x = None) xs"
  by (induction xs) (auto split: option.split)

lemma find_device_path: "find_device disks path = Some dev \<Longrightarrow> dev_path dev = path \<and> dev \<in> set (walk_all disks)"
  unfolding find_device_def find_Some_iff by (auto simp del: set_concat)

lemma in_use_None: "in_use disks path held = None \<longleftrightarrow> device_free disks held path"
  using find_device_path
  by (auto simp: in_use_def device_free_def find_map_None claim_on_None split: option.split)

lemma check_free_Ok: "check_free disks held devices = Ok () \<longleftrightarrow> list_all (device_free disks held) devices"
  by (induction devices) (auto simp: in_use_None [symmetric] split: option.split)

lemma seq_ok_Ok [simp]: "seq_ok a b = Ok x \<longleftrightarrow> a = Ok () \<and> b = Ok x"
  by (cases a) (auto simp: seq_ok_def)

lemma check_change_Ok:
  "check_change view a = Ok () \<longleftrightarrow> validate_action a = Ok () \<and> check_kind view a = Ok ()
     \<and> \<not> overlapping (sv_disks view) (consumes a)
     \<and> list_all (device_free (sv_disks view) (view_held view)) (consumes a)"
  by (cases "validate_action a") (auto simp: check_change_def check_free_Ok)

section \<open>An example\<close>

definition demo_fields :: "string \<Rightarrow> string \<Rightarrow> string list \<Rightarrow> BlockFields" where
  "demo_fields name kind mounts =
     \<lparr>bd_name = name, bd_path = ''/dev/'' @ name, bd_kind = kind, bd_size = 8, bd_model = None, bd_serial = None,
      bd_rotational = False, bd_transport = None, bd_removable = False, bd_read_only = False, bd_part_type = None,
      bd_fstype = None, bd_label = None, bd_uuid = None, bd_mountpoints = mounts, bd_mounted = False,
      bd_mountable = False, bd_expandable = False, bd_fs_size = None, bd_available = None, bd_used = None\<rparr>"

definition demo_disks :: "BlockDevice list" where
  "demo_disks =
     [BlockDevice (demo_fields ''a'' ''disk'' []) [BlockDevice (demo_fields ''a1'' ''part'' [''/'']) []],
      BlockDevice (demo_fields ''b'' ''disk'' []) [BlockDevice (demo_fields ''b1'' ''part'' []) []]]"

definition demo_pool :: Pool where
  "demo_pool = \<lparr>po_name = ''t'', po_size = 8, po_allocated = 0, po_free = 8, po_health = ''ONLINE'', po_scan = None,
     po_scanning = False, po_vdevs = [\<lparr>vd_name = ''/dev/disk/by-id/x-part1'', vd_state = ''ONLINE'', vd_depth = 0,
       vd_errors = 0, vd_section = None, vd_actions = no_actions\<rparr>]\<rparr>"

definition demo_view :: "Pool list \<Rightarrow> StorageView" where
  "demo_view pools =
     \<lparr>sv_disks = demo_disks, sv_busy = hm_empty, sv_system = [], sv_free = [], sv_overlaps = hm_empty,
      sv_growable_partitions = [], sv_next_md = [], sv_raid_levels = [], sv_pool_layouts = [], sv_arrays = [],
      sv_pools = pools, sv_tools = []\<rparr>"

lemma demo_device_ok: "device_ok ''/dev/b'' = Ok ()"
  by (simp add: device_ok_def dot_part_def byte_len_def is_ascii_alphanumeric_def is_ascii_lower_def)

lemma demo_find: "find_device demo_disks ''/dev/b'' =
    Some (BlockDevice (demo_fields ''b'' ''disk'' []) [BlockDevice (demo_fields ''b1'' ''part'' []) []])"
  by (simp add: find_device_def demo_disks_def demo_fields_def)

lemma demo_partition: "check_change (demo_view pools) (Partition ''/dev/b'') = Ok ()"
  if "pools = [] \<or> pools = [demo_pool]"
proof -
  define h where "h = view_held (demo_view pools)"
  have h: "hd_md_members h = []" "''/dev/b'' \<notin> set (hd_pool_devices h)" "''/dev/b1'' \<notin> set (hd_pool_devices h)"
    using that by (auto simp: h_def view_held_def held_of_def demo_view_def demo_pool_def)
  have "claim_on h ''/dev/b'' (demo_fields ''b'' ''disk'' []) = None"
    "claim_on h ''/dev/b'' (demo_fields ''b1'' ''part'' []) = None"
    using h by (simp_all add: claim_on_def demo_fields_def)
  then have "in_use demo_disks ''/dev/b'' h = None"
    by (simp add: in_use_def demo_find) (simp add: demo_fields_def)
  moreover have "\<not> overlapping demo_disks [''/dev/b'']"
    by (simp add: overlapping_def demo_find) (simp add: demo_fields_def)
  ultimately show ?thesis
    by (simp add: check_change_def demo_device_ok seq_ok_def h_def [symmetric]) (simp add: demo_view_def)
qed

text \<open>
  C14. A change that the check lets through takes only devices the view knows no use of.
  Each device it would partition, format or build on is on the machine, writable, and
  neither it nor anything on it is mounted or swap, a member of an array, a device a pool
  lists by that very path, a partition firmware or another system needs, or part of a
  volume group, and nothing but partitions is on it; and no two of them are one device
  and something on it. A pool that lists its device by another name does not protect it
  (\<open>pools_listed_by_alias_protect_nothing\<close>).
\<close>

theorem allowed_changes_take_only_free_devices:
  assumes "check_change view a = Ok ()" "path \<in> set (consumes a)"
  shows "\<exists>dev. find_device (sv_disks view) path = Some dev \<and> \<not> bd_read_only (own dev)
    \<and> (\<forall>c \<in> set (walk dev). bd_mountpoints (own c) = []
        \<and> (\<forall>array \<in> set (sv_arrays view). \<forall>m \<in> set (md_members array). mm_name m \<noteq> bd_name (own c))
        \<and> (\<forall>p \<in> set (sv_pools view). \<forall>v \<in> set (po_vdevs p). starts_with ''/'' (vd_name v) \<longrightarrow> vd_name v \<noteq> dev_path c)
        \<and> bd_part_type (own c) \<notin> Some ` set SYSTEM_PART_TYPES \<and> bd_fstype (own c) \<noteq> Some ''LVM2_member''
        \<and> (dev_path c = path \<or> bd_kind (own c) = ''part''))
    \<and> (\<forall>c \<in> set (drop 1 (walk dev)). dev_path c \<notin> set (consumes a))"
proof -
  have "device_free (sv_disks view) (view_held view) path" and no: "\<not> overlapping (sv_disks view) (consumes a)"
    using assms by (simp_all add: check_change_Ok list_all_iff)
  then obtain dev where dev: "find_device (sv_disks view) path = Some dev" "\<not> bd_read_only (own dev)"
    "list_all (\<lambda>c. unclaimed (view_held view) path (own c)) (walk dev)"
    by (auto simp: device_free_def split: option.splits)
  have "\<forall>c \<in> set (drop 1 (walk dev)). dev_path c \<notin> set (consumes a)"
    using no assms(2) dev(1) by (auto simp: overlapping_def list_ex_iff)
  then show ?thesis using dev unfolding list_all_iff unclaimed_view by blast
qed

lemma allowed_changes_take_only_free_devices_witness:
  "\<exists>dev. find_device demo_disks ''/dev/b'' = Some dev \<and> (\<forall>c \<in> set (walk dev). bd_mountpoints (own c) = [])"
proof -
  have "''/dev/b'' \<in> set (consumes (Partition ''/dev/b''))" by simp
  from allowed_changes_take_only_free_devices [OF demo_partition [OF disjI1 [OF refl]] this] show ?thesis
    by (auto simp: demo_view_def)
qed

section \<open>What a script erases\<close>

lemma tool_words:
  assumes "plain_word tool" "plain_word flag" "ds \<noteq> []"
  shows "sh_words (tool @ '' '' @ flag @ '' '' @ quoted_list ds) = Some (tool # flag # ds)"
proof -
  have "list_all2 spells (tool # flag # map shell_quote_unix ds) (tool # flag # ds)"
    using assms by (intro list.rel_intros spells_plain) (simp_all add: list_all2_conv_all_nth spells_quote)
  from sh_words_join [OF this] show ?thesis using assms(3) by (simp add: quoted_list_def join_Cons)
qed

lemma wipe_words: "ds \<noteq> [] \<Longrightarrow> sh_words (wipe ds) = Some (''wipefs'' # ''-a'' # ds)"
proof -
  have "plain_word ''wipefs''" "plain_word ''-a''"
    by (simp_all add: plain_word_def sh_plain_def is_ascii_alphanumeric_def is_ascii_lower_def is_ascii_upper_def)
  then show "ds \<noteq> [] \<Longrightarrow> sh_words (wipe ds) = Some (''wipefs'' # ''-a'' # ds)"
    using tool_words [of "''wipefs''" "''-a''" ds] by (simp add: wipe_def)
qed

text \<open>
  The commands that take the signatures off a device: \<open>wipefs\<close> and
  \<open>mdadm --zero-superblock\<close>, as often as a script has them among its words.
\<close>

definition erasing :: "string \<Rightarrow> bool" where
  "erasing w \<longleftrightarrow> w = ''wipefs'' \<or> w = ''--zero-superblock''"

definition erasing_words :: "string \<Rightarrow> string list" where
  "erasing_words script = filter erasing (split_on (CHR '' '') script)"

text \<open>The same, one character after the other, with the word begun so far.\<close>

fun erasing_from :: "string \<Rightarrow> string \<Rightarrow> string list" where
  "erasing_from w [] = (if erasing w then [w] else [])"
| "erasing_from w (c # cs) =
     (if c = CHR '' '' then (if erasing w then [w] else []) @ erasing_from [] cs else erasing_from (w @ [c]) cs)"

lemma erasing_from_split:
  "erasing_from w s = filter erasing ((w @ hd (split_on (CHR '' '') s)) # tl (split_on (CHR '' '') s))"
proof (induction s arbitrary: w)
  case (Cons c s)
  then show ?case using split_on_not_Nil [of "CHR '' ''" s] by (cases "split_on (CHR '' '') s") auto
qed simp

lemma erasing_words_from: "erasing_words s = erasing_from [] s"
  using erasing_from_split [of "[]" s] split_on_not_Nil [of "CHR '' ''" s]
  by (cases "split_on (CHR '' '') s") (simp_all add: erasing_words_def)

lemma erasing_from_append: "CHR '' '' \<notin> set x \<Longrightarrow> erasing_from w (x @ s) = erasing_from (w @ x) s"
  by (induction x arbitrary: w) auto

lemma erasing_from_end: "CHR '' '' \<notin> set x \<Longrightarrow> erasing_from w x = (if erasing (w @ x) then [w @ x] else [])"
  using erasing_from_append [of x w "[]"] by simp

text \<open>A word that starts otherwise than those two is none of them.\<close>

lemma not_erasing: "c \<noteq> CHR ''w'' \<Longrightarrow> c \<noteq> CHR ''-'' \<Longrightarrow> \<not> erasing (c # w)"
  by (simp add: erasing_def)

definition quote_rest :: "string \<Rightarrow> string" where
  "quote_rest s = tl (shell_quote_unix s)"

lemma quote_split: "shell_quote_unix s = CHR 0x27 # quote_rest s"
  by (simp add: quote_rest_def shell_quote_unix_def)

lemma quote_spaceless: "CHR '' '' \<notin> set s \<Longrightarrow> CHR '' '' \<notin> set (quote_rest s)"
  by (auto simp: quote_rest_def shell_quote_unix_def replace_char_def split: if_splits)

lemma quoted_list_erases:
  "ds \<noteq> [] \<Longrightarrow> \<forall>d \<in> set ds. CHR '' '' \<notin> set d \<Longrightarrow>
     \<exists>x. erasing_from [] (quoted_list ds @ s) = erasing_from (CHR 0x27 # x) s"
proof (induction ds)
  case (Cons d ds)
  have q: "CHR '' '' \<notin> set (quote_rest d)" using Cons.prems(2) by (simp add: quote_spaceless)
  show ?case
  proof (cases ds)
    case Nil
    then show ?thesis using erasing_from_append [OF q, of "[CHR 0x27]" s]
      by (auto simp: quoted_list_def quote_split intro: exI [of _ "quote_rest d"])
  next
    case (Cons d' ds')
    have "erasing_from [] (quoted_list (d # ds) @ s) = erasing_from (CHR 0x27 # quote_rest d) (CHR '' '' # quoted_list ds @ s)"
      using erasing_from_append [OF q, of "[CHR 0x27]"] by (simp add: quoted_list_def quote_split Cons)
    also have "\<dots> = erasing_from [] (quoted_list ds @ s)" by (simp add: not_erasing)
    finally show ?thesis using Cons.IH Cons Cons.prems(2) by simp
  qed
qed simp

lemmas erase_defs = erasing_words_from and_then_def sq_def dq_def esc_n_def SETTLE_def MDADM_CONF_def luks_name_def
  quote_split

lemma spaceless_device: "device_ok d = Ok () \<Longrightarrow> CHR '' '' \<notin> set d"
  by (auto simp: device_ok_def strip_prefix_Some_iff list_all_iff is_ascii_alphanumeric_def is_ascii_digit_def
      is_ascii_lower_def is_ascii_upper_def split: option.splits if_splits)

lemma spaceless_md: "md_ok d = Ok () \<Longrightarrow> CHR '' '' \<notin> set d"
  by (auto simp: md_ok_def strip_prefix_Some_iff list_all_iff is_ascii_digit_def split: option.splits if_splits)

lemma spaceless_pool: "pool_ok d = Ok () \<Longrightarrow> CHR '' '' \<notin> set d"
  by (auto simp: pool_ok_def list_all_iff is_ascii_alphanumeric_def is_ascii_digit_def
      is_ascii_lower_def is_ascii_upper_def split: option.splits if_splits)

lemma trim_end_char_set: "set (trim_end_char c s) \<subseteq> set s"
  by (auto simp: trim_end_char_def dest: set_dropWhileD)

lemma spaceless_mountpoint: "mountpoint_ok d = Ok () \<Longrightarrow> CHR '' '' \<notin> set (trim_end_char (CHR ''/'') d)"
  by (auto simp: mountpoint_ok_def list_all_iff is_ascii_alphanumeric_def is_ascii_digit_def
      is_ascii_lower_def is_ascii_upper_def Let_def split: option.splits if_splits)

lemma each_ok_Ok: "each_ok f xs = Ok () \<longleftrightarrow> (\<forall>x \<in> set xs. f x = Ok ())"
  by (induction xs) (auto split: sum.split)

lemma spaceless_devices: "each_ok device_ok ds = Ok () \<Longrightarrow> \<forall>d \<in> set ds. CHR '' '' \<notin> set d"
  using spaceless_device by (simp add: each_ok_Ok)

lemma spaceless_nat: "CHR '' '' \<notin> set (show_nat n)"
  using show_nat_chars [of "CHR '' ''" n] by (auto simp: is_ascii_digit_def)

lemma erases_unmount: "CHR '' '' \<notin> set (trim_end_char (CHR ''/'') m) \<Longrightarrow> erasing_words (unmount_script m) = []"
  using quote_spaceless [of "trim_end_char (CHR ''/'') m"]
  by (simp add: erase_defs unmount_script_def erasing_from_append erasing_from_end erasing_def)

lemma erases_delete_raid: "CHR '' '' \<notin> set a \<Longrightarrow> erasing_words (delete_raid_script a) = [''--zero-superblock'']"
  by (simp add: erase_defs delete_raid_script_def erasing_from_append erasing_from_end erasing_def)

lemma erases_mount:
  assumes "CHR '' '' \<notin> set d" "CHR '' '' \<notin> set (trim_end_char (CHR ''/'') m)"
  shows "erasing_words (mount_script d m persist own_it) = []"
proof -
  note q = quote_spaceless [OF assms(1)] quote_spaceless [OF assms(2)]
  show ?thesis
    using q by (cases persist; cases own_it)
      (simp_all add: erase_defs mount_script_def Let_def erasing_from_append erasing_from_end erasing_def)
qed

lemma erases_grow_raid:
  "CHR '' '' \<notin> set a \<Longrightarrow> CHR '' '' \<notin> set d \<Longrightarrow> erasing_words (grow_raid_script a d) = [''--zero-superblock'']"
  using quote_spaceless [of d]
  by (simp add: erase_defs grow_raid_script_def zero_superblock_def erasing_from_append erasing_from_end erasing_def)

lemma erases_expand: "CHR '' '' \<notin> set d \<Longrightarrow> erasing_words (expand_script d) = []"
  using quote_spaceless [of d]
  by (simp add: erase_defs expand_script_def Let_def erasing_from_append erasing_from_end erasing_def)

lemma erases_grow_partition: "CHR '' '' \<notin> set d \<Longrightarrow> erasing_words (grow_partition_script d) = []"
  using quote_spaceless [of d]
  by (simp add: erase_defs grow_partition_script_def erasing_from_append erasing_from_end erasing_def)

text \<open>How the sources write a key file: quoted, or the variable that holds its name.\<close>

definition key_word :: "string \<Rightarrow> bool" where
  "key_word k \<longleftrightarrow> k = dq ''$k'' \<or> (\<exists>f. k = shell_quote_unix f \<and> CHR '' '' \<notin> set f)"

lemma key_word_split: "key_word k \<Longrightarrow> \<exists>c x. k = c # x \<and> c \<in> {CHR 0x22, CHR 0x27} \<and> CHR '' '' \<notin> set x"
proof -
  assume "key_word k"
  then consider "k = CHR 0x22 # ''$k'' @ [CHR 0x22]" | f where "k = CHR 0x27 # quote_rest f" "CHR '' '' \<notin> set f"
    unfolding key_word_def dq_def quote_split by auto
  then show ?thesis
  proof cases
    case 2
    then show ?thesis using quote_spaceless by blast
  qed simp
qed

lemma spaceless_label: "\<not> label_wrong (Some l) \<Longrightarrow> CHR '' '' \<notin> set l"
  by (auto simp: label_wrong_def list_all_iff is_ascii_alphanumeric_def is_ascii_digit_def
      is_ascii_lower_def is_ascii_upper_def)

lemma erases_mkfs:
  assumes "CHR '' '' \<notin> set fstype" "\<not> label_wrong label"
  defines "mk \<equiv> ''mkfs.'' @ fstype @ (if fstype = ''ext4'' then '' -F'' else '' -f'')
      @ (case label of None \<Rightarrow> [] | Some l \<Rightarrow> '' -L '' @ shell_quote_unix l) @ '' ''"
  shows "erasing_from [] (mk @ s) = erasing_from [] s"
proof -
  have l: "CHR '' '' \<notin> set (quote_rest l)" if "label = Some l" for l
    using that assms(2) by (simp add: quote_spaceless spaceless_label)
  show ?thesis
    using assms(1) l unfolding mk_def
    by (cases "fstype = ''ext4''"; cases label) (simp_all add: quote_split erasing_from_append erasing_def)
qed

lemma erases_format:
  assumes "CHR '' '' \<notin> set d" "fstype \<in> set FILESYSTEMS" "\<not> label_wrong label" "encrypt \<longrightarrow> key_word key"
  shows "erasing_words (format_script d fstype label encrypt key) = [''wipefs'']"
proof -
  define mk where "mk = ''mkfs.'' @ fstype @ (if fstype = ''ext4'' then '' -F'' else '' -f'')
      @ (case label of None \<Rightarrow> [] | Some l \<Rightarrow> '' -L '' @ shell_quote_unix l) @ '' ''"
  have "CHR '' '' \<notin> set fstype" using assms(2) by (auto simp: FILESYSTEMS_def)
  then have mk: "erasing_from [] (mk @ s) = erasing_from [] s" for s
    unfolding mk_def by (rule erases_mkfs [OF _ assms(3)])
  have q: "CHR '' '' \<notin> set (quote_rest d)" by (rule quote_spaceless [OF assms(1)])
  have script: "format_script d fstype label encrypt key =
      (if encrypt
       then wipe [d] @ and_then @ ''cryptsetup luksFormat --batch-mode --type luks2 --key-file '' @ key @ '' '' @ shell_quote_unix d
         @ and_then @ ''name='' @ dq (''luks-$(cryptsetup luksUUID '' @ shell_quote_unix d @ '')'') @ and_then
         @ ''cryptsetup open --key-file '' @ key @ '' '' @ shell_quote_unix d @ '' '' @ dq ''$name'' @ and_then
         @ mk @ dq ''/dev/mapper/$name'' @ and_then @ SETTLE
       else wipe [d] @ and_then @ mk @ shell_quote_unix d @ and_then @ SETTLE)"
    by (simp only: format_script_def Let_def mk_def append_assoc)
  show ?thesis
  proof (cases encrypt)
    case True
    then obtain c x where k: "key = c # x" "c = CHR 0x22 \<or> c = CHR 0x27" "CHR '' '' \<notin> set x"
      using assms(4) key_word_split by blast
    have c: "c \<noteq> CHR '' ''" "c \<noteq> CHR ''w''" "c \<noteq> CHR ''-''" using k(2) by auto
    show ?thesis unfolding script
      by (simp add: True erase_defs wipe_def quoted_list_def k(1) k(3) c q mk erasing_from_append erasing_from_end erasing_def)
  next
    case False
    then show ?thesis unfolding script
      by (simp add: erase_defs wipe_def quoted_list_def q mk erasing_from_append erasing_from_end erasing_def)
  qed
qed

lemma erases_wiped:
  assumes "ds \<noteq> []" "\<forall>d \<in> set ds. CHR '' '' \<notin> set d"
  shows "erasing_words (wipe ds @ and_then @ s) = ''wipefs'' # erasing_from [] s"
proof -
  have "erasing_from [] (wipe ds @ and_then @ s) = ''wipefs'' # erasing_from [] (quoted_list ds @ and_then @ s)"
    by (simp add: wipe_def erasing_def)
  moreover obtain x where "erasing_from [] (quoted_list ds @ and_then @ s) = erasing_from (CHR 0x27 # x) (and_then @ s)"
    using quoted_list_erases [OF assms] by blast
  ultimately show ?thesis by (simp add: erasing_words_from and_then_def not_erasing)
qed

lemma quoted_list_end:
  "ds \<noteq> [] \<Longrightarrow> \<forall>d \<in> set ds. CHR '' '' \<notin> set d \<Longrightarrow> erasing_from [] (quoted_list ds) = []"
  using quoted_list_erases [of ds "[]"] by (auto simp: not_erasing)

lemma zero_superblock_words:
  "sh_words (''mdadm --zero-superblock '' @ shell_quote_unix d) = Some [''mdadm'', ''--zero-superblock'', d]"
proof -
  have "plain_word ''mdadm''" "plain_word ''--zero-superblock''"
    by (simp_all add: plain_word_def sh_plain_def is_ascii_alphanumeric_def is_ascii_lower_def is_ascii_upper_def)
  from tool_words [OF this, of "[d]"] show ?thesis by (simp add: quoted_list_def)
qed

lemma erases_vdevs:
  assumes "layout \<in> set POOL_LAYOUTS" "ds \<noteq> []" "\<forall>d \<in> set ds. CHR '' '' \<notin> set d"
  shows "erasing_from [] (vdev_word layout @ quoted_list ds) = []"
proof -
  have "erasing_from [] (vdev_word layout @ s) = erasing_from [] s" if "layout \<in> set POOL_LAYOUTS" for s
    using that unfolding POOL_LAYOUTS_def list.set insert_iff empty_iff
    by (elim disjE) (simp_all add: vdev_word_def erasing_def)
  then show ?thesis using assms quoted_list_end by simp
qed

text \<open>Everything a change erases: how its script has it.\<close>

fun wipes :: "StorageAction \<Rightarrow> bool" where
  "wipes (Partition _) = True"
| "wipes (Format _ _ _ _) = True"
| "wipes (ReplaceInPool _ _ _) = True"
| "wipes (AttachToPool _ _ _) = True"
| "wipes (AddSpare _ _) = True"
| "wipes _ = False"

fun zeroes :: "StorageAction \<Rightarrow> bool" where
  "zeroes (AddToRaid _ _) = True"
| "zeroes (GrowRaid _ _) = True"
| "zeroes _ = False"

lemma valid_consumes:
  assumes "validate_action a = Ok ()"
  shows "\<forall>d \<in> set (consumes a). CHR '' '' \<notin> set d" and "wipes a \<Longrightarrow> consumes a \<noteq> []"
proof -
  show "\<forall>d \<in> set (consumes a). CHR '' '' \<notin> set d"
    using assms spaceless_device spaceless_devices
    by (cases a) (auto simp: validate_pool_devices_def split: if_splits)
  show "wipes a \<Longrightarrow> consumes a \<noteq> []" using assms by (cases a rule: wipes.cases) auto
qed

lemma spaceless_join: "\<forall>d \<in> set ds. CHR '' '' \<notin> set d \<Longrightarrow> ds \<noteq> [] \<Longrightarrow>
    erasing_from [] (quoted_list ds @ and_then @ s) = erasing_from [] s"
  using quoted_list_erases [of ds "and_then @ s"] by (auto simp: and_then_def not_erasing erasing_def)

lemma erases_create_raid:
  assumes "CHR '' '' \<notin> set name" "ds \<noteq> []" "\<forall>d \<in> set ds. CHR '' '' \<notin> set d"
  shows "erasing_words (script_text key (CreateRaid name level ds)) = []"
  by (simp add: erase_defs(1) assms(1) spaceless_nat erasing_from_append erasing_def spaceless_join [OF assms(3,2)])
    (simp add: MDADM_CONF_def dq_def assms(1) erasing_from_append erasing_from_end erasing_def)

lemma erases_nothing:
  assumes "validate_action a = Ok ()" "\<not> wipes a" "\<not> zeroes a" "\<nexists>array. a = DeleteRaid array" "needs_key a \<longrightarrow> key_word key"
  shows "erasing_words (script_text key a) = []"
proof (cases a)
  case (Mount d m persist own_it)
  then show ?thesis using assms(1) by (simp add: erases_mount spaceless_device spaceless_mountpoint)
next
  case (Unmount m)
  then show ?thesis using assms(1) by (simp add: erases_unmount spaceless_mountpoint)
next
  case (CreateRaid name level ds)
  then have "ds \<noteq> []" using assms(1) by (auto simp: raid_minimum_def ok_unless_def split: if_splits)
  moreover have "\<forall>d \<in> set ds. CHR '' '' \<notin> set d" using valid_consumes(1) [OF assms(1)] CreateRaid by simp
  ultimately show ?thesis using assms(1) erases_create_raid [of name ds key level] by (simp add: CreateRaid spaceless_md)
next
  case (CreatePool name layout ds)
  then have v: "layout \<in> set POOL_LAYOUTS" "ds \<noteq> []" "CHR '' '' \<notin> set (quote_rest name)"
    using assms(1) by (auto simp: validate_pool_devices_def pool_minimum_def ok_unless_def quote_spaceless spaceless_pool split: if_splits)
  have "\<forall>d \<in> set ds. CHR '' '' \<notin> set d" using valid_consumes(1) [OF assms(1)] CreatePool by simp
  then show ?thesis using v
    by (simp add: CreatePool erasing_words_from quote_split erasing_from_append erasing_def) (simp add: erases_vdevs)
next
  case (AddToPool name layout ds)
  then have v: "layout \<in> set POOL_LAYOUTS" "ds \<noteq> []" "CHR '' '' \<notin> set (quote_rest name)"
    using assms(1) by (auto simp: validate_pool_devices_def pool_minimum_def ok_unless_def quote_spaceless spaceless_pool split: if_splits)
  have "\<forall>d \<in> set ds. CHR '' '' \<notin> set d" using valid_consumes(1) [OF assms(1)] AddToPool by simp
  then show ?thesis using v
    by (simp add: AddToPool erasing_words_from quote_split erasing_from_append erasing_def) (simp add: erases_vdevs)
next
  case (RemoveFromRaid array d)
  then show ?thesis using assms(1)
    by (simp add: erase_defs spaceless_md quote_spaceless spaceless_device erasing_from_append erasing_from_end erasing_def)
next
  case (ScrubPool name)
  then show ?thesis using assms(1)
    by (simp add: erase_defs quote_spaceless spaceless_pool erasing_from_append erasing_from_end erasing_def)
next
  case (DestroyPool name)
  then show ?thesis using assms(1)
    by (simp add: erase_defs quote_spaceless spaceless_pool erasing_from_append erasing_from_end erasing_def)
next
  case (SmartTest d long)
  then show ?thesis using assms(1)
    by (simp add: erase_defs quote_spaceless spaceless_device erasing_from_append erasing_from_end erasing_def)
next
  case (ExpandFilesystem d)
  then show ?thesis using assms(1) by (simp add: erases_expand spaceless_device)
next
  case (RemoveFromPool name d)
  then show ?thesis using assms(1)
    by (simp add: erase_defs quoted_list_def quote_spaceless spaceless_pool spaceless_device erasing_from_append erasing_from_end erasing_def)
next
  case (OnlineInPool name d)
  then show ?thesis using assms(1)
    by (simp add: erase_defs quoted_list_def quote_spaceless spaceless_pool spaceless_device erasing_from_append erasing_from_end erasing_def)
next
  case (GrowPartition d)
  then show ?thesis using assms(1) by (simp add: erases_grow_partition spaceless_device)
next
  case (Unlock d)
  then have d: "CHR '' '' \<notin> set (quote_rest d)" using assms(1) by (simp add: quote_spaceless spaceless_device)
  obtain c x where k: "key = c # x" "c = CHR 0x22 \<or> c = CHR 0x27" "CHR '' '' \<notin> set x"
    using assms(5) key_word_split [of key] Unlock by auto
  have c: "c \<noteq> CHR '' ''" "c \<noteq> CHR ''w''" "c \<noteq> CHR ''-''" using k(2) by auto
  show ?thesis by (simp add: Unlock erase_defs d k(1) k(3) c erasing_from_append erasing_from_end erasing_def)
next
  case (Lock d)
  then have d: "CHR '' '' \<notin> set (quote_rest d)" using assms(1) by (simp add: quote_spaceless spaceless_device)
  show ?thesis by (simp add: Lock erase_defs d erasing_from_append erasing_from_end erasing_def)
qed (use assms in simp_all)

lemma erases_wiping:
  assumes "validate_action a = Ok ()" "wipes a" "needs_key a \<longrightarrow> key_word key"
  shows "erasing_words (script_text key a) = [''wipefs''] \<and> (\<exists>rest. script_text key a = wipe (consumes a) @ and_then @ rest)"
proof
  note c = valid_consumes(1) [OF assms(1)] valid_consumes(2) [OF assms(1,2)]
  show "\<exists>rest. script_text key a = wipe (consumes a) @ and_then @ rest"
    using assms(2) by (cases a rule: wipes.cases) (auto simp: format_script_def Let_def)
  show "erasing_words (script_text key a) = [''wipefs'']"
  proof (cases a)
    case (Format d fstype label encrypt)
    then show ?thesis using assms(1,3)
      by (auto simp: ok_unless_def spaceless_device split: if_splits intro!: erases_format)
  next
    case (Partition d)
    then have "CHR '' '' \<notin> set (quote_rest d)" using c by (simp add: quote_spaceless)
    then show ?thesis using erases_wiped [OF c(2,1)] Partition
      by (simp add: erase_defs(2-) erasing_from_append erasing_from_end erasing_def)
  next
    case (ReplaceInPool name old new)
    then have "CHR '' '' \<notin> set (quote_rest name)" "CHR '' '' \<notin> set (quote_rest old)" "CHR '' '' \<notin> set (quote_rest new)"
      using assms(1) by (simp_all add: quote_spaceless spaceless_pool spaceless_device)
    then show ?thesis using erases_wiped [OF c(2,1)] ReplaceInPool
      by (simp add: erase_defs(2-) quoted_list_def erasing_from_append erasing_from_end erasing_def)
  next
    case (AttachToPool name old new)
    then have "CHR '' '' \<notin> set (quote_rest name)" "CHR '' '' \<notin> set (quote_rest old)" "CHR '' '' \<notin> set (quote_rest new)"
      using assms(1) by (simp_all add: quote_spaceless spaceless_pool spaceless_device)
    then show ?thesis using erases_wiped [OF c(2,1)] AttachToPool
      by (simp add: erase_defs(2-) quoted_list_def erasing_from_append erasing_from_end erasing_def)
  next
    case (AddSpare name ds)
    then have n: "CHR '' '' \<notin> set (quote_rest name)" using assms(1) by (simp add: quote_spaceless spaceless_pool)
    have "erasing_from [] (quoted_list ds) = []" using quoted_list_end c AddSpare by simp
    then show ?thesis using erases_wiped [OF c(2,1)] AddSpare n
      by (simp add: quote_split erasing_from_append erasing_def)
  qed (use assms(2) in simp_all)
qed

lemma erases_zeroing:
  assumes "validate_action a = Ok ()" "zeroes a"
  shows "\<exists>d before after. consumes a = [d] \<and> erasing_words (script_text key a) = [''--zero-superblock'']
    \<and> script_text key a = before @ (''mdadm --zero-superblock '' @ shell_quote_unix d) @ '' 2>/dev/null'' @ after"
proof (cases a)
  case (AddToRaid array d)
  then have n: "CHR '' '' \<notin> set array" "CHR '' '' \<notin> set (quote_rest d)"
    using assms(1) by (simp_all add: spaceless_md quote_spaceless spaceless_device)
  have "erasing_words (script_text key a) = [''--zero-superblock'']"
    by (simp add: AddToRaid zero_superblock_def erase_defs n erasing_from_append erasing_from_end erasing_def)
  moreover have "script_text key a = [] @ (''mdadm --zero-superblock '' @ shell_quote_unix d) @ '' 2>/dev/null''
      @ ''; mdadm --manage /dev/'' @ array @ '' --add '' @ shell_quote_unix d"
    by (simp add: AddToRaid zero_superblock_def)
  ultimately show ?thesis using AddToRaid by (metis consumes.simps(5))
next
  case (GrowRaid array d)
  then have "erasing_words (script_text key a) = [''--zero-superblock'']"
    using assms(1) by (simp add: erases_grow_raid spaceless_md spaceless_device)
  moreover have "script_text key a =
      (''n=$(mdadm --detail --export /dev/'' @ array @ '' | sed -n '' @ sq ''s/^MD_DEVICES=//p'' @ '')'' @ and_then
        @ ''[ -n '' @ dq ''$n'' @ '' ]'' @ and_then @ ''{ '')
      @ zero_superblock d @ (''; true; }'' @ and_then @ ''mdadm --manage /dev/'' @ array @ '' --add '' @ shell_quote_unix d
        @ and_then @ ''mdadm --grow /dev/'' @ array @ '' --raid-devices=$((n + 1))'')"
    unfolding GrowRaid script_text.simps grow_raid_script_def append_assoc by (rule refl)
  then have "\<exists>before after. script_text key a = before @ zero_superblock d @ after" by blast
  ultimately show ?thesis using GrowRaid by (auto simp: zero_superblock_def)
qed (use assms(2) in simp_all)

lemma script_keyed_text:
  "script_keyed a key = Ok s \<Longrightarrow> validate_action a = Ok () \<and> (\<exists>k. s = script_text k a \<and> (needs_key a \<longrightarrow> key = Some k))"
  by (auto simp: script_keyed_def split: sum.splits if_splits option.splits)

text \<open>
  C15. What a change erases was checked. Where the script of a change that was let through
  has a command that takes the signatures off devices, \<open>wipefs\<close> or
  \<open>mdadm --zero-superblock\<close>, it has one: \<open>wipefs -a\<close> is its first command, read by the
  shell with exactly the devices the check looked at, and the next command runs only if it
  succeeded; \<open>mdadm --zero-superblock\<close> is read with the one device the check looked at; and
  each of those devices is one the check found free. The one exception is deleting an
  array, whose script zeroes the members mdadm names of the array it has stopped.
\<close>

theorem what_is_wiped_was_checked:
  assumes "check_change view a = Ok ()" "script_keyed a key = Ok script" "\<forall>k. key = Some k \<longrightarrow> key_word k"
  shows "(\<forall>path \<in> set (consumes a). device_free (sv_disks view) (view_held view) path)
    \<and> (erasing_words script = []
     \<or> (erasing_words script = [''wipefs''] \<and> (\<exists>command rest. script = command @ '' && '' @ rest
          \<and> sh_words command = Some (''wipefs'' # ''-a'' # consumes a)))
     \<or> (erasing_words script = [''--zero-superblock''] \<and> (\<exists>before command after.
          script = before @ command @ '' 2>/dev/null'' @ after
          \<and> sh_words command = Some (''mdadm'' # ''--zero-superblock'' # consumes a)))
     \<or> (\<exists>array. a = DeleteRaid array \<and> script = delete_raid_script array))"
proof -
  obtain k where script: "script = script_text k a" and valid: "validate_action a = Ok ()"
    and key: "needs_key a \<longrightarrow> key_word k"
    using script_keyed_text [OF assms(2)] assms(3) by blast
  have free: "\<forall>path \<in> set (consumes a). device_free (sv_disks view) (view_held view) path"
    using assms(1) by (simp add: check_change_Ok list_all_iff)
  consider "wipes a" | "zeroes a" | array where "a = DeleteRaid array"
    | "\<not> wipes a" "\<not> zeroes a" "\<nexists>array. a = DeleteRaid array" by blast
  then show ?thesis
  proof cases
    case 1
    then show ?thesis using erases_wiping [OF valid 1 key] wipe_words [OF valid_consumes(2) [OF valid 1]] free
      unfolding script and_then_def by metis
  next
    case 2
    obtain d before after where "consumes a = [d]" "erasing_words script = [''--zero-superblock'']"
      "script = before @ (''mdadm --zero-superblock '' @ shell_quote_unix d) @ '' 2>/dev/null'' @ after"
      using erases_zeroing [OF valid 2, of k] unfolding script by blast
    then show ?thesis using free zero_superblock_words [of d] by metis
  next
    case 3
    then show ?thesis using free by (simp add: script)
  next
    case 4
    then show ?thesis using free erases_nothing [OF valid 4 key] by (simp add: script)
  qed
qed

lemma what_is_wiped_was_checked_witness:
  "\<exists>script. action_script (Partition ''/dev/b'') = Ok script \<and> erasing_words script = [''wipefs'']
     \<and> (\<exists>command rest. script = command @ '' && '' @ rest \<and> sh_words command = Some [''wipefs'', ''-a'', ''/dev/b''])"
proof -
  have run: "script_keyed (Partition ''/dev/b'') None = Ok (script_text [] (Partition ''/dev/b''))"
    by (simp add: script_keyed_def demo_device_ok)
  have "erasing_words (script_text [] (Partition ''/dev/b'')) = [''wipefs'']"
    using erases_wiping [of "Partition ''/dev/b''"] by (simp add: demo_device_ok del: script_text.simps)
  with what_is_wiped_was_checked [OF demo_partition run, of "[]"] run show ?thesis
    by (auto simp: action_script_def script_with_key_def simp del: script_text.simps)
qed

section \<open>What the page offers\<close>

lemma hm_get_insert_all_same:
  "(\<And>j v. (j, v) \<in> set es \<Longrightarrow> f j = Some v) \<Longrightarrow>
     hm_get (foldl (\<lambda>m (j, v). hm_insert j v m) m es) k = (if k \<in> fst ` set es then f k else hm_get m k)"
proof (induction es arbitrary: m)
  case (Cons e es)
  obtain j w where e: "e = (j, w)" by (cases e)
  have j: "f j = Some w" using Cons.prems e by simp
  have "hm_get (foldl (\<lambda>m (j, v). hm_insert j v m) (hm_insert j w m) es) k =
      (if k \<in> fst ` set es then f k else hm_get (hm_insert j w m) k)"
    using Cons.IH Cons.prems by simp
  then show ?case using j by (auto simp: e)
qed simp


lemma busy_of_get:
  assumes "path \<in> dev_path ` set (walk_all disks)"
  shows "hm_get (busy_of disks held) path = in_use disks path held"
proof -
  let ?es = "List.map_filter (\<lambda>d. map_option (\<lambda>why. (dev_path d, why)) (in_use disks (dev_path d) held)) (walk_all disks)"
  have "(j, v) \<in> set ?es \<Longrightarrow> in_use disks j held = Some v" for j v
    by (auto simp: set_map_filter_eq simp del: set_concat)
  then have "hm_get (busy_of disks held) path = (if path \<in> fst ` set ?es then in_use disks path held else None)"
    unfolding busy_of_def by (subst hm_get_insert_all_same [where f = "\<lambda>j. in_use disks j held"]) auto
  moreover have "in_use disks path held = None" if "path \<notin> fst ` set ?es"
    using that assms by (cases "in_use disks path held") (force simp: set_map_filter_eq simp del: set_concat)+
  ultimately show ?thesis by simp
qed

definition offered_kind :: "BlockDevice list \<Rightarrow> string \<Rightarrow> bool" where
  "offered_kind disks path \<longleftrightarrow>
     list_ex (\<lambda>d. dev_path d = path \<and> bd_kind (own d) \<in> set [''disk'', ''part'', ''loop''] \<and> bd_size (own d) > 0)
       (walk_all (filter (\<lambda>d. is_disk (own d)) disks))"

lemma walk_all_filter: "d \<in> set (walk_all (filter P disks)) \<Longrightarrow> d \<in> set (walk_all disks)"
  by auto

lemma free_devices_iff:
  "path \<in> set (free_devices disks (busy_of disks held)) \<longleftrightarrow> offered_kind disks path \<and> device_free disks held path"
proof -
  have get: "hm_get (busy_of disks held) (dev_path d) = in_use disks (dev_path d) held"
    if "d \<in> set (walk_all (filter P disks))" for d P
    by (rule busy_of_get) (rule imageI [OF walk_all_filter [OF that]])
  define D where "D = set (walk_all (filter (\<lambda>d. is_disk (own d)) disks))"
  define K where "K d \<longleftrightarrow> bd_kind (own d) \<in> set [''disk'', ''part'', ''loop''] \<and> bd_size (own d) > 0" for d
  have "path \<in> set (free_devices disks (busy_of disks held)) \<longleftrightarrow>
      path \<in> dev_path ` {d \<in> D. K d \<and> hm_get (busy_of disks held) (dev_path d) = None}"
    unfolding free_devices_def set_map set_filter D_def K_def by (simp only: conj_assoc)
  also have "\<dots> \<longleftrightarrow> path \<in> dev_path ` {d \<in> D. K d \<and> in_use disks (dev_path d) held = None}"
    using get by (simp add: D_def cong: conj_cong)
  also have "\<dots> \<longleftrightarrow> (\<exists>d \<in> D. dev_path d = path \<and> K d) \<and> device_free disks held path"
    unfolding in_use_None [symmetric] by auto
  finally show ?thesis unfolding offered_kind_def list_ex_iff D_def K_def .
qed


text \<open>One device of the tree is under another.\<close>

definition holds :: "BlockDevice list \<Rightarrow> string \<Rightarrow> string \<Rightarrow> bool" where
  "holds disks p q \<longleftrightarrow> (case find_device disks p of None \<Rightarrow> False
     | Some d \<Rightarrow> q \<in> dev_path ` set (drop 1 (walk d)))"

lemma overlapping_iff: "overlapping disks ps \<longleftrightarrow> (\<exists>p \<in> set ps. \<exists>q \<in> set ps. holds disks p q)"
  by (force simp: overlapping_def holds_def list_ex_iff split: option.splits)

lemma overlaps_of_get:
  "unwrap_or [] (hm_get (overlaps_of disks free) p) =
     (if p \<in> set free then filter (\<lambda>q. q \<noteq> p \<and> overlapping disks [p, q]) free else [])"
proof -
  let ?f = "\<lambda>a. filter (\<lambda>b. b \<noteq> a \<and> overlapping disks [a, b]) free"
  let ?es = "filter (\<lambda>(_, others). others \<noteq> []) (map (\<lambda>a. (a, ?f a)) free)"
  have "hm_get (overlaps_of disks free) p = (if p \<in> fst ` set ?es then Some (?f p) else None)"
    unfolding overlaps_of_def by (subst hm_get_insert_all_same [where f = "\<lambda>j. Some (?f j)"]) auto
  moreover have "p \<in> fst ` set ?es \<longleftrightarrow> p \<in> set free \<and> ?f p \<noteq> []"
    by (force simp: image_def)
  ultimately show ?thesis by (simp add: unwrap_or_def)
qed

lemma parse_view_parts:
  assumes "parse_view from_str permille_of out = Some view"
  shows "sv_free view = free_devices (sv_disks view) (busy_of (sv_disks view) (view_held view))"
    "sv_overlaps view = overlaps_of (sv_disks view) (sv_free view)"
  using assms by (auto simp: parse_view_def view_held_def Let_def split: sum.splits)

text \<open>
  C16. What the page offers is what the check takes. Where a change asks for devices of
  a kind the page lists, and no device stands below itself in the tree, the change is
  let through exactly when it is well formed, passes what its own kind asks, takes only
  devices of the view's free list, and no two of them that the view says overlap.
\<close>

theorem offer_is_what_the_check_takes:
  assumes "parse_view from_str permille_of out = Some view"
    and "\<forall>p \<in> set (consumes a). offered_kind (sv_disks view) p \<and> \<not> overlapping (sv_disks view) [p]"
  shows "check_change view a = Ok () \<longleftrightarrow>
    validate_action a = Ok () \<and> check_kind view a = Ok () \<and> set (consumes a) \<subseteq> set (sv_free view)
    \<and> (\<forall>p \<in> set (consumes a). \<forall>q \<in> set (consumes a). q \<notin> set (unwrap_or [] (hm_get (sv_overlaps view) p)))"
proof -
  note parts = parse_view_parts [OF assms(1)]
  have free: "set (consumes a) \<subseteq> set (sv_free view) \<longleftrightarrow>
      list_all (device_free (sv_disks view) (view_held view)) (consumes a)"
    using assms(2) by (auto simp: parts(1) free_devices_iff list_all_iff)
  have "\<not> overlapping (sv_disks view) (consumes a) \<longleftrightarrow> (\<forall>p \<in> set (consumes a). \<forall>q \<in> set (consumes a).
      q \<notin> set (unwrap_or [] (hm_get (sv_overlaps view) p)))"
    if "set (consumes a) \<subseteq> set (sv_free view)"
    using that assms(2) by (auto simp: parts(2) overlaps_of_get overlapping_iff) (metis subsetD)
  then show ?thesis unfolding check_change_Ok free [symmetric] by blast
qed


definition demo_value :: Value where
  "demo_value = Object [(''name'', Text ''b''), (''type'', Text ''disk''), (''size'', Number (PosInt 8))]"

definition demo_lsblk :: "string \<Rightarrow> (string, Value) result" where
  "demo_lsblk _ = Ok (Object [(''blockdevices'', Array [demo_value])])"

lemma demo_trimmed: "trim ''b'' = ''b''" "trim ''disk'' = ''disk''"
  by (simp_all add: trim_def trim_start_def trim_end_def is_whitespace_def)

lemma demo_at: "value_at demo_value ''name'' = Text ''b''" "value_at demo_value ''type'' = Text ''disk''"
  "value_at demo_value ''size'' = Number (PosInt 8)" "value_at demo_value ''path'' = Null" "value_at demo_value ''ro'' = Null"
  "value_at demo_value ''mountpoints'' = Null" "value_at demo_value ''mountpoint'' = Null"
  "value_at demo_value ''parttype'' = Null" "value_at demo_value ''fstype'' = Null" "value_at demo_value ''children'' = Null"
  by (simp_all add: demo_value_def value_at_def value_get_def)

lemma demo_fields_of:
  "bd_path (device_fields demo_value ''b'') = ''/dev/b''" "bd_kind (device_fields demo_value ''b'') = ''disk''"
  "bd_size (device_fields demo_value ''b'') = 8" "\<not> bd_read_only (device_fields demo_value ''b'')"
  "bd_mountpoints (device_fields demo_value ''b'') = []" "bd_part_type (device_fields demo_value ''b'') = None"
  "bd_fstype (device_fields demo_value ''b'') = None"
  by (simp_all add: device_fields_def Let_def demo_at demo_trimmed unwrap_or_def)

lemma demo_device: "device_of demo_value = Some (BlockDevice (device_fields demo_value ''b'') [])"
  by (simp add: device_of.simps demo_at demo_trimmed)

lemma demo_parse: "\<exists>view d. parse_view demo_lsblk (\<lambda>_. None) [] = Some view \<and> sv_disks view = [BlockDevice d []]
    \<and> view_held view = \<lparr>hd_md_members = [], hd_pool_devices = []\<rparr> \<and> bd_path d = ''/dev/b'' \<and> bd_kind d = ''disk''
    \<and> bd_size d = 8 \<and> \<not> bd_read_only d \<and> bd_mountpoints d = [] \<and> bd_part_type d = None \<and> bd_fstype d = None"
proof -
  have lines: "str_lines [] = []" by (simp add: str_lines_def)
  have "parse_lsblk demo_lsblk s = [BlockDevice (device_fields demo_value ''b'') []]" for s
    by (simp add: parse_lsblk_def demo_lsblk_def block_devices_def value_at_def value_get_def demo_device)
  then have "\<exists>view. parse_view demo_lsblk (\<lambda>_. None) [] = Some view
      \<and> sv_disks view = [BlockDevice (device_fields demo_value ''b'') []]
      \<and> view_held view = \<lparr>hd_md_members = [], hd_pool_devices = []\<rparr>"
    by (simp add: parse_view_def lines Let_def unwrap_or_def demo_lsblk_def [of "[]"] parse_mdstat_def
      parse_zpool_list_def view_held_def held_of_def)
  then show ?thesis using demo_fields_of by blast
qed
lemma offer_is_what_the_check_takes_witness:
  "\<exists>view. parse_view demo_lsblk (\<lambda>_. None) [] = Some view \<and> check_change view (Partition ''/dev/b'') = Ok ()"
proof -
  obtain view d where v: "parse_view demo_lsblk (\<lambda>_. None) [] = Some view" "sv_disks view = [BlockDevice d []]"
    "view_held view = \<lparr>hd_md_members = [], hd_pool_devices = []\<rparr>" "bd_path d = ''/dev/b''" "bd_kind d = ''disk''"
    "bd_size d = 8" "\<not> bd_read_only d" "bd_mountpoints d = []" "bd_part_type d = None" "bd_fstype d = None"
    using demo_parse by blast
  have kind: "offered_kind (sv_disks view) ''/dev/b''" by (simp add: offered_kind_def is_disk_def v)
  have "device_free (sv_disks view) (view_held view) ''/dev/b''"
    by (simp add: device_free_def find_device_def unclaimed_def v)
  then have free: "''/dev/b'' \<in> set (sv_free view)"
    using kind by (simp add: parse_view_parts(1) [OF v(1)] free_devices_iff)
  have none: "\<not> overlapping (sv_disks view) [''/dev/b'']" by (simp add: overlapping_def find_device_def v)
  have "check_change view (Partition ''/dev/b'') = Ok ()"
    using none by (subst offer_is_what_the_check_takes [OF v(1)])
      (simp_all add: kind free demo_device_ok parse_view_parts(2) [OF v(1)] overlaps_of_get)
  then show ?thesis using v(1) by blast
qed

section \<open>Pools listed by alias\<close>

lemma walk_trans: "d \<in> set (walk c) \<Longrightarrow> c \<in> set (walk b) \<Longrightarrow> d \<in> set (walk b)"
  by (induction b rule: walk.induct) auto

lemma walk_in_walk_all: "find_device disks path = Some dev \<Longrightarrow> d \<in> set (walk dev) \<Longrightarrow> d \<in> set (walk_all disks)"
  by (drule find_device_path) (auto intro: walk_trans)

lemma device_free_cong:
  assumes "hd_md_members held = hd_md_members held'"
    and "\<And>d. d \<in> set (walk_all disks) \<Longrightarrow> dev_path d \<in> set (hd_pool_devices held) \<longleftrightarrow> dev_path d \<in> set (hd_pool_devices held')"
  shows "device_free disks held path = device_free disks held' path"
  unfolding device_free_def unclaimed_def list_all_iff
  using assms walk_in_walk_all [of disks path] by (auto split: option.split)

fun about_pool_members :: "StorageAction \<Rightarrow> bool" where
  "about_pool_members (RemoveFromPool _ _) = True"
| "about_pool_members _ = False"

lemma check_kind_pools:
  "\<not> about_pool_members a \<Longrightarrow> check_kind (view\<lparr>sv_pools := ps\<rparr>) a = check_kind view a"
  by (cases a) auto

text \<open>
  C38. A pool protects only devices it lists under the name \<open>lsblk\<close> gives. Where every device
  of every pool is listed by another name, as a pool built from \<open>/dev/disk/by-id\<close> is, the
  check lets a change through exactly when it would on a machine with no pool at all, for
  every change but taking a device out of a pool, which is checked against the pool itself.
\<close>

theorem pools_listed_by_alias_protect_nothing:
  assumes "\<forall>p \<in> set (sv_pools view). \<forall>v \<in> set (po_vdevs p). \<forall>d \<in> set (walk_all (sv_disks view)).
      vd_name v \<noteq> dev_path d"
    and "\<not> about_pool_members a"
  shows "check_change view a = Ok () \<longleftrightarrow> check_change (view\<lparr>sv_pools := []\<rparr>) a = Ok ()"
proof -
  have "device_free (sv_disks view) (view_held view) = device_free (sv_disks view) (view_held (view\<lparr>sv_pools := []\<rparr>))"
    using assms(1) by (intro ext device_free_cong) (auto simp: view_held_def held_of_def simp del: set_concat, fastforce)
  then show ?thesis using assms(2) by (simp add: check_change_Ok check_kind_pools)
qed

lemma pools_listed_by_alias_protect_nothing_witness:
  "po_vdevs demo_pool \<noteq> [] \<and> check_change (demo_view [demo_pool]) (Partition ''/dev/b'') = Ok ()"
proof -
  have "\<forall>p \<in> set (sv_pools (demo_view [demo_pool])). \<forall>v \<in> set (po_vdevs p).
      \<forall>d \<in> set (walk_all (sv_disks (demo_view [demo_pool]))). vd_name v \<noteq> dev_path d"
    by (simp add: demo_view_def demo_pool_def demo_disks_def demo_fields_def)
  moreover have "(demo_view [demo_pool])\<lparr>sv_pools := []\<rparr> = demo_view []" by (simp add: demo_view_def)
  ultimately show ?thesis
    using pools_listed_by_alias_protect_nothing [of "demo_view [demo_pool]" "Partition ''/dev/b''"] demo_partition [of "[]"]
    by (simp add: demo_pool_def)
qed

section \<open>Where filesystems are mounted\<close>

definition own_trees :: "string list" where
  "own_trees = [''bin'', ''boot'', ''dev'', ''etc'', ''lib'', ''lib32'', ''lib64'', ''proc'', ''run'', ''sbin'', ''sys'', ''usr'']"

definition own_folders :: "string list" where
  "own_folders = [''bin'', ''boot'', ''dev'', ''etc'', ''home'', ''lib'', ''lib32'', ''lib64'', ''opt'', ''proc'', ''root'',
     ''run'', ''sbin'', ''srv'', ''sys'', ''tmp'', ''usr'', ''var'']"

lemma system_names:
  "SYSTEM_DIRS = ''/'' # map (\<lambda>n. CHR ''/'' # n) own_folders"
  "SYSTEM_TREES = map (\<lambda>n. CHR ''/'' # n @ ''/'') own_trees"
  by (simp_all add: SYSTEM_DIRS_def SYSTEM_TREES_def own_folders_def own_trees_def)

lemma own_trees_folders: "set own_trees \<subseteq> set own_folders"
  by (simp add: own_folders_def own_trees_def)

lemma own_no_slash: "n \<in> set own_folders \<Longrightarrow> CHR ''/'' \<notin> set n"
  unfolding own_folders_def by (simp only: set_simps insert_iff empty_iff) (elim disjE; simp)

definition slashed :: "string list \<Rightarrow> string" where
  "slashed names = concat (map (\<lambda>n. CHR ''/'' # n) names)"

lemma slashed_simps [simp]: "slashed [] = []" "slashed (n # ns) = CHR ''/'' # n @ slashed ns"
  by (simp_all add: slashed_def)

definition mount_char :: "char \<Rightarrow> bool" where
  "mount_char c \<longleftrightarrow> is_ascii_alphanumeric c \<or> c \<in> set ''_.-@+''"

definition mount_name :: "string \<Rightarrow> bool" where
  "mount_name n \<longleftrightarrow> n \<noteq> [] \<and> n \<noteq> ''.'' \<and> n \<noteq> ''..'' \<and> list_all mount_char n"

lemma mount_char_slash: "\<not> mount_char (CHR ''/'')"
  by (simp add: mount_char_def is_ascii_alphanumeric_def is_ascii_lower_def is_ascii_upper_def is_ascii_digit_def)

lemma mount_name_no_slash: "mount_name n \<Longrightarrow> CHR ''/'' \<notin> set n"
  using mount_char_slash by (auto simp: mount_name_def list_all_iff)

lemma slashed_join: "names \<noteq> [] \<Longrightarrow> slashed names = CHR ''/'' # join ''/'' names"
  by (induction names rule: induct_list012) auto

lemma slashed_split:
  "names \<noteq> [] \<Longrightarrow> \<forall>n \<in> set names. CHR ''/'' \<notin> set n \<Longrightarrow> split_on (CHR ''/'') (slashed names) = [] # names"
  by (simp add: slashed_join split_on_join)

lemma split_slashed: "split_on (CHR ''/'') s = [] # names \<Longrightarrow> names \<noteq> [] \<Longrightarrow> s = slashed names"
  by (metis append_Cons append_Nil join_Cons join_split_on slashed_join)

lemma slashed_one:
  "names \<noteq> [] \<Longrightarrow> \<forall>n \<in> set names. CHR ''/'' \<notin> set n \<Longrightarrow> CHR ''/'' \<notin> set m \<Longrightarrow>
     slashed names = CHR ''/'' # m \<longleftrightarrow> names = [m]"
  using slashed_split [of names] slashed_split [of "[m]"] by auto

lemma slashed_tree:
  assumes "\<forall>n \<in> set names. CHR ''/'' \<notin> set n" "CHR ''/'' \<notin> set m" "names \<noteq> []"
  shows "starts_with (CHR ''/'' # m @ ''/'') (slashed names) \<longleftrightarrow> hd names = m \<and> tl names \<noteq> []"
proof (cases names)
  case (Cons n ns)
  have "(\<exists>r. n @ slashed ns = m @ CHR ''/'' # r) \<longleftrightarrow> n = m \<and> ns \<noteq> []"
  proof (cases ns)
    case Nil
    then show ?thesis using assms(1) Cons by auto
  next
    case (Cons k ks)
    have "split_once (CHR ''/'') (n @ slashed ns) = Some (n, k @ slashed ks)"
      using assms(1) \<open>names = n # ns\<close> Cons by simp
    then show ?thesis using assms(2) Cons by (auto dest: arg_cong [of _ _ "split_once (CHR ''/'')"])
  qed
  then show ?thesis using Cons by (simp add: starts_with_iff)
qed (use assms in simp)


lemma mount_chars: "(is_ascii_alphanumeric c \<or> c \<in> set ''/_.-@+'') \<longleftrightarrow> mount_char c \<or> c = CHR ''/''"
  by (auto simp: mount_char_def)

lemma trim_end_char_iff: "trim_end_char c s = t \<longleftrightarrow> (\<exists>k. s = t @ replicate k c) \<and> (t = [] \<or> last t \<noteq> c)"
proof -
  have split: "s = trim_end_char c s @ replicate (length (takeWhile (\<lambda>x. x = c) (rev s))) c"
  proof -
    have "rev (takeWhile (\<lambda>x. x = c) (rev s)) = replicate (length (takeWhile (\<lambda>x. x = c) (rev s))) c"
      by (intro replicate_eqI) (auto dest: set_takeWhileD)
    then show ?thesis unfolding trim_end_char_def by (metis rev_append rev_rev_ident takeWhile_dropWhile_id)
  qed
  have last: "trim_end_char c s = [] \<or> last (trim_end_char c s) \<noteq> c"
    unfolding trim_end_char_def using hd_dropWhile [of "\<lambda>x. x = c" "rev s"] by (auto simp: last_rev)
  have "trim_end_char c (t @ replicate k c) = t" if "t = [] \<or> last t \<noteq> c" for k
    using that by (cases t rule: rev_cases) (auto simp: trim_end_char_def dropWhile_append)
  note again = this
  show ?thesis
  proof
    assume "trim_end_char c s = t"
    then show "(\<exists>k. s = t @ replicate k c) \<and> (t = [] \<or> last t \<noteq> c)" using split last by auto
  next
    assume "(\<exists>k. s = t @ replicate k c) \<and> (t = [] \<or> last t \<noteq> c)"
    then show "trim_end_char c s = t" using again by auto
  qed
qed

lemma slashed_last: "names \<noteq> [] \<Longrightarrow> list_all mount_name names \<Longrightarrow> slashed names \<noteq> [] \<and> last (slashed names) \<noteq> CHR ''/''"
proof (induction names)
  case (Cons n ns)
  have "last n \<noteq> CHR ''/''" "n \<noteq> []"
    using Cons.prems mount_name_no_slash [of n] by (simp_all add: mount_name_def) (metis last_in_set)
  then show ?case using Cons by (cases ns) auto
qed simp

lemma system_place_iff:
  assumes "names \<noteq> []" "\<forall>n \<in> set names. CHR ''/'' \<notin> set n" "list_all mount_name names"
  shows "(slashed names \<notin> set SYSTEM_DIRS \<and> \<not> list_ex (\<lambda>t. starts_with t (slashed names)) SYSTEM_TREES) \<longleftrightarrow>
    names \<notin> set (map (\<lambda>n. [n]) own_folders) \<and> hd names \<notin> set own_trees"
proof -
  obtain n ns where ns: "names = n # ns" using assms(1) by (cases names) auto
  then have "n \<noteq> []" using assms(3) by (simp add: mount_name_def)
  then have "slashed names \<noteq> ''/''" by (simp add: ns)
  moreover have "slashed names = CHR ''/'' # m \<longleftrightarrow> names = [m]" if "m \<in> set own_folders" for m
    using slashed_one [OF assms(1,2) own_no_slash [OF that]] .
  ultimately have "slashed names \<in> set SYSTEM_DIRS \<longleftrightarrow> names \<in> set (map (\<lambda>n. [n]) own_folders)"
    unfolding system_names by (auto simp: image_iff)
  moreover have "starts_with (CHR ''/'' # m @ ''/'') (slashed names) \<longleftrightarrow> hd names = m \<and> tl names \<noteq> []"
    if "m \<in> set own_trees" for m
    using slashed_tree [OF assms(2) own_no_slash [OF subsetD [OF own_trees_folders that]] assms(1)] .
  then have "list_ex (\<lambda>t. starts_with t (slashed names)) SYSTEM_TREES \<longleftrightarrow> hd names \<in> set own_trees \<and> tl names \<noteq> []"
    unfolding system_names list_ex_iff by auto
  moreover have "hd names \<in> set own_trees \<and> tl names = [] \<Longrightarrow> names \<in> set (map (\<lambda>n. [n]) own_folders)"
    using own_trees_folders by (auto simp: ns)
  ultimately show ?thesis by blast
qed

lemma mountpoint_ok_trimmed:
  "mountpoint_ok path = Ok () \<longleftrightarrow> (\<exists>names. trim_end_char (CHR ''/'') path = slashed names \<and> names \<noteq> []
     \<and> list_all mount_name names \<and> byte_len (slashed names) \<le> 256
     \<and> names \<notin> set (map (\<lambda>n. [n]) own_folders) \<and> hd names \<notin> set own_trees)"
  (is "_ \<longleftrightarrow> (\<exists>names. ?Q names)")
proof -
  define t where "t = trim_end_char (CHR ''/'') path"
  have ok: "mountpoint_ok path = Ok () \<longleftrightarrow> starts_with ''/'' t \<and> byte_len t \<le> 256
      \<and> (t \<notin> set SYSTEM_DIRS \<and> \<not> list_ex (\<lambda>s. starts_with s t) SYSTEM_TREES)
      \<and> \<not> list_ex dot_part (drop 1 (split_on (CHR ''/'') t)) \<and> list_all (\<lambda>c. mount_char c \<or> c = CHR ''/'') t"
    unfolding mountpoint_ok_def t_def [symmetric] Let_def mount_chars by auto
  show ?thesis
  proof
    assume m: "mountpoint_ok path = Ok ()"
    then obtain s where s: "t = CHR ''/'' # s" unfolding ok by (cases t) auto
    define names where "names = split_on (CHR ''/'') s"
    have "names \<noteq> []" by (simp add: names_def)
    have sp: "split_on (CHR ''/'') t = [] # names" by (simp add: s names_def)
    have t: "t = slashed names" using split_slashed [OF sp] \<open>names \<noteq> []\<close> .
    have no: "\<forall>n \<in> set names. CHR ''/'' \<notin> set n" unfolding names_def by (intro ballI) (rule split_on_parts)
    have "mount_name n" if n: "n \<in> set names" for n
    proof -
      have "\<not> dot_part n" using m n unfolding ok sp by (simp add: list_ex_iff)
      moreover have "set n \<subseteq> set t" using split_on_chars [of n "CHR ''/''" s] n by (auto simp: s names_def)
      then have "list_all mount_char n" using m no n unfolding ok list_all_iff by blast
      ultimately show ?thesis by (simp add: mount_name_def dot_part_def)
    qed
    then have all: "list_all mount_name names" by (simp add: list_all_iff)
    have "?Q names"
      using m system_place_iff [OF \<open>names \<noteq> []\<close> no all] \<open>names \<noteq> []\<close> all t unfolding ok t_def by metis
    then show "\<exists>names. ?Q names" by blast
  next
    assume "\<exists>names. ?Q names"
    then obtain names where q: "?Q names" by blast
    then have t: "t = slashed names" by (simp add: t_def)
    have no: "\<forall>n \<in> set names. CHR ''/'' \<notin> set n" using q mount_name_no_slash by (auto simp: list_all_iff)
    have "\<not> list_ex dot_part names" using q by (auto simp: list_ex_iff list_all_iff dot_part_def mount_name_def)
    moreover have "list_all (\<lambda>c. mount_char c \<or> c = CHR ''/'') (slashed names)"
      using q by (auto simp: slashed_def mount_name_def list_all_iff)
    moreover have "starts_with ''/'' (slashed names)" using q by (cases names) auto
    moreover have "drop 1 (split_on (CHR ''/'') (slashed names)) = names" using slashed_split q no by simp
    ultimately show "mountpoint_ok path = Ok ()"
      using q system_place_iff [of names] no unfolding ok t by simp
  qed
qed

text \<open>
  C17. A filesystem may be mounted exactly at a path that is one folder name after another,
  each spelled with letters, digits and \<open>_.-@+\<close> and not a dot name, of at most 256 bytes
  before its closing slashes, which is neither one of the system's own folders nor in one
  of the trees the system lives in.
\<close>

theorem mountpoints_are_outside_the_system:
  "mountpoint_ok path = Ok () \<longleftrightarrow> (\<exists>names k. path = slashed names @ replicate k (CHR ''/'') \<and> names \<noteq> []
     \<and> list_all mount_name names \<and> byte_len (slashed names) \<le> 256
     \<and> names \<notin> set (map (\<lambda>n. [n]) own_folders) \<and> hd names \<notin> set own_trees)"
proof -
  have "trim_end_char (CHR ''/'') path = slashed names \<longleftrightarrow> (\<exists>k. path = slashed names @ replicate k (CHR ''/''))"
    if "names \<noteq> []" "list_all mount_name names" for names
    using trim_end_char_iff [of "CHR ''/''" path "slashed names"] slashed_last [OF that] by auto
  then show ?thesis unfolding mountpoint_ok_trimmed by blast
qed

end
