(* ===== verification/Script_Output.thy ===== *)
theory Script_Output
  imports Prelude Shell Utf8 Common
begin

text \<open>
  What a status script prints and how it is read (\<open>crates/sbm_parser/src/script.rs\<close>): the
  markers that head each section, the sections themselves, the files custom commands are
  kept in and the listing an editor loads. Output and names are any Unicode text, so they
  are lists of scalar values. The two base64 engines of the \<open>base64\<close> crate are arguments.
\<close>

section \<open>Base64\<close>

record Base64 =
  b64_encode :: "nat list \<Rightarrow> string"
  b64_decode :: "string \<Rightarrow> nat list option"

text \<open>
  What the crate documents of an engine: it decodes what it encoded, and a text with a
  byte outside its alphabet is an error.
\<close>

definition is_base64 :: "string \<Rightarrow> Base64 \<Rightarrow> bool" where
  "is_base64 extra e \<longleftrightarrow>
     (\<forall>bs. list_all (\<lambda>b. b < 256) bs \<longrightarrow> b64_decode e (b64_encode e bs) = Some bs
        \<and> list_all (\<lambda>c. is_ascii_alphanumeric c \<or> c \<in> set extra) (b64_encode e bs))
     \<and> (\<forall>s bs. b64_decode e s = Some bs \<longrightarrow> list_all (\<lambda>c. is_ascii_alphanumeric c \<or> c \<in> set extra) s)"

abbreviation is_url_safe :: "Base64 \<Rightarrow> bool" where
  "is_url_safe \<equiv> is_base64 ''-_=''"

abbreviation is_standard :: "Base64 \<Rightarrow> bool" where
  "is_standard \<equiv> is_base64 ''+/=''"

text \<open>A text outside U+0000 to U+00FF has a byte outside every alphabet.\<close>

definition decode_text :: "Base64 \<Rightarrow> utext \<Rightarrow> nat list option" where
  "decode_text e t = (if list_all (\<lambda>c. c < 256) t then b64_decode e (map char_of t) else None)"

section \<open>Markers\<close>

definition SEPARATOR :: string where
  "SEPARATOR = ''SrvBoxSep''"

definition CUSTOM_CMD_SEPARATOR :: string where
  "CUSTOM_CMD_SEPARATOR = ''SrvBoxCusCmdSep''"

definition ENCODED_NAME_PREFIX :: string where
  "ENCODED_NAME_PREFIX = ''b64.''"

definition CUSTOM_CMD_DIR_MARKER :: string where
  "CUSTOM_CMD_DIR_MARKER = ''SrvBoxCusCmdDir''"

definition CUSTOM_CMD_DIR_END_MARKER :: string where
  "CUSTOM_CMD_DIR_END_MARKER = ''SrvBoxCusCmdDirEnd''"

definition CUSTOM_CMD_DIR_MISSING_MARKER :: string where
  "CUSTOM_CMD_DIR_MISSING_MARKER = ''SrvBoxCusCmdDirMissing''"

definition CUSTOM_CMD_OUTPUT_PREFIX :: string where
  "CUSTOM_CMD_OUTPUT_PREFIX = ''SrvBoxCusCmdOut.''"

definition encode_marker_name :: "Base64 \<Rightarrow> utext \<Rightarrow> string" where
  "encode_marker_name url name = b64_encode url (to_utf8 name)"

definition decode_marker_name :: "Base64 \<Rightarrow> utext \<Rightarrow> utext option" where
  "decode_marker_name url encoded =
     (case strip_prefix (uni ENCODED_NAME_PREFIX) encoded of None \<Rightarrow> None
      | Some rest \<Rightarrow> Option.bind (decode_text url rest) from_utf8)"

definition cmd_marker :: "Base64 \<Rightarrow> utext \<Rightarrow> string" where
  "cmd_marker url key = SEPARATOR @ ''.'' @ ENCODED_NAME_PREFIX @ encode_marker_name url key"

definition custom_cmd_marker :: "Base64 \<Rightarrow> utext \<Rightarrow> string" where
  "custom_cmd_marker url name = CUSTOM_CMD_SEPARATOR @ ''.'' @ ENCODED_NAME_PREFIX @ encode_marker_name url name"

definition custom_result_key :: "utext \<Rightarrow> utext" where
  "custom_result_key name = uni CUSTOM_CMD_SEPARATOR @ uni ''.'' @ name"

definition custom_result_name :: "utext \<Rightarrow> utext option" where
  "custom_result_name key =
     (case strip_prefix (uni CUSTOM_CMD_SEPARATOR) key of None \<Rightarrow> None
      | Some tail \<Rightarrow> (case strip_prefix (uni ''.'') tail of None \<Rightarrow> None
          | Some name \<Rightarrow> if name \<noteq> [] then Some name else None))"

section \<open>Reading the output\<close>

text \<open>\<open>s.match_indices(p)\<close>: where a non-empty \<open>p\<close> occurs, without overlap.\<close>

function match_indices :: "nat \<Rightarrow> 'a list \<Rightarrow> 'a list \<Rightarrow> nat list" where
  "match_indices at p s =
     (if p = [] then []
      else (case s of [] \<Rightarrow> []
        | c # cs \<Rightarrow> (case strip_prefix p s of
            Some rest \<Rightarrow> at # match_indices (at + length p) p rest
          | None \<Rightarrow> match_indices (at + 1) p cs)))"
  by pat_completeness auto
termination
proof (relation "measure (\<lambda>(_, _, s). length s)")
  fix at :: nat and p s :: "'a list" and c cs rest
  assume "p \<noteq> []" "s = c # cs" "strip_prefix p s = Some rest"
  then show "((at + length p, p, rest), (at, p, s)) \<in> measure (\<lambda>(_, _, s). length s)"
    using strip_prefix_Some_iff [of p s rest] by (cases p) auto
qed auto

declare match_indices.simps [simp del]

text \<open>Where a prefix begins a marker that decodes and runs to the end of the line.\<close>

definition find_marker :: "Base64 \<Rightarrow> utext \<Rightarrow> utext \<Rightarrow> (nat \<times> utext) option" where
  "find_marker url line prefix =
     find_map (\<lambda>at. map_option (\<lambda>name. (at, name)) (decode_marker_name url (drop (at + length prefix) line)))
       (match_indices 0 prefix line)"

definition sep_prefix :: utext where
  "sep_prefix = uni (SEPARATOR @ ''.'')"

definition custom_prefix :: utext where
  "custom_prefix = uni (CUSTOM_CMD_SEPARATOR @ ''.'')"

definition split_marker :: "Base64 \<Rightarrow> utext \<Rightarrow> bool \<Rightarrow> (utext \<times> utext) option" where
  "split_marker url line allow_builtin =
     (let builtin = (if allow_builtin then find_marker url line sep_prefix else None);
          custom = map_option (\<lambda>(at, name). (at, custom_result_key name)) (find_marker url line custom_prefix)
      in map_option (\<lambda>(at, key). (take at line, key))
           (case (builtin, custom) of
              (Some b, Some c) \<Rightarrow> Some (if fst b \<le> fst c then b else c)
            | (Some b, None) \<Rightarrow> Some b
            | (None, found) \<Rightarrow> found))"

record Segments =
  seg_current :: "utext option"
  seg_buf :: utext
  seg_result :: "(utext \<times> utext) list"

definition pop_char :: "nat \<Rightarrow> utext \<Rightarrow> utext" where
  "pop_char c s = (if s \<noteq> [] \<and> last s = c then butlast s else s)"

text \<open>What a section holds once its lines are in the buffer.\<close>

definition section_text :: "Base64 \<Rightarrow> utext \<Rightarrow> utext \<Rightarrow> utext" where
  "section_text std key buf =
     (let out = pop_char 13 (pop_char 10 buf) in
      if custom_result_name key \<noteq> None
      then (case strip_prefix (uni CUSTOM_CMD_OUTPUT_PREFIX) out of None \<Rightarrow> out
         | Some encoded \<Rightarrow> (case decode_text std encoded of None \<Rightarrow> out | Some bytes \<Rightarrow> from_utf8_lossy bytes))
      else out)"

definition flush_segment :: "Base64 \<Rightarrow> Segments \<Rightarrow> Segments" where
  "flush_segment std st =
     (case seg_current st of None \<Rightarrow> st
      | Some key \<Rightarrow> st\<lparr>seg_current := None, seg_buf := [],
          seg_result := seg_result st @ [(key, section_text std key (seg_buf st))]\<rparr>)"

definition segment_line :: "Base64 \<Rightarrow> Base64 \<Rightarrow> Segments \<Rightarrow> utext \<Rightarrow> Segments" where
  "segment_line url std st raw_line =
     (let line = uni_strip_cr raw_line;
          allow_builtin = (case seg_current st of None \<Rightarrow> True | Some key \<Rightarrow> custom_result_name key = None)
      in case split_marker url line allow_builtin of
           Some (leading, key) \<Rightarrow>
             (let st1 = (if leading \<noteq> [] \<and> seg_current st \<noteq> None
                then st\<lparr>seg_buf := seg_buf st @ leading @ [10]\<rparr> else st)
              in (flush_segment std st1)\<lparr>seg_current := Some key\<rparr>)
         | None \<Rightarrow> if seg_current st \<noteq> None then st\<lparr>seg_buf := seg_buf st @ line @ [10]\<rparr> else st)"

text \<open>\<open>s.split_terminator(c)\<close>: no last part when the text ends in \<open>c\<close>.\<close>

definition split_terminator :: "'a \<Rightarrow> 'a list \<Rightarrow> 'a list list" where
  "split_terminator c s = (let ps = split_on c s in if last ps = [] then butlast ps else ps)"

definition no_segments :: Segments where
  "no_segments = \<lparr>seg_current = None, seg_buf = [], seg_result = []\<rparr>"

definition parse_script_segments :: "Base64 \<Rightarrow> Base64 \<Rightarrow> utext \<Rightarrow> (utext \<times> utext) list" where
  "parse_script_segments url std raw =
     (if raw = [] then []
      else seg_result (flush_segment std
        (foldl (segment_line url std) no_segments (split_terminator 10 raw))))"

definition parse_script_output :: "Base64 \<Rightarrow> Base64 \<Rightarrow> utext \<Rightarrow> (utext, utext) hashmap" where
  "parse_script_output url std raw =
     foldl (\<lambda>m (k, v). if hm_get m k = None then hm_insert k v m else m) hm_empty (parse_script_segments url std raw)"

definition contains_script_segment :: "Base64 \<Rightarrow> utext \<Rightarrow> bool" where
  "contains_script_segment url raw \<longleftrightarrow>
     list_ex (\<lambda>line. split_marker url (uni_strip_cr line) True \<noteq> None) (split_on 10 raw)"

definition contains_status_segment :: "Base64 \<Rightarrow> Base64 \<Rightarrow> utext \<Rightarrow> bool" where
  "contains_status_segment url std raw \<longleftrightarrow>
     list_ex (\<lambda>(key, _). custom_result_name key = None) (parse_script_segments url std raw)"

section \<open>Custom commands\<close>

datatype SystemType = Linux | Bsd | Windows

definition CUSTOM_CMD_ORDER_STEP :: nat where
  "CUSTOM_CMD_ORDER_STEP = 100"

definition CUSTOM_CMD_MAX_OUTPUT_BYTES :: nat where
  "CUSTOM_CMD_MAX_OUTPUT_BYTES = 65536"

definition custom_cmd_file_name :: "Base64 \<Rightarrow> nat \<Rightarrow> utext \<Rightarrow> string" where
  "custom_cmd_file_name url order name = pad_left 5 (show_nat order) @ ''_'' @ encode_marker_name url name"

fun custom_cmd_file_ext :: "SystemType \<Rightarrow> string" where
  "custom_cmd_file_ext Windows = ''.ps1''"
| "custom_cmd_file_ext _ = []"

definition custom_cmd_name_from_file :: "Base64 \<Rightarrow> utext \<Rightarrow> utext option" where
  "custom_cmd_name_from_file url file_name =
     (case split_once 95 (unwrap_or file_name (strip_suffix (uni ''.ps1'') file_name)) of None \<Rightarrow> None
      | Some (order, encoded) \<Rightarrow>
          if order = [] \<or> \<not> list_all uni_digit order then None
          else decode_marker_name url (uni ENCODED_NAME_PREFIX @ encoded))"

fun custom_cmd_name_from_file_for :: "Base64 \<Rightarrow> SystemType \<Rightarrow> utext \<Rightarrow> utext option" where
  "custom_cmd_name_from_file_for url Windows file_name =
     Option.bind (strip_suffix (uni ''.ps1'') file_name) (custom_cmd_name_from_file url)"
| "custom_cmd_name_from_file_for url _ file_name =
     (if ends_with (uni ''.ps1'') file_name then None else custom_cmd_name_from_file url file_name)"

definition uni_u32 :: "utext \<Rightarrow> nat option" where
  "uni_u32 s = (if list_all (\<lambda>c. c < 256) s then parse_u32 (map char_of s) else None)"

text \<open>\<open>iter().rposition(p)\<close>.\<close>

definition rposition :: "('a \<Rightarrow> bool) \<Rightarrow> 'a list \<Rightarrow> nat option" where
  "rposition p xs = find (\<lambda>i. p (xs ! i)) (rev [0..<length xs])"

definition listing_line :: "Base64 \<Rightarrow> Base64 \<Rightarrow> utext \<Rightarrow> (nat \<times> utext \<times> utext) option" where
  "listing_line url std line =
     (case split_once 32 line of None \<Rightarrow> None
      | Some (file, encoded) \<Rightarrow>
          Option.bind (custom_cmd_name_from_file url file) (\<lambda>name.
          Option.bind (Option.bind (split_once 95 file) (\<lambda>(order, _). uni_u32 order)) (\<lambda>order.
          Option.bind (decode_text std (uni_trim encoded)) (\<lambda>bytes.
          Option.bind (from_utf8 bytes) (\<lambda>cmd. Some (order, name, cmd))))))"

definition parse_custom_cmds_listing :: "Base64 \<Rightarrow> Base64 \<Rightarrow> utext \<Rightarrow> (nat \<times> utext \<times> utext) list option" where
  "parse_custom_cmds_listing url std raw =
     (let lines = map uni_strip_cr (split_on 10 raw);
          at = (\<lambda>marker. rposition (\<lambda>line. uni_trim line = uni marker));
          last_end = at CUSTOM_CMD_DIR_END_MARKER lines
      in if (case at CUSTOM_CMD_DIR_MISSING_MARKER lines of None \<Rightarrow> False
             | Some missing \<Rightarrow> (case last_end of None \<Rightarrow> True | Some e \<Rightarrow> missing > e))
         then Some []
         else (case last_end of None \<Rightarrow> None
           | Some e \<Rightarrow>
              (case at CUSTOM_CMD_DIR_MARKER (take e lines) of None \<Rightarrow> None
               | Some start \<Rightarrow> Some (List.map_filter (listing_line url std) (drop (start + 1) (take e lines))))))"

end
