(* ===== verification/Base64_Engine.thy ===== *)
theory Base64_Engine
  imports Script_Output
begin

text \<open>
  A concrete base64 engine, with padding as the crate's \<open>STANDARD\<close> and \<open>URL_SAFE\<close> have it: it shows
  that what \<open>is_base64\<close> asks of an engine can be had, and the examples run on it.
\<close>

definition letters :: string where
  "letters = ''ABCDEFGHIJKLMNOPQRSTUVWXYZabcdefghijklmnopqrstuvwxyz0123456789''"

definition std_alphabet :: string where
  "std_alphabet = letters @ ''+/''"

definition url_alphabet :: string where
  "url_alphabet = letters @ ''-_''"

fun encode64 :: "string \<Rightarrow> nat list \<Rightarrow> string" where
  "encode64 al [] = []"
| "encode64 al [a] = [al ! (a div 4), al ! (a mod 4 * 16), CHR ''='', CHR ''='']"
| "encode64 al [a, b] = [al ! (a div 4), al ! (a mod 4 * 16 + b div 16), al ! (b mod 16 * 4), CHR ''='']"
| "encode64 al (a # b # c # bs) =
     al ! (a div 4) # al ! (a mod 4 * 16 + b div 16) # al ! (b mod 16 * 4 + c div 64) # al ! (c mod 64) # encode64 al bs"

definition index64 :: "string \<Rightarrow> char \<Rightarrow> nat option" where
  "index64 al c = find (\<lambda>i. al ! i = c) [0..<64]"

fun decode64 :: "string \<Rightarrow> string \<Rightarrow> nat list option" where
  "decode64 al [] = Some []"
| "decode64 al (p # q # r # s # rest) =
     (case (index64 al p, index64 al q) of
        (Some i, Some j) \<Rightarrow>
          if r = CHR ''='' \<and> s = CHR ''='' \<and> rest = []
          then if j mod 16 = 0 then Some [i * 4 + j div 16] else None
          else (case index64 al r of None \<Rightarrow> None
            | Some k \<Rightarrow>
                if s = CHR ''='' \<and> rest = []
                then if k mod 4 = 0 then Some [i * 4 + j div 16, j mod 16 * 16 + k div 4] else None
                else (case index64 al s of None \<Rightarrow> None
                  | Some l \<Rightarrow> map_option (\<lambda>bs. (i * 4 + j div 16) # (j mod 16 * 16 + k div 4) # (k mod 4 * 64 + l) # bs)
                      (decode64 al rest)))
      | _ \<Rightarrow> None)"
| "decode64 al _ = None"

definition alphabet_ok :: "string \<Rightarrow> string \<Rightarrow> bool" where
  "alphabet_ok extra al \<longleftrightarrow> list_all (\<lambda>i. index64 al (al ! i) = Some i) [0..<64]
     \<and> list_all (\<lambda>i. al ! i \<noteq> CHR ''='' \<and> (is_ascii_alphanumeric (al ! i) \<or> al ! i \<in> set extra)) [0..<64]
     \<and> CHR ''='' \<in> set extra"

lemma alphabets_ok: "alphabet_ok ''+/='' std_alphabet" "alphabet_ok ''-_='' url_alphabet"
  by code_simp+

lemma index64_nth: "alphabet_ok extra al \<Longrightarrow> i < 64 \<Longrightarrow> index64 al (al ! i) = Some i"
  by (simp add: alphabet_ok_def list_all_iff)

lemma nth_not_pad: "alphabet_ok extra al \<Longrightarrow> i < 64 \<Longrightarrow> al ! i \<noteq> CHR ''=''"
  by (simp add: alphabet_ok_def list_all_iff)

lemma index64_Some: "alphabet_ok extra al \<Longrightarrow> index64 al c = Some i \<Longrightarrow> is_ascii_alphanumeric c \<or> c \<in> set extra"
  by (auto simp: alphabet_ok_def list_all_iff index64_def find_Some_iff)

lemma sextets:
  fixes a b c :: nat
  assumes "a < 256" "b < 256" "c < 256"
  shows "a div 4 < 64" "a mod 4 * 16 + b div 16 < 64" "b mod 16 * 4 + c div 64 < 64" "c mod 64 < 64"
    "a mod 4 * 16 < 64" "b mod 16 * 4 < 64"
    "a div 4 * 4 + (a mod 4 * 16 + b div 16) div 16 = a" "a div 4 * 4 + a mod 4 * 16 div 16 = a"
    "(a mod 4 * 16 + b div 16) mod 16 * 16 + (b mod 16 * 4 + c div 64) div 4 = b"
    "(a mod 4 * 16 + b div 16) mod 16 * 16 + b mod 16 * 4 div 4 = b"
    "(b mod 16 * 4 + c div 64) mod 4 * 64 + c mod 64 = c"
proof -
  have "b div 16 < 16" "c div 64 < 4" using assms by linarith+
  then show "a div 4 * 4 + (a mod 4 * 16 + b div 16) div 16 = a" "a div 4 * 4 + a mod 4 * 16 div 16 = a"
    "(a mod 4 * 16 + b div 16) mod 16 * 16 + (b mod 16 * 4 + c div 64) div 4 = b"
    "(a mod 4 * 16 + b div 16) mod 16 * 16 + b mod 16 * 4 div 4 = b"
    "(b mod 16 * 4 + c div 64) mod 4 * 64 + c mod 64 = c"
    by simp_all
qed (use assms in linarith)+

lemma decode_encode64:
  "alphabet_ok extra al \<Longrightarrow> list_all (\<lambda>b. b < 256) bs \<Longrightarrow> decode64 al (encode64 al bs) = Some bs"
proof (induction al bs rule: encode64.induct)
  case (4 al a b c bs)
  note al = index64_nth [OF "4.prems"(1)] nth_not_pad [OF "4.prems"(1)]
  show ?case using 4 sextets [of a b c] by (simp add: al)
next
  case (2 al a)
  note al = index64_nth [OF "2.prems"(1)] nth_not_pad [OF "2.prems"(1)]
  show ?case using 2 sextets [of a 0 0] by (simp add: al)
next
  case (3 al a b)
  note al = index64_nth [OF "3.prems"(1)] nth_not_pad [OF "3.prems"(1)]
  show ?case using 3 sextets [of a b 0] by (simp add: al)
qed simp

definition in_alphabet :: "string \<Rightarrow> char \<Rightarrow> bool" where
  "in_alphabet extra c \<longleftrightarrow> is_ascii_alphanumeric c \<or> c \<in> set extra"

lemma in_alphabet_nth: "alphabet_ok extra al \<Longrightarrow> i < 64 \<Longrightarrow> in_alphabet extra (al ! i)"
  by (simp add: alphabet_ok_def in_alphabet_def list_all_iff)

lemma in_alphabet_pad: "alphabet_ok extra al \<Longrightarrow> in_alphabet extra (CHR ''='')"
  by (simp add: alphabet_ok_def in_alphabet_def)

lemma encode64_alphabet:
  "alphabet_ok extra al \<Longrightarrow> list_all (\<lambda>b. b < 256) bs \<Longrightarrow> list_all (in_alphabet extra) (encode64 al bs)"
proof (induction al bs rule: encode64.induct)
  case (4 al a b c bs)
  then show ?case using sextets [of a b c] by (simp add: in_alphabet_nth)
next
  case (2 al a)
  then show ?case using sextets [of a 0 0] by (simp add: in_alphabet_nth in_alphabet_pad)
next
  case (3 al a b)
  then show ?case using sextets [of a b 0] by (simp add: in_alphabet_nth in_alphabet_pad)
qed simp

lemma decode64_alphabet:
  "alphabet_ok extra al \<Longrightarrow> decode64 al s = Some bs \<Longrightarrow> list_all (in_alphabet extra) s"
proof (induction al s arbitrary: bs rule: decode64.induct)
  case (2 al p q r s rest)
  have in_al: "in_alphabet extra c" if "index64 al c = Some i" for c i
    using index64_Some [OF "2.prems"(1) that] by (simp add: in_alphabet_def)
  show ?case
    using 2 by (auto simp: in_alphabet_pad in_al split: option.splits if_splits)
qed auto

definition engine :: "string \<Rightarrow> Base64" where
  "engine al = \<lparr>b64_encode = encode64 al, b64_decode = decode64 al\<rparr>"

lemma engine_is_base64: "alphabet_ok extra al \<Longrightarrow> is_base64 extra (engine al)"
  using decode_encode64 encode64_alphabet decode64_alphabet
  by (simp add: is_base64_def engine_def in_alphabet_def [abs_def])

lemma engines: "is_url_safe (engine url_alphabet)" "is_standard (engine std_alphabet)"
  by (rule engine_is_base64, rule alphabets_ok)+

end
