(* ===== verification/Script_Reading.thy ===== *)
theory Script_Reading
  imports Base64_Engine
begin

text \<open>
  What reading a status script's output gives back (\<open>crates/sbm_parser/src/script.rs\<close>): each
  section under its own key whatever it printed, and the custom commands an editor loads.
\<close>

section \<open>Names through base64\<close>

lemma uni_append [simp]: "uni (a @ b) = uni a @ uni b"
  by (simp add: uni_def)

lemma decode_text_uni: "decode_text e (uni s) = b64_decode e s"
  by (simp add: decode_text_def uni_bytes)

lemma base64_roundtrip:
  "is_base64 extra e \<Longrightarrow> list_all (\<lambda>b. b < 256) bs \<Longrightarrow> b64_decode e (b64_encode e bs) = Some bs"
  by (simp add: is_base64_def)

lemma alnum_not_dot: "is_ascii_alphanumeric c \<Longrightarrow> c \<noteq> CHR ''.'' \<and> c \<noteq> nl \<and> c \<noteq> cr \<and> c \<noteq> CHR '' ''"
  by (auto simp: is_ascii_alphanumeric_def is_ascii_lower_def is_ascii_upper_def is_ascii_digit_def nl_def cr_def)

text \<open>Characters no base64 text of the two engines has.\<close>

definition base64_plain :: "string \<Rightarrow> bool" where
  "base64_plain extra \<longleftrightarrow> CHR ''.'' \<notin> set extra \<and> nl \<notin> set extra \<and> cr \<notin> set extra \<and> CHR '' '' \<notin> set extra"

lemma base64_plains [simp]: "base64_plain ''-_=''" "base64_plain ''+/=''"
  by (simp_all add: base64_plain_def nl_def cr_def)

lemma uni_set: "c \<in> set (uni s) \<longleftrightarrow> c < 256 \<and> char_of c \<in> set s"
  by (force simp: uni_def)

lemma alphabet_plain:
  assumes "list_all (\<lambda>c. is_ascii_alphanumeric c \<or> c \<in> set extra) s" "base64_plain extra"
  shows "46 \<notin> set (uni s) \<and> 10 \<notin> set (uni s) \<and> 13 \<notin> set (uni s) \<and> 32 \<notin> set (uni s)"
proof -
  have c: "char_of (46::nat) = CHR ''.''" "char_of (10::nat) = nl" "char_of (13::nat) = cr" "char_of (32::nat) = CHR '' ''"
    by (simp_all add: nl_def cr_def char_of_def bit_iff_odd)
  show ?thesis using assms alnum_not_dot by (auto simp: uni_set c base64_plain_def list_all_iff)
qed

lemma encode_plain:
  assumes "is_base64 extra e" "base64_plain extra" "list_all (\<lambda>b. b < 256) bs"
  shows "46 \<notin> set (uni (b64_encode e bs)) \<and> 10 \<notin> set (uni (b64_encode e bs))
    \<and> 13 \<notin> set (uni (b64_encode e bs)) \<and> 32 \<notin> set (uni (b64_encode e bs))"
  using assms by (intro alphabet_plain [of extra]) (simp_all add: is_base64_def)

lemma decode_plain:
  assumes "is_base64 extra e" "base64_plain extra" "decode_text e t = Some bs"
  shows "46 \<notin> set t"
proof -
  have t: "list_all (\<lambda>c. c < 256) t" "b64_decode e (map char_of t) = Some bs"
    using assms(3) by (auto simp: decode_text_def split: if_splits)
  then have "uni (map char_of t) = t" by (auto simp: uni_def list_all_iff intro: map_idI)
  then show ?thesis using assms(1,2) t(2) alphabet_plain [of extra "map char_of t"] by (simp add: is_base64_def)
qed

definition enc_dot :: utext where
  "enc_dot = uni ENCODED_NAME_PREFIX"

lemma decode_marker_name_Some:
  assumes "is_url_safe url" "decode_marker_name url t = Some name"
  obtains w where "t = enc_dot @ w" "46 \<notin> set w"
  using assms decode_plain [OF assms(1) base64_plains(1)]
  by (auto simp: decode_marker_name_def strip_prefix_Some_iff enc_dot_def split: option.splits bind_splits)

lemma decode_marker_name_encode:
  assumes "is_url_safe url" "list_all scalar name"
  shows "decode_marker_name url (enc_dot @ uni (encode_marker_name url name)) = Some name"
  using assms base64_roundtrip [OF assms(1) to_utf8_bytes [OF assms(2)]]
  by (simp add: decode_marker_name_def enc_dot_def decode_text_uni encode_marker_name_def from_utf8_to_utf8)

section \<open>Where a marker is found\<close>

text \<open>No proper end of a prefix is also its beginning, so its occurrences never overlap.\<close>

definition borderless :: "'a list \<Rightarrow> bool" where
  "borderless p \<longleftrightarrow> p \<noteq> [] \<and> list_all (\<lambda>k. take (length p - k) p \<noteq> drop k p) [1..<length p]"

lemma borderless_prefixes: "borderless sep_prefix" "borderless custom_prefix"
  by code_simp+

lemma no_straddle:
  assumes "borderless p" "l @ p @ y = p @ rest" "l \<noteq> []"
  shows "length p \<le> length l"
proof (rule ccontr)
  let ?k = "length l"
  assume "\<not> length p \<le> ?k"
  then have k: "1 \<le> ?k" "?k < length p" using assms(3) by (simp_all add: Suc_le_eq)
  have "drop ?k p = take (length p - ?k) (drop ?k (p @ rest))" using k by simp
  also have "\<dots> = take (length p - ?k) p" using k by (simp add: assms(2) [symmetric])
  finally have "take (length p - ?k) p = drop ?k p" ..
  moreover have "take (length p - ?k) p \<noteq> drop ?k p" using assms(1) k by (simp add: borderless_def list_all_iff)
  ultimately show False by simp
qed

lemma match_indices_simps:
  "match_indices k p [] = []"
  "p \<noteq> [] \<Longrightarrow> match_indices k p (p @ rest) = k # match_indices (k + length p) p rest"
  "p \<noteq> [] \<Longrightarrow> strip_prefix p (c # cs) = None \<Longrightarrow> match_indices k p (c # cs) = match_indices (k + 1) p cs"
proof -
  show "match_indices k p [] = []" by (simp add: match_indices.simps [of k p "[]"])
  show "match_indices k p (p @ rest) = k # match_indices (k + length p) p rest" if "p \<noteq> []"
    using that by (simp add: match_indices.simps [of k p "p @ rest"] neq_Nil_conv) (auto split: list.split)
  show "match_indices k p (c # cs) = match_indices (k + 1) p cs" if "p \<noteq> []" "strip_prefix p (c # cs) = None"
    using that by (simp add: match_indices.simps [of k p "c # cs"])
qed

text \<open>An induction over the scan: at the end, past an occurrence, past a character.\<close>

lemma scan_induct [case_names empty hit miss]:
  assumes "p \<noteq> []" "\<And>k. P k []" "\<And>k rest. P (k + length p) rest \<Longrightarrow> P k (p @ rest)"
    and "\<And>k c cs. strip_prefix p (c # cs) = None \<Longrightarrow> P (k + 1) cs \<Longrightarrow> P k (c # cs)"
  shows "P k s"
proof (induction "length s" arbitrary: k s rule: less_induct)
  case less
  show ?case
  proof (cases s)
    case Nil
    then show ?thesis using assms(2) by simp
  next
    case (Cons c cs)
    show ?thesis
    proof (cases "strip_prefix p s")
      case None
      then show ?thesis using assms(4) less Cons by simp
    next
      case (Some rest)
      then have sp: "s = p @ rest" by (simp add: strip_prefix_Some_iff)
      then have "length rest < length s" using assms(1) by simp
      then show ?thesis using assms(3) less sp by simp
    qed
  qed
qed

lemma scan_found:
  assumes "p \<noteq> []"
  shows "find_map f (match_indices k p s) = Some y \<Longrightarrow> \<exists>l w. s = l @ p @ w \<and> f (k + length l) = Some y"
proof (induction k s rule: scan_induct [OF assms])
  case (1 k)
  then show ?case by (simp add: match_indices_simps)
next
  case (2 k rest)
  show ?case
  proof (cases "f k")
    case None
    then obtain l w where "rest = l @ p @ w" "f (k + length p + length l) = Some y"
      using 2 assms by (auto simp: match_indices_simps)
    then show ?thesis by (intro exI [of _ "p @ l"] exI [of _ w]) (simp add: add.assoc)
  next
    case (Some z)
    then show ?thesis using 2 assms by (intro exI [of _ "[]"] exI [of _ rest]) (simp add: match_indices_simps)
  qed
next
  case (3 k c cs)
  then obtain l w where "cs = l @ p @ w" "f (k + 1 + length l) = Some y"
    using assms by (auto simp: match_indices_simps)
  then show ?case by (intro exI [of _ "c # l"] exI [of _ w]) simp
qed

lemma scan_finds:
  assumes "borderless p"
  shows "s = l @ p @ w \<Longrightarrow> f (k + length l) \<noteq> None \<Longrightarrow> find_map f (match_indices k p s) \<noteq> None"
proof -
  have p: "p \<noteq> []" using assms by (simp add: borderless_def)
  show "s = l @ p @ w \<Longrightarrow> f (k + length l) \<noteq> None \<Longrightarrow> find_map f (match_indices k p s) \<noteq> None"
  proof (induction k s arbitrary: l rule: scan_induct [OF p])
    case (1 k)
    then show ?case using p by simp
  next
    case (2 k rest)
    show ?case
    proof (cases "l = []")
      case True
      then show ?thesis using 2 p by (auto simp: match_indices_simps)
    next
      case False
      then have "length p \<le> length l" using no_straddle [OF assms] "2.prems"(1) by metis
      then obtain m where "l = p @ m" using "2.prems"(1) by (metis append_eq_append_conv2 append_eq_conv_conj le_antisym length_append le_add1 append_Nil2)
      then have "find_map f (match_indices (k + length p) p rest) \<noteq> None"
        using "2.IH" [of m] "2.prems" by (simp add: add.assoc)
      then show ?thesis using p by (simp add: match_indices_simps split: option.split)
    qed
  next
    case (3 k c cs)
    then have "l \<noteq> []" by auto
    then obtain m where "l = c # m" "cs = m @ p @ w" using "3.prems"(1) by (cases l) auto
    then show ?case using "3.IH" [of m] 3 p by (simp add: match_indices_simps)
  qed
qed

lemma find_marker_SomeD:
  assumes "find_marker url line p = Some (at, name)" "p \<noteq> []"
  obtains m w where "line = m @ p @ w" "length m = at" "decode_marker_name url w = Some name"
proof -
  obtain l w where lw: "line = l @ p @ w"
    and f: "map_option (\<lambda>name. (0 + length l, name)) (decode_marker_name url (drop (0 + length l + length p) line)) = Some (at, name)"
    using scan_found [OF assms(2) assms(1) [unfolded find_marker_def]] by blast
  from f lw have "at = length l" "decode_marker_name url w = Some name" by auto
  then show ?thesis using that [of l w] lw by simp
qed

lemma find_marker_ex:
  "borderless p \<Longrightarrow> decode_marker_name url w = Some name \<Longrightarrow> find_marker url (l @ p @ w) p \<noteq> None"
  unfolding find_marker_def by (rule scan_finds [where l = l and w = w]) simp_all

section \<open>A marker after any text\<close>

lemma last_dot: "a @ 46 # w = b @ 46 # v \<Longrightarrow> 46 \<notin> set w \<Longrightarrow> 46 \<notin> set v \<Longrightarrow> a = b \<and> w = (v :: utext)"
proof (induction a arbitrary: b)
  case Nil
  then show ?case by (cases b) auto
next
  case (Cons c a)
  then show ?case by (cases b) auto
qed

lemma prefixes_eq:
  "sep_prefix = uni ''SrvBoxSep'' @ [46]" "custom_prefix = uni ''SrvBoxCusCmdSep'' @ [46]" "enc_dot = uni ''b64'' @ [46]"
  by (simp_all add: sep_prefix_def custom_prefix_def enc_dot_def SEPARATOR_def CUSTOM_CMD_SEPARATOR_def
      ENCODED_NAME_PREFIX_def uni_def)

lemma prefix_apart: "l @ sep_prefix \<noteq> m @ custom_prefix"
proof
  assume "l @ sep_prefix = m @ custom_prefix"
  then have "take 9 (rev (l @ sep_prefix)) = take 9 (rev (m @ custom_prefix))" by simp
  moreover have "take 9 (rev (l @ sep_prefix)) = take 9 (rev sep_prefix)"
    "take 9 (rev (m @ custom_prefix)) = take 9 (rev custom_prefix)"
    by (simp_all add: prefixes_eq uni_def)
  moreover have "take 9 (rev sep_prefix) \<noteq> take 9 (rev custom_prefix)" by code_simp
  ultimately show False by simp
qed

lemma find_marker_after:
  assumes url: "is_url_safe url" and q: "borderless q" "q = sep_prefix \<or> q = custom_prefix"
    and w: "decode_marker_name url (enc_dot @ w) = Some name" "46 \<notin> set w" and p: "p = sep_prefix \<or> p = custom_prefix"
  shows "find_marker url (l @ q @ enc_dot @ w) p = (if p = q then Some (length l, name) else None)"
proof -
  have only: "p = q \<and> at = length l \<and> n = name" if f: "find_marker url (l @ q @ enc_dot @ w) p = Some (at, n)" for at n
  proof -
    have "p \<noteq> []" using p by (auto simp: prefixes_eq)
    with f obtain m v where v: "l @ q @ enc_dot @ w = m @ p @ v" "length m = at" "decode_marker_name url v = Some n"
      by (rule find_marker_SomeD)
    from url v(3) obtain u where u: "v = enc_dot @ u" "46 \<notin> set u" by (rule decode_marker_name_Some)
    have "(l @ q @ uni ''b64'') @ 46 # w = (m @ p @ uni ''b64'') @ 46 # u"
      using v(1) u(1) by (simp add: prefixes_eq(3))
    from last_dot [OF this w(2) u(2)] have eq: "l @ q = m @ p" "w = u" by simp_all
    have pq: "p = q" using eq(1) p q(2) prefix_apart [of l m] prefix_apart [of m l] by auto
    then have "m = l" using eq(1) by simp
    then show ?thesis using pq v(2,3) u(1) eq(2) w(1) by simp
  qed
  show ?thesis
  proof (cases "p = q")
    case True
    then show ?thesis using find_marker_ex [OF q(1) w(1), of l] only by auto
  next
    case False
    then show ?thesis using only by (cases "find_marker url (l @ q @ enc_dot @ w) p") auto
  qed
qed

lemma encoded_no_dot:
  "is_url_safe url \<Longrightarrow> list_all scalar name \<Longrightarrow> 46 \<notin> set (uni (encode_marker_name url name))"
  using encode_plain [of "''-_=''" url "to_utf8 name"] to_utf8_bytes [of name] by (simp add: encode_marker_name_def)

lemma uni_cmd_marker: "uni (cmd_marker url key) = sep_prefix @ enc_dot @ uni (encode_marker_name url key)"
  by (simp add: cmd_marker_def sep_prefix_def enc_dot_def uni_def)

lemma uni_custom_marker: "uni (custom_cmd_marker url key) = custom_prefix @ enc_dot @ uni (encode_marker_name url key)"
  by (simp add: custom_cmd_marker_def custom_prefix_def enc_dot_def uni_def)

lemma split_marker_builtin:
  assumes "is_url_safe url" "list_all scalar key"
  shows "split_marker url (l @ uni (cmd_marker url key)) True = Some (l, key)"
  using find_marker_after [OF assms(1) borderless_prefixes(1) disjI1 [OF refl] decode_marker_name_encode [OF assms]
      encoded_no_dot [OF assms], where l = l] prefix_apart [of "[]" "[]"]
  by (simp add: split_marker_def uni_cmd_marker)

lemma split_marker_custom:
  assumes "is_url_safe url" "list_all scalar name"
  shows "split_marker url (l @ uni (custom_cmd_marker url name)) allow = Some (l, custom_result_key name)"
  using find_marker_after [OF assms(1) borderless_prefixes(2) disjI2 [OF refl] decode_marker_name_encode [OF assms]
      encoded_no_dot [OF assms], where l = l] prefix_apart [of "[]" "[]"]
  by (simp add: split_marker_def uni_custom_marker)

section \<open>A script's output, section by section\<close>

text \<open>Output that is told from a marker: no line of it ends in one.\<close>

definition quiet :: "Base64 \<Rightarrow> utext \<Rightarrow> bool" where
  "quiet url out \<longleftrightarrow> 13 \<notin> set out \<and> list_all (\<lambda>l. split_marker url l True = None) (split_on 10 out)"

definition render_builtin :: "Base64 \<Rightarrow> utext \<times> utext \<Rightarrow> utext" where
  "render_builtin url = (\<lambda>(key, out). uni (cmd_marker url key) @ 10 # out)"

definition render_custom :: "Base64 \<Rightarrow> Base64 \<Rightarrow> utext \<times> nat list \<Rightarrow> utext" where
  "render_custom url std = (\<lambda>(name, bytes).
     uni (custom_cmd_marker url name) @ 10 # uni CUSTOM_CMD_OUTPUT_PREFIX @ uni (b64_encode std bytes) @ [10])"

definition finish :: "Base64 \<Rightarrow> Base64 \<Rightarrow> Segments \<Rightarrow> utext \<Rightarrow> (utext \<times> utext) list" where
  "finish url std st s =
     seg_result (flush_segment std (foldl (segment_line url std) st (split_terminator 10 s)))"

abbreviation opened :: "utext \<Rightarrow> utext \<Rightarrow> (utext \<times> utext) list \<Rightarrow> Segments" where
  "opened key buf r \<equiv> \<lparr>seg_current = Some key, seg_buf = buf, seg_result = r\<rparr>"

lemma finish_Nil: "finish url std st [] = seg_result (flush_segment std st)"
  by (simp add: finish_def split_terminator_def)

lemma finish_line: "10 \<notin> set a \<Longrightarrow> finish url std st (a @ 10 # s) = finish url std (segment_line url std st a) s"
  using split_on_not_Nil [of 10 s] by (simp add: finish_def split_terminator_def split_on_append Let_def)

lemma finish_last: "10 \<notin> set a \<Longrightarrow> a \<noteq> [] \<Longrightarrow> finish url std st a = seg_result (flush_segment std (segment_line url std st a))"
  by (simp add: finish_def split_terminator_def split_on_no_sep)

lemma strip_cr_id: "13 \<notin> set l \<Longrightarrow> uni_strip_cr l = l"
  by (auto simp: uni_strip_cr_def dest: last_in_set)

lemma quiet_Cons: "10 \<notin> set a \<Longrightarrow> quiet url (a @ 10 # b) \<longleftrightarrow> 13 \<notin> set a \<and> split_marker url a True = None \<and> quiet url b"
  by (auto simp: quiet_def split_on_append)

lemma quiet_line: "10 \<notin> set a \<Longrightarrow> quiet url a \<longleftrightarrow> 13 \<notin> set a \<and> split_marker url a True = None"
  by (auto simp: quiet_def split_on_no_sep)

definition builtin_key :: "utext \<Rightarrow> bool" where
  "builtin_key key \<longleftrightarrow> custom_result_name key = None"

lemma line_kept:
  assumes "split_marker url l True = None" "13 \<notin> set l" "builtin_key k"
  shows "segment_line url std (opened k buf r) l = opened k (buf @ l @ [10]) r"
  using assms by (simp add: segment_line_def strip_cr_id builtin_key_def)

lemma flush_builtin:
  assumes "builtin_key k" "13 \<notin> set buf"
  shows "flush_segment std (opened k buf r) = \<lparr>seg_current = None, seg_buf = [], seg_result = r @ [(k, pop_char 10 buf)]\<rparr>"
proof -
  have "13 \<notin> set (pop_char 10 buf)" using assms(2) by (auto simp: pop_char_def dest: in_set_butlastD)
  then have "pop_char 13 (pop_char 10 buf) = pop_char 10 buf" by (auto simp: pop_char_def [of 13] dest: last_in_set)
  then show ?thesis using assms(1) by (simp add: flush_segment_def section_text_def builtin_key_def)
qed

text \<open>A marker opens its section wherever on its line it starts.\<close>

definition opens :: "Base64 \<Rightarrow> utext \<Rightarrow> utext \<Rightarrow> bool" where
  "opens url m key \<longleftrightarrow> m \<noteq> [] \<and> 10 \<notin> set m \<and> 13 \<notin> set m \<and> (\<forall>l. split_marker url (l @ m) True = Some (l, key))"

lemma strip_cr_marker: "opens url m key \<Longrightarrow> uni_strip_cr (l @ m) = l @ m"
proof -
  assume o: "opens url m key"
  then have "last m \<noteq> 13" unfolding opens_def by (metis last_in_set)
  then show ?thesis using o by (simp add: uni_strip_cr_def opens_def)
qed

lemma pop_end: "10 \<notin> set l \<Longrightarrow> buf = [] \<or> last buf = 10 \<Longrightarrow>
    pop_char 10 (if l = [] then buf else buf @ l @ [10]) = pop_char 10 (buf @ l)"
  by (auto simp: pop_char_def butlast_append dest: last_in_set)

lemma marker_line:
  assumes "opens url m k'" "builtin_key k" "10 \<notin> set l" "13 \<notin> set l" "13 \<notin> set buf" "buf = [] \<or> last buf = 10"
  shows "segment_line url std (opened k buf r) (l @ m) = opened k' [] (r @ [(k, pop_char 10 (buf @ l))])"
proof -
  define buf' where "buf' = (if l = [] then buf else buf @ l @ [10])"
  have "split_marker url (l @ m) True = Some (l, k')" using assms(1) by (simp add: opens_def)
  then have "segment_line url std (opened k buf r) (l @ m) = (flush_segment std (opened k buf' r))\<lparr>seg_current := Some k'\<rparr>"
    using assms(2) strip_cr_marker [OF assms(1), of l] by (auto simp: segment_line_def builtin_key_def Let_def buf'_def)
  moreover have "13 \<notin> set buf'" using assms(4,5) by (simp add: buf'_def)
  ultimately show ?thesis using flush_builtin [OF assms(2)] pop_end [OF assms(3,6)] by (simp add: buf'_def)
qed

lemma builtin_then_marker:
  "quiet url out \<Longrightarrow> opens url m k' \<Longrightarrow> builtin_key k \<Longrightarrow> 13 \<notin> set buf \<Longrightarrow> buf = [] \<or> last buf = 10 \<Longrightarrow>
   finish url std (opened k buf r) (out @ m @ 10 # s) = finish url std (opened k' [] (r @ [(k, pop_char 10 (buf @ out))])) s"
proof (induction "length out" arbitrary: out buf rule: less_induct)
  case less
  show ?case
  proof (cases "10 \<in> set out")
    case True
    then obtain a b where out: "out = a @ 10 # b" "10 \<notin> set a" using split_list_first [of 10 out] by blast
    then have q: "13 \<notin> set a" "split_marker url a True = None" "quiet url b" using less.prems(1) quiet_Cons by auto
    have "finish url std (opened k buf r) (out @ m @ 10 # s)
        = finish url std (opened k (buf @ a @ [10]) r) (b @ m @ 10 # s)"
      using out finish_line [OF out(2)] line_kept [OF q(2,1) less.prems(3)] by simp
    also have "\<dots> = finish url std (opened k' [] (r @ [(k, pop_char 10 ((buf @ a @ [10]) @ b))])) s"
      using less.prems q by (intro less.hyps) (auto simp: out)
    finally show ?thesis by (simp add: out)
  next
    case False
    then have "13 \<notin> set out" using less.prems(1) by (simp add: quiet_line)
    then show ?thesis
      using finish_line [of "out @ m"] marker_line [OF less.prems(2,3) False _ less.prems(4,5)] False less.prems(2)
      by (simp add: opens_def)
  qed
qed

lemma builtin_at_end:
  "quiet url out \<Longrightarrow> builtin_key k \<Longrightarrow> 13 \<notin> set buf \<Longrightarrow> buf = [] \<or> last buf = 10 \<Longrightarrow>
   finish url std (opened k buf r) out = r @ [(k, pop_char 10 (buf @ out))]"
proof (induction "length out" arbitrary: out buf rule: less_induct)
  case less
  show ?case
  proof (cases "10 \<in> set out")
    case True
    then obtain a b where out: "out = a @ 10 # b" "10 \<notin> set a" using split_list_first [of 10 out] by blast
    then have q: "13 \<notin> set a" "split_marker url a True = None" "quiet url b" using less.prems(1) quiet_Cons by auto
    have "finish url std (opened k buf r) out = finish url std (opened k (buf @ a @ [10]) r) b"
      using out finish_line [OF out(2)] line_kept [OF q(2,1) less.prems(2)] by simp
    also have "\<dots> = r @ [(k, pop_char 10 ((buf @ a @ [10]) @ b))]"
      using less.prems q by (intro less.hyps) (auto simp: out)
    finally show ?thesis by (simp add: out)
  next
    case False
    then have q: "13 \<notin> set out" "split_marker url out True = None" using less.prems(1) by (simp_all add: quiet_line)
    show ?thesis
    proof (cases "out = []")
      case True
      then show ?thesis using less.prems by (simp add: finish_Nil flush_builtin)
    next
      case ne: False
      have "13 \<notin> set (buf @ out @ [10])" using less.prems(3) q by simp
      then show ?thesis
        using finish_last [OF False ne, of url std "opened k buf r"] line_kept [OF q(2,1) less.prems(2)]
          flush_builtin [OF less.prems(2)] pop_end [OF False less.prems(4)] ne by simp
    qed
  qed
qed

lemma noise_then_marker:
  "quiet url noise \<Longrightarrow> opens url m k \<Longrightarrow>
   finish url std no_segments (noise @ m @ 10 # s) = finish url std (opened k [] []) s"
proof (induction "length noise" arbitrary: noise rule: less_induct)
  case less
  show ?case
  proof (cases "10 \<in> set noise")
    case True
    then obtain a b where n: "noise = a @ 10 # b" "10 \<notin> set a" using split_list_first [of 10 noise] by blast
    then have q: "13 \<notin> set a" "split_marker url a True = None" "quiet url b" using less.prems(1) quiet_Cons by auto
    have "segment_line url std no_segments a = no_segments"
      using q by (simp add: segment_line_def no_segments_def strip_cr_id)
    then show ?thesis using finish_line [OF n(2)] less.hyps [of b] less.prems(2) n q(3) by simp
  next
    case False
    have "split_marker url (noise @ m) True = Some (noise, k)" using less.prems(2) by (simp add: opens_def)
    then have "segment_line url std no_segments (noise @ m) = opened k [] []"
      using strip_cr_marker [OF less.prems(2), of noise] by (simp add: segment_line_def no_segments_def flush_segment_def)
    then show ?thesis using finish_line [of "noise @ m" url std no_segments s] False less.prems(2) by (simp add: opens_def)
  qed
qed

lemma noise_at_end: "quiet url noise \<Longrightarrow> finish url std no_segments noise = []"
proof (induction "length noise" arbitrary: noise rule: less_induct)
  case less
  have empty: "segment_line url std no_segments a = no_segments" if "13 \<notin> set a" "split_marker url a True = None" for a
    using that by (simp add: segment_line_def no_segments_def strip_cr_id)
  have nil: "seg_result (flush_segment std no_segments) = []" by (simp add: flush_segment_def no_segments_def)
  show ?case
  proof (cases "10 \<in> set noise")
    case True
    then obtain a b where n: "noise = a @ 10 # b" "10 \<notin> set a" using split_list_first [of 10 noise] by blast
    then have q: "13 \<notin> set a" "split_marker url a True = None" "quiet url b" using less.prems quiet_Cons by auto
    then show ?thesis using finish_line [OF n(2)] less.hyps [of b] empty [OF q(1,2)] n by simp
  next
    case False
    then have q: "13 \<notin> set noise" "split_marker url noise True = None" using less.prems by (simp_all add: quiet_line)
    then show ?thesis using finish_last [OF False, of url std no_segments] empty nil finish_Nil [of url std no_segments]
      by (cases "noise = []") simp_all
  qed
qed

subsection \<open>Custom sections\<close>

definition custom_payload :: "Base64 \<Rightarrow> nat list \<Rightarrow> utext" where
  "custom_payload std bytes = uni CUSTOM_CMD_OUTPUT_PREFIX @ uni (b64_encode std bytes)"

lemma find_marker_needs_dots:
  assumes "is_url_safe url" "find_marker url line custom_prefix = Some (at, n)"
  shows "\<exists>a b c. line = a @ 46 # b @ 46 # c"
proof -
  have "custom_prefix \<noteq> []" by (simp add: prefixes_eq)
  with assms(2) obtain m w where w: "line = m @ custom_prefix @ w" "decode_marker_name url w = Some n"
    by (rule find_marker_SomeD)
  from assms(1) w(2) obtain u where "w = enc_dot @ u" by (rule decode_marker_name_Some)
  then have "line = (m @ uni ''SrvBoxCusCmdSep'') @ 46 # uni ''b64'' @ 46 # u" using w(1) by (simp add: prefixes_eq)
  then show ?thesis by blast
qed

lemma payload_plain:
  assumes "is_standard std" "list_all (\<lambda>b. b < 256) bytes"
  shows "10 \<notin> set (custom_payload std bytes)" "13 \<notin> set (custom_payload std bytes)"
    "\<nexists>a b c. custom_payload std bytes = a @ 46 # b @ 46 # c"
proof -
  have e: "46 \<notin> set (uni (b64_encode std bytes))" "10 \<notin> set (uni (b64_encode std bytes))" "13 \<notin> set (uni (b64_encode std bytes))"
    using encode_plain [OF assms(1) base64_plains(2) assms(2)] by simp_all
  have p: "uni CUSTOM_CMD_OUTPUT_PREFIX = uni ''SrvBoxCusCmdOut'' @ [46]" by (simp add: CUSTOM_CMD_OUTPUT_PREFIX_def uni_def)
  have c: "46 \<notin> set (uni ''SrvBoxCusCmdOut'')" "10 \<notin> set (uni ''SrvBoxCusCmdOut'')" "13 \<notin> set (uni ''SrvBoxCusCmdOut'')"
    by (simp_all add: uni_def)
  show "10 \<notin> set (custom_payload std bytes)" "13 \<notin> set (custom_payload std bytes)"
    using e c by (simp_all add: custom_payload_def p)
  show "\<nexists>a b c. custom_payload std bytes = a @ 46 # b @ 46 # c"
  proof
    assume "\<exists>a b c. custom_payload std bytes = a @ 46 # b @ 46 # c"
    then obtain a b d where "uni ''SrvBoxCusCmdOut'' @ 46 # uni (b64_encode std bytes) = a @ 46 # b @ 46 # d"
      by (auto simp: custom_payload_def p)
    moreover from this have "a = uni ''SrvBoxCusCmdOut'' \<or> 46 \<in> set (uni ''SrvBoxCusCmdOut'')"
      using e(1) by (auto simp: append_eq_append_conv2 Cons_eq_append_conv append_eq_Cons_conv)
    ultimately have "uni (b64_encode std bytes) = b @ 46 # d" using c(1) by simp
    then show False using e(1) by simp
  qed
qed

lemma payload_line:
  assumes "is_url_safe url" "is_standard std" "list_all (\<lambda>b. b < 256) bytes" "\<not> builtin_key k"
  shows "segment_line url std (opened k [] r) (custom_payload std bytes) = opened k (custom_payload std bytes @ [10]) r"
proof -
  note plain = payload_plain [OF assms(2,3)]
  have "find_marker url (custom_payload std bytes) custom_prefix = None"
  proof (cases "find_marker url (custom_payload std bytes) custom_prefix")
    case (Some m)
    then have "\<exists>a b c. custom_payload std bytes = a @ 46 # b @ 46 # c"
      using find_marker_needs_dots [OF assms(1)] by (cases m) simp
    then show ?thesis using plain(3) by blast
  qed
  then have "split_marker url (custom_payload std bytes) False = None" by (simp add: split_marker_def)
  then show ?thesis using assms(4) strip_cr_id [OF plain(2)] by (auto simp: segment_line_def builtin_key_def)
qed

lemma payload_text:
  assumes "is_standard std" "list_all (\<lambda>b. b < 256) bytes" "\<not> builtin_key k"
  shows "section_text std k (custom_payload std bytes @ [10]) = from_utf8_lossy bytes"
proof -
  have "pop_char 10 (custom_payload std bytes @ [10]) = custom_payload std bytes" by (simp add: pop_char_def)
  moreover have "pop_char 13 (custom_payload std bytes) = custom_payload std bytes"
    using payload_plain(2) [OF assms(1,2)] by (auto simp: pop_char_def dest: last_in_set)
  ultimately show ?thesis using assms base64_roundtrip [OF assms(1,2)]
    by (simp add: section_text_def builtin_key_def decode_text_uni custom_payload_def)
qed

lemma flush_custom:
  assumes "is_standard std" "list_all (\<lambda>b. b < 256) bytes" "\<not> builtin_key k"
  shows "flush_segment std (opened k (custom_payload std bytes @ [10]) r)
    = \<lparr>seg_current = None, seg_buf = [], seg_result = r @ [(k, from_utf8_lossy bytes)]\<rparr>"
  using payload_text [OF assms] by (simp add: flush_segment_def)

lemma custom_opens:
  assumes "is_url_safe url" "list_all scalar name"
  shows "opens url (uni (custom_cmd_marker url name)) (custom_result_key name)"
proof -
  have "10 \<notin> set (uni (encode_marker_name url name)) \<and> 13 \<notin> set (uni (encode_marker_name url name))"
    using encode_plain [OF assms(1) base64_plains(1) to_utf8_bytes [OF assms(2)]] by (simp add: encode_marker_name_def)
  then show ?thesis using split_marker_custom [OF assms, where allow = True]
    by (simp add: opens_def uni_custom_marker prefixes_eq) (simp add: uni_def)
qed

lemma builtin_opens:
  assumes "is_url_safe url" "list_all scalar key"
  shows "opens url (uni (cmd_marker url key)) key"
proof -
  have "10 \<notin> set (uni (encode_marker_name url key)) \<and> 13 \<notin> set (uni (encode_marker_name url key))"
    using encode_plain [OF assms(1) base64_plains(1) to_utf8_bytes [OF assms(2)]] by (simp add: encode_marker_name_def)
  then show ?thesis using split_marker_builtin [OF assms]
    by (simp add: opens_def uni_cmd_marker prefixes_eq) (simp add: uni_def)
qed

lemma custom_key: "name \<noteq> [] \<Longrightarrow> \<not> builtin_key (custom_result_key name)"
  by (simp add: builtin_key_def custom_result_key_def custom_result_name_def)

lemma custom_chain:
  assumes url: "is_url_safe url" "is_standard std"
  shows "list_all (\<lambda>(name, bytes). name \<noteq> [] \<and> list_all scalar name \<and> list_all (\<lambda>b. b < 256) bytes) cs \<Longrightarrow>
    list_all (\<lambda>b. b < 256) bytes \<Longrightarrow> \<not> builtin_key k \<Longrightarrow>
    finish url std (opened k [] r) (custom_payload std bytes @ 10 # concat (map (render_custom url std) cs))
      = r @ (k, from_utf8_lossy bytes) # map (\<lambda>(name, bytes). (custom_result_key name, from_utf8_lossy bytes)) cs"
proof (induction cs arbitrary: k bytes r)
  case Nil
  then show ?case using finish_line [OF payload_plain(1) [OF url(2) Nil(2)]] payload_line [OF url Nil(2,3)]
    by (simp add: finish_Nil flush_custom [OF url(2)])
next
  case (Cons c cs)
  obtain name b where c: "c = (name, b)" by (cases c)
  have p: "name \<noteq> []" "list_all scalar name" "list_all (\<lambda>b. b < 256) b" using Cons.prems(1) by (simp_all add: c)
  have o: "opens url (uni (custom_cmd_marker url name)) (custom_result_key name)" using custom_opens [OF url(1) p(2)] .
  define rest where "rest = custom_payload std b @ 10 # concat (map (render_custom url std) cs)"
  have "segment_line url std (opened k (custom_payload std bytes @ [10]) r) (uni (custom_cmd_marker url name))
      = opened (custom_result_key name) [] (r @ [(k, from_utf8_lossy bytes)])"
    using split_marker_custom [OF url(1) p(2), of "[]"] strip_cr_marker [OF o, of "[]"]
    by (simp add: segment_line_def flush_custom [OF url(2) Cons.prems(2,3)])
  then have "finish url std (opened k [] r) (custom_payload std bytes @ 10 # uni (custom_cmd_marker url name) @ 10 # rest)
      = finish url std (opened (custom_result_key name) [] (r @ [(k, from_utf8_lossy bytes)])) rest"
    using finish_line [OF payload_plain(1) [OF url(2) Cons.prems(2)]] payload_line [OF url Cons.prems(2,3)]
      finish_line [of "uni (custom_cmd_marker url name)"] o by (simp add: opens_def)
  also have "\<dots> = (r @ [(k, from_utf8_lossy bytes)]) @ (custom_result_key name, from_utf8_lossy b)
      # map (\<lambda>(name, bytes). (custom_result_key name, from_utf8_lossy bytes)) cs"
    unfolding rest_def using Cons.prems p(1) by (intro Cons.IH) (simp_all add: c custom_key p(3))
  finally show ?case by (simp add: c render_custom_def rest_def custom_payload_def)
qed

subsection \<open>The whole output\<close>

lemma render_opens:
  "render_builtin url (key, out) = uni (cmd_marker url key) @ 10 # out"
  "render_custom url std (name, bytes) = uni (custom_cmd_marker url name) @ 10 # custom_payload std bytes @ [10]"
  by (simp_all add: render_builtin_def render_custom_def custom_payload_def)

definition builtins_ok :: "Base64 \<Rightarrow> (utext \<times> utext) list \<Rightarrow> bool" where
  "builtins_ok url bs \<longleftrightarrow> list_all (\<lambda>(key, out). list_all scalar key \<and> builtin_key key \<and> quiet url out) bs"

definition customs_ok :: "(utext \<times> nat list) list \<Rightarrow> bool" where
  "customs_ok cs \<longleftrightarrow> list_all (\<lambda>(name, bytes). name \<noteq> [] \<and> list_all scalar name \<and> list_all (\<lambda>b. b < 256) bytes) cs"

definition custom_results :: "(utext \<times> nat list) list \<Rightarrow> (utext \<times> utext) list" where
  "custom_results cs = map (\<lambda>(name, bytes). (custom_result_key name, from_utf8_lossy bytes)) cs"

definition builtin_results :: "(utext \<times> utext) list \<Rightarrow> (utext \<times> utext) list" where
  "builtin_results bs = map (\<lambda>(key, out). (key, pop_char 10 out)) bs"

lemma builtin_chain:
  assumes url: "is_url_safe url" "is_standard std" and cs: "customs_ok cs"
  shows "builtins_ok url ((k, out) # bs) \<Longrightarrow>
    finish url std (opened k [] r)
        (out @ concat (map (render_builtin url) bs) @ concat (map (render_custom url std) cs))
      = r @ builtin_results ((k, out) # bs) @ custom_results cs"
proof (induction bs arbitrary: k out r)
  case Nil
  then have k: "builtin_key k" "quiet url out" by (simp_all add: builtins_ok_def)
  show ?case
  proof (cases cs)
    case Nil
    then show ?thesis using builtin_at_end [OF k(2,1), of "[]"] by (simp add: builtin_results_def custom_results_def)
  next
    case (Cons c cs')
    obtain name bytes where c: "c = (name, bytes)" by (cases c)
    have n: "name \<noteq> []" "list_all scalar name" "list_all (\<lambda>b. b < 256) bytes" "customs_ok cs'"
      using cs by (simp_all add: Cons c customs_ok_def)
    have "finish url std (opened k [] r) (out @ concat (map (render_custom url std) cs))
        = finish url std (opened (custom_result_key name) [] (r @ [(k, pop_char 10 out)]))
            (custom_payload std bytes @ 10 # concat (map (render_custom url std) cs'))"
      using builtin_then_marker [OF k(2) custom_opens [OF url(1) n(2)] k(1), of "[]"] by (simp add: Cons c render_opens)
    then show ?thesis
      using custom_chain [OF url n(4) [unfolded customs_ok_def] n(3) custom_key [OF n(1)]]
      by (simp add: Cons c builtin_results_def custom_results_def)
  qed
next
  case (Cons b bs)
  obtain k' out' where b: "b = (k', out')" by (cases b)
  have k: "builtin_key k" "quiet url out" "list_all scalar k'" "builtins_ok url ((k', out') # bs)"
    using Cons.prems by (simp_all add: builtins_ok_def b)
  show ?case
    using builtin_then_marker [OF k(2) builtin_opens [OF url(1) k(3)] k(1), of "[]"] Cons.IH [OF k(4)]
    by (simp add: b render_opens builtin_results_def)
qed

lemma parse_finish: "parse_script_segments url std raw = finish url std no_segments raw"
  by (simp add: parse_script_segments_def finish_def finish_Nil split_terminator_def flush_segment_def no_segments_def)

lemma segments_of_output:
  assumes "is_url_safe url" "is_standard std" "quiet url noise" "builtins_ok url bs" "customs_ok cs"
  shows "parse_script_segments url std
      (noise @ concat (map (render_builtin url) bs) @ concat (map (render_custom url std) cs))
    = builtin_results bs @ custom_results cs"
proof (cases bs)
  case Nil
  show ?thesis
  proof (cases cs)
    case Nil
    then show ?thesis using \<open>bs = []\<close> noise_at_end [OF assms(3)]
      by (simp add: parse_finish builtin_results_def custom_results_def)
  next
    case (Cons c cs')
    obtain name bytes where c: "c = (name, bytes)" by (cases c)
    have n: "name \<noteq> []" "list_all scalar name" "list_all (\<lambda>b. b < 256) bytes" "customs_ok cs'"
      using assms(5) by (simp_all add: Cons c customs_ok_def)
    show ?thesis
      using \<open>bs = []\<close> noise_then_marker [OF assms(3) custom_opens [OF assms(1) n(2)]]
        custom_chain [OF assms(1,2) n(4) [unfolded customs_ok_def] n(3) custom_key [OF n(1)]]
      by (simp add: Cons c render_opens parse_finish builtin_results_def custom_results_def)
  qed
next
  case (Cons b bs')
  obtain k out where b: "b = (k, out)" by (cases b)
  have k: "list_all scalar k" "builtins_ok url ((k, out) # bs')" using assms(4) by (simp_all add: Cons b builtins_ok_def)
  show ?thesis
    using noise_then_marker [OF assms(3) builtin_opens [OF assms(1) k(1)]] builtin_chain [OF assms(1,2,5) k(2)]
    by (simp add: Cons b render_opens parse_finish)
qed

lemma output_first: "hm_get (parse_script_output url std raw) key = map_of (parse_script_segments url std raw) key"
proof -
  have "hm_get (foldl (\<lambda>m (k, v). if hm_get m k = None then hm_insert k v m else m) m xs) key
      = (case hm_get m key of None \<Rightarrow> map_of xs key | Some v \<Rightarrow> Some v)" for m :: "(utext, utext) hashmap" and xs
  proof (induction xs arbitrary: m)
    case (Cons x xs)
    obtain k v where x: "x = (k, v)" by (cases x)
    have "hm_get (if hm_get m k = None then hm_insert k v m else m) key
        = (if key = k \<and> hm_get m key = None then Some v else hm_get m key)" by auto
    then show ?case using Cons [of "if hm_get m k = None then hm_insert k v m else m"] by (auto simp: x split: option.split)
  qed (simp split: option.split)
  then show ?thesis by (simp add: parse_script_output_def)
qed

text \<open>
  Lines may end in LF or CRLF, as PowerShell ends them: the reader makes of either what it
  makes of LF alone.
\<close>

fun lf_lines :: "utext \<Rightarrow> utext" where
  "lf_lines [] = []"
| "lf_lines (c # cs) = (if c = 13 \<and> cs \<noteq> [] \<and> hd cs = 10 then lf_lines cs else c # lf_lines cs)"

lemma lf_lines_last: "10 \<notin> set a \<Longrightarrow> lf_lines a = a"
  by (induction a rule: lf_lines.induct) (auto dest: hd_in_set)

lemma lf_lines_line: "10 \<notin> set a \<Longrightarrow> lf_lines (a @ 10 # b) = uni_strip_cr a @ 10 # lf_lines b"
proof (induction a)
  case (Cons c a)
  then show ?case by (cases a) (auto simp: uni_strip_cr_def)
qed (simp add: uni_strip_cr_def)

lemma lf_lines_id: "13 \<notin> set s \<Longrightarrow> lf_lines s = s"
  by (induction s) auto

lemma segment_line_strip: "13 \<notin> set (uni_strip_cr l) \<Longrightarrow> segment_line url std st (uni_strip_cr l) = segment_line url std st l"
  by (simp add: segment_line_def strip_cr_id [of "uni_strip_cr l"])

lemma finish_lf: "13 \<notin> set (lf_lines s) \<Longrightarrow> finish url std st s = finish url std st (lf_lines s)"
proof (induction "length s" arbitrary: s st rule: less_induct)
  case less
  show ?case
  proof (cases "10 \<in> set s")
    case True
    then obtain a b where s: "s = a @ 10 # b" "10 \<notin> set a" using split_list_first [of 10 s] by blast
    have lf: "lf_lines s = uni_strip_cr a @ 10 # lf_lines b" using lf_lines_line [OF s(2)] by (simp add: s(1))
    have "10 \<notin> set (uni_strip_cr a)" using s(2) by (auto simp: uni_strip_cr_def dest: in_set_butlastD)
    then have "finish url std st (lf_lines s) = finish url std (segment_line url std st (uni_strip_cr a)) (lf_lines b)"
      unfolding lf by (rule finish_line)
    also have "\<dots> = finish url std (segment_line url std st a) (lf_lines b)"
      using less.prems by (simp add: lf segment_line_strip)
    also have "\<dots> = finish url std (segment_line url std st a) b"
      using less.prems by (intro less.hyps [symmetric]) (simp_all add: s(1) lf [unfolded s(1)])
    finally show ?thesis using finish_line [OF s(2)] by (simp add: s(1))
  qed (simp add: lf_lines_last)
qed

lemma builtins_no_cr:
  assumes "is_url_safe url" "is_standard std" "quiet url noise" "builtins_ok url bs" "customs_ok cs"
  shows "13 \<notin> set (noise @ concat (map (render_builtin url) bs) @ concat (map (render_custom url std) cs))"
proof -
  have "13 \<notin> set (render_builtin url b)" if "b \<in> set bs" for b
    using that assms(4) builtin_opens [OF assms(1)]
    by (cases b) (auto simp: render_opens builtins_ok_def list_all_iff opens_def quiet_def)
  moreover have "13 \<notin> set (render_custom url std c)" if "c \<in> set cs" for c
    using that assms(5) custom_opens [OF assms(1)] payload_plain(2) [OF assms(2)]
    by (cases c) (auto simp: render_opens customs_ok_def list_all_iff opens_def)
  ultimately show ?thesis using assms(3) by (auto simp: quiet_def)
qed

lemma segments_of_crlf:
  assumes "is_url_safe url" "is_standard std" "quiet url noise" "builtins_ok url bs" "customs_ok cs"
    and "lf_lines raw = noise @ concat (map (render_builtin url) bs) @ concat (map (render_custom url std) cs)"
  shows "parse_script_segments url std raw = builtin_results bs @ custom_results cs"
proof -
  have "13 \<notin> set (lf_lines raw)" unfolding assms(6) by (rule builtins_no_cr [OF assms(1-5)])
  then show ?thesis using segments_of_output [OF assms(1-5)] by (simp add: parse_finish finish_lf assms(6))
qed

text \<open>
  C11. Each section is read under its own key. For a script whose built-in commands print
  text without a carriage return but at the end of a line, no line of which ends in a
  marker, and whose custom commands print any bytes at all, reading the output, its lines
  ended by LF or CRLF, gives every command's section in the order they ran: a built-in
  command's text with LF for CRLF and without its last newline, and a custom command's bytes
  as UTF-8, with the replacement character for what is not. What is printed before the first
  marker, text of the same kind, is dropped, and where a key is there twice the first
  section has it.
\<close>

theorem sections_are_read_back:
  assumes "is_url_safe url" "is_standard std" "quiet url noise" "builtins_ok url bs" "customs_ok cs"
    and "lf_lines raw = noise @ concat (map (render_builtin url) bs) @ concat (map (render_custom url std) cs)"
  shows "parse_script_segments url std raw = builtin_results bs @ custom_results cs
    \<and> hm_get (parse_script_output url std raw) key = map_of (builtin_results bs @ custom_results cs) key"
  using segments_of_crlf [OF assms] by (simp add: output_first)

lemma quiet_no_dot: "46 \<notin> set out \<Longrightarrow> 13 \<notin> set out \<Longrightarrow> quiet url out"
proof -
  assume out: "46 \<notin> set out" "13 \<notin> set out"
  have none: "find_marker url l p = None" if "46 \<notin> set l" "46 \<in> set p" for l p
  proof (cases "find_marker url l p")
    case (Some r)
    then obtain at n where "find_marker url l p = Some (at, n)" by (cases r) simp
    moreover have "p \<noteq> []" using that(2) by auto
    ultimately obtain m w where "l = m @ p @ w" by (rule find_marker_SomeD)
    then show ?thesis using that by simp
  qed
  have "split_marker url l True = None" if "46 \<notin> set l" for l
    using none [OF that] by (simp add: split_marker_def prefixes_eq)
  moreover have "46 \<notin> set l" if "l \<in> set (split_on 10 out)" for l
    using split_on_chars [OF that] out(1) by auto
  ultimately show ?thesis using out(2) by (simp add: quiet_def list_all_iff)
qed

lemma sections_are_read_back_witness:
  "hm_get (parse_script_output (engine url_alphabet) (engine std_alphabet) (uni ''motd'' @ [13, 10]
      @ render_builtin (engine url_alphabet) (uni ''host'', uni ''box'')
      @ render_builtin (engine url_alphabet) (uni ''cpu'', uni ''4'' @ [10])
      @ render_custom (engine url_alphabet) (engine std_alphabet) (uni ''x'', of_char nl # map of_char ''SrvBoxSep'')))
    (uni ''host'') = Some (uni ''box'')"
proof -
  have ok: "quiet (engine url_alphabet) (uni ''motd'' @ [10])"
    "builtins_ok (engine url_alphabet) [(uni ''host'', uni ''box''), (uni ''cpu'', uni ''4'' @ [10])]"
    "customs_ok [(uni ''x'', of_char nl # map of_char ''SrvBoxSep'')]"
    by (simp_all add: quiet_no_dot builtins_ok_def customs_ok_def builtin_key_def custom_result_name_def
        CUSTOM_CMD_SEPARATOR_def scalar_def uni_def nl_def)
  have get: "map_of (builtin_results [(uni ''host'', uni ''box''), (uni ''cpu'', uni ''4'' @ [10])]
      @ custom_results [(uni ''x'', of_char nl # map of_char ''SrvBoxSep'')]) (uni ''host'') = Some (uni ''box'')"
    by (simp add: builtin_results_def pop_char_def uni_def)
  define rest where "rest = render_builtin (engine url_alphabet) (uni ''host'', uni ''box'')
      @ render_builtin (engine url_alphabet) (uni ''cpu'', uni ''4'' @ [10])
      @ render_custom (engine url_alphabet) (engine std_alphabet) (uni ''x'', of_char nl # map of_char ''SrvBoxSep'')"
  have "13 \<notin> set rest" using builtins_no_cr [OF engines ok] by (simp add: rest_def)
  then have "lf_lines ((uni ''motd'' @ [13]) @ 10 # rest) = (uni ''motd'' @ [10]) @ rest"
    by (subst lf_lines_line) (simp_all add: lf_lines_id uni_strip_cr_def uni_def)
  then show ?thesis using sections_are_read_back [OF engines ok, of "(uni ''motd'' @ [13]) @ 10 # rest" "uni ''host''"] get
    by (simp add: rest_def)
qed

section \<open>Built-in sections come first\<close>

definition in_order :: "utext list \<Rightarrow> bool" where
  "in_order ks \<longleftrightarrow> (\<exists>as bs. ks = as @ bs \<and> (\<forall>k \<in> set as. builtin_key k) \<and> (\<forall>k \<in> set bs. \<not> builtin_key k))
     \<or> custom_result_key [] \<in> set ks"

lemma in_orderI: "\<forall>k \<in> set as. builtin_key k \<Longrightarrow> \<forall>k \<in> set bs. \<not> builtin_key k \<Longrightarrow> in_order (as @ bs)"
  by (auto simp: in_order_def)

definition keys_so_far :: "Segments \<Rightarrow> utext list" where
  "keys_so_far st = map fst (seg_result st) @ (case seg_current st of None \<Rightarrow> [] | Some k \<Rightarrow> [k])"

lemma split_marker_custom_only:
  "split_marker url line False = Some (leading, k) \<Longrightarrow> \<exists>name. k = custom_result_key name"
  by (auto simp: split_marker_def split: option.splits)

lemma in_order_snoc:
  assumes "in_order (ks @ [c])" "builtin_key c \<or> (\<exists>name. k = custom_result_key name)"
  shows "in_order (ks @ [c, k])"
proof (cases "custom_result_key [] \<in> set (ks @ [c, k])")
  case False
  then obtain as bs where ab: "ks @ [c] = as @ bs" "\<forall>k \<in> set as. builtin_key k" "\<forall>k \<in> set bs. \<not> builtin_key k"
    using assms(1) by (auto simp: in_order_def)
  show ?thesis
  proof (cases "builtin_key c")
    case True
    then have "bs = []" using ab(1,3) by (cases bs rule: rev_cases) auto
    then have "\<forall>k \<in> set (ks @ [c]). builtin_key k" using ab by simp
    then show ?thesis
      using in_orderI [of "ks @ [c, k]" "[]"] in_orderI [of "ks @ [c]" "[k]"] by (cases "builtin_key k") auto
  next
    case False
    then obtain name where k: "k = custom_result_key name" using assms(2) by blast
    then have "name \<noteq> []" using \<open>custom_result_key [] \<notin> set (ks @ [c, k])\<close> by auto
    then have "\<not> builtin_key k" using k custom_key by simp
    moreover have "ks @ [c, k] = as @ bs @ [k]" using arg_cong [OF ab(1), of "\<lambda>xs. xs @ [k]"] by simp
    moreover have "in_order (as @ bs @ [k])" using in_orderI [of as "bs @ [k]"] ab(2,3) calculation(1) by auto
    ultimately show ?thesis by (simp only:)
  qed
qed (auto simp: in_order_def)

definition tidy :: "Segments \<Rightarrow> bool" where
  "tidy st \<longleftrightarrow> in_order (keys_so_far st) \<and> (seg_current st = None \<longrightarrow> seg_result st = [])"

lemma tidy_line: "tidy st \<Longrightarrow> tidy (segment_line url std st raw)"
proof -
  assume t: "tidy st"
  define line where "line = uni_strip_cr raw"
  show ?thesis
  proof (cases "split_marker url line (case seg_current st of None \<Rightarrow> True | Some k \<Rightarrow> custom_result_name k = None)")
    case None
    then show ?thesis
      using t in_orderI [of "[]" "[]"]
      by (cases "seg_current st") (simp_all add: segment_line_def line_def [symmetric] tidy_def keys_so_far_def)
  next
    case (Some found)
    then obtain leading k where f: "found = (leading, k)" by (cases found)
    show ?thesis
    proof (cases "seg_current st")
      case None
      then have "keys_so_far (segment_line url std st raw) = [k]" "seg_current (segment_line url std st raw) = Some k"
        using Some f t by (simp_all add: segment_line_def line_def [symmetric] flush_segment_def keys_so_far_def tidy_def)
      moreover have "in_order [k]"
        using in_orderI [of "[k]" "[]"] in_orderI [of "[]" "[k]"] by (cases "builtin_key k") simp_all
      ultimately show ?thesis by (simp add: tidy_def)
    next
      case (Some c)
      then have "keys_so_far (segment_line url std st raw) = map fst (seg_result st) @ [c, k]"
        "seg_current (segment_line url std st raw) = Some k"
        using \<open>split_marker _ _ _ = Some found\<close> f
        by (auto simp: segment_line_def line_def [symmetric] flush_segment_def keys_so_far_def Let_def)
      moreover have "builtin_key c \<or> (\<exists>name. k = custom_result_key name)"
        using \<open>split_marker _ _ _ = Some found\<close> f Some split_marker_custom_only [of url line leading k]
        by (cases "custom_result_name c") (simp_all add: builtin_key_def)
      ultimately show ?thesis using in_order_snoc t Some by (simp add: tidy_def keys_so_far_def)
    qed
  qed
qed

lemma tidy_lines: "tidy st \<Longrightarrow> tidy (foldl (segment_line url std) st ls)"
  by (induction ls arbitrary: st) (simp_all add: tidy_line)

text \<open>
  C12. A custom command cannot open a built-in section. Whatever was printed, once a
  section belongs to a custom command every later one does too, as long as no marker names
  a custom command with no name (the scripts skip files of that kind).
\<close>

theorem custom_sections_come_last:
  assumes "custom_result_key [] \<notin> fst ` set (parse_script_segments url std raw)"
  shows "\<exists>bs cs. parse_script_segments url std raw = bs @ cs
    \<and> (\<forall>s \<in> set bs. custom_result_name (fst s) = None) \<and> (\<forall>s \<in> set cs. custom_result_name (fst s) \<noteq> None)"
proof -
  define st where "st = foldl (segment_line url std) no_segments (split_terminator 10 raw)"
  have "tidy no_segments" by (simp add: tidy_def no_segments_def keys_so_far_def in_order_def)
  then have "in_order (keys_so_far st)" unfolding st_def using tidy_lines by (simp add: tidy_def)
  moreover have "keys_so_far st = map fst (parse_script_segments url std raw)"
    unfolding parse_finish finish_def st_def [symmetric]
    by (simp add: keys_so_far_def flush_segment_def split: option.split)
  ultimately obtain as bs where ab: "map fst (parse_script_segments url std raw) = as @ bs"
    "\<forall>k \<in> set as. builtin_key k" "\<forall>k \<in> set bs. \<not> builtin_key k"
    using assms by (auto simp: in_order_def)
  then obtain us vs where "parse_script_segments url std raw = us @ vs" "as = map fst us" "bs = map fst vs"
    by (auto simp: map_eq_append_conv)
  moreover from this have "\<forall>s \<in> set us. custom_result_name (fst s) = None" "\<forall>s \<in> set vs. custom_result_name (fst s) \<noteq> None"
    using ab(2,3) by (simp_all add: builtin_key_def)
  ultimately show ?thesis by blast
qed

lemma custom_sections_come_last_witness:
  "\<exists>bs cs. parse_script_segments (engine url_alphabet) (engine std_alphabet)
      (render_builtin (engine url_alphabet) (uni ''host'', uni ''box'')
        @ render_custom (engine url_alphabet) (engine std_alphabet) (uni ''x'', [65])) = bs @ cs
    \<and> (\<forall>s \<in> set bs. custom_result_name (fst s) = None) \<and> (\<forall>s \<in> set cs. custom_result_name (fst s) \<noteq> None)"
proof -
  have ok: "quiet (engine url_alphabet) []" "builtins_ok (engine url_alphabet) [(uni ''host'', uni ''box'')]"
    "customs_ok [(uni ''x'', [65])]"
    by (simp_all add: quiet_no_dot builtins_ok_def customs_ok_def builtin_key_def custom_result_name_def
        CUSTOM_CMD_SEPARATOR_def scalar_def uni_def)
  have "custom_result_key [] \<notin> fst ` set (builtin_results [(uni ''host'', uni ''box'')] @ custom_results [(uni ''x'', [65])])"
    by (simp add: builtin_results_def custom_results_def custom_result_key_def CUSTOM_CMD_SEPARATOR_def uni_def)
  then show ?thesis using segments_of_output [OF engines ok] by (intro custom_sections_come_last) simp
qed

end
