(* ===== verification/Custom_Commands.thy ===== *)
theory Custom_Commands
  imports Script_Reading
begin

text \<open>
  The files custom commands are kept in and the listing an editor loads them from
  (\<open>crates/sbm_parser/src/script.rs\<close>): what is stored is what is read back.
\<close>

section \<open>A command's file\<close>

lemma digits_val_zeros: "digits_val (replicate n (CHR ''0'') @ s) = digits_val s"
  by (induction n) (simp_all add: digits_val_def digit_val_def)

lemma pad_left_parse:
  assumes "n \<le> hi"
  shows "parse_uint hi (pad_left w (show_nat n)) = Some n"
proof -
  define s where "s = pad_left w (show_nat n)"
  have "all_digits s"
    using show_nat_digits [of n] by (auto simp: s_def pad_left_def all_digits_def is_ascii_digit_def list_all_iff)
  moreover have "s \<noteq> []" "digits_val s = n"
    using show_nat_digits [of n] by (simp_all add: s_def pad_left_def digits_val_zeros)
  ultimately show ?thesis using parse_uint_digits [of s hi] assms by (simp add: s_def)
qed

definition order_text :: "nat \<Rightarrow> utext" where
  "order_text order = uni (pad_left 5 (show_nat order))"

lemma order_text_digits: "order_text n \<noteq> [] \<and> list_all uni_digit (order_text n)"
proof -
  have "list_all is_ascii_digit (pad_left 5 (show_nat n))"
    using show_nat_chars [of _ n] by (auto simp: pad_left_def list_all_iff is_ascii_digit_def)
  then show ?thesis
    by (fastforce simp: order_text_def uni_def pad_left_def list_all_iff uni_digit_def is_ascii_digit_def)
qed

lemma order_text_u32: "n \<le> 4294967295 \<Longrightarrow> uni_u32 (order_text n) = Some n"
  using pad_left_parse [of n 4294967295 5] by (simp add: uni_u32_def order_text_def uni_bytes)

definition file_text :: "Base64 \<Rightarrow> SystemType \<Rightarrow> nat \<Rightarrow> utext \<Rightarrow> utext" where
  "file_text url system order name = uni (custom_cmd_file_name url order name @ custom_cmd_file_ext system)"

lemma file_text_eq:
  "file_text url system order name =
     order_text order @ 95 # uni (encode_marker_name url name) @ uni (custom_cmd_file_ext system)"
  by (simp add: file_text_def custom_cmd_file_name_def order_text_def) (simp add: uni_def)

lemma digits_plain: "list_all uni_digit s \<Longrightarrow> c \<notin> {48..57} \<Longrightarrow> c \<notin> set s"
  by (auto simp: list_all_iff uni_digit_def)

lemma strip_ext:
  assumes "46 \<notin> set (uni enc)"
  shows "unwrap_or (order_text n @ 95 # uni enc @ uni (custom_cmd_file_ext system))
      (strip_suffix (uni ''.ps1'') (order_text n @ 95 # uni enc @ uni (custom_cmd_file_ext system)))
    = order_text n @ 95 # uni enc"
proof -
  have dot: "46 \<notin> set (order_text n @ 95 # uni enc)"
    using assms digits_plain [of "order_text n" 46] order_text_digits by simp
  have none: "strip_suffix (uni ''.ps1'') (order_text n @ 95 # uni enc) = None"
  proof (rule ccontr)
    assume "strip_suffix (uni ''.ps1'') (order_text n @ 95 # uni enc) \<noteq> None"
    then obtain r where "order_text n @ 95 # uni enc = r @ uni ''.ps1''" by (auto simp: strip_suffix_Some_iff)
    moreover have "46 \<in> set (r @ uni ''.ps1'')" by (simp add: uni_def)
    ultimately show False using dot by simp
  qed
  have "strip_suffix (uni ''.ps1'') ((order_text n @ 95 # uni enc) @ uni ''.ps1'') = Some (order_text n @ 95 # uni enc)"
    by (simp only: strip_suffix_Some_iff)
  then show ?thesis using none by (cases system) (simp_all add: unwrap_or_def uni_def)
qed

lemma file_name_read:
  assumes "is_url_safe url" "list_all scalar name"
  shows "custom_cmd_name_from_file url (file_text url system order name) = Some name"
proof -
  define enc where "enc = uni (encode_marker_name url name)"
  have "46 \<notin> set enc" using encoded_no_dot [OF assms] by (simp add: enc_def)
  then have "unwrap_or (file_text url system order name) (strip_suffix (uni ''.ps1'') (file_text url system order name))
      = order_text order @ 95 # enc"
    using strip_ext [of "encode_marker_name url name" order system] by (simp add: file_text_eq enc_def)
  moreover have "split_once 95 (order_text order @ 95 # enc) = Some (order_text order, enc)"
    using digits_plain [of "order_text order" 95] order_text_digits by simp
  moreover have "decode_marker_name url (uni ENCODED_NAME_PREFIX @ enc) = Some name"
    using decode_marker_name_encode [OF assms] by (simp add: enc_dot_def enc_def)
  ultimately show ?thesis using order_text_digits by (simp add: custom_cmd_name_from_file_def)
qed

section \<open>The listing\<close>

definition listing_entry :: "Base64 \<Rightarrow> Base64 \<Rightarrow> SystemType \<Rightarrow> nat \<times> utext \<times> utext \<Rightarrow> utext" where
  "listing_entry url std system = (\<lambda>(order, name, cmd).
     file_text url system order name @ 32 # uni (b64_encode std (to_utf8 cmd)))"

text \<open>
  What the script that reads the directory prints, after whatever came before; its lines end
  in LF, or in CRLF where PowerShell prints them.
\<close>

definition listing_output :: "Base64 \<Rightarrow> Base64 \<Rightarrow> SystemType \<Rightarrow> utext \<Rightarrow> utext \<Rightarrow> (nat \<times> utext \<times> utext) list \<Rightarrow> utext" where
  "listing_output url std system eol before cmds =
     before @ concat (map (\<lambda>l. l @ eol) (uni CUSTOM_CMD_DIR_MARKER # map (listing_entry url std system) cmds
       @ [uni CUSTOM_CMD_DIR_END_MARKER]))"

definition line_ends :: "utext set" where
  "line_ends = {[10], [13, 10]}"

lemma split_on_append_any: "split_on c (a @ b) = butlast (split_on c a) @ split_on c (last (split_on c a) @ b)"
proof (induction c a rule: split_on.induct)
  case (2 c d a)
  then show ?case using split_on_not_Nil [of c a] by (cases "split_on c a") auto
qed simp

lemma stripped_lines:
  assumes "eol \<in> line_ends" "\<forall>l \<in> set ls. 10 \<notin> set l \<and> 13 \<notin> set l"
  shows "map uni_strip_cr (split_on 10 (concat (map (\<lambda>l. l @ eol) ls))) = ls @ [[]]"
  using assms(2)
proof (induction ls)
  case (Cons l ls)
  obtain e where e: "eol = e @ [10]" "e = [] \<or> e = [13]" using assms(1) by (auto simp: line_ends_def)
  then have "10 \<notin> set (l @ e)" using Cons.prems by auto
  then have "split_on 10 ((l @ e) @ 10 # concat (map (\<lambda>l. l @ eol) ls)) = (l @ e) # split_on 10 (concat (map (\<lambda>l. l @ eol) ls))"
    by (rule split_on_append)
  moreover have "uni_strip_cr (l @ e) = l" using Cons.prems e(2) strip_cr_id [of l] by (auto simp: uni_strip_cr_def)
  ultimately show ?case using Cons by (simp add: e(1))
qed (simp add: uni_strip_cr_def)

lemma blank_then_line:
  assumes "list_all uni_whitespace w" "10 \<notin> set w" "eol \<in> line_ends" "\<forall>l \<in> set (m # ls). 10 \<notin> set l \<and> 13 \<notin> set l"
    "m \<noteq> []"
  shows "map uni_strip_cr (split_on 10 (w @ concat (map (\<lambda>l. l @ eol) (m # ls)))) = (w @ m) # ls @ [[]]"
proof -
  obtain e where e: "eol = e @ [10]" "e = [] \<or> e = [13]" using assms(3) by (auto simp: line_ends_def)
  then have "10 \<notin> set (w @ m @ e)" using assms(2,4) by auto
  then have "split_on 10 ((w @ m @ e) @ 10 # concat (map (\<lambda>l. l @ eol) ls)) = (w @ m @ e) # split_on 10 (concat (map (\<lambda>l. l @ eol) ls))"
    by (rule split_on_append)
  moreover have "uni_strip_cr (w @ m @ e) = w @ m"
  proof -
    have "last m \<noteq> 13" using assms(4,5) by (metis last_in_set list.set_intros(1))
    then show ?thesis using assms(5) e(2) by (auto simp: uni_strip_cr_def butlast_append)
  qed
  ultimately show ?thesis using stripped_lines [OF assms(3), of ls] assms(4) by (simp add: e(1))
qed

lemma split_on_lines: "(\<forall>l \<in> set ls. c \<notin> set l) \<Longrightarrow> split_on c (concat (map (\<lambda>l. l @ [c]) ls)) = ls @ [[]]"
  by (induction ls) (simp_all add: split_on_append)

lemma rposition_snoc: "rposition p (xs @ [x]) = (if p x then Some (length xs) else rposition p xs)"
proof -
  have "find (\<lambda>i. p ((xs @ [x]) ! i)) (rev [0..<length xs]) = find (\<lambda>i. p (xs ! i)) (rev [0..<length xs])"
    by (rule find_cong) (auto simp: nth_append)
  then show ?thesis by (simp add: rposition_def)
qed

lemma rposition_last: "p x \<Longrightarrow> \<forall>y \<in> set ys. \<not> p y \<Longrightarrow> rposition p (xs @ x # ys) = Some (length xs)"
proof (induction ys rule: rev_induct)
  case (snoc y ys)
  have "rposition p (xs @ x # ys @ [y]) = rposition p (xs @ x # ys)"
    using rposition_snoc [of p "xs @ x # ys" y] snoc.prems(2) by simp
  then show ?case using snoc by simp
qed (simp add: rposition_snoc)

lemma rposition_before: "\<forall>y \<in> set ys. \<not> p y \<Longrightarrow> rposition p (xs @ ys) = Some i \<Longrightarrow> i < length xs"
proof (induction ys rule: rev_induct)
  case Nil
  then obtain j where "j < length (rev [0..<length xs])" "i = rev [0..<length xs] ! j"
    by (auto simp: rposition_def find_Some_iff)
  then have "i \<in> set (rev [0..<length xs])" by (simp only: nth_mem)
  then show ?case by simp
next
  case (snoc y ys)
  then show ?case using rposition_snoc [of p "xs @ ys" y] by simp
qed

lemma entry_starts: "\<exists>d r. listing_entry url std system c = d # r \<and> uni_digit d"
proof -
  obtain order name cmd where c: "c = (order, name, cmd)" by (cases c)
  obtain d r where "order_text order = d # r" using order_text_digits [of order] by (cases "order_text order") auto
  then show ?thesis using order_text_digits [of order] by (simp add: c listing_entry_def file_text_eq)
qed

lemma digit_not_trimmed:
  assumes "uni_digit d" "m = x # y" "\<not> uni_digit x"
  shows "uni_trim (d # r) \<noteq> m"
proof
  assume m: "uni_trim (d # r) = m"
  obtain a b where ab: "d # r = a @ uni_trim (d # r) @ b" "\<forall>c \<in> set a \<union> set b. uni_whitespace c"
    using uni_trim_split by blast
  have "\<not> uni_whitespace d" using assms(1) by (auto simp: uni_digit_def uni_whitespace_def)
  then have "a = []" using ab by (cases a) auto
  then have "d = x" using ab(1) m assms(2) by simp
  then show False using assms(1,3) by simp
qed

lemma dir_markers:
  "\<exists>x y. uni CUSTOM_CMD_DIR_MARKER = x # y \<and> \<not> uni_digit x"
  "\<exists>x y. uni CUSTOM_CMD_DIR_END_MARKER = x # y \<and> \<not> uni_digit x"
  "\<exists>x y. uni CUSTOM_CMD_DIR_MISSING_MARKER = x # y \<and> \<not> uni_digit x"
  by (simp_all add: CUSTOM_CMD_DIR_MARKER_def CUSTOM_CMD_DIR_END_MARKER_def CUSTOM_CMD_DIR_MISSING_MARKER_def
      uni_def uni_digit_def)

lemma entry_no_marker:
  "uni_trim (listing_entry url std system c) \<noteq> uni CUSTOM_CMD_DIR_MARKER"
  "uni_trim (listing_entry url std system c) \<noteq> uni CUSTOM_CMD_DIR_END_MARKER"
  "uni_trim (listing_entry url std system c) \<noteq> uni CUSTOM_CMD_DIR_MISSING_MARKER"
  using entry_starts [of url std system c] dir_markers digit_not_trimmed by metis+

lemma alphabet_no_space:
  assumes "list_all (\<lambda>c. is_ascii_alphanumeric c \<or> c \<in> set ''+/='') s"
  shows "uni_trim (uni s) = uni s"
proof (rule uni_trim_no_space, rule ballI)
  fix c assume "c \<in> set (uni s)"
  then obtain x where x: "c = of_char x" "x \<in> set s" by (auto simp: uni_def)
  then have "is_ascii_alphanumeric x \<or> x \<in> set ''+/=''" using assms by (auto simp: list_all_iff)
  then show "\<not> uni_whitespace c"
    by (auto simp: x(1) is_ascii_alphanumeric_def is_ascii_lower_def is_ascii_upper_def is_ascii_digit_def uni_whitespace_def)
qed

text \<open>A command the scripts keep: five digits of order and a name that is not empty.\<close>

definition command_ok :: "nat \<times> utext \<times> utext \<Rightarrow> bool" where
  "command_ok = (\<lambda>(order, name, cmd). order \<le> 99999 \<and> name \<noteq> [] \<and> list_all scalar name \<and> list_all scalar cmd)"

lemma file_text_plain:
  assumes "is_url_safe url" "list_all scalar name"
  shows "32 \<notin> set (file_text url system order name) \<and> 10 \<notin> set (file_text url system order name)
    \<and> 13 \<notin> set (file_text url system order name)"
proof -
  have "32 \<notin> set (uni (encode_marker_name url name)) \<and> 10 \<notin> set (uni (encode_marker_name url name))
      \<and> 13 \<notin> set (uni (encode_marker_name url name))"
    using encode_plain [OF assms(1) base64_plains(1) to_utf8_bytes [OF assms(2)]] by (simp add: encode_marker_name_def)
  moreover have "32 \<notin> set (uni (custom_cmd_file_ext system)) \<and> 10 \<notin> set (uni (custom_cmd_file_ext system))
      \<and> 13 \<notin> set (uni (custom_cmd_file_ext system))"
    by (cases system) (simp_all add: uni_def)
  moreover have "32 \<notin> set (order_text order)" "10 \<notin> set (order_text order)" "13 \<notin> set (order_text order)"
    using digits_plain [OF conjunct2 [OF order_text_digits]] by simp_all
  ultimately show ?thesis by (simp add: file_text_eq)
qed

lemma entry_read:
  assumes "is_url_safe url" "is_standard std" "command_ok c"
  shows "listing_line url std (listing_entry url std system c) = Some c"
proof -
  obtain order name cmd where c: "c = (order, name, cmd)" by (cases c)
  have ok: "order \<le> 99999" "list_all scalar name" "list_all scalar cmd" using assms(3) by (simp_all add: c command_ok_def)
  define enc where "enc = b64_encode std (to_utf8 cmd)"
  have "list_all (\<lambda>c. is_ascii_alphanumeric c \<or> c \<in> set ''+/='') enc" "b64_decode std enc = Some (to_utf8 cmd)"
    using assms(2) to_utf8_bytes [OF ok(3)] by (simp_all add: is_base64_def enc_def)
  then have "decode_text std (uni_trim (uni enc)) = Some (to_utf8 cmd)" by (simp add: alphabet_no_space decode_text_uni)
  moreover have "split_once 32 (listing_entry url std system c) = Some (file_text url system order name, uni enc)"
    using file_text_plain [OF assms(1) ok(2), of system order] by (simp add: c listing_entry_def enc_def)
  moreover have "split_once 95 (file_text url system order name)
      = Some (order_text order, uni (encode_marker_name url name) @ uni (custom_cmd_file_ext system))"
    using digits_plain [OF conjunct2 [OF order_text_digits], of 95] by (simp add: file_text_eq)
  ultimately show ?thesis using file_name_read [OF assms(1) ok(2)] order_text_u32 [of order] ok(1) from_utf8_to_utf8 [OF ok(3)]
    by (simp add: listing_line_def c)
qed

lemma entry_plain:
  assumes "is_url_safe url" "is_standard std" "command_ok c"
  shows "10 \<notin> set (listing_entry url std system c) \<and> 13 \<notin> set (listing_entry url std system c)"
proof -
  obtain order name cmd where c: "c = (order, name, cmd)" by (cases c)
  have "list_all scalar name" "list_all scalar cmd" using assms(3) by (simp_all add: c command_ok_def)
  then show ?thesis using file_text_plain [OF assms(1)] encode_plain [OF assms(2) base64_plains(2) to_utf8_bytes]
    by (simp add: c listing_entry_def)
qed

lemma map_filter_all: "(\<And>x. x \<in> set xs \<Longrightarrow> f (g x) = Some x) \<Longrightarrow> List.map_filter f (map g xs) = xs"
  by (induction xs) simp_all

text \<open>
  C13. An editor loads what was saved. Reading the listing of a directory gives back every
  command with its order, its name and its text, whatever lines a shell prints before the
  listing and whether lines end in LF or CRLF, for texts of any characters, names of any
  characters but at least one, and orders of up to five digits. Before the listing there may
  be an unfinished line of blanks only: the opening marker has to have its line to itself.
\<close>

theorem listing_is_read_back:
  assumes "is_url_safe url" "is_standard std" "list_all command_ok cmds" "eol \<in> line_ends"
    and "list_all uni_whitespace (last (split_on 10 before))"
  shows "parse_custom_cmds_listing url std (listing_output url std system eol before cmds) = Some cmds"
proof -
  define entries where "entries = map (listing_entry url std system) cmds"
  define N where "N = map uni_strip_cr (butlast (split_on 10 before))"
  define w where "w = last (split_on 10 before)"
  let ?dir = "uni CUSTOM_CMD_DIR_MARKER" and ?stop = "uni CUSTOM_CMD_DIR_END_MARKER"
  have ok: "10 \<notin> set (listing_entry url std system c) \<and> 13 \<notin> set (listing_entry url std system c)" if "c \<in> set cmds" for c
    using entry_plain [OF assms(1,2)] assms(3) that by (simp add: list_all_iff)
  have marks: "10 \<notin> set ?dir" "10 \<notin> set ?stop" "13 \<notin> set ?dir" "13 \<notin> set ?stop"
    "uni_trim ?dir = ?dir" "uni_trim ?stop = ?stop" "uni_trim [] = []" "?dir \<noteq> ?stop"
    "?stop \<noteq> uni CUSTOM_CMD_DIR_MISSING_MARKER" "?dir \<noteq> uni CUSTOM_CMD_DIR_MISSING_MARKER"
    "?stop \<noteq> []" "?dir \<noteq> []" "uni CUSTOM_CMD_DIR_MISSING_MARKER \<noteq> []"
    by (simp_all add: CUSTOM_CMD_DIR_MARKER_def CUSTOM_CMD_DIR_END_MARKER_def CUSTOM_CMD_DIR_MISSING_MARKER_def
        uni_def uni_trim_def uni_whitespace_def)
  have w: "list_all uni_whitespace w" "10 \<notin> set w"
    using assms(5) split_on_parts [of w 10 before] split_on_not_Nil [of 10 before] by (simp_all add: w_def)
  then have trim_dir: "uni_trim (w @ ?dir) = ?dir" using marks(5) by (simp add: uni_trim_def list_all_iff dropWhile_append3)
  have "map uni_strip_cr (split_on 10 (w @ concat (map (\<lambda>l. l @ eol) (?dir # entries @ [?stop]))))
      = (w @ ?dir) # (entries @ [?stop]) @ [[]]"
    by (rule blank_then_line [OF w assms(4)]) (use ok marks in \<open>auto simp: entries_def\<close>)
  then have lines: "map uni_strip_cr (split_on 10 (listing_output url std system eol before cmds))
      = (N @ (w @ ?dir) # entries) @ ?stop # [[]]"
    unfolding listing_output_def entries_def [symmetric] split_on_append_any [of 10 before] map_append N_def w_def by simp
  have none: "uni_trim e \<noteq> ?dir" "uni_trim e \<noteq> ?stop" "uni_trim e \<noteq> uni CUSTOM_CMD_DIR_MISSING_MARKER"
    if "e \<in> set entries" for e
    using that entry_no_marker by (auto simp: entries_def)
  define L where "L = N @ (w @ ?dir) # entries"
  define A where "A = L @ ?stop # [[]]"
  have stop: "rposition (\<lambda>line. uni_trim line = ?stop) A = Some (length L)"
    unfolding A_def using marks by (intro rposition_last) simp_all
  have dir: "rposition (\<lambda>line. uni_trim line = ?dir) L = Some (length N)"
    unfolding L_def using trim_dir none by (intro rposition_last) simp_all
  have missing: "i < length N" if "rposition (\<lambda>line. uni_trim line = uni CUSTOM_CMD_DIR_MISSING_MARKER) A = Some i" for i
    using rposition_before [of "(w @ ?dir) # entries @ [?stop, []]" "\<lambda>line. uni_trim line = uni CUSTOM_CMD_DIR_MISSING_MARKER" N i]
      that marks none trim_dir by (simp add: A_def L_def)
  have "length N \<le> length L" "take (length L) A = L" "drop (Suc (length N)) L = entries" by (simp_all add: A_def L_def)
  moreover note lines [folded L_def, folded A_def]
  moreover have "List.map_filter (listing_line url std) entries = cmds"
    unfolding entries_def using entry_read [OF assms(1,2)] assms(3) by (intro map_filter_all) (simp add: list_all_iff)
  ultimately show ?thesis using missing
    by (auto simp: parse_custom_cmds_listing_def Let_def stop dir split: option.split)
qed

lemma listing_is_read_back_witness:
  "parse_custom_cmds_listing (engine url_alphabet) (engine std_alphabet)
      (listing_output (engine url_alphabet) (engine std_alphabet) Windows [13, 10] (uni ''motd'' @ [13, 10, 32])
        [(100, uni ''up'', uni ''uptime'')])
    = Some [(100, uni ''up'', uni ''uptime'')]"
  by (rule listing_is_read_back [OF engines])
    (simp_all add: command_ok_def scalar_def uni_def line_ends_def uni_whitespace_def)

end
