(* ===== verification/Rust_Net.thy ===== *)
theory Rust_Net
  imports Rust_Str "HOL-Library.Word"
begin

text \<open>
  \<open>std::net::IpAddr\<close>: an address by its octets, four or sixteen of them, the
  parser behind \<open>str::parse\<close> and the printer behind \<open>to_string\<close>.
\<close>

datatype IpAddr = V4 "8 word list" | V6 "8 word list"

definition is_ipv6 :: "IpAddr \<Rightarrow> bool" where
  "is_ipv6 a = (case a of V4 _ \<Rightarrow> False | V6 _ \<Rightarrow> True)"

definition octets :: "IpAddr \<Rightarrow> 8 word list" where
  "octets a = (case a of V4 os \<Rightarrow> os | V6 os \<Rightarrow> os)"

definition ip_wf :: "IpAddr \<Rightarrow> bool" where
  "ip_wf a = (case a of V4 os \<Rightarrow> length os = 4 | V6 os \<Rightarrow> length os = 16)"

section \<open>Parsing\<close>

text \<open>Each reader takes the rest of the input and gives back what it read and what is left.\<close>

definition hex_val :: "char \<Rightarrow> nat" where
  "hex_val c = (if is_ascii_digit c then code_of c - 48
     else if is_ascii_lower c then code_of c - 87 else code_of c - 55)"

definition radix_val :: "nat \<Rightarrow> string \<Rightarrow> nat" where
  "radix_val radix s = foldl (\<lambda>n c. radix * n + hex_val c) 0 s"

definition is_radix_digit :: "nat \<Rightarrow> char \<Rightarrow> bool" where
  "is_radix_digit radix c = (if radix = 10 then is_ascii_digit c else is_ascii_hexdigit c)"

definition read_number :: "nat \<Rightarrow> nat \<Rightarrow> nat \<Rightarrow> bool \<Rightarrow> string \<Rightarrow> (nat \<times> string) option" where
  "read_number radix hi max_digits allow_zero_prefix s =
     (let ds = takeWhile (is_radix_digit radix) s in
      if ds = [] \<or> length ds > max_digits \<or> radix_val radix ds > hi
         \<or> (\<not> allow_zero_prefix \<and> hd ds = CHR ''0'' \<and> length ds > 1)
      then None else Some (radix_val radix ds, dropWhile (is_radix_digit radix) s))"

definition read_given_char :: "char \<Rightarrow> string \<Rightarrow> string option" where
  "read_given_char c s = strip_prefix [c] s"

definition read_separator ::
  "char \<Rightarrow> nat \<Rightarrow> (string \<Rightarrow> ('a \<times> string) option) \<Rightarrow> string \<Rightarrow> ('a \<times> string) option" where
  "read_separator sep i inner s =
     (if i > 0 then (case read_given_char sep s of None \<Rightarrow> None | Some s' \<Rightarrow> inner s') else inner s)"

fun read_ipv4_groups :: "nat \<Rightarrow> nat \<Rightarrow> string \<Rightarrow> (8 word list \<times> string) option" where
  "read_ipv4_groups 0 i s = Some ([], s)"
| "read_ipv4_groups (Suc n) i s =
     (case read_separator (CHR ''.'') i (read_number 10 255 3 False) s of None \<Rightarrow> None
      | Some (v, s') \<Rightarrow> map_option (\<lambda>(os, s''). (word_of_nat v # os, s'')) (read_ipv4_groups n (Suc i) s'))"

definition read_ipv4_addr :: "string \<Rightarrow> (8 word list \<times> string) option" where
  "read_ipv4_addr s = read_ipv4_groups 4 0 s"

definition group_octets :: "nat \<Rightarrow> 8 word list" where
  "group_octets g = [word_of_nat (g div 256), word_of_nat (g mod 256)]"

text \<open>
  Groups from position \<open>i\<close> on, \<open>n\<close> of them at most: the octets read, whether
  they end in a dotted quad, and the rest.
\<close>

fun read_groups :: "nat \<Rightarrow> nat \<Rightarrow> string \<Rightarrow> 8 word list \<times> bool \<times> string" where
  "read_groups 0 i s = ([], False, s)"
| "read_groups (Suc n) i s =
     (case (if n > 0 then read_separator (CHR '':'') i read_ipv4_addr s else None) of
        Some (os, s') \<Rightarrow> (os, True, s')
      | None \<Rightarrow>
          (case read_separator (CHR '':'') i (read_number 16 65535 4 True) s of
             None \<Rightarrow> ([], False, s)
           | Some (g, s') \<Rightarrow>
               (let (os, quad, s'') = read_groups n (Suc i) s' in (group_octets g @ os, quad, s''))))"

definition read_ipv6_addr :: "string \<Rightarrow> (8 word list \<times> string) option" where
  "read_ipv6_addr s =
     (let (head, quad, s1) = read_groups 8 0 s in
      if length head = 16 then Some (head, s1)
      else if quad then None
      else case strip_prefix ''::'' s1 of None \<Rightarrow> None
           | Some s2 \<Rightarrow>
               (let (tail, _, s3) = read_groups (7 - length head div 2) 0 s2 in
                Some (head @ replicate (16 - length head - length tail) 0 @ tail, s3)))"

definition parse_ip :: "string \<Rightarrow> IpAddr option" where
  "parse_ip s =
     (case (case read_ipv4_addr s of Some (os, r) \<Rightarrow> Some (V4 os, r)
            | None \<Rightarrow> map_option (\<lambda>(os, r). (V6 os, r)) (read_ipv6_addr s)) of
        Some (a, []) \<Rightarrow> Some a
      | _ \<Rightarrow> None)"

section \<open>Printing\<close>

definition show_ipv4 :: "8 word list \<Rightarrow> string" where
  "show_ipv4 os = join ''.'' (map (\<lambda>b. show_nat (unat b)) os)"

fun show_hex :: "nat \<Rightarrow> string" where
  "show_hex n = (let d = (if n mod 16 < 10 then char_of (48 + n mod 16) else char_of (87 + n mod 16)) in
     if n < 16 then [d] else show_hex (n div 16) @ [d])"

declare show_hex.simps [simp del]

fun segments :: "8 word list \<Rightarrow> nat list" where
  "segments (a # b # os) = (256 * unat a + unat b) # segments os"
| "segments _ = []"

text \<open>The first longest run of zero segments, as its start and length.\<close>

fun zero_run :: "nat list \<Rightarrow> nat \<Rightarrow> nat \<times> nat \<Rightarrow> nat \<times> nat \<Rightarrow> nat \<times> nat" where
  "zero_run [] i cur best = best"
| "zero_run (g # gs) i (start, len) best =
     (if g = 0 then
        (let cur = (if len = 0 then (i, 1) else (start, Suc len))
         in zero_run gs (Suc i) cur (if snd cur > snd best then cur else best))
      else zero_run gs (Suc i) (0, 0) best)"

definition show_ipv6 :: "8 word list \<Rightarrow> string" where
  "show_ipv6 os =
     (let gs = segments os in
      if take 5 gs = [0, 0, 0, 0, 0] \<and> gs ! 5 = 65535 then ''::ffff:'' @ show_ipv4 (drop 12 os)
      else (let (start, len) = zero_run gs 0 (0, 0) (0, 0) in
        if len > 1 then join '':'' (map show_hex (take start gs)) @ ''::''
             @ join '':'' (map show_hex (drop (start + len) gs))
        else join '':'' (map show_hex gs)))"

definition show_ip :: "IpAddr \<Rightarrow> string" where
  "show_ip a = (case a of V4 os \<Rightarrow> show_ipv4 os | V6 os \<Rightarrow> show_ipv6 os)"

section \<open>Facts\<close>

lemma read_ipv4_groups_len: "read_ipv4_groups n i s = Some (os, r) \<Longrightarrow> length os = n"
  by (induction n arbitrary: i s os r) (auto split: option.splits)

lemma read_groups_len:
  "read_groups n i s = (os, q, r) \<Longrightarrow> length os \<le> 2 * n \<and> even (length os)"
proof (induction n arbitrary: i s os q r)
  case (Suc n)
  show ?case
  proof (cases "if n > 0 then read_separator (CHR '':'') i read_ipv4_addr s else None")
    case (Some p)
    obtain os' s' where p: "p = (os', s')" by (cases p)
    have "length os' = 4"
      using Some p
      by (auto simp: read_separator_def read_ipv4_addr_def dest!: read_ipv4_groups_len split: if_splits option.splits)
    with Some p Suc.prems show ?thesis by (auto split: if_splits)
  next
    case None
    with Suc show ?thesis
      by (fastforce simp: group_octets_def split: option.splits prod.splits)
  qed
qed simp

lemma parse_ip_wf: "parse_ip s = Some a \<Longrightarrow> ip_wf a"
proof -
  assume "parse_ip s = Some a"
  then consider os r where "read_ipv4_addr s = Some (os, r)" "a = V4 os"
    | os r where "read_ipv6_addr s = Some (os, r)" "a = V6 os"
    by (auto simp: parse_ip_def split: option.splits list.splits)
  then show ?thesis
  proof cases
    case 1
    then show ?thesis by (auto simp: read_ipv4_addr_def ip_wf_def dest: read_ipv4_groups_len)
  next
    case (2 os r)
    obtain hd q s1 where h: "read_groups 8 0 s = (hd, q, s1)" by (cases "read_groups 8 0 s")
    note hl = read_groups_len [OF h]
    have "length os = 16"
    proof (cases "length hd = 16")
      case True with 2 h show ?thesis by (simp add: read_ipv6_addr_def)
    next
      case False
      with 2 h obtain s2 tl q2 s3 where t: "read_groups (7 - length hd div 2) 0 s2 = (tl, q2, s3)"
        "os = hd @ replicate (16 - length hd - length tl) 0 @ tl"
        by (auto simp: read_ipv6_addr_def split: if_splits option.splits prod.splits)
      have "length hd + length tl \<le> 16"
        using read_groups_len [OF t(1)] hl False by (auto elim!: evenE)
      with t show ?thesis by simp
    qed
    with 2 show ?thesis by (simp add: ip_wf_def)
  qed
qed

lemma show_nat_hd: "0 < n \<Longrightarrow> hd (show_nat n) \<noteq> CHR ''0''"
proof (induction n rule: show_nat.induct)
  case (1 n)
  show ?case
  proof (cases "n < 10")
    case True
    then have "char_of (48 + n) \<noteq> CHR ''0''"
      using 1(2) by (auto simp: char_of_eq_iff take_bit_eq_mod of_char_of dest!: arg_cong [where f = of_char])
    with True show ?thesis by (simp add: show_nat.simps [of n])
  next
    case False
    with 1 show ?thesis by (simp add: show_nat.simps [of n])
  qed
qed

lemma show_nat_length: "n < 10 ^ Suc k \<Longrightarrow> length (show_nat n) \<le> Suc k"
proof (induction k arbitrary: n)
  case 0
  then show ?case by (simp add: show_nat.simps)
next
  case (Suc k)
  then show ?case by (cases "n < 10") (simp_all add: show_nat.simps [of n] less_mult_imp_div_less)
qed

lemma radix_val_10: "all_digits s \<Longrightarrow> radix_val 10 s = digits_val s"
  by (induction s rule: rev_induct)
    (auto simp: radix_val_def digits_val_def all_digits_def hex_val_def digit_val_def)

lemma read_number_show:
  assumes "n < 256" "r = [] \<or> \<not> is_ascii_digit (hd r)"
  shows "read_number 10 255 3 False (show_nat n @ r) = Some (n, r)"
proof -
  have d: "all_digits (show_nat n)" "digits_val (show_nat n) = n" using show_nat_digits [of n] by auto
  have tw: "takeWhile (is_radix_digit 10) (show_nat n @ r) = show_nat n"
    "dropWhile (is_radix_digit 10) (show_nat n @ r) = r"
    using assms(2) d(1)
    by (cases r; auto simp: is_radix_digit_def all_digits_def list_all_iff takeWhile_append2 dropWhile_append2)+
  have "length (show_nat n) \<le> 3" using assms(1) show_nat_length [of n 2] by simp
  moreover have "n = 0 \<or> hd (show_nat n) \<noteq> CHR ''0''" using show_nat_hd [of n] by auto
  moreover have "length (show_nat 0) = 1" by (simp add: show_nat.simps)
  ultimately show ?thesis
    using assms(1) d by (auto simp: read_number_def tw Let_def radix_val_10)
qed

lemma unat_byte: "unat b < 256" for b :: "8 word"
  using unsigned_less [of b, where 'a = nat] by simp

lemma read_ipv4_show:
  "os \<noteq> [] \<Longrightarrow> read_ipv4_groups (length os) i ((if i = 0 then [] else ''.'') @ show_ipv4 os) = Some (os, [])"
proof (induction os arbitrary: i)
  case (Cons b os)
  have sep: "read_separator (CHR ''.'') i (read_number 10 255 3 False)
      ((if i = 0 then [] else ''.'') @ show_nat (unat b) @ r) = Some (unat b, r)"
    if "r = [] \<or> \<not> is_ascii_digit (hd r)" for r
    using read_number_show [OF unat_byte that] by (simp add: read_separator_def read_given_char_def)
  show ?case
  proof (cases os)
    case Nil
    with sep [of "[]"] show ?thesis by (simp add: show_ipv4_def)
  next
    case (Cons c os')
    have "show_ipv4 (b # os) = show_nat (unat b) @ ''.'' @ show_ipv4 os"
      using Cons by (simp add: show_ipv4_def)
    moreover have "\<not> is_ascii_digit (CHR ''.'')" by (simp add: is_ascii_digit_def)
    ultimately show ?thesis
      using sep [of "''.'' @ show_ipv4 os"] Cons.IH [of "Suc i"] Cons by simp
  qed
qed simp

lemma parse_show_ipv4: "length os = 4 \<Longrightarrow> parse_ip (show_ip (V4 os)) = Some (V4 os)"
  using read_ipv4_show [of os 0] by (cases os) (auto simp: parse_ip_def read_ipv4_addr_def show_ip_def)

end
