(* ===== verification/Throttle.thy ===== *)
theory Throttle
  imports Rust_Net
begin

text \<open>
  The login throttle of the monitor (\<open>monitor/src/api/ratelimit.rs\<close>):
  failure-triggered exponential backoff over two keys per attempt. The throttle
  is a map of counters behind a lock, every operation one critical section, so
  the operations are state transformers and \<open>throttle_step\<close> interleaves them
  with the attempts that are still undecided.
\<close>

section \<open>Keys and entries\<close>

definition FREE_ATTEMPTS :: nat where "FREE_ATTEMPTS = 3"
definition ACCOUNT_FREE_ATTEMPTS :: nat where "ACCOUNT_FREE_ATTEMPTS = 20"
definition BASE_DELAY :: duration where "BASE_DELAY = from_secs 1"
definition MAX_DELAY :: duration where "MAX_DELAY = from_secs 300"
definition ENTRY_TTL :: duration where "ENTRY_TTL = from_secs 3600"
definition PRUNE_THRESHOLD :: nat where "PRUNE_THRESHOLD = 1024"
definition PRUNE_INTERVAL :: duration where "PRUNE_INTERVAL = from_secs 60"

datatype Key = Ip IpAddr | KDevice string | Account | Reauth

fun free_attempts :: "Key \<Rightarrow> nat" where
  "free_attempts Account = ACCOUNT_FREE_ATTEMPTS"
| "free_attempts _ = FREE_ATTEMPTS"

datatype Who = Stranger | Device string | SignedIn

record Entry =
  failures :: nat
  in_flight :: nat
  last_seen :: instant

definition saturating_mul :: "duration \<Rightarrow> nat \<Rightarrow> duration" where
  "saturating_mul d n = min (d * n) (18446744073709551615 * 1000000000 + 999999999)"

definition penalty :: "Entry \<Rightarrow> nat \<Rightarrow> duration" where
  "penalty e free =
     (let effective = saturating_add32 (failures e) (in_flight e) in
      case checked_sub effective free of
        None \<Rightarrow> 0
      | Some excess \<Rightarrow>
          if excess = 0 then 0
          else let shift = min (excess - 1) 20
               in min (saturating_mul BASE_DELAY (2 ^ shift)) MAX_DELAY)"

section \<open>The throttle\<close>

record LoginThrottle =
  last_prune :: "instant option"
  entries :: "(Key, Entry) hashmap"

record LoginAttempt =
  att_keys :: "Key list"
  resolved :: bool

definition new_throttle :: LoginThrottle where
  "new_throttle = \<lparr>last_prune = None, entries = hm_empty\<rparr>"

definition keys :: "IpAddr option \<Rightarrow> Who \<Rightarrow> Key list" where
  "keys ip who =
     (let second = (case who of Stranger \<Rightarrow> Account | Device h \<Rightarrow> KDevice h | SignedIn \<Rightarrow> Reauth)
      in (case ip of None \<Rightarrow> [] | Some a \<Rightarrow> [Ip a]) @ [second])"

definition fresh_entry :: "instant \<Rightarrow> Entry" where
  "fresh_entry now = \<lparr>failures = 0, in_flight = 0, last_seen = now\<rparr>"

definition prune :: "LoginThrottle \<Rightarrow> instant \<Rightarrow> LoginThrottle" where
  "prune th now =
     (if hm_len (entries th) > PRUNE_THRESHOLD
         \<and> (case last_prune th of None \<Rightarrow> True
            | Some at \<Rightarrow> saturating_duration_since now at \<ge> PRUNE_INTERVAL)
      then th\<lparr>entries := hm_retain (\<lambda>_ e. in_flight e > 0
                  \<or> saturating_duration_since now (last_seen e) < ENTRY_TTL) (entries th),
              last_prune := Some now\<rparr>
      else th)"

definition key_wait :: "(Key, Entry) hashmap \<Rightarrow> instant \<Rightarrow> Key \<Rightarrow> duration option" where
  "key_wait es now k =
     (case hm_get es k of
        None \<Rightarrow> None
      | Some e \<Rightarrow>
          (case checked_sub (penalty e (free_attempts k))
                  (saturating_duration_since now (last_seen e)) of
             None \<Rightarrow> None
           | Some d \<Rightarrow> if d = 0 then None else Some d))"

definition max_wait :: "duration list \<Rightarrow> duration option" where
  "max_wait ds = (case ds of [] \<Rightarrow> None | d # rest \<Rightarrow> Some (foldl max d rest))"

definition reserve_entry :: "instant \<Rightarrow> Entry \<Rightarrow> Entry" where
  "reserve_entry now e =
     (let e1 = (if in_flight e = 0 \<and> saturating_duration_since now (last_seen e) \<ge> ENTRY_TTL
                then e\<lparr>failures := 0\<rparr> else e)
      in e1\<lparr>in_flight := saturating_add32 (in_flight e1) 1, last_seen := now\<rparr>)"

definition begin_attempt ::
  "LoginThrottle \<Rightarrow> instant \<Rightarrow> IpAddr option \<Rightarrow> Who \<Rightarrow>
     LoginThrottle \<times> (duration, LoginAttempt) result" where
  "begin_attempt th now ip who =
     (let attempt_keys = keys ip who;
          th1 = prune th now
      in case max_wait (List.map_filter (key_wait (entries th1) now) attempt_keys) of
           Some wait \<Rightarrow> (th1, Err wait)
         | None \<Rightarrow>
             (th1\<lparr>entries := fold (\<lambda>k. hm_modify k (fresh_entry now) (reserve_entry now))
                               attempt_keys (entries th1)\<rparr>,
              Ok \<lparr>att_keys = attempt_keys, resolved = False\<rparr>))"

definition fail_entry :: "instant \<Rightarrow> Entry \<Rightarrow> Entry" where
  "fail_entry now e =
     e\<lparr>in_flight := saturating_sub (in_flight e) 1,
       failures := saturating_add32 (failures e) 1, last_seen := now\<rparr>"

definition finish_failure_at :: "LoginThrottle \<Rightarrow> Key list \<Rightarrow> instant \<Rightarrow> LoginThrottle" where
  "finish_failure_at th ks now =
     th\<lparr>entries := fold (\<lambda>k. hm_modify k (fresh_entry now) (fail_entry now)) ks (entries th)\<rparr>"

definition release_one :: "Key \<Rightarrow> (Key, Entry) hashmap \<Rightarrow> (Key, Entry) hashmap" where
  "release_one k es =
     (case hm_get es k of
        None \<Rightarrow> es
      | Some e \<Rightarrow>
          (let e1 = e\<lparr>in_flight := saturating_sub (in_flight e) 1\<rparr>;
               es1 = hm_insert k e1 es
           in if failures e1 = 0 \<and> in_flight e1 = 0 then hm_remove k es1 else es1))"

definition release_reservation :: "(Key, Entry) hashmap \<Rightarrow> Key list \<Rightarrow> (Key, Entry) hashmap" where
  "release_reservation es ks = fold release_one ks es"

definition drop_attempt :: "LoginThrottle \<Rightarrow> LoginAttempt \<Rightarrow> LoginThrottle" where
  "drop_attempt th a =
     (if \<not> resolved a then th\<lparr>entries := release_reservation (entries th) (att_keys a)\<rparr> else th)"

definition record_failure :: "LoginThrottle \<Rightarrow> instant \<Rightarrow> LoginAttempt \<Rightarrow> LoginThrottle" where
  "record_failure th now a =
     (let th1 = finish_failure_at th (att_keys a) now in drop_attempt th1 (a\<lparr>resolved := True\<rparr>))"

definition clear_keys :: "LoginThrottle \<Rightarrow> Key list \<Rightarrow> LoginThrottle" where
  "clear_keys th ks = th\<lparr>entries := fold hm_remove ks (entries th)\<rparr>"

definition record_success :: "LoginThrottle \<Rightarrow> LoginAttempt \<Rightarrow> LoginThrottle" where
  "record_success th a =
     (let th1 = clear_keys th (att_keys a) in drop_attempt th1 (a\<lparr>resolved := True\<rparr>))"

definition cancel :: "LoginThrottle \<Rightarrow> LoginAttempt \<Rightarrow> LoginThrottle" where
  "cancel th a = drop_attempt th a"

text \<open>
  The throttle together with the attempts admitted and not yet decided. One
  rule per way an operation can go; any interleaving of clients is a path.
\<close>

type_synonym throttle_sys = "LoginThrottle \<times> LoginAttempt list"

inductive throttle_step :: "throttle_sys \<Rightarrow> throttle_sys \<Rightarrow> bool" where
  admitted: "begin_attempt th now ip who = (th', Ok a) \<Longrightarrow> throttle_step (th, os) (th', a # os)"
| refused: "begin_attempt th now ip who = (th', Err w) \<Longrightarrow> throttle_step (th, os) (th', os)"
| failed: "a \<in> set os \<Longrightarrow> throttle_step (th, os) (record_failure th now a, remove1 a os)"
| succeeded: "a \<in> set os \<Longrightarrow> throttle_step (th, os) (record_success th a, remove1 a os)"
| cancelled: "a \<in> set os \<Longrightarrow> throttle_step (th, os) (cancel th a, remove1 a os)"

inductive_cases throttle_stepE: "throttle_step (th, os) (th', os')"

definition throttle_init :: "throttle_sys \<Rightarrow> bool" where
  "throttle_init s \<longleftrightarrow> s = (new_throttle, [])"

definition outstanding :: "Key \<Rightarrow> LoginAttempt list \<Rightarrow> nat" where
  "outstanding k os = length (filter (\<lambda>a. k \<in> set (att_keys a)) os)"

definition entry_ok :: "LoginAttempt list \<Rightarrow> Key \<Rightarrow> Entry \<Rightarrow> bool" where
  "entry_ok os k e \<longleftrightarrow> failures e \<le> u32_max \<and> in_flight e \<le> u32_max
     \<and> in_flight e \<le> outstanding k os \<and> 0 < failures e + in_flight e"

definition throttle_inv :: "throttle_sys \<Rightarrow> bool" where
  "throttle_inv s \<longleftrightarrow> hm_wf (entries (fst s))
     \<and> (\<forall>a \<in> set (snd s). distinct (att_keys a) \<and> \<not> resolved a)
     \<and> (\<forall>k e. hm_get (entries (fst s)) k = Some e \<longrightarrow> entry_ok (snd s) k e)"

text \<open>What one key says about an attempt: its delay has not passed yet.\<close>

definition blocked :: "LoginThrottle \<Rightarrow> instant \<Rightarrow> Key \<Rightarrow> bool" where
  "blocked th now k \<longleftrightarrow> (case hm_get (entries th) k of None \<Rightarrow> False
     | Some e \<Rightarrow> now - last_seen e < penalty e (free_attempts k))"

text \<open>
  What clients do to the throttle, in the order it happens, with the attempts it
  admits on the way. An attempt is decided once, and only after it was admitted.
\<close>

datatype LoginEvent = Begins instant "IpAddr option" Who | Fails instant LoginAttempt
  | Succeeds LoginAttempt | Cancels LoginAttempt

fun settle_attempt :: "LoginAttempt \<Rightarrow> LoginThrottle \<Rightarrow> throttle_sys \<Rightarrow> throttle_sys" where
  "settle_attempt a th' (th, os) = (if a \<in> set os then (th', remove1 a os) else (th, os))"

fun login_run :: "throttle_sys \<Rightarrow> LoginEvent list \<Rightarrow> throttle_sys \<times> LoginAttempt list" where
  "login_run s [] = (s, [])"
| "login_run s (Begins now ip who # es) =
     (case begin_attempt (fst s) now ip who of
        (th, Inl _) \<Rightarrow> login_run (th, snd s) es
      | (th, Inr a) \<Rightarrow> (let (s', as) = login_run (th, a # snd s) es in (s', a # as)))"
| "login_run s (Fails now a # es) = login_run (settle_attempt a (record_failure (fst s) now a) s) es"
| "login_run s (Succeeds a # es) = login_run (settle_attempt a (record_success (fst s) a) s) es"
| "login_run s (Cancels a # es) = login_run (settle_attempt a (cancel (fst s) a) s) es"

text \<open>
  A burst on the key \<open>k\<close>: all attempts begin within the base delay from \<open>t0\<close>,
  and none that holds the key succeeds or is cancelled.
\<close>

fun in_burst :: "Key \<Rightarrow> instant \<Rightarrow> LoginEvent \<Rightarrow> bool" where
  "in_burst k t0 (Begins now ip who) \<longleftrightarrow> t0 \<le> now \<and> now < t0 + BASE_DELAY"
| "in_burst k t0 (Fails now a) \<longleftrightarrow> t0 \<le> now"
| "in_burst k t0 (Succeeds a) \<longleftrightarrow> k \<notin> set (att_keys a)"
| "in_burst k t0 (Cancels a) \<longleftrightarrow> k \<notin> set (att_keys a)"

text \<open>A sequence of attempts none of which is decided yet, as a run of the step relation.\<close>

fun begin_all :: "throttle_sys \<Rightarrow> (instant \<times> IpAddr option \<times> Who) list \<Rightarrow> throttle_sys" where
  "begin_all s [] = s"
| "begin_all (th, os) ((now, ip, who) # rs) =
     (case begin_attempt th now ip who of
        (th', Inl _) \<Rightarrow> begin_all (th', os) rs
      | (th', Inr a) \<Rightarrow> begin_all (th', a # os) rs)"

section \<open>Penalties\<close>

lemmas delay_defs = BASE_DELAY_def MAX_DELAY_def ENTRY_TTL_def PRUNE_INTERVAL_def from_secs_def
lemmas attempt_defs = FREE_ATTEMPTS_def ACCOUNT_FREE_ATTEMPTS_def u32_max_def

lemma saturating_mul_small: "n \<le> 2 ^ 20 \<Longrightarrow> saturating_mul BASE_DELAY n = from_secs n"
  by (simp add: saturating_mul_def delay_defs)

lemma penalty_zero:
  "saturating_add32 (failures e) (in_flight e) \<le> free \<Longrightarrow> penalty e free = 0"
  by (auto simp: penalty_def checked_sub_def Let_def)

lemma penalty_shift:
  assumes "free < saturating_add32 (failures e) (in_flight e)"
  shows "penalty e free =
    min (from_secs (2 ^ min (saturating_add32 (failures e) (in_flight e) - free - 1) 20)) MAX_DELAY"
proof -
  have "(2::nat) ^ min n 20 \<le> 2 ^ 20" for n by (rule power_increasing) auto
  with assms show ?thesis
    by (simp add: penalty_def checked_sub_def Let_def saturating_mul_small)
qed

lemma power_cap_irrelevant:
  "min (from_secs (2 ^ min n 20)) MAX_DELAY = min (from_secs (2 ^ n)) MAX_DELAY"
proof (cases "n \<le> 20")
  case False
  then have "(2::nat) ^ 9 \<le> 2 ^ n" by (intro power_increasing) auto
  with False show ?thesis by (simp add: delay_defs)
qed (simp add: min_def)

lemma penalty_le_max: "penalty e free \<le> MAX_DELAY"
  by (cases "saturating_add32 (failures e) (in_flight e) \<le> free")
    (auto simp: penalty_zero penalty_shift)

lemma penalty_pos:
  "free < saturating_add32 (failures e) (in_flight e) \<Longrightarrow> 0 < penalty e free"
  by (simp add: penalty_shift delay_defs)

lemma penalty_less_ttl: "penalty e free < ENTRY_TTL"
  using penalty_le_max [of e free] by (simp add: delay_defs)

section \<open>Admission\<close>

lemma distinct_keys [simp]: "distinct (keys ip who)"
  by (auto simp: keys_def Let_def split: option.splits Who.splits)

lemma keys_not_Nil [simp]: "keys ip who \<noteq> []"
  by (simp add: keys_def Let_def)

lemma max_wait_None_iff: "max_wait ds = None \<longleftrightarrow> ds = []"
  by (simp add: max_wait_def split: list.splits)

lemma foldl_max: "foldl max d ds = Max (set (d # ds))" for d :: nat
proof -
  have "(\<lambda>(x::nat) s. max s x) = max" by (auto simp: fun_eq_iff max.commute)
  then show ?thesis by (simp add: foldl_conv_fold Max.set_eq_fold del: set_simps)
qed

lemma max_wait_Some_iff: "max_wait ds = Some w \<longleftrightarrow> ds \<noteq> [] \<and> w = Max (set ds)"
  by (cases ds) (auto simp: max_wait_def foldl_max)

lemma key_wait_eq:
  "key_wait (entries th) now k =
     (if blocked th now k
      then map_option (\<lambda>e. penalty e (free_attempts k) - (now - last_seen e)) (hm_get (entries th) k)
      else None)"
  by (auto simp: key_wait_def blocked_def checked_sub_def saturating_duration_since_def
      split: option.splits)

lemma prune_wf [inv_intros, simp]: "hm_wf (entries th) \<Longrightarrow> hm_wf (entries (prune th now))"
  by (auto simp: prune_def)

lemma prune_get:
  assumes "hm_wf (entries th)"
  shows "hm_get (entries (prune th now)) k = hm_get (entries th) k
    \<or> (hm_get (entries (prune th now)) k = None
       \<and> (\<exists>e. hm_get (entries th) k = Some e \<and> in_flight e = 0 \<and> ENTRY_TTL \<le> now - last_seen e))"
  using assms
  by (auto simp: prune_def hm.get_retain saturating_duration_since_def split: option.splits)

text \<open>A pruned entry was idle for longer than any penalty, so pruning changes no verdict.\<close>

lemma key_wait_prune:
  assumes "hm_wf (entries th)"
  shows "key_wait (entries (prune th now)) now k = key_wait (entries th) now k"
  using prune_get [OF assms, of now k]
proof
  assume "hm_get (entries (prune th now)) k = None
    \<and> (\<exists>e. hm_get (entries th) k = Some e \<and> in_flight e = 0 \<and> ENTRY_TTL \<le> now - last_seen e)"
  then obtain e where "hm_get (entries (prune th now)) k = None"
    and "hm_get (entries th) k = Some e" and "ENTRY_TTL \<le> now - last_seen e" by blast
  with penalty_less_ttl [of e "free_attempts k"] show ?thesis
    by (simp add: key_wait_eq blocked_def)
qed (simp add: key_wait_def)

lemma map_filter_Nil_iff: "List.map_filter f xs = [] \<longleftrightarrow> (\<forall>x \<in> set xs. f x = None)"
  by (induction xs) (auto split: option.splits)

lemma begin_verdict:
  assumes "hm_wf (entries th)"
  shows "snd (begin_attempt th now ip who) =
    (case max_wait (List.map_filter (key_wait (entries th) now) (keys ip who)) of
       Some w \<Rightarrow> Err w | None \<Rightarrow> Ok \<lparr>att_keys = keys ip who, resolved = False\<rparr>)"
proof -
  have "key_wait (entries (prune th now)) now = key_wait (entries th) now"
    using key_wait_prune [OF assms] by blast
  then show ?thesis by (auto simp: begin_attempt_def Let_def split: option.splits)
qed

lemma begin_ok_iff:
  assumes "hm_wf (entries th)"
  shows "is_ok (snd (begin_attempt th now ip who)) \<longleftrightarrow> (\<forall>k \<in> set (keys ip who). \<not> blocked th now k)"
proof -
  have "key_wait (entries th) now k = None \<longleftrightarrow> \<not> blocked th now k" for k
    by (auto simp: key_wait_eq blocked_def split: option.splits)
  then have "max_wait (List.map_filter (key_wait (entries th) now) (keys ip who)) = None
    \<longleftrightarrow> (\<forall>k \<in> set (keys ip who). \<not> blocked th now k)"
    by (simp add: max_wait_None_iff map_filter_Nil_iff)
  then show ?thesis
    by (auto simp: begin_verdict [OF assms] is_ok_def split: option.splits)
qed

lemma begin_wf [inv_intros]:
  "hm_wf (entries th) \<Longrightarrow> hm_wf (entries (fst (begin_attempt th now ip who)))"
  by (auto simp: begin_attempt_def Let_def split: option.splits)

lemma begin_admitted:
  assumes "begin_attempt th now ip who = (th', Ok a)"
  shows "a = \<lparr>att_keys = keys ip who, resolved = False\<rparr>
    \<and> entries th' = fold (\<lambda>k. hm_modify k (fresh_entry now) (reserve_entry now)) (keys ip who)
        (entries (prune th now))"
  using assms by (auto simp: begin_attempt_def Let_def split: option.splits)

lemma begin_refused:
  "begin_attempt th now ip who = (th', Err w) \<Longrightarrow> th' = prune th now"
  by (auto simp: begin_attempt_def Let_def split: option.splits)

section \<open>The invariant\<close>

lemma outstanding_Cons:
  "outstanding k (a # os) = (if k \<in> set (att_keys a) then 1 else 0) + outstanding k os"
  by (simp add: outstanding_def)

lemma outstanding_remove1:
  "a \<in> set os \<Longrightarrow> outstanding k os = (if k \<in> set (att_keys a) then 1 else 0) + outstanding k (remove1 a os)"
  by (induction os) (auto simp: outstanding_Cons)

lemma set_remove1_mem: "b \<in> set (remove1 a os) \<Longrightarrow> b \<in> set os"
  using set_remove1_subset by fastforce

lemma entry_ok_mono:
  "entry_ok os k e \<Longrightarrow> outstanding k os \<le> outstanding k os' \<Longrightarrow> entry_ok os' k e"
  by (auto simp: entry_ok_def)

lemma reserve_entry_ok:
  assumes "entry_ok os k e \<or> (failures e \<le> u32_max \<and> in_flight e = 0)"
    and "outstanding k os' = Suc (outstanding k os)"
  shows "entry_ok os' k (reserve_entry now e)"
  using assms
  by (auto simp: entry_ok_def reserve_entry_def Let_def saturating_add32_def u32_max_def)

lemma fail_entry_ok:
  assumes "entry_ok os k e \<or> (failures e \<le> u32_max \<and> in_flight e = 0)"
    and "outstanding k os = Suc (outstanding k os')"
  shows "entry_ok os' k (fail_entry now e)"
  using assms
  by (auto simp: entry_ok_def fail_entry_def saturating_add32_def saturating_sub_def u32_max_def)

lemma fresh_entry_ok: "failures (fresh_entry now) \<le> u32_max \<and> in_flight (fresh_entry now) = 0"
  by (simp add: fresh_entry_def)

lemma release_one_get:
  "hm_get (release_one k es) j =
     (if j = k then (case hm_get es k of None \<Rightarrow> None
        | Some e \<Rightarrow> if failures e = 0 \<and> in_flight e \<le> 1 then None
                    else Some (e\<lparr>in_flight := in_flight e - 1\<rparr>))
      else hm_get es j)"
  by (auto simp: release_one_def Let_def saturating_sub_def split: option.splits)

lemma release_one_wf [inv_intros, simp]: "hm_wf es \<Longrightarrow> hm_wf (release_one k es)"
  by (auto simp: release_one_def Let_def split: option.splits)

lemma release_wf [inv_intros, simp]: "hm_wf es \<Longrightarrow> hm_wf (release_reservation es ks)"
  unfolding release_reservation_def by (induction ks arbitrary: es) auto

lemma release_get:
  "distinct ks \<Longrightarrow> hm_get (release_reservation es ks) j =
     (if j \<in> set ks then (case hm_get es j of None \<Rightarrow> None
        | Some e \<Rightarrow> if failures e = 0 \<and> in_flight e \<le> 1 then None
                    else Some (e\<lparr>in_flight := in_flight e - 1\<rparr>))
      else hm_get es j)"
  unfolding release_reservation_def
  by (induction ks arbitrary: es) (auto simp: release_one_get)

lemma throttle_invI:
  assumes "hm_wf (entries th)"
    and "\<And>a. a \<in> set os \<Longrightarrow> distinct (att_keys a) \<and> \<not> resolved a"
    and "\<And>k e. hm_get (entries th) k = Some e \<Longrightarrow> entry_ok os k e"
  shows "throttle_inv (th, os)"
  using assms by (auto simp: throttle_inv_def)

lemma throttle_invD:
  assumes "throttle_inv (th, os)"
  shows "hm_wf (entries th)"
    and "a \<in> set os \<Longrightarrow> distinct (att_keys a) \<and> \<not> resolved a"
    and "hm_get (entries th) k = Some e \<Longrightarrow> entry_ok os k e"
  using assms by (auto simp: throttle_inv_def)

lemma prune_inv [inv_intros]: "throttle_inv (th, os) \<Longrightarrow> throttle_inv (prune th now, os)"
proof (rule throttle_invI)
  fix k e
  assume inv: "throttle_inv (th, os)" and "hm_get (entries (prune th now)) k = Some e"
  then have "hm_get (entries th) k = Some e"
    using prune_get [of th now k] throttle_invD(1) [OF inv] by auto
  with inv show "entry_ok os k e" by (rule throttle_invD(3))
qed (auto dest: throttle_invD)

lemma admitted_inv:
  assumes inv: "throttle_inv (th, os)" and adm: "begin_attempt th now ip who = (th', Ok a)"
  shows "throttle_inv (th', a # os)"
proof (rule throttle_invI)
  note a = begin_admitted [OF adm]
  have pinv: "throttle_inv (prune th now, os)" using inv by (rule prune_inv)
  show "hm_wf (entries th')" using a throttle_invD(1) [OF pinv] by auto
  show "distinct (att_keys b) \<and> \<not> resolved b" if "b \<in> set (a # os)" for b
    using that a throttle_invD(2) [OF inv] by auto
  show "entry_ok (a # os) k e" if "hm_get (entries th') k = Some e" for k e
  proof (cases "k \<in> set (keys ip who)")
    case True
    let ?old = "unwrap_or (fresh_entry now) (hm_get (entries (prune th now)) k)"
    have "e = reserve_entry now ?old"
      using that True a by (simp add: hm_get_modify_all)
    moreover have "entry_ok os k ?old \<or> (failures ?old \<le> u32_max \<and> in_flight ?old = 0)"
      using throttle_invD(3) [OF pinv, of k] fresh_entry_ok [of now]
      by (auto simp: unwrap_or_def split: option.splits)
    ultimately show ?thesis
      using True a reserve_entry_ok [of os k ?old "a # os" now] by (simp add: outstanding_Cons)
  next
    case False
    with that a have "hm_get (entries (prune th now)) k = Some e" by (simp add: hm_get_modify_all)
    then have "entry_ok os k e" by (rule throttle_invD(3) [OF pinv])
    then show ?thesis by (rule entry_ok_mono) (simp add: outstanding_Cons)
  qed
qed

lemma failed_inv:
  assumes inv: "throttle_inv (th, os)" and mem: "a \<in> set os"
  shows "throttle_inv (record_failure th now a, remove1 a os)"
proof (rule throttle_invI)
  have es: "entries (record_failure th now a) =
    fold (\<lambda>k. hm_modify k (fresh_entry now) (fail_entry now)) (att_keys a) (entries th)"
    by (simp add: record_failure_def finish_failure_at_def drop_attempt_def)
  show "hm_wf (entries (record_failure th now a))"
    using throttle_invD(1) [OF inv] by (simp add: es)
  show "distinct (att_keys b) \<and> \<not> resolved b" if "b \<in> set (remove1 a os)" for b
    using throttle_invD(2) [OF inv] set_remove1_mem [OF that] by blast
  show "entry_ok (remove1 a os) k e" if "hm_get (entries (record_failure th now a)) k = Some e" for k e
  proof (cases "k \<in> set (att_keys a)")
    case True
    let ?old = "unwrap_or (fresh_entry now) (hm_get (entries th) k)"
    have "e = fail_entry now ?old"
      using that True throttle_invD(2) [OF inv mem] by (simp add: es hm_get_modify_all)
    moreover have "entry_ok os k ?old \<or> (failures ?old \<le> u32_max \<and> in_flight ?old = 0)"
      using throttle_invD(3) [OF inv, of k] fresh_entry_ok [of now]
      by (auto simp: unwrap_or_def split: option.splits)
    ultimately show ?thesis
      using True outstanding_remove1 [OF mem, of k]
        fail_entry_ok [of os k ?old "remove1 a os" now] by simp
  next
    case False
    with that throttle_invD(2) [OF inv mem] have "hm_get (entries th) k = Some e"
      by (simp add: es hm_get_modify_all)
    then have "entry_ok os k e" by (rule throttle_invD(3) [OF inv])
    with False outstanding_remove1 [OF mem, of k] show ?thesis by (simp add: entry_ok_def)
  qed
qed

lemma succeeded_inv:
  assumes inv: "throttle_inv (th, os)" and mem: "a \<in> set os"
  shows "throttle_inv (record_success th a, remove1 a os)"
proof (rule throttle_invI)
  have es: "entries (record_success th a) = fold hm_remove (att_keys a) (entries th)"
    by (simp add: record_success_def clear_keys_def drop_attempt_def)
  show "hm_wf (entries (record_success th a))"
    using throttle_invD(1) [OF inv] by (simp add: es)
  show "distinct (att_keys b) \<and> \<not> resolved b" if "b \<in> set (remove1 a os)" for b
    using throttle_invD(2) [OF inv] set_remove1_mem [OF that] by blast
  show "entry_ok (remove1 a os) k e" if "hm_get (entries (record_success th a)) k = Some e" for k e
  proof -
    from that have k: "k \<notin> set (att_keys a)" "hm_get (entries th) k = Some e"
      by (auto simp: es hm.get_remove_all split: if_splits)
    from k(2) have "entry_ok os k e" by (rule throttle_invD(3) [OF inv])
    with k(1) outstanding_remove1 [OF mem, of k] show ?thesis by (simp add: entry_ok_def)
  qed
qed

lemma cancelled_inv:
  assumes inv: "throttle_inv (th, os)" and mem: "a \<in> set os"
  shows "throttle_inv (cancel th a, remove1 a os)"
proof (rule throttle_invI)
  have es: "entries (cancel th a) = release_reservation (entries th) (att_keys a)"
    using throttle_invD(2) [OF inv mem] by (simp add: cancel_def drop_attempt_def)
  show "hm_wf (entries (cancel th a))"
    using throttle_invD(1) [OF inv] by (simp add: es)
  show "distinct (att_keys b) \<and> \<not> resolved b" if "b \<in> set (remove1 a os)" for b
    using throttle_invD(2) [OF inv] set_remove1_mem [OF that] by blast
  show "entry_ok (remove1 a os) k e" if "hm_get (entries (cancel th a)) k = Some e" for k e
    using that throttle_invD(2) [OF inv mem] throttle_invD(3) [OF inv, of k]
      outstanding_remove1 [OF mem, of k]
    by (auto simp: es release_get entry_ok_def split: option.splits if_splits)
qed

interpretation throttle: invariant_machine throttle_init throttle_step throttle_inv
proof unfold_locales
  show "throttle_inv s" if "throttle_init s" for s
    using that by (auto simp: throttle_init_def new_throttle_def intro: throttle_invI)
  show "throttle_inv t" if "throttle_step s t" "throttle_inv s" for s t
    using that
    by (cases rule: throttle_step.cases)
      (auto intro: admitted_inv failed_inv succeeded_inv cancelled_inv prune_inv dest: begin_refused)
qed

section \<open>Bursts\<close>

lemma penalty_pos_base:
  "free < saturating_add32 (failures e) (in_flight e) \<Longrightarrow> BASE_DELAY \<le> penalty e free"
  by (simp add: penalty_shift delay_defs)

text \<open>Since \<open>t0\<close> at least \<open>m\<close> attempts on the key were admitted, failed or not.\<close>

definition hot :: "Key \<Rightarrow> instant \<Rightarrow> nat \<Rightarrow> LoginThrottle \<Rightarrow> bool" where
  "hot k t0 m th \<longleftrightarrow> m = 0 \<or> (\<exists>e. hm_get (entries th) k = Some e \<and> t0 \<le> last_seen e
     \<and> min m (Suc (free_attempts k)) \<le> saturating_add32 (failures e) (in_flight e))"

lemma hot_0 [simp]: "hot k t0 0 th"
  by (simp add: hot_def)

lemma hot_frame: "hm_get (entries th') k = hm_get (entries th) k \<Longrightarrow> hot k t0 m th' = hot k t0 m th"
  by (simp add: hot_def)

lemma hot_prune:
  assumes "hm_wf (entries th)" "hot k t0 m th" "now < t0 + BASE_DELAY"
  shows "hot k t0 m (prune th now)"
  using prune_get [OF assms(1), of now k] assms(2,3) by (auto simp: hot_def delay_defs)

lemma hot_blocked:
  assumes "hot k t0 m th" "Suc (free_attempts k) \<le> m" "t < t0 + BASE_DELAY"
  shows "blocked th t k"
proof -
  from assms(1,2) obtain e where e: "hm_get (entries th) k = Some e" "t0 \<le> last_seen e"
    "free_attempts k < saturating_add32 (failures e) (in_flight e)"
    by (auto simp: hot_def Suc_le_eq min_absorb2)
  have "t - last_seen e < BASE_DELAY" using e(2) assms(3) by (auto simp: delay_defs)
  also have "\<dots> \<le> penalty e (free_attempts k)" using e(3) by (rule penalty_pos_base)
  finally show ?thesis using e(1) by (simp add: blocked_def)
qed

lemma free_attempts_small: "Suc (free_attempts k) \<le> u32_max"
  by (cases k) (simp_all add: attempt_defs)

lemma reserve_entry_counts:
  assumes "min m (Suc (free_attempts k)) \<le> saturating_add32 (failures e) (in_flight e)"
    and "t0 \<le> last_seen e" "now < t0 + BASE_DELAY"
  shows "min (Suc m) (Suc (free_attempts k))
     \<le> saturating_add32 (failures (reserve_entry now e)) (in_flight (reserve_entry now e))"
proof -
  have "\<not> ENTRY_TTL \<le> saturating_duration_since now (last_seen e)"
    using assms(2,3) by (simp add: saturating_duration_since_def delay_defs)
  then show ?thesis
    using assms(1) free_attempts_small [of k] by (auto simp: reserve_entry_def Let_def saturating_add32_def)
qed

lemma reserve_entry_pos: "1 \<le> saturating_add32 (failures (reserve_entry now e)) (in_flight (reserve_entry now e))"
  and reserve_entry_seen: "last_seen (reserve_entry now e) = now"
  by (simp_all add: reserve_entry_def Let_def saturating_add32_def u32_max_def)

lemma fail_entry_counts:
  "min m (Suc (free_attempts k)) \<le> saturating_add32 (failures e) (in_flight e) \<Longrightarrow>
   min m (Suc (free_attempts k))
     \<le> saturating_add32 (failures (fail_entry now e)) (in_flight (fail_entry now e))"
  using free_attempts_small [of k] by (auto simp: fail_entry_def saturating_add32_def saturating_sub_def)

lemma begin_admitted_get:
  assumes "begin_attempt th now ip who = (th', Ok a)"
  shows "hm_get (entries th') k =
    (if k \<in> set (keys ip who)
     then Some (reserve_entry now (unwrap_or (fresh_entry now) (hm_get (entries (prune th now)) k)))
     else hm_get (entries (prune th now)) k)"
  using begin_admitted [OF assms(1)] by (simp add: hm_get_modify_all)

lemma begin_hot:
  assumes b: "begin_attempt th now ip who = (th', Ok a)" and wf: "hm_wf (entries th)"
    and h: "hot k t0 m th" and t: "t0 \<le> now" "now < t0 + BASE_DELAY"
  shows "hot k t0 (if k \<in> set (att_keys a) then Suc m else m) th'"
proof (cases "k \<in> set (keys ip who)")
  case False
  then have "hot k t0 m th'"
    using hot_prune [OF wf h t(2)] begin_admitted_get [OF b, of k] by (simp add: hot_def)
  moreover have "k \<notin> set (att_keys a)" using False begin_admitted [OF b] by simp
  ultimately show ?thesis by (simp only: if_False)
next
  case True
  then have a: "k \<in> set (att_keys a)" using begin_admitted [OF b] by simp
  note get = begin_admitted_get [OF b, of k, simplified True if_True]
  show ?thesis
  proof (cases m)
    case 0
    then show ?thesis using a get t(1) reserve_entry_pos by (simp add: hot_def reserve_entry_seen)
  next
    case (Suc n)
    then obtain e where e: "hm_get (entries (prune th now)) k = Some e" "t0 \<le> last_seen e"
      "min m (Suc (free_attempts k)) \<le> saturating_add32 (failures e) (in_flight e)"
      using hot_prune [OF wf h t(2)] by (auto simp: hot_def)
    then show ?thesis
      using a get t(1) reserve_entry_counts [OF e(3,2) t(2)]
      by (simp add: hot_def unwrap_or_def reserve_entry_seen)
  qed
qed

lemma failure_hot:
  assumes "distinct (att_keys a)" "hot k t0 m th" "t0 \<le> now"
  shows "hot k t0 m (record_failure th now a)"
proof -
  have get: "hm_get (entries (record_failure th now a)) k =
      (if k \<in> set (att_keys a) then Some (fail_entry now (unwrap_or (fresh_entry now) (hm_get (entries th) k)))
       else hm_get (entries th) k)"
    using assms(1) by (simp add: record_failure_def finish_failure_at_def drop_attempt_def hm_get_modify_all)
  have "last_seen (fail_entry now e) = now" for e by (simp add: fail_entry_def)
  then show ?thesis
    using assms(2,3) get fail_entry_counts by (auto simp: hot_def unwrap_or_def)
qed

lemma decided_hot:
  assumes "k \<notin> set (att_keys a)" "distinct (att_keys a)"
  shows "hot k t0 m (record_success th a) = hot k t0 m th" "hot k t0 m (cancel th a) = hot k t0 m th"
  using assms
  by (auto intro!: hot_frame simp: record_success_def clear_keys_def drop_attempt_def hm.get_remove_all
      cancel_def release_get)

lemma run_hot:
  assumes "throttle_inv s" "hot k t0 m (fst s)" "\<forall>e \<in> set es. in_burst k t0 e"
  shows "outstanding k (snd (login_run s es)) \<le> Suc (free_attempts k) - m"
  using assms
proof (induction s es arbitrary: m rule: login_run.induct)
  case (2 s now ip who es)
  obtain th os where s: "s = (th, os)" by (cases s)
  obtain th1 v where b: "begin_attempt th now ip who = (th1, v)" by fastforce
  have t: "t0 \<le> now" "now < t0 + BASE_DELAY" using "2.prems"(3) by auto
  have wf: "hm_wf (entries th)" using throttle_invD(1) "2.prems"(1) s by blast
  have h: "hot k t0 m th" using "2.prems"(2) s by simp
  show ?case
  proof (cases v)
    case (Inl w)
    then have "th1 = prune th now" using begin_refused b by blast
    then show ?thesis
      using "2.IH"(1) [of th1 v w m] "2.prems" b Inl hot_prune [OF wf h t(2)] by (simp add: s prune_inv)
  next
    case (Inr a)
    note b = b [unfolded Inr]
    have inv: "throttle_inv (th1, a # os)"
      using "2.prems"(1) admitted_inv [OF _ b] s by blast
    have keys: "att_keys a = keys ip who" using begin_admitted [OF b] by simp
    let ?m = "if k \<in> set (att_keys a) then Suc m else m"
    have "k \<in> set (att_keys a) \<Longrightarrow> \<not> Suc (free_attempts k) \<le> m"
      using hot_blocked [OF h _ t(2)] begin_ok_iff [OF wf, of now ip who] b keys by (auto simp: is_ok_def)
    moreover have "outstanding k (snd (login_run (th1, a # os) es)) \<le> Suc (free_attempts k) - ?m"
      using "2.IH"(2) [of th1 v a ?m] "2.prems"(3) b Inr inv begin_hot [OF b wf h t] by (simp add: s)
    ultimately show ?thesis using b by (auto simp: s outstanding_Cons split: prod.splits if_splits)
  qed
next
  case (3 s now a es)
  obtain th os where s: "s = (th, os)" by (cases s)
  have "throttle_inv (settle_attempt a (record_failure th now a) s)"
    using "3.prems"(1) failed_inv by (auto simp: s)
  moreover have "hot k t0 m (fst (settle_attempt a (record_failure th now a) s))"
    using "3.prems" failure_hot [of a] throttle_invD(2) by (auto simp: s)
  ultimately show ?case using "3.IH" "3.prems"(3) by (simp add: s)
next
  case (4 s a es)
  obtain th os where s: "s = (th, os)" by (cases s)
  have "throttle_inv (settle_attempt a (record_success th a) s)"
    using "4.prems"(1) succeeded_inv by (auto simp: s)
  moreover have "hot k t0 m (fst (settle_attempt a (record_success th a) s))"
    using "4.prems" decided_hot(1) [of k a] throttle_invD(2) by (auto simp: s)
  ultimately show ?case using "4.IH" "4.prems"(3) by (simp add: s)
next
  case (5 s a es)
  obtain th os where s: "s = (th, os)" by (cases s)
  have "throttle_inv (settle_attempt a (cancel th a) s)"
    using "5.prems"(1) cancelled_inv by (auto simp: s)
  moreover have "hot k t0 m (fst (settle_attempt a (cancel th a) s))"
    using "5.prems" decided_hot(2) [of k a] throttle_invD(2) by (auto simp: s)
  ultimately show ?case using "5.IH" "5.prems"(3) by (simp add: s)
qed (simp add: outstanding_def)

section \<open>Properties of the login throttle\<close>

lemma throttle_reachable_inv:
  "throttle_step\<^sup>*\<^sup>* (new_throttle, []) s \<Longrightarrow> throttle_inv s"
  by (rule throttle.inv_reachable [rotated]) (simp_all add: throttle_init_def)

lemma blocked_frame:
  "hm_get (entries th') k = hm_get (entries th) k \<Longrightarrow> blocked th' t k = blocked th t k"
  by (simp add: blocked_def)

lemma blocked_prune:
  assumes "hm_wf (entries th)" "now \<le> t"
  shows "blocked (prune th now) t k = blocked th t k"
  using prune_get [OF assms(1), of now k]
proof
  assume "hm_get (entries (prune th now)) k = None
    \<and> (\<exists>e. hm_get (entries th) k = Some e \<and> in_flight e = 0 \<and> ENTRY_TTL \<le> now - last_seen e)"
  then obtain e where "hm_get (entries (prune th now)) k = None"
    and "hm_get (entries th) k = Some e" and "ENTRY_TTL \<le> now - last_seen e" by blast
  with penalty_less_ttl [of e "free_attempts k"] assms(2) show ?thesis
    by (simp add: blocked_def)
qed (rule blocked_frame)

lemma refused_wait:
  assumes "hm_wf (entries th)" "begin_attempt th now ip who = (th', Err w)"
  shows "(\<exists>k \<in> set (keys ip who). key_wait (entries th) now k = Some w)
    \<and> (\<forall>k \<in> set (keys ip who). \<forall>d. key_wait (entries th) now k = Some d \<longrightarrow> d \<le> w)"
proof -
  let ?ws = "List.map_filter (key_wait (entries th) now) (keys ip who)"
  have "max_wait ?ws = Some w"
    using begin_verdict [OF assms(1), of now ip who] assms(2) by (auto split: option.splits)
  then have "?ws \<noteq> []" "w = Max (set ?ws)" by (auto simp: max_wait_Some_iff)
  then have "w \<in> set ?ws" "\<forall>d \<in> set ?ws. d \<le> w" by auto
  then show ?thesis by (auto simp: set_map_filter_eq)
qed

lemma blocked_later:
  assumes "hm_get (entries th) k = Some e" "last_seen e \<le> now"
  shows "blocked th (now + t) k \<longleftrightarrow> (\<exists>d. key_wait (entries th) now k = Some d \<and> t < d)"
  using assms by (auto simp: key_wait_eq blocked_def)

lemma begin_all_steps: "throttle_step\<^sup>*\<^sup>* s (begin_all s rs)"
proof (induction s rs rule: begin_all.induct)
  case (2 th os now ip who rs)
  obtain th' r where b: "begin_attempt th now ip who = (th', r)" by fastforce
  show ?case
  proof (cases r)
    case (Inl w)
    with 2(1) [of th' r w] b show ?thesis
      by (auto intro: converse_rtranclp_into_rtranclp throttle_step.refused)
  next
    case (Inr a)
    with 2(2) [of th' r a] b show ?thesis
      by (auto intro: converse_rtranclp_into_rtranclp throttle_step.admitted)
  qed
qed simp

lemmas throttle_eval = begin_attempt_def keys_def prune_def PRUNE_THRESHOLD_def key_wait_def max_wait_def
  hm_len_def hm_get_def hm_empty_def hm_modify_def hm_insert_def unwrap_or_def fresh_entry_def
  reserve_entry_def saturating_duration_since_def saturating_add32_def penalty_def checked_sub_def
  saturating_mul_def attempt_defs delay_defs Let_def

text \<open>The state the witnesses below use: four undecided attempts of signed-in callers.\<close>

definition four_attempts :: throttle_sys where
  "four_attempts =
     (\<lparr>last_prune = None, entries = [(Reauth, \<lparr>failures = 0, in_flight = 4, last_seen = 5\<rparr>)]\<rparr>,
      [\<lparr>att_keys = [Reauth], resolved = False\<rparr>, \<lparr>att_keys = [Reauth], resolved = False\<rparr>,
       \<lparr>att_keys = [Reauth], resolved = False\<rparr>, \<lparr>att_keys = [Reauth], resolved = False\<rparr>])"

lemma four_attempts_run: "begin_all (new_throttle, [])
     [(5, None, SignedIn), (5, None, SignedIn), (5, None, SignedIn), (5, None, SignedIn)] = four_attempts"
  by (simp add: four_attempts_def new_throttle_def throttle_eval)

lemma four_attempts_reachable: "throttle_step\<^sup>*\<^sup>* (new_throttle, []) (fst four_attempts, snd four_attempts)"
  using begin_all_steps [of "(new_throttle, [])" "[(5, None, SignedIn), (5, None, SignedIn), (5, None, SignedIn), (5, None, SignedIn)]"]
  unfolding four_attempts_run by simp

text \<open>
  The delay a key imposes doubles with every failure (undecided attempts
  counted as failures) beyond the free ones, from one second up to five
  minutes: the cap on the shift never shows, and the largest 32-bit counter
  neither wraps nor overflows.
\<close>

theorem penalty_schedule:
  "penalty e free =
     (let n = min (failures e + in_flight e) u32_max in
      if n \<le> free then 0 else min (from_secs (2 ^ (n - free - 1))) MAX_DELAY)"
  by (simp add: Let_def penalty_zero penalty_shift power_cap_irrelevant saturating_add32_def not_le
      flip: saturating_add32_def)

text \<open>
  In every reachable state, whatever the interleaving of attempts, an
  attempt is admitted exactly when none of its keys is still within its delay,
  and pruning the map never changes that verdict.
\<close>

theorem begin_admits_iff_unblocked:
  assumes "throttle_step\<^sup>*\<^sup>* (new_throttle, []) (th, os)"
  shows "is_ok (snd (begin_attempt th now ip who)) \<longleftrightarrow> (\<forall>k \<in> set (keys ip who). \<not> blocked th now k)"
  using begin_ok_iff throttle_invD(1) throttle_reachable_inv [OF assms] by blast

theorem begin_admits_iff_unblocked_witness:
  "\<not> is_ok (snd (begin_attempt (fst four_attempts) 6 None SignedIn))
   \<and> is_ok (snd (begin_attempt (fst four_attempts) 6 None Stranger))"
  using begin_admits_iff_unblocked [OF four_attempts_reachable, of 6 None SignedIn]
    begin_admits_iff_unblocked [OF four_attempts_reachable, of 6 None Stranger]
  by (simp add: four_attempts_def blocked_def throttle_eval)


text \<open>
  C34. The wait a refused caller is told is exact: with the clock not behind the
  entries, the same attempt is refused at every moment before the wait is over
  and admitted once it is, and the wait is never zero nor above the maximal delay.
\<close>

theorem refused_wait_exact:
  assumes "throttle_step\<^sup>*\<^sup>* (new_throttle, []) (th, os)"
    and "begin_attempt th now ip who = (th', Err w)"
    and "\<forall>k e. hm_get (entries th) k = Some e \<longrightarrow> last_seen e \<le> now"
  shows "0 < w \<and> w \<le> MAX_DELAY
    \<and> (\<forall>t. is_ok (snd (begin_attempt th' (now + t) ip who)) \<longleftrightarrow> w \<le> t)"
proof -
  have wf: "hm_wf (entries th)" using throttle_invD(1) throttle_reachable_inv [OF assms(1)] by blast
  note w = refused_wait [OF wf assms(2)]
  then obtain k where k: "k \<in> set (keys ip who)" "key_wait (entries th) now k = Some w" by blast
  then obtain e where "hm_get (entries th) k = Some e" "w = penalty e (free_attempts k) - (now - last_seen e)"
    "now - last_seen e < penalty e (free_attempts k)"
    by (auto simp: key_wait_eq blocked_def split: option.splits if_splits)
  then have "0 < w" "w \<le> MAX_DELAY"
    using penalty_le_max [of e "free_attempts k"] by auto
  moreover have "is_ok (snd (begin_attempt th' (now + t) ip who)) \<longleftrightarrow> w \<le> t" for t
  proof -
    have th': "th' = prune th now" by (rule begin_refused [OF assms(2)])
    have bl: "blocked th (now + t) j \<longleftrightarrow> (\<exists>d. key_wait (entries th) now j = Some d \<and> t < d)" for j
      using assms(3) blocked_later [of th j _ now t]
      by (cases "hm_get (entries th) j") (auto simp: key_wait_def blocked_def)
    have "is_ok (snd (begin_attempt th' (now + t) ip who))
      \<longleftrightarrow> (\<forall>j \<in> set (keys ip who). \<not> blocked th (now + t) j)"
      using begin_ok_iff [OF prune_wf [OF wf]] blocked_prune [OF wf] by (simp add: th')
    with w k show ?thesis by (fastforce simp: bl not_less)
  qed
  ultimately show ?thesis by blast
qed

theorem refused_wait_exact_witness:
  "\<forall>t. is_ok (snd (begin_attempt (fst four_attempts) (6 + t) None SignedIn)) \<longleftrightarrow> 999999999 \<le> t"
proof -
  have "begin_attempt (fst four_attempts) 6 None SignedIn = (fst four_attempts, Err 999999999)"
    by (simp add: four_attempts_def throttle_eval)
  moreover have "\<forall>k e. hm_get (entries (fst four_attempts)) k = Some e \<longrightarrow> last_seen e \<le> 6"
    by (auto simp: four_attempts_def hm_get_def split: if_splits)
  ultimately show ?thesis
    using refused_wait_exact [OF four_attempts_reachable, of 6 None SignedIn] by blast
qed


text \<open>
  C33. However attempts interleave, no reservation leaks: a key never counts more
  attempts in flight than there are undecided attempts holding it, no counter
  leaves 32 bits, and once every attempt is decided nothing is in flight.
\<close>

theorem no_leaked_reservation:
  assumes "throttle_step\<^sup>*\<^sup>* (new_throttle, []) (th, os)"
    and "hm_get (entries th) k = Some e"
  shows "in_flight e \<le> outstanding k os \<and> failures e \<le> u32_max \<and> in_flight e \<le> u32_max
    \<and> 0 < failures e + in_flight e \<and> (os = [] \<longrightarrow> in_flight e = 0)"
  using throttle_invD(3) [OF throttle_reachable_inv [OF assms(1)] assms(2)]
  by (auto simp: entry_ok_def outstanding_def)

theorem no_leaked_reservation_witness:
  "\<exists>e. hm_get (entries (fst four_attempts)) Reauth = Some e
     \<and> in_flight e \<le> outstanding Reauth (snd four_attempts)"
proof -
  let ?e = "\<lparr>failures = 0, in_flight = 4, last_seen = 5\<rparr>"
  have "hm_get (entries (fst four_attempts)) Reauth = Some ?e" by code_simp
  from this no_leaked_reservation [OF four_attempts_reachable this] show ?thesis by blast
qed


text \<open>
  C25. Concurrent guesses cannot all pass the same stale check: among any number of
  attempts that begin within one second, on any keys, at most the free ones plus
  one are admitted on one key, whatever the state before, whichever of them fail
  in between and whatever becomes of the attempts on other keys. (A success or a
  cancelled attempt on that key, which gives its reservations back, ends the
  count.)
\<close>

theorem burst_bounded:
  assumes "throttle_step\<^sup>*\<^sup>* (new_throttle, []) (th, os)" and "\<forall>e \<in> set es. in_burst k t0 e"
  shows "outstanding k (snd (login_run (th, os) es)) \<le> free_attempts k + 1"
  using run_hot [OF throttle_reachable_inv [OF assms(1)] hot_0 assms(2)] by simp

theorem burst_bounded_witness:
  "outstanding Reauth (snd (login_run (new_throttle, [])
     (concat (replicate 50 [Begins 7 None SignedIn, Fails 8 \<lparr>att_keys = [Reauth], resolved = False\<rparr>])))) \<le> 4"
  using burst_bounded [OF rtranclp.rtrancl_refl,
      of "concat (replicate 50 [Begins 7 None SignedIn, Fails 8 \<lparr>att_keys = [Reauth], resolved = False\<rparr>])" Reauth 7]
  by (auto simp: delay_defs attempt_defs)


text \<open>
  A client's counters are out of reach of everybody else: an attempt that
  does not hold a key, admitted or refused, failed, successful or cancelled,
  never changes whether that key is blocked from then on.
\<close>

theorem throttle_isolation:
  assumes "throttle_step\<^sup>*\<^sup>* (new_throttle, []) (th, os)" and "now \<le> t"
    and "k \<notin> set (keys ip who)" and "a \<in> set os" and "k \<notin> set (att_keys a)"
  shows "blocked (fst (begin_attempt th now ip who)) t k = blocked th t k
    \<and> blocked (record_failure th now a) t k = blocked th t k
    \<and> blocked (record_success th a) t k = blocked th t k
    \<and> blocked (cancel th a) t k = blocked th t k"
proof -
  note inv = throttle_reachable_inv [OF assms(1)]
  note a = throttle_invD(2) [OF inv assms(4)]
  have "blocked (fst (begin_attempt th now ip who)) t k = blocked (prune th now) t k"
    by (rule blocked_frame)
      (use assms(3) in \<open>auto simp: begin_attempt_def Let_def hm_get_modify_all split: option.splits\<close>)
  moreover have "blocked (record_failure th now a) t k = blocked th t k"
    by (rule blocked_frame)
      (use assms(5) a in \<open>simp add: record_failure_def finish_failure_at_def drop_attempt_def hm_get_modify_all\<close>)
  moreover have "blocked (record_success th a) t k = blocked th t k"
    by (rule blocked_frame)
      (use assms(5) in \<open>simp add: record_success_def clear_keys_def drop_attempt_def hm.get_remove_all\<close>)
  moreover have "blocked (cancel th a) t k = blocked th t k"
    by (rule blocked_frame)
      (use assms(5) a in \<open>simp add: cancel_def drop_attempt_def release_get\<close>)
  ultimately show ?thesis using blocked_prune [OF throttle_invD(1) [OF inv] assms(2)] by simp
qed

theorem throttle_isolation_witness:
  "blocked (record_failure (fst four_attempts) 6 \<lparr>att_keys = [Reauth], resolved = False\<rparr>) 8 Account
     = blocked (fst four_attempts) 8 Account"
  using throttle_isolation [OF four_attempts_reachable, of 6 8 Account None SignedIn
      "\<lparr>att_keys = [Reauth], resolved = False\<rparr>"]
  by (simp add: keys_def four_attempts_def)

end

