(* ===== verification/Secrets.thy ===== *)
theory Secrets
  imports Rust_Str "HOL-Library.Word"
begin

text \<open>
  Random credentials and their comparison (\<open>monitor/src/utils/secrets.rs\<close>).
  The system generator is not part of the sources: what each \<open>getrandom::fill\<close>
  delivers is an argument, the bytes or the text of the error of a call that fails.
\<close>

unbundle bit_operations_syntax

section \<open>Hexadecimal\<close>

definition hex_digit :: "nat \<Rightarrow> char" where
  "hex_digit n = (if n < 10 then char_of (48 + n) else char_of (87 + n))"

definition hex2 :: "8 word \<Rightarrow> string" where
  "hex2 b = [hex_digit (unat b div 16), hex_digit (unat b mod 16)]"

type_synonym Fill = "(string, 8 word list) result"

definition rng_unavailable :: "string \<Rightarrow> string" where
  "rng_unavailable e = ''System RNG unavailable: '' @ e"

definition random_hex :: "Fill \<Rightarrow> (string, string) result" where
  "random_hex fill =
     (case fill of Inl e \<Rightarrow> Err (rng_unavailable e)
      | Inr buf \<Rightarrow> Ok (concat (map hex2 buf)))"

section \<open>Constant-time comparison\<close>

text \<open>\<open>as_bytes\<close>: the UTF-8 encoding of the characters of the model.\<close>

definition utf8_char :: "char \<Rightarrow> 8 word list" where
  "utf8_char c = (if code_of c < 128 then [word_of_nat (code_of c)]
     else [word_of_nat (192 + code_of c div 64), word_of_nat (128 + code_of c mod 64)])"

definition as_bytes :: "string \<Rightarrow> 8 word list" where
  "as_bytes s = concat (map utf8_char s)"

definition constant_time_eq :: "8 word list \<Rightarrow> 8 word list \<Rightarrow> bool" where
  "constant_time_eq a b =
     (if length a \<noteq> length b then False
      else foldl (\<lambda>diff (x, y). diff OR (x XOR y)) 0 (zip a b) = 0)"

section \<open>Random passwords\<close>

definition CHARSET :: string where
  "CHARSET = ''ABCDEFGHIJKLMNOPQRSTUVWXYZabcdefghijklmnopqrstuvwxyz0123456789''"

definition LIMIT :: nat where
  "LIMIT = (255 div length CHARSET) * length CHARSET"

fun take_bytes :: "nat \<Rightarrow> 8 word list \<Rightarrow> string \<Rightarrow> string" where
  "take_bytes n [] out = out"
| "take_bytes n (b # bs) out =
     (if unat b < LIMIT \<and> length out < n
      then take_bytes n bs (out @ [CHARSET ! (unat b mod length CHARSET)])
      else take_bytes n bs out)"

text \<open>
  The loop runs until enough bytes were drawn; \<open>None\<close> is a loop that still
  asks when the given draws are used up. The draws left over are returned.
\<close>

fun random_alphanumeric_loop ::
  "nat \<Rightarrow> string \<Rightarrow> Fill list \<Rightarrow> ((string, string) result \<times> Fill list) option" where
  "random_alphanumeric_loop n out draws =
     (if length out < n then
        (case draws of [] \<Rightarrow> None
         | Inl e # rest \<Rightarrow> Some (Err (rng_unavailable e), rest)
         | Inr buf # rest \<Rightarrow> random_alphanumeric_loop n (take_bytes n buf out) rest)
      else Some (Ok out, draws))"

declare random_alphanumeric_loop.simps [simp del]

definition random_alphanumeric ::
  "nat \<Rightarrow> Fill list \<Rightarrow> ((string, string) result \<times> Fill list) option" where
  "random_alphanumeric n draws = random_alphanumeric_loop n [] draws"

definition has_classes :: "string \<Rightarrow> bool" where
  "has_classes out \<longleftrightarrow> list_ex is_ascii_upper out \<and> list_ex is_ascii_lower out \<and> list_ex is_ascii_digit out"

fun random_password_loop ::
  "nat \<Rightarrow> nat \<Rightarrow> Fill list \<Rightarrow> (string, string) result option" where
  "random_password_loop 0 n draws = None"
| "random_password_loop (Suc fuel) n draws =
     (case random_alphanumeric n draws of None \<Rightarrow> None
      | Some (Inl e, _) \<Rightarrow> Some (Err e)
      | Some (Inr out, rest) \<Rightarrow>
          if n < 3 \<or> has_classes out then Some (Ok out)
          else random_password_loop fuel n rest)"

text \<open>Every round with \<open>n > 0\<close> uses a draw, so the draws are fuel enough.\<close>

definition random_password :: "nat \<Rightarrow> Fill list \<Rightarrow> (string, string) result option" where
  "random_password n draws = random_password_loop (Suc (length draws)) n draws"

section \<open>Comparison is equality\<close>

lemma foldl_or_zero_iff:
  "foldl (\<lambda>diff (x, y). diff OR (x XOR y)) d ps = 0 \<longleftrightarrow> d = 0 \<and> (\<forall>(x, y) \<in> set ps. x = y)"
  for d :: "8 word"
proof (induction ps arbitrary: d)
  case (Cons p ps)
  have "d OR (x XOR y) = 0 \<longleftrightarrow> d = 0 \<and> x = y" for x y :: "8 word"
    by (metis or_eq_0_iff xor_self_eq xor.left_neutral xor.assoc)
  with Cons show ?case by (auto split: prod.splits)
qed simp

lemma zip_all_eq: "length a = length b \<Longrightarrow> (\<forall>(x, y) \<in> set (zip a b). x = y) \<longleftrightarrow> a = b"
  by (induction a b rule: list_induct2) auto

lemma constant_time_eq_iff: "constant_time_eq a b \<longleftrightarrow> a = b"
  by (auto simp: constant_time_eq_def foldl_or_zero_iff zip_all_eq simp del: split_paired_All)

lemma code_of_less: "code_of c < 256"
  using nat_of_char_less_256 by simp

lemma unat_byte_less: "unat b < 256" for b :: "8 word"
  using unsigned_less [of b, where 'a = nat] by simp

lemma nibble_less: "unat b div 16 < 16" for b :: "8 word"
  using unat_byte_less [of b] by (intro less_mult_imp_div_less) simp

lemma byte_inject: "m < 256 \<Longrightarrow> n < 256 \<Longrightarrow> (word_of_nat m :: 8 word) = word_of_nat n \<longleftrightarrow> m = n"
  by (simp add: word_of_nat_eq_iff take_bit_eq_mod)

lemma code_of_inject: "code_of c = code_of d \<longleftrightarrow> c = d"
  by simp

lemma div_mod_64_inject: "m div 64 = n div 64 \<Longrightarrow> m mod 64 = n mod 64 \<Longrightarrow> m = n" for m n :: nat
  by (metis div_mult_mod_eq)

lemma utf8_char_append_inject:
  "utf8_char c @ x = utf8_char d @ y \<longleftrightarrow> c = d \<and> x = y"
proof -
  have c: "code_of c < 256" "code_of d < 256" by (rule code_of_less)+
  have le: "192 + code_of c div 64 < 256" "192 + code_of d div 64 < 256"
    "128 + code_of c mod 64 < 256" "128 + code_of d mod 64 < 256"
    using c less_mult_imp_div_less [of "code_of c" 4 64] less_mult_imp_div_less [of "code_of d" 4 64]
    by auto
  show ?thesis
    using c le
    by (auto simp: utf8_char_def byte_inject simp del: of_nat_add of_nat_numeral dest: div_mod_64_inject)
qed

lemma utf8_char_not_Nil [simp]: "utf8_char c \<noteq> []"
  by (simp add: utf8_char_def)

lemma as_bytes_inject: "as_bytes s = as_bytes t \<longleftrightarrow> s = t"
proof (induction s arbitrary: t)
  case Nil
  then show ?case by (cases t) (simp_all add: as_bytes_def)
next
  case (Cons c s)
  then show ?case
    by (cases t) (simp_all add: as_bytes_def utf8_char_append_inject)
qed

section \<open>Hexadecimal strings\<close>

lemma hex_digit_inject: "m < 16 \<Longrightarrow> n < 16 \<Longrightarrow> hex_digit m = hex_digit n \<longleftrightarrow> m = n"
  by (auto simp: hex_digit_def char_of_eq_iff of_char_of take_bit_eq_mod)

lemma hex_digit_hex: "n < 16 \<Longrightarrow> is_ascii_hexdigit (hex_digit n)"
  by (auto simp: hex_digit_def is_ascii_hexdigit_def is_ascii_digit_def of_char_of)

lemma hex2_inject: "hex2 a = hex2 b \<longleftrightarrow> a = b"
proof -
  have "unat a = unat b" if "unat a div 16 = unat b div 16" "unat a mod 16 = unat b mod 16"
    using that by (metis div_mult_mod_eq)
  then show ?thesis by (auto simp: hex2_def hex_digit_inject nibble_less intro: unsigned_word_eqI)
qed

lemma hex_string_inject: "concat (map hex2 a) = concat (map hex2 b) \<longleftrightarrow> a = b"
proof (induction a arbitrary: b)
  case Nil
  then show ?case by (cases b) (simp_all add: hex2_def)
next
  case (Cons x a)
  have "hex2 x @ p = hex2 y @ q \<longleftrightarrow> x = y \<and> p = q" for y p q
    using hex2_inject [of x y] by (auto simp: hex2_def)
  with Cons show ?case by (cases b) (simp_all, simp add: hex2_def)
qed

lemma hex_string_chars: "c \<in> set (concat (map hex2 a)) \<Longrightarrow> is_ascii_hexdigit c"
  by (auto simp: hex2_def hex_digit_hex nibble_less)

lemma hex_string_length: "length (concat (map hex2 a)) = 2 * length a"
  by (induction a) (auto simp: hex2_def)

lemma hex_string_no_dot: "CHR ''.'' \<notin> set (concat (map hex2 a))"
  using hex_string_chars [of "CHR ''.''" a] by (auto simp: is_ascii_hexdigit_def is_ascii_digit_def)

section \<open>Passwords\<close>

lemma length_CHARSET: "length CHARSET = 62" and LIMIT_eq: "LIMIT = 248"
  by (simp_all add: CHARSET_def LIMIT_def)

lemma take_bytes_shape:
  "length out \<le> n \<Longrightarrow> set out \<subseteq> set CHARSET \<Longrightarrow>
   length (take_bytes n bs out) \<le> n \<and> set (take_bytes n bs out) \<subseteq> set CHARSET"
proof (induction n bs out rule: take_bytes.induct)
  case (2 n b bs out)
  have "CHARSET ! (unat b mod length CHARSET) \<in> set CHARSET"
    by (rule nth_mem) (simp add: length_CHARSET)
  with 2 show ?case by auto
qed simp

lemma alphanumeric_loop_shape:
  "random_alphanumeric_loop n out draws = Some (Ok s, rest) \<Longrightarrow> length out \<le> n \<Longrightarrow>
   set out \<subseteq> set CHARSET \<Longrightarrow> length s = n \<and> set s \<subseteq> set CHARSET \<and> length rest \<le> length draws"
proof (induction n out draws rule: random_alphanumeric_loop.induct)
  case (1 n out draws)
  show ?case
  proof (cases "length out < n")
    case False
    with 1(2-) show ?thesis by (auto simp: random_alphanumeric_loop.simps [of n out])
  next
    case True
    with 1(2) obtain buf r where d: "draws = Inr buf # r"
      "random_alphanumeric_loop n (take_bytes n buf out) r = Some (Ok s, rest)"
      by (auto simp: random_alphanumeric_loop.simps [of n out] split: list.splits sum.splits)
    have "length (take_bytes n buf out) \<le> n \<and> set (take_bytes n buf out) \<subseteq> set CHARSET"
      using take_bytes_shape 1(3,4) by simp
    with 1(1) [OF True d(1) refl d(2)] d(1) show ?thesis by auto
  qed
qed

lemma alphanumeric_uses_draw:
  assumes "random_alphanumeric n draws = Some (r, rest)" "0 < n"
  shows "length rest < length draws"
proof -
  have le: "random_alphanumeric_loop n out ds = Some (r, rest) \<Longrightarrow> length rest \<le> length ds" for out ds
    by (induction n out ds rule: random_alphanumeric_loop.induct)
      (subst (asm) (2) random_alphanumeric_loop.simps,
        fastforce split: list.splits sum.splits if_splits)
  from assms show ?thesis
    by (auto simp: random_alphanumeric_def random_alphanumeric_loop.simps [of n "[]"] less_Suc_eq_le
        dest: le split: list.splits sum.splits)
qed

lemma password_loop_shape:
  "random_password_loop fuel n draws = Some (Ok s) \<Longrightarrow>
   length s = n \<and> set s \<subseteq> set CHARSET \<and> (n < 3 \<or> has_classes s)"
proof (induction fuel n draws rule: random_password_loop.induct)
  case (2 fuel n draws)
  then obtain out rest where o: "random_alphanumeric n draws = Some (Ok out, rest)"
    by (auto split: option.splits prod.splits sum.splits)
  have "length out = n \<and> set out \<subseteq> set CHARSET"
    using alphanumeric_loop_shape [OF o [unfolded random_alphanumeric_def]] by simp
  moreover have "s = out \<and> (n < 3 \<or> has_classes out)
    \<or> \<not> (n < 3 \<or> has_classes out) \<and> random_password_loop fuel n rest = Some (Ok s)"
    using 2(2) o by (simp split: if_splits)
  ultimately show ?case using 2(1) [OF o refl refl] by blast
qed simp

text \<open>The draws are fuel enough: more fuel gives the same answer.\<close>

lemma password_loop_fuel:
  "length draws < fuel \<Longrightarrow> random_password_loop (fuel + k) n draws = random_password_loop fuel n draws"
proof (induction fuel n draws rule: random_password_loop.induct)
  case (2 fuel n draws)
  show ?case
  proof (cases "random_alphanumeric n draws")
    case (Some p)
    obtain r rest where p: "p = (r, rest)" by (cases p)
    show ?thesis
    proof (cases r)
      case (Inr out)
      have "n < 3 \<or> length rest < fuel"
        using alphanumeric_uses_draw [OF Some [unfolded p]] 2(2) by (cases n) auto
      with 2(1) [OF Some [unfolded p] refl Inr] Some p Inr show ?thesis by auto
    qed (simp add: Some p)
  qed simp
qed simp

lemma take_bytes_length:
  "length (take_bytes n bs out) =
     max (length out) (min n (length out + length (filter (\<lambda>b. unat b < LIMIT) bs)))"
  by (induction n bs out rule: take_bytes.induct) auto

lemma alphanumeric_loop_returns:
  "n \<le> length out + length (filter (\<lambda>b. unat b < LIMIT) (concat bufs)) \<Longrightarrow>
   \<exists>s r. random_alphanumeric_loop n out (map Inr bufs @ rest) = Some (Ok s, r)"
proof (induction bufs arbitrary: out)
  case Nil
  then show ?case by (simp add: random_alphanumeric_loop.simps)
next
  case (Cons buf bufs)
  show ?case
  proof (cases "length out < n")
    case True
    have "n \<le> length (take_bytes n buf out)
      + length (filter (\<lambda>b. unat b < LIMIT) (concat bufs))"
      using Cons.prems True by (auto simp: take_bytes_length)
    from Cons.IH [OF this] True show ?thesis
      by (simp add: random_alphanumeric_loop.simps [of n out])
  qed (simp add: random_alphanumeric_loop.simps)
qed

lemma distinct_CHARSET: "distinct CHARSET"
  by (simp add: CHARSET_def)

lemma residue_class: "i < 62 \<Longrightarrow> {b. b < 248 \<and> b mod 62 = i} = {i, i + 62, i + 124, i + 186}" for i :: nat
proof (intro set_eqI iffI)
  fix b :: nat assume "i < 62" "b \<in> {i, i + 62, i + 124, i + 186}"
  then consider k where "k < 4" "b = i + 62 * k"
    by (auto intro: that [of 0] that [of 1] that [of 2] that [of 3])
  then show "b \<in> {b. b < 248 \<and> b mod 62 = i}" using \<open>i < 62\<close> by cases simp
next
  fix b :: nat assume "i < 62" "b \<in> {b. b < 248 \<and> b mod 62 = i}"
  then have "b < 248" "b mod 62 = i" "b = 62 * (b div 62) + i" by auto
  moreover have "b div 62 = 0 \<or> b div 62 = 1 \<or> b div 62 = 2 \<or> b div 62 = 3"
    using \<open>b < 248\<close> less_mult_imp_div_less [of b 4 62] by auto
  ultimately show "b \<in> {i, i + 62, i + 124, i + 186}" by auto
qed

lemma card_bytes: "card {b :: 8 word. P (unat b)} = card {n. n < 256 \<and> P n}"
proof -
  have "unat ` {b :: 8 word. P (unat b)} = {n. n < 256 \<and> P n}"
  proof (intro set_eqI iffI)
    fix n assume "n \<in> {n. n < 256 \<and> P n}"
    then have "unat (word_of_nat n :: 8 word) = n" "P n"
      by (simp_all add: unsigned_of_nat take_bit_nat_eq_self)
    then show "n \<in> unat ` {b :: 8 word. P (unat b)}" by (metis imageI mem_Collect_eq)
  qed (auto simp: unat_byte_less)
  moreover have "inj_on unat {b :: 8 word. P (unat b)}" by (auto intro: inj_onI unsigned_word_eqI)
  ultimately show ?thesis by (metis card_image)
qed

section \<open>Properties of the credentials\<close>

text \<open>
  Rejection sampling leaves no modulo bias: of the 256 values of a random
  byte exactly four become any given one of the 62 characters, the rest are
  drawn again.
\<close>

theorem no_modulo_bias:
  "\<forall>c \<in> set CHARSET. card {b. take_bytes 1 [b] [] = [c]} = 4"
proof
  fix c assume "c \<in> set CHARSET"
  then obtain i where i: "i < 62" "CHARSET ! i = c"
    by (auto simp: in_set_conv_nth length_CHARSET)
  have "take_bytes 1 [b] [] = [c] \<longleftrightarrow> unat b < 248 \<and> unat b mod 62 = i" for b
  proof -
    have "take_bytes 1 [b] [] = (if unat b < 248 then [CHARSET ! (unat b mod 62)] else [])"
      by (simp add: LIMIT_eq length_CHARSET)
    moreover have "CHARSET ! (unat b mod 62) = c \<longleftrightarrow> unat b mod 62 = i"
      using nth_eq_iff_index_eq [OF distinct_CHARSET, of "unat b mod 62" i] i length_CHARSET by simp
    ultimately show ?thesis by simp
  qed
  then have "card {b. take_bytes 1 [b] [] = [c]} = card {n. n < 256 \<and> n < 248 \<and> n mod 62 = i}"
    using card_bytes [of "\<lambda>n. n < 248 \<and> n mod 62 = i"] by simp
  also have "{n. n < 256 \<and> n < 248 \<and> n mod 62 = i} = {n. n < 248 \<and> n mod 62 = i}"
    by (rule Collect_cong) linarith
  also have "\<dots> = {i, i + 62, i + 124, i + 186}" by (rule residue_class [OF i(1)])
  finally show "card {b. take_bytes 1 [b] [] = [c]} = 4" by simp
qed

theorem no_modulo_bias_witness: "card {b. take_bytes 1 [b] [] = ''k''} = 4"
  by (rule no_modulo_bias [rule_format]) (simp add: CHARSET_def)

text \<open>
  A generated password has the requested length, only letters and digits,
  and from three characters on an upper-case letter, a lower-case letter and a
  digit; once enough accepted bytes are drawn the character loop returns.
\<close>

theorem random_password_shape:
  "(\<forall>s. random_password n draws = Some (Ok s) \<longrightarrow>
      length s = n \<and> set s \<subseteq> set CHARSET \<and> (3 \<le> n \<longrightarrow> has_classes s))
   \<and> (n \<le> length (filter (\<lambda>b. unat b < LIMIT) (concat bufs)) \<longrightarrow>
      (\<exists>s r. random_alphanumeric n (map Inr bufs @ draws) = Some (Ok s, r)))"
  using password_loop_shape [of "Suc (length draws)" n draws] alphanumeric_loop_returns [of n "[]" bufs draws]
  by (auto simp: random_password_def random_alphanumeric_def)

theorem random_password_shape_witness:
  "random_password 3 [Ok [0, 26, 52]] = Some (Ok ''Aa0'') \<and> has_classes ''Aa0''
   \<and> (\<exists>s r. random_alphanumeric 3 [Ok [0, 26, 52]] = Some (Ok s, r))"
proof -
  have "random_password 3 [Ok [0, 26, 52]] = Some (Ok ''Aa0'')"
    by (simp add: random_password_def random_alphanumeric_def random_alphanumeric_loop.simps LIMIT_eq
        length_CHARSET CHARSET_def has_classes_def is_ascii_upper_def is_ascii_lower_def is_ascii_digit_def)
  then show ?thesis
    using random_password_shape [of 3 "[Ok [0, 26, 52]]" "[]"]
      random_password_shape [of 3 "[]" "[[0, 26, 52]]"] by (simp add: LIMIT_eq)
qed

end
