(* ===== verification/Ticket.thy ===== *)
theory Ticket
  imports Secrets
begin

text \<open>
  Single-use tickets for WebSocket upgrades (\<open>monitor/src/api/ws/ticket.rs\<close>).
  The store is a map behind a lock, each operation one critical section.
  \<open>ticket_step\<close> interleaves the operations and keeps, beside the store, what
  the callers hold: the reservations not yet committed or rolled back, the ids
  issued so far and the ids whose reservation was committed.
\<close>

section \<open>The store\<close>

definition TTL :: duration where "TTL = from_secs 30"
definition MAX_LIVE :: nat where "MAX_LIVE = 32"
definition ID_BYTES :: nat where "ID_BYTES = 16"
definition SECRET_BYTES :: nat where "SECRET_BYTES = 32"

datatype Purpose = Terminal | Stream | Listen | Rdp | Virt | Proxy

record Entry =
  secret :: string
  entry_purpose :: Purpose
  expires_at :: instant
  reserved :: bool

type_synonym TicketStore = "(string, Entry) hashmap"

datatype TicketError = Malformed | Unknown | Expired | WrongPurpose | BadSecret

text \<open>
  The agent's errors (\<open>monitor/src/utils/error.rs\<close>); one that wraps another
  library's error carries its message.
\<close>

datatype MonitorError = Config string | Database string | Http string | Json string | Io string
  | Regex string | Parse string | Auth string | Quota string nat | Monitoring string | Push string

fun status_code :: "MonitorError \<Rightarrow> nat" where
  "status_code (Auth _) = 401"
| "status_code (Quota _ _) = 429"
| "status_code (Config _) = 500"
| "status_code (Parse _) = 400"
| "status_code _ = 500"

record TicketReservation =
  reservation_id :: string

definition new_store :: TicketStore where
  "new_store = hm_empty"

definition config_err :: "(string, 'a) result \<Rightarrow> (MonitorError, 'a) result" where
  "config_err r = (case r of Inl e \<Rightarrow> Err (Config e) | Inr x \<Rightarrow> Ok x)"

definition issue_at ::
  "TicketStore \<Rightarrow> Purpose \<Rightarrow> instant \<Rightarrow> Fill \<Rightarrow> Fill \<Rightarrow>
     TicketStore \<times> (MonitorError, string) result" where
  "issue_at store purpose now id_fill secret_fill =
     (case config_err (random_hex id_fill) of Inl e \<Rightarrow> (store, Err e)
      | Inr tid \<Rightarrow>
          (case config_err (random_hex secret_fill) of Inl e \<Rightarrow> (store, Err e)
           | Inr sec \<Rightarrow>
               (let store1 = hm_retain (\<lambda>_ e. expires_at e > now) store in
                if hm_len store1 \<ge> MAX_LIVE
                then (store1, Err (Quota (''Too many outstanding WebSocket tickets; retry after ''
                        @ show_nat 30 @ '' seconds'') 30))
                else (hm_insert tid \<lparr>secret = sec, entry_purpose = purpose, expires_at = now + TTL,
                                     reserved = False\<rparr> store1,
                      Ok (tid @ ''.'' @ sec)))))"

definition reserve_at ::
  "TicketStore \<Rightarrow> string \<Rightarrow> Purpose \<Rightarrow> instant \<Rightarrow>
     TicketStore \<times> (TicketError, TicketReservation) result" where
  "reserve_at store raw purpose now =
     (case split_once (CHR ''.'') raw of None \<Rightarrow> (store, Err Malformed)
      | Some (tid, sec) \<Rightarrow>
          (case hm_get store tid of None \<Rightarrow> (store, Err Unknown)
           | Some e \<Rightarrow>
               (let store1 = hm_remove tid store in
                if reserved e then (hm_insert tid e store1, Err Unknown)
                else if expires_at e \<le> now then (store1, Err Expired)
                else if entry_purpose e \<noteq> purpose then (store1, Err WrongPurpose)
                else if \<not> constant_time_eq (as_bytes (secret e)) (as_bytes sec)
                then (store1, Err BadSecret)
                else (hm_insert tid (e\<lparr>reserved := True\<rparr>) store1, Ok \<lparr>reservation_id = tid\<rparr>))))"

definition commit :: "TicketStore \<Rightarrow> TicketReservation \<Rightarrow> TicketStore" where
  "commit store r = hm_remove (reservation_id r) store"

definition revoke_all :: "TicketStore \<Rightarrow> TicketStore" where
  "revoke_all store = hm_empty"

definition rollback :: "TicketStore \<Rightarrow> TicketReservation \<Rightarrow> TicketStore" where
  "rollback store r =
     (case hm_get store (reservation_id r) of None \<Rightarrow> store
      | Some e \<Rightarrow> hm_insert (reservation_id r) (e\<lparr>reserved := False\<rparr>) store)"

record TicketResponse =
  ticket :: string
  expires_in :: nat

definition ticket_response :: "string \<Rightarrow> TicketResponse" where
  "ticket_response t = \<lparr>ticket = t, expires_in = 30\<rparr>"

section \<open>Interleaved callers\<close>

record ticket_sys =
  store :: TicketStore
  held :: "TicketReservation list"
  issued :: "string set"
  redeemed :: "string list"

definition ticket_start :: ticket_sys where
  "ticket_start = \<lparr>store = new_store, held = [], issued = {}, redeemed = []\<rparr>"

definition ticket_id :: "string \<Rightarrow> string" where
  "ticket_id raw = (case split_once (CHR ''.'') raw of None \<Rightarrow> [] | Some (tid, _) \<Rightarrow> tid)"

text \<open>
  Sixteen random bytes are taken not to repeat (\<open>issues\<close>); everything else
  about them is arbitrary. A reservation is a value without a copy, so it is
  committed or rolled back at most once.
\<close>

inductive ticket_step :: "ticket_sys \<Rightarrow> ticket_sys \<Rightarrow> bool" where
  issues: "issue_at (store s) p now idf secf = (st, Ok raw) \<Longrightarrow> ticket_id raw \<notin> issued s \<Longrightarrow>
     ticket_step s (s\<lparr>store := st, issued := insert (ticket_id raw) (issued s)\<rparr>)"
| issue_refused: "issue_at (store s) p now idf secf = (st, Err e) \<Longrightarrow> ticket_step s (s\<lparr>store := st\<rparr>)"
| reserves: "reserve_at (store s) raw p now = (st, Ok r) \<Longrightarrow>
     ticket_step s (s\<lparr>store := st, held := r # held s\<rparr>)"
| reserve_refused: "reserve_at (store s) raw p now = (st, Err e) \<Longrightarrow> ticket_step s (s\<lparr>store := st\<rparr>)"
| commits: "r \<in> set (held s) \<Longrightarrow>
     ticket_step s (s\<lparr>store := commit (store s) r, held := remove1 r (held s),
                      redeemed := reservation_id r # redeemed s\<rparr>)"
| rolls_back: "r \<in> set (held s) \<Longrightarrow>
     ticket_step s (s\<lparr>store := rollback (store s) r, held := remove1 r (held s)\<rparr>)"
| revokes: "ticket_step s (s\<lparr>store := revoke_all (store s)\<rparr>)"

definition ticket_inv :: "ticket_sys \<Rightarrow> bool" where
  "ticket_inv s \<longleftrightarrow> hm_wf (store s) \<and> hm_len (store s) \<le> MAX_LIVE
     \<and> distinct (held s) \<and> distinct (redeemed s)
     \<and> reservation_id ` set (held s) \<inter> set (redeemed s) = {}
     \<and> reservation_id ` set (held s) \<union> set (redeemed s) \<subseteq> issued s
     \<and> (\<forall>i e. hm_get (store s) i = Some e \<longrightarrow>
          i \<in> issued s \<and> i \<notin> set (redeemed s)
          \<and> (reserved e \<longleftrightarrow> i \<in> reservation_id ` set (held s)))"

section \<open>One operation\<close>

lemma random_hex_Ok: "random_hex f = Ok s \<longleftrightarrow> (\<exists>b. f = Ok b \<and> s = concat (map hex2 b))"
  by (auto simp: random_hex_def split: sum.splits)

lemma issue_Ok:
  assumes "issue_at st p now idf secf = (st', Ok raw)"
  obtains idb sec where "idf = Ok idb" "raw = concat (map hex2 idb) @ ''.'' @ sec"
    "split_once (CHR ''.'') raw = Some (concat (map hex2 idb), sec)"
    "hm_len (hm_retain (\<lambda>_ e. expires_at e > now) st) < MAX_LIVE"
    "st' = hm_insert (concat (map hex2 idb))
       \<lparr>secret = sec, entry_purpose = p, expires_at = now + TTL, reserved = False\<rparr>
       (hm_retain (\<lambda>_ e. expires_at e > now) st)"
proof -
  from assms obtain idb secb where "idf = Ok idb" "secf = Ok secb"
    "raw = concat (map hex2 idb) @ ''.'' @ concat (map hex2 secb)"
    "hm_len (hm_retain (\<lambda>_ e. expires_at e > now) st) < MAX_LIVE"
    "st' = hm_insert (concat (map hex2 idb))
       \<lparr>secret = concat (map hex2 secb), entry_purpose = p, expires_at = now + TTL, reserved = False\<rparr>
       (hm_retain (\<lambda>_ e. expires_at e > now) st)"
    by (auto simp: issue_at_def config_err_def random_hex_def Let_def split: sum.splits if_splits)
  moreover have "split_once (CHR ''.'') (concat (map hex2 idb) @ ''.'' @ sec) = Some (concat (map hex2 idb), sec)"
    for sec using split_once_append [OF hex_string_no_dot, of idb sec] by simp
  ultimately show ?thesis using that by blast
qed

lemma issue_Err:
  assumes "issue_at st p now idf secf = (st', Err e)"
  shows "st' = st \<or> st' = hm_retain (\<lambda>_ e. expires_at e > now) st"
  using assms by (auto simp: issue_at_def Let_def split: sum.splits if_splits)

lemma reserve_Ok:
  assumes "reserve_at st raw p now = (st', Ok r)"
  obtains e sec where "split_once (CHR ''.'') raw = Some (reservation_id r, sec)"
    "hm_get st (reservation_id r) = Some e" "\<not> reserved e" "now < expires_at e"
    "entry_purpose e = p" "secret e = sec"
    "st' = hm_insert (reservation_id r) (e\<lparr>reserved := True\<rparr>) (hm_remove (reservation_id r) st)"
  using assms
  by (auto simp: reserve_at_def Let_def constant_time_eq_iff as_bytes_inject
      split: option.splits if_splits prod.splits)

lemma reserve_Err:
  assumes "reserve_at st raw p now = (st', Err e)"
  shows "(\<forall>i. hm_get st' i = hm_get st i) \<or> (\<exists>i. st' = hm_remove i st)"
  using assms
  by (auto simp: reserve_at_def Let_def split: option.splits if_splits prod.splits)

lemma reserve_wf: "hm_wf st \<Longrightarrow> hm_wf (fst (reserve_at st raw p now))"
  by (auto simp: reserve_at_def Let_def split: option.splits prod.splits)

lemma len_mono_get:
  fixes m m' :: "('k, 'v) hashmap"
  assumes "hm_wf m" "hm_wf m'" "\<And>k. hm_get m k \<noteq> None \<Longrightarrow> hm_get m' k \<noteq> None"
  shows "hm_len m \<le> hm_len m'"
  using assms by (intro hm.len_mono) auto

section \<open>The invariant\<close>

lemma ticket_invD:
  assumes "ticket_inv s"
  shows "hm_wf (store s)" "hm_len (store s) \<le> MAX_LIVE" "distinct (held s)" "distinct (redeemed s)"
    and "reservation_id ` set (held s) \<inter> set (redeemed s) = {}"
    and "reservation_id ` set (held s) \<union> set (redeemed s) \<subseteq> issued s"
    and "\<And>i e. hm_get (store s) i = Some e \<Longrightarrow> i \<in> issued s \<and> i \<notin> set (redeemed s)
      \<and> (reserved e \<longleftrightarrow> i \<in> reservation_id ` set (held s))"
  using assms unfolding ticket_inv_def by blast+

lemma inj_reservation_id: "inj_on reservation_id A" for A :: "TicketReservation set"
  by (rule inj_onI) simp

lemma held_remove1:
  fixes r :: TicketReservation
  assumes "distinct rs" "r \<in> set rs"
  shows "reservation_id ` set (remove1 r rs) = reservation_id ` set rs - {reservation_id r}"
  using assms inj_on_image_set_diff [OF inj_reservation_id [of UNIV], of "set rs" "{r}"]
  by (simp add: set_remove1_eq)

text \<open>A store that lost entries, or kept them, is still good.\<close>

lemma inv_shrink:
  assumes "ticket_inv s" "hm_wf st"
    and "\<And>i e. hm_get st i = Some e \<Longrightarrow> hm_get (store s) i = Some e"
  shows "ticket_inv (s\<lparr>store := st\<rparr>)"
proof -
  have "hm_len st \<le> hm_len (store s)"
    by (rule len_mono_get) (use assms ticket_invD(1) in auto)
  with assms ticket_invD [OF assms(1)] show ?thesis by (fastforce simp: ticket_inv_def)
qed

lemma retain_shrinks:
  "hm_wf st \<Longrightarrow> hm_get (hm_retain P st) i = Some e \<Longrightarrow> hm_get st i = Some e"
  by (auto simp: hm.get_retain split: option.splits if_splits)

lemma issue_inv:
  assumes inv: "ticket_inv s" and iss: "issue_at (store s) p now idf secf = (st, Ok raw)"
    and fresh: "ticket_id raw \<notin> issued s"
  shows "ticket_inv (s\<lparr>store := st, issued := insert (ticket_id raw) (issued s)\<rparr>)"
proof -
  note I = ticket_invD [OF inv]
  let ?kept = "hm_retain (\<lambda>_ e. expires_at e > now) (store s)"
  from iss obtain idb sec where r: "split_once (CHR ''.'') raw = Some (concat (map hex2 idb), sec)"
    "hm_len ?kept < MAX_LIVE"
    "st = hm_insert (concat (map hex2 idb))
       \<lparr>secret = sec, entry_purpose = p, expires_at = now + TTL, reserved = False\<rparr> ?kept"
    by (rule issue_Ok)
  have tid: "ticket_id raw = concat (map hex2 idb)" using r(1) by (simp add: ticket_id_def)
  have "hm_len st \<le> MAX_LIVE"
    unfolding r(3) by (rule le_trans [OF hm.len_insert_le]) (use r(2) I(1) in auto)
  moreover have "i \<in> insert (ticket_id raw) (issued s) \<and> i \<notin> set (redeemed s)
      \<and> (reserved e \<longleftrightarrow> i \<in> reservation_id ` set (held s))" if "hm_get st i = Some e" for i e
  proof (cases "i = ticket_id raw")
    case True
    with that have "\<not> reserved e" by (auto simp: r(3) tid)
    with True fresh I(6) show ?thesis by auto
  next
    case False
    with that have "hm_get ?kept i = Some e" by (simp add: r(3) tid)
    with I(1) have "hm_get (store s) i = Some e" by (rule retain_shrinks)
    with I(7) show ?thesis by blast
  qed
  moreover have "hm_wf st" using I(1) by (simp add: r(3))
  ultimately show ?thesis using I(3-6) by (auto simp: ticket_inv_def)
qed

lemma reserve_inv:
  assumes inv: "ticket_inv s" and res: "reserve_at (store s) raw p now = (st, Ok r)"
  shows "ticket_inv (s\<lparr>store := st, held := r # held s\<rparr>)"
proof -
  note I = ticket_invD [OF inv]
  let ?i = "reservation_id r"
  from res obtain e where e: "hm_get (store s) ?i = Some e" "\<not> reserved e"
    "st = hm_insert ?i (e\<lparr>reserved := True\<rparr>) (hm_remove ?i (store s))"
    by (rule reserve_Ok)
  have i: "?i \<in> issued s" "?i \<notin> set (redeemed s)" "?i \<notin> reservation_id ` set (held s)"
    using I(7) [OF e(1)] e(2) by auto
  have wf: "hm_wf st" using I(1) by (simp add: e(3))
  have "hm_len st \<le> hm_len (store s)"
    by (rule len_mono_get) (use wf I(1) e in \<open>auto split: if_splits\<close>)
  moreover have "j \<in> issued s \<and> j \<notin> set (redeemed s)
      \<and> (reserved e' \<longleftrightarrow> j \<in> reservation_id ` set (r # held s))" if "hm_get st j = Some e'" for j e'
    using that I(7) [of j e'] i by (auto simp: e(3) split: if_splits)
  ultimately show ?thesis using I wf i by (auto simp: ticket_inv_def)
qed

lemma commit_inv:
  assumes inv: "ticket_inv s" and r: "r \<in> set (held s)"
  shows "ticket_inv (s\<lparr>store := commit (store s) r, held := remove1 r (held s),
                       redeemed := reservation_id r # redeemed s\<rparr>)"
proof -
  note I = ticket_invD [OF inv]
  have "hm_len (commit (store s) r) \<le> MAX_LIVE"
    using hm.len_remove_le [OF I(1), of "reservation_id r"] I(2) by (simp add: commit_def)
  moreover have "reservation_id r \<notin> set (redeemed s)" "reservation_id r \<in> issued s" using I(5,6) r by auto
  ultimately show ?thesis
    using I r by (auto simp: ticket_inv_def commit_def held_remove1 split: if_splits)
qed

lemma rollback_inv:
  assumes inv: "ticket_inv s" and r: "r \<in> set (held s)"
  shows "ticket_inv (s\<lparr>store := rollback (store s) r, held := remove1 r (held s)\<rparr>)"
proof -
  note I = ticket_invD [OF inv]
  have wf: "hm_wf (rollback (store s) r)" using I(1) by (simp add: rollback_def split: option.splits)
  have get: "hm_get (rollback (store s) r) i =
    (if i = reservation_id r then map_option (\<lambda>e. e\<lparr>reserved := False\<rparr>) (hm_get (store s) i)
     else hm_get (store s) i)" for i
    by (auto simp: rollback_def split: option.splits)
  have "hm_len (rollback (store s) r) \<le> hm_len (store s)"
    by (rule len_mono_get) (use wf I(1) in \<open>auto simp: get split: if_splits\<close>)
  then show ?thesis
    using I r wf by (auto simp: ticket_inv_def get held_remove1 split: if_splits)
qed

interpretation ticket: invariant_machine "\<lambda>s. s = ticket_start" ticket_step ticket_inv
proof unfold_locales
  show "ticket_inv s" if "s = ticket_start" for s
    by (simp add: that ticket_start_def new_store_def ticket_inv_def) (simp add: hm_len_def hm_empty_def)
  show "ticket_inv t" if "ticket_step s t" "ticket_inv s" for s t
    using that
  proof (cases rule: ticket_step.cases)
    case (issue_refused p now idf secf st e)
    with that(2) issue_Err [OF issue_refused(2)] show ?thesis
      by (auto intro!: inv_shrink dest: retain_shrinks [OF ticket_invD(1)] ticket_invD(1))
  next
    case (reserve_refused raw p now st e)
    with that(2) reserve_Err [OF reserve_refused(2)] reserve_wf [of "store s" raw p now] show ?thesis
      by (auto intro!: inv_shrink dest: ticket_invD(1) split: if_splits)
  next
    case revokes
    with that(2) show ?thesis by (auto intro!: inv_shrink simp: revoke_all_def)
  qed (auto intro: issue_inv reserve_inv commit_inv rollback_inv)
qed

section \<open>Properties of the ticket store\<close>

lemma ticket_reachable_inv: "ticket_step\<^sup>*\<^sup>* ticket_start s \<Longrightarrow> ticket_inv s"
  by (rule ticket.inv_reachable [OF refl])

text \<open>The run the witnesses use: one ticket, issued, reserved and committed.\<close>

definition demo_entry :: Entry where
  "demo_entry = \<lparr>secret = ''02'', entry_purpose = Terminal, expires_at = 30000000005, reserved = False\<rparr>"

lemma hex2_demo: "hex2 1 = ''01''" "hex2 2 = ''02''"
  by (code_simp, code_simp)

lemma demo_issue:
  "issue_at (store ticket_start) Terminal 5 (Ok [1]) (Ok [2]) = ([(''01'', demo_entry)], Ok ''01.02'')"
  by (simp add: issue_at_def ticket_start_def new_store_def demo_entry_def config_err_def random_hex_def
      hex2_demo Let_def hm_empty_def hm_retain_def hm_len_def MAX_LIVE_def hm_insert_def
      TTL_def from_secs_def)

lemma demo_reserve:
  "reserve_at [(''01'', demo_entry)] ''01.02'' Terminal 6 =
     ([(''01'', demo_entry\<lparr>reserved := True\<rparr>)], Ok \<lparr>reservation_id = ''01''\<rparr>)"
  by (simp add: reserve_at_def demo_entry_def hm_get_def hm_remove_def hm_insert_def Let_def
      constant_time_eq_iff)

lemma demo_reachable:
  "ticket_step\<^sup>*\<^sup>* ticket_start
     \<lparr>store = [(''01'', demo_entry\<lparr>reserved := True\<rparr>)], held = [\<lparr>reservation_id = ''01''\<rparr>],
      issued = {''01''}, redeemed = []\<rparr>"
proof -
  let ?s = "\<lparr>store = [(''01'', demo_entry)], held = [], issued = {''01''}, redeemed = []\<rparr>"
  have "ticket_step ticket_start ?s"
    using ticket_step.issues [OF demo_issue]
    by (simp add: ticket_id_def) (simp add: ticket_start_def)
  moreover have "ticket_step ?s (?s\<lparr>store := [(''01'', demo_entry\<lparr>reserved := True\<rparr>)],
      held := \<lparr>reservation_id = ''01''\<rparr> # held ?s\<rparr>)"
    using ticket_step.reserves [of ?s, unfolded ticket_sys.simps, OF demo_reserve] by simp
  ultimately show ?thesis by simp
qed

text \<open>
  C4. A ticket authorises one upgrade: however issuing, reserving, committing,
  rolling back and revoking interleave, no ticket id is ever committed twice, no
  two reservations of one id are outstanding at once, and none is outstanding
  for an id already committed (ids drawn at random taken not to repeat).
\<close>

theorem ticket_single_use:
  assumes "ticket_step\<^sup>*\<^sup>* ticket_start s"
  shows "distinct (redeemed s @ map reservation_id (held s))"
  using ticket_invD [OF ticket_reachable_inv [OF assms]]
  by (auto simp: distinct_map inj_reservation_id)

theorem ticket_single_use_witness:
  "\<exists>s. ticket_step\<^sup>*\<^sup>* ticket_start s \<and> held s = [\<lparr>reservation_id = ''01''\<rparr>]
     \<and> distinct (redeemed s @ map reservation_id (held s))"
  using demo_reachable ticket_single_use [OF demo_reachable] by (intro exI conjI) auto

text \<open>
  C35. At most 32 tickets are ever kept, and issuing is refused for the quota
  exactly when 32 unexpired ones exist: expired tickets never count, and the
  refusal leaves every unexpired ticket in place.
\<close>

theorem ticket_quota:
  assumes "ticket_step\<^sup>*\<^sup>* ticket_start s"
  shows "hm_len (store s) \<le> MAX_LIVE
    \<and> (is_ok (snd (issue_at (store s) p now (Ok ib) (Ok sb)))
        \<longleftrightarrow> card {i. \<exists>e. hm_get (store s) i = Some e \<and> now < expires_at e} < MAX_LIVE)
    \<and> (\<forall>i e. hm_get (store s) i = Some e \<and> now < expires_at e \<and> i \<noteq> concat (map hex2 ib) \<longrightarrow>
        hm_get (fst (issue_at (store s) p now (Ok ib) (Ok sb))) i = Some e)"
proof -
  note I = ticket_invD [OF ticket_reachable_inv [OF assms]]
  let ?kept = "hm_retain (\<lambda>_ e. expires_at e > now) (store s)"
  have "dom (hm_get ?kept) = {i. \<exists>e. hm_get (store s) i = Some e \<and> now < expires_at e}"
    using I(1) by (auto simp: dom_def hm.get_retain split: option.splits if_splits)
  then have "hm_len ?kept = card {i. \<exists>e. hm_get (store s) i = Some e \<and> now < expires_at e}"
    using hm.len_dom [of ?kept] I(1) by simp
  then show ?thesis
    using I(1,2) by (auto simp: issue_at_def config_err_def random_hex_def Let_def is_ok_def hm.get_retain)
qed

theorem ticket_quota_witness: "is_ok (snd (issue_at new_store Rdp 7 (Ok [1]) (Ok [2])))"
  using ticket_quota [OF rtranclp.rtrancl_refl, of Rdp 7 "[1]" "[2]"]
  by (simp add: ticket_start_def new_store_def MAX_LIVE_def)

text \<open>
  What redeeming a ticket answers, on every branch, and what it does to the
  store: success needs the exact id and secret, the right endpoint and an
  unexpired, unreserved ticket, and leaves it reserved; a ticket another request
  holds stays as it is; any other hit on its id burns it; no other ticket changes.
\<close>

theorem reserve_spec:
  "case split_once (CHR ''.'') raw of
     None \<Rightarrow> reserve_at st raw p now = (st, Err Malformed)
   | Some (i, sec) \<Rightarrow>
       (\<forall>j. j \<noteq> i \<longrightarrow> hm_get (fst (reserve_at st raw p now)) j = hm_get st j)
       \<and> (case hm_get st i of
            None \<Rightarrow> reserve_at st raw p now = (st, Err Unknown)
          | Some e \<Rightarrow>
              (hm_get (fst (reserve_at st raw p now)) i, snd (reserve_at st raw p now)) =
                (if reserved e then (Some e, Err Unknown)
                 else if expires_at e \<le> now then (None, Err Expired)
                 else if entry_purpose e \<noteq> p then (None, Err WrongPurpose)
                 else if secret e \<noteq> sec then (None, Err BadSecret)
                 else (Some (e\<lparr>reserved := True\<rparr>), Ok \<lparr>reservation_id = i\<rparr>)))"
  by (auto simp: reserve_at_def Let_def constant_time_eq_iff as_bytes_inject split: option.splits)

theorem reserve_spec_witness:
  "snd (reserve_at [(''01'', demo_entry)] ''01.03'' Terminal 6) = Err BadSecret
   \<and> hm_get (fst (reserve_at [(''01'', demo_entry)] ''01.03'' Terminal 6)) ''01'' = None
   \<and> hm_get (fst (reserve_at [(''01'', demo_entry)] ''01.03'' Terminal 6)) ''07'' = None"
  using reserve_spec [of "[(''01'', demo_entry)]" "''01.03''" Terminal 6]
  by (simp add: hm_get_def demo_entry_def)

text \<open>
  A freshly issued ticket redeems once: within its 30 seconds and at its own
  endpoint the string handed to the client is accepted, a second request is then
  refused whether the first is undecided or committed, and after a rollback the
  ticket works again.
\<close>

theorem issue_reserve_roundtrip:
  assumes "issue_at st p now idf secf = (st', Ok raw)" and "now' < now + TTL"
  shows "\<exists>st'' r. reserve_at st' raw p now' = (st'', Ok r)
    \<and> snd (reserve_at st'' raw p now') = Err Unknown
    \<and> snd (reserve_at (commit st'' r) raw p now') = Err Unknown
    \<and> is_ok (snd (reserve_at (rollback st'' r) raw p now'))
    \<and> (q \<noteq> p \<longrightarrow> snd (reserve_at st' raw q now') = Err WrongPurpose)
    \<and> (\<forall>late \<ge> now + TTL. snd (reserve_at st' raw q late) = Err Expired)"
proof -
  from assms(1) obtain idb sec where r: "split_once (CHR ''.'') raw = Some (concat (map hex2 idb), sec)"
    "hm_get st' (concat (map hex2 idb)) =
       Some \<lparr>secret = sec, entry_purpose = p, expires_at = now + TTL, reserved = False\<rparr>"
    by (rule issue_Ok) auto
  define i where "i = concat (map hex2 idb)"
  let ?e = "\<lparr>secret = sec, entry_purpose = p, expires_at = now + TTL, reserved = True\<rparr>"
  have "reserve_at st' raw p now' = (hm_insert i ?e (hm_remove i st'), Ok \<lparr>reservation_id = i\<rparr>)"
    using r assms(2) by (simp add: reserve_at_def Let_def constant_time_eq_iff i_def)
  with r assms(2) show ?thesis
    by (simp add: reserve_at_def Let_def constant_time_eq_iff i_def [symmetric] commit_def rollback_def is_ok_def)
qed

theorem issue_reserve_roundtrip_witness:
  "\<exists>st r. reserve_at [(''01'', demo_entry)] ''01.02'' Terminal 6 = (st, Ok r)
     \<and> snd (reserve_at (commit st r) ''01.02'' Terminal 6) = Err Unknown"
  using issue_reserve_roundtrip [OF demo_issue, of 6 Rdp] by (auto simp: TTL_def from_secs_def)

end
