(* ===== verification/Term_Session.thy ===== *)
theory Term_Session
  imports Ticket
begin

text \<open>
  A terminal session that outlives the WebSocket driving it
  (\<open>monitor/src/api/ws/session.rs\<close>, \<open>Scrollback\<close> and \<open>Session\<close>). The channels are
  tokio's: a sender is an opaque number, and what \<open>try_send\<close> answers is an
  argument of the operations that call it; what they put on a channel, at once
  or from a spawned task, is the list of effects they return. Each operation is
  one critical section under the attachment's lock, with \<open>Instant::now()\<close> an
  argument.
\<close>

section \<open>Scrollback\<close>

type_synonym byte = "8 word"

record Scrollback =
  sb_buf :: "byte list"
  sb_capacity :: nat
  sb_next_seq :: "64 word"

datatype Replay = Gap "byte list" | Truncated "byte list"

definition new_scrollback :: "nat \<Rightarrow> Scrollback" where
  "new_scrollback capacity = \<lparr>sb_buf = [], sb_capacity = capacity, sb_next_seq = 0\<rparr>"

definition push :: "byte list \<Rightarrow> Scrollback \<Rightarrow> Scrollback" where
  "push data sb =
     (let tail = (if length data > sb_capacity sb then drop (length data - sb_capacity sb) data else data);
          overflow = saturating_sub (length (sb_buf sb) + length tail) (sb_capacity sb)
      in sb\<lparr>sb_next_seq := sb_next_seq sb + word_of_nat (length data),
            sb_buf := drop overflow (sb_buf sb) @ tail\<rparr>)"

definition start_seq :: "Scrollback \<Rightarrow> 64 word" where
  "start_seq sb = sb_next_seq sb - word_of_nat (length (sb_buf sb))"

definition replay_from :: "Scrollback \<Rightarrow> 64 word \<Rightarrow> Replay" where
  "replay_from sb since =
     (let start = start_seq sb in
      if since \<ge> sb_next_seq sb then Gap []
      else if since < start then Truncated (sb_buf sb)
      else Gap (drop (unat (since - start)) (sb_buf sb)))"

section \<open>Sessions\<close>

datatype SessionInput = InData "byte list" | Resize "16 word" "16 word" | Close

datatype SessionOutput = Data "byte list" | Exit "32 word option" | Error string | Revoked string
  | ReplayRequired

type_synonym sender = nat

datatype TrySend = SendOk | SendFull | SendClosed

datatype Effect = Queued sender SessionOutput | Spawned sender SessionOutput
  | QueuedInput sender SessionInput | SpawnedInput sender SessionInput

type_synonym AttachmentId = "64 word"

record AttachmentState =
  att_next_id :: AttachmentId
  att_current :: "(AttachmentId \<times> sender) option"
  att_detached_at :: "instant option"
  att_closed :: bool
  att_replay_requested :: bool

record Session =
  ses_since :: int
  ses_user :: string
  ses_what :: string
  ses_remote_ip :: "string option"
  ses_opened_at :: string
  ses_secret :: string
  ses_scrollback :: Scrollback
  ses_input :: sender
  ses_attachment :: AttachmentState

definition new_session :: "string \<Rightarrow> nat \<Rightarrow> sender \<Rightarrow> string \<Rightarrow> Session" where
  "new_session user scrollback_bytes input opened_at =
     \<lparr>ses_since = 0, ses_user = user, ses_what = ''shell'', ses_remote_ip = None,
      ses_opened_at = opened_at, ses_secret = [], ses_scrollback = new_scrollback scrollback_bytes,
      ses_input = input,
      ses_attachment = \<lparr>att_next_id = 0, att_current = None, att_detached_at = None,
        att_closed = False, att_replay_requested = False\<rparr>\<rparr>"

definition publish ::
  "(sender \<Rightarrow> SessionOutput \<Rightarrow> TrySend) \<Rightarrow> instant \<Rightarrow> SessionOutput \<Rightarrow> Session \<Rightarrow> Session \<times> Effect list" where
  "publish try_send now output s =
     (let a = ses_attachment s;
          s1 = (case output of Data data \<Rightarrow> s\<lparr>ses_scrollback := push data (ses_scrollback s)\<rparr> | _ \<Rightarrow> s) in
      if att_replay_requested a then (s1, [])
      else (case att_current a of None \<Rightarrow> (s1, [])
        | Some (_, tx) \<Rightarrow>
            (case try_send tx output of
               SendOk \<Rightarrow> (s1, [Queued tx output])
             | SendFull \<Rightarrow> (s1\<lparr>ses_attachment := a\<lparr>att_replay_requested := True\<rparr>\<rparr>, [Spawned tx ReplayRequired])
             | SendClosed \<Rightarrow>
                 (s1\<lparr>ses_attachment := a\<lparr>att_current := None, att_detached_at := Some now\<rparr>\<rparr>, []))))"

definition attach ::
  "64 word \<Rightarrow> sender \<Rightarrow> Session \<Rightarrow> Session \<times> (AttachmentId \<times> Replay \<times> 64 word) option" where
  "attach since tx s =
     (let a = ses_attachment s in
      if att_closed a then (s, None)
      else (s\<lparr>ses_attachment := a\<lparr>att_next_id := att_next_id a + 1, att_current := Some (att_next_id a, tx),
                att_detached_at := None, att_replay_requested := False\<rparr>\<rparr>,
            Some (att_next_id a, replay_from (ses_scrollback s) since, start_seq (ses_scrollback s))))"

definition detach :: "AttachmentId \<Rightarrow> instant \<Rightarrow> Session \<Rightarrow> Session \<times> bool" where
  "detach aid now s =
     (let a = ses_attachment s in
      if map_option fst (att_current a) \<noteq> Some aid then (s, False)
      else (s\<lparr>ses_attachment := a\<lparr>att_current := None, att_detached_at := Some now\<rparr>\<rparr>, True))"

definition close_session :: "instant \<Rightarrow> Session \<Rightarrow> Session \<times> sender option" where
  "close_session now s =
     (let a = ses_attachment s in
      (s\<lparr>ses_attachment := a\<lparr>att_closed := True, att_detached_at := Some now, att_current := None\<rparr>\<rparr>,
       map_option snd (att_current a)))"

section \<open>One session and its connections\<close>

text \<open>
  Beside the session, \<open>term_sys\<close> keeps all the output it ever published, and
  for the connection attached last the bytes it was given (the replay, then what
  was queued for it) with the position in the output where they begin. As
  \<open>terminal.rs\<close> tells the client, that is where it left off, or where the buffer
  starts when its position fell out; a client that claims to be ahead is given
  what comes next.
\<close>

record term_sys =
  sess :: Session
  history :: "byte list"
  view_start :: nat
  view :: "byte list"

definition term_start :: "string \<Rightarrow> nat \<Rightarrow> sender \<Rightarrow> string \<Rightarrow> term_sys" where
  "term_start user cap input opened_at =
     \<lparr>sess = new_session user cap input opened_at, history = [], view_start = 0, view = []\<rparr>"

definition data_of :: "SessionOutput \<Rightarrow> byte list" where
  "data_of o1 = (case o1 of Data d \<Rightarrow> d | _ \<Rightarrow> [])"

definition given :: "Effect list \<Rightarrow> byte list" where
  "given effs = concat (map (\<lambda>e. case e of Queued _ o1 \<Rightarrow> data_of o1 | _ \<Rightarrow> []) effs)"

definition replayed :: "Replay \<Rightarrow> byte list" where
  "replayed r = (case r of Gap d \<Rightarrow> d | Truncated d \<Rightarrow> d)"

inductive term_step :: "term_sys \<Rightarrow> term_sys \<Rightarrow> bool" where
  publishes: "publish try_send now o1 (sess s) = (s', effs) \<Longrightarrow>
     length (history s) + length (data_of o1) < 2 ^ 64 \<Longrightarrow>
     term_step s (s\<lparr>sess := s', history := history s @ data_of o1, view := view s @ given effs\<rparr>)"
| attaches: "attach since tx (sess s) = (s', Some (aid, r, start)) \<Longrightarrow>
     term_step s (s\<lparr>sess := s', view := replayed r,
       view_start := (case r of Gap _ \<Rightarrow> min (unat since) (length (history s)) | Truncated _ \<Rightarrow> unat start)\<rparr>)"
| detaches: "detach aid now (sess s) = (s', ok) \<Longrightarrow> term_step s (s\<lparr>sess := s'\<rparr>)"
| closes: "close_session now (sess s) = (s', tx) \<Longrightarrow> term_step s (s\<lparr>sess := s'\<rparr>)"

definition holds_output :: "Scrollback \<Rightarrow> byte list \<Rightarrow> bool" where
  "holds_output sb out \<longleftrightarrow>
     sb_buf sb = drop (length out - sb_capacity sb) out \<and> sb_next_seq sb = word_of_nat (length out)"

definition live :: "Session \<Rightarrow> bool" where
  "live s \<longleftrightarrow> att_current (ses_attachment s) \<noteq> None \<and> \<not> att_replay_requested (ses_attachment s)"

definition term_inv :: "term_sys \<Rightarrow> bool" where
  "term_inv s \<longleftrightarrow> holds_output (ses_scrollback (sess s)) (history s) \<and> length (history s) < 2 ^ 64
     \<and> view_start s \<le> length (history s)
     \<and> view s = take (length (view s)) (drop (view_start s) (history s))
     \<and> (live (sess s) \<longrightarrow> view s = drop (view_start s) (history s))"

section \<open>The scrollback holds the end of the output\<close>

lemma new_scrollback_holds [simp]: "holds_output (new_scrollback cap) []"
  by (simp add: holds_output_def new_scrollback_def)

lemma push_capacity [simp]: "sb_capacity (push d sb) = sb_capacity sb"
  by (simp add: push_def Let_def)

lemma push_holds: "holds_output sb out \<Longrightarrow> holds_output (push d sb) (out @ d)"
  by (cases "length d > sb_capacity sb"; cases "sb_capacity sb \<le> length out")
    (auto simp: holds_output_def push_def Let_def saturating_sub_def add.commute)

lemma pushes_hold:
  "holds_output sb out \<Longrightarrow> holds_output (foldl (\<lambda>sb d. push d sb) sb ds) (out @ concat ds)
     \<and> sb_capacity (foldl (\<lambda>sb d. push d sb) sb ds) = sb_capacity sb"
proof (induction ds arbitrary: sb out)
  case (Cons d ds)
  then show ?case using Cons.IH [OF push_holds [OF Cons.prems, of d]] by simp
qed simp

lemma holds_start:
  assumes "holds_output sb out"
  shows "start_seq sb = word_of_nat (length out - sb_capacity sb)"
  using assms by (cases "sb_capacity sb \<le> length out") (auto simp: holds_output_def start_seq_def of_nat_diff)

lemma unat64: "n < 2 ^ 64 \<Longrightarrow> unat (word_of_nat n :: 64 word) = n"
  by (simp add: unsigned_of_nat take_bit_nat_eq_self_iff)

lemma replay_holds:
  assumes "holds_output sb out" "length out < 2 ^ 64"
  shows "replay_from sb since =
    (if unat since \<ge> length out then Gap []
     else if unat since < length out - sb_capacity sb then Truncated (drop (length out - sb_capacity sb) out)
     else Gap (drop (unat since) out))"
proof -
  let ?st = "length out - sb_capacity sb"
  have st: "start_seq sb = word_of_nat ?st" "unat (word_of_nat ?st :: 64 word) = ?st"
    using holds_start [OF assms(1)] assms(2) by (simp, intro unat64, linarith)
  have nx: "sb_next_seq sb = word_of_nat (length out)" "unat (word_of_nat (length out) :: 64 word) = length out"
    using assms by (simp_all add: holds_output_def unat64)
  have "unat (since - start_seq sb) = unat since - ?st" if "unat since \<ge> ?st"
    using that st by (simp add: unat_sub word_le_nat_alt)
  then show ?thesis
    using assms(1) st nx
    by (auto simp: replay_from_def Let_def word_le_nat_alt word_less_nat_alt holds_output_def)
qed


section \<open>What a connection is given\<close>

lemma take_view_le:
  assumes "v = take (length v) (drop b h)" "k \<le> length v" "b \<le> length h"
  shows "b + k \<le> length h" and "take k v = take k (drop b h)"
proof -
  have "length v \<le> length (drop b h)" using assms(1) by (metis length_take min.cobounded1)
  with assms show "b + k \<le> length h" by simp
  show "take k v = take k (drop b h)" using assms(1,2) by (metis min.absorb1 take_take)
qed

lemma publish_scrollback:
  "publish ts now o1 s = (s', effs) \<Longrightarrow>
     ses_scrollback s' = (case o1 of Data d \<Rightarrow> push d (ses_scrollback s) | _ \<Rightarrow> ses_scrollback s)"
  by (cases o1) (auto simp: publish_def Let_def split: if_splits option.splits TrySend.splits)

lemma publish_holds:
  assumes "publish ts now o1 s = (s', effs)" "holds_output (ses_scrollback s) out"
  shows "holds_output (ses_scrollback s') (out @ data_of o1)"
  using publish_scrollback [OF assms(1)] assms(2)
  by (cases o1) (simp_all add: data_of_def push_holds)

lemma publish_given:
  assumes "publish ts now o1 s = (s', effs)"
  shows "live s' \<longrightarrow> live s \<and> given effs = data_of o1" and "given effs = [] \<or> live s \<and> given effs = data_of o1"
  using assms by (auto simp: publish_def Let_def live_def given_def data_of_def
      split: if_splits option.splits TrySend.splits SessionOutput.splits)

lemma term_inv_publish:
  assumes pub: "publish ts now o1 (sess s) = (s', effs)" and inv: "term_inv s"
    and len: "length (history s) + length (data_of o1) < 2 ^ 64"
  shows "term_inv (s\<lparr>sess := s', history := history s @ data_of o1, view := view s @ given effs\<rparr>)"
proof (cases "live (sess s) \<and> given effs = data_of o1")
  case True
  then show ?thesis
    using publish_holds [OF pub] inv len by (auto simp: term_inv_def)
next
  case False
  then have g: "given effs = []" and "\<not> live s'" using publish_given [OF pub] by auto
  moreover have "view s = take (length (view s)) (drop (view_start s) (history s @ data_of o1))"
    using inv take_view_le(1) [of "view s" "view_start s" "history s" "length (view s)"]
    by (auto simp: term_inv_def add.commute)
  ultimately show ?thesis using publish_holds [OF pub] inv len by (auto simp: term_inv_def)
qed

lemma term_inv_attach:
  assumes att: "attach since tx (sess s) = (s', Some (aid, r, start))" and inv: "term_inv s"
  shows "term_inv (s\<lparr>sess := s', view := replayed r,
    view_start := (case r of Gap _ \<Rightarrow> min (unat since) (length (history s)) | Truncated _ \<Rightarrow> unat start)\<rparr>)"
proof -
  let ?sb = "ses_scrollback (sess s)"
  have h: "holds_output ?sb (history s)" and l: "length (history s) < 2 ^ 64" using inv by (auto simp: term_inv_def)
  have r: "r = replay_from ?sb since" and st: "start = start_seq ?sb" and sb: "ses_scrollback s' = ?sb"
    using att by (auto simp: attach_def Let_def split: if_splits)
  have "unat start = length (history s) - sb_capacity ?sb"
    using holds_start [OF h] l st by (simp add: unat64)
  then show ?thesis
    using h l by (auto simp: term_inv_def r sb replayed_def replay_holds [OF h l])
qed

interpretation tsess: invariant_machine "\<lambda>s. \<exists>u c i t. s = term_start u c i t" term_step term_inv
proof unfold_locales
  show "term_inv s" if "\<exists>u c i t. s = term_start u c i t" for s
    using that by (auto simp: term_start_def new_session_def term_inv_def live_def)
  show "term_inv t" if "term_step s t" "term_inv s" for s t
    using that
  proof (induction rule: term_step.induct)
    case (detaches aid now s s' ok)
    then show ?case by (auto simp: detach_def Let_def term_inv_def live_def split: if_splits)
  next
    case (closes now s s' tx)
    then show ?case by (auto simp: close_session_def Let_def term_inv_def live_def)
  qed (blast intro: term_inv_publish term_inv_attach)+
qed

lemma term_reachable_inv: "term_step\<^sup>*\<^sup>* (term_start u c i t) s \<Longrightarrow> term_inv s"
  by (rule tsess.inv_reachable) auto

text \<open>
  The run the witnesses use: two connections of a session with four bytes of
  scrollback; the first is given three bytes and its queue is then full.
\<close>

definition demo_full :: "sender \<Rightarrow> SessionOutput \<Rightarrow> TrySend" where
  "demo_full tx o1 = (if o1 = Data [4] then SendFull else SendOk)"

definition demo_session :: Session where
  "demo_session = fst (publish demo_full 6 (Data [4]) (fst (publish demo_full 5 (Data [1, 2, 3])
     (fst (attach 0 7 (new_session ''ops'' 4 1 ''t''))))))"

lemmas demo_session_simps = publish_def attach_def new_session_def new_scrollback_def push_def
  Let_def saturating_sub_def demo_full_def

lemma demo_term_reachable:
  "term_step\<^sup>*\<^sup>* (term_start ''ops'' 4 1 ''t'')
     \<lparr>sess = demo_session, history = [1, 2, 3, 4], view_start = 0, view = [1, 2, 3]\<rparr>"
proof -
  let ?s0 = "new_session ''ops'' 4 1 ''t''"
  let ?a = "fst (attach 0 7 ?s0)"
  let ?b = "fst (publish demo_full 5 (Data [1, 2, 3]) ?a)"
  have 1: "term_step (term_start ''ops'' 4 1 ''t'') \<lparr>sess = ?a, history = [], view_start = 0, view = []\<rparr>"
    using term_step.attaches [of 0 7 "term_start ''ops'' 4 1 ''t''" ?a 0 "Gap []" 0]
    by (simp add: term_start_def attach_def new_session_def new_scrollback_def replay_from_def
        start_seq_def replayed_def)
  have 2: "term_step \<lparr>sess = ?a, history = [], view_start = 0, view = []\<rparr>
      \<lparr>sess = ?b, history = [1, 2, 3], view_start = 0, view = [1, 2, 3]\<rparr>"
    using term_step.publishes [of demo_full 5 "Data [1, 2, 3]"
        "\<lparr>sess = ?a, history = [], view_start = 0, view = []\<rparr>" ?b "[Queued 7 (Data [1, 2, 3])]"]
    by (simp add: demo_session_simps data_of_def given_def)
  have "term_step \<lparr>sess = ?b, history = [1, 2, 3], view_start = 0, view = [1, 2, 3]\<rparr>
      \<lparr>sess = demo_session, history = [1, 2, 3, 4], view_start = 0, view = [1, 2, 3]\<rparr>"
    using term_step.publishes [of demo_full 6 "Data [4]"
        "\<lparr>sess = ?b, history = [1, 2, 3], view_start = 0, view = [1, 2, 3]\<rparr>" demo_session
        "[Spawned 7 ReplayRequired]"]
    by (simp add: demo_session_def demo_session_simps data_of_def given_def)
  with 1 2 show ?thesis by (blast intro: converse_rtranclp_into_rtranclp)
qed

text \<open>
  A client that reconnects with the number of bytes it has rendered is sent
  exactly what it missed: after any sequence of writes to a scrollback of any
  capacity, the answer is the output from that position on when the last
  \<open>capacity\<close> bytes still reach back to it, the last \<open>capacity\<close> bytes marked as
  truncated when they do not, and nothing for a position at or past the end
  (as long as fewer than \<open>2 ^ 64\<close> bytes were written).
\<close>

theorem replay_is_the_missed_output:
  assumes "length (concat ds) < 2 ^ 64"
  shows "replay_from (foldl (\<lambda>sb d. push d sb) (new_scrollback cap) ds) since =
    (if unat since \<ge> length (concat ds) then Gap []
     else if unat since < length (concat ds) - cap then Truncated (drop (length (concat ds) - cap) (concat ds))
     else Gap (drop (unat since) (concat ds)))"
  using pushes_hold [OF new_scrollback_holds, of cap ds] replay_holds [OF _ assms]
  by (simp add: new_scrollback_def)

theorem replay_is_the_missed_output_witness:
  "replay_from (foldl (\<lambda>sb d. push d sb) (new_scrollback 3) [[1, 2], [3, 4, 5]]) 3 = Gap [4, 5]
   \<and> replay_from (foldl (\<lambda>sb d. push d sb) (new_scrollback 3) [[1, 2], [3, 4, 5]]) 1 = Truncated [3, 4, 5]"
  using replay_is_the_missed_output [of "[[1, 2], [3, 4, 5]]" 3] by simp

text \<open>
  C5. Reconnecting loses nothing and repeats nothing. However output, lagging
  queues, takeovers, detaches and closes interleave, a connection is given one
  unbroken stretch of the output from the position it was told, up to the
  newest byte while it is attached and not told to reconnect. A client that
  comes back is sent output again, whatever became of the connection before; and
  having rendered the first \<open>k\<close> bytes of it, it either is sent the rest of the
  output exactly, or is told that output was lost and where the stream now begins.
\<close>

theorem reconnect_is_seamless:
  assumes "term_step\<^sup>*\<^sup>* (term_start user cap input opened) s" and "k \<le> length (view s)"
    and "attach (word_of_nat (view_start s + k)) tx (sess s) = (s', Some (aid, r, start))"
  shows "view s = take (length (view s)) (drop (view_start s) (history s))
    \<and> (live (sess s) \<longrightarrow> view s = drop (view_start s) (history s))
    \<and> live s'
    \<and> (case r of Gap d \<Rightarrow> take k (view s) @ d = drop (view_start s) (history s)
       | Truncated d \<Rightarrow> view_start s + k < unat start \<and> d = drop (unat start) (history s))"
proof -
  let ?sb = "ses_scrollback (sess s)" and ?n = "length (history s)"
  note inv = term_reachable_inv [OF assms(1), unfolded term_inv_def]
  then have h: "holds_output ?sb (history s)" and l: "?n < 2 ^ 64" and le: "view_start s + k \<le> ?n"
    and v: "take k (view s) = take k (drop (view_start s) (history s))"
    using assms(2) take_view_le [of "view s"] by auto
  have r: "r = replay_from ?sb (word_of_nat (view_start s + k))" and st: "start = start_seq ?sb" and lv: "live s'"
    using assms(3) by (auto simp: attach_def Let_def live_def split: if_splits)
  have start: "unat start = ?n - sb_capacity ?sb"
    using holds_start [OF h] l st by (simp add: unat64)
  have since: "unat (word_of_nat (view_start s + k) :: 64 word) = view_start s + k"
    by (rule unat64) (use l le in linarith)
  have "take k (view s) @ drop (view_start s + k) (history s) = drop (view_start s) (history s)"
    unfolding v by (metis add.commute append_take_drop_id drop_drop)
  moreover have "take k (view s) = drop (view_start s) (history s)" if "?n \<le> view_start s + k"
    using that le unfolding v by simp
  ultimately show ?thesis
    using inv lv unfolding r replay_holds [OF h l] since start by auto
qed

theorem reconnect_is_seamless_witness:
  "\<exists>d start. attach (word_of_nat (0 + 2)) 8 demo_session =
      (fst (attach (word_of_nat (0 + 2)) 8 demo_session), Some (1, Gap d, start))
    \<and> take 2 [1, 2, 3] @ d = [1, 2, 3, 4 :: byte]"
proof -
  let ?s = "\<lparr>sess = demo_session, history = [1, 2, 3, 4], view_start = 0, view = [1, 2, 3]\<rparr> :: term_sys"
  have a: "attach (word_of_nat (view_start ?s + 2)) 8 (sess ?s) =
      (fst (attach (word_of_nat (0 + 2)) 8 demo_session), Some (1, Gap [3, 4], 0))"
    by (simp add: demo_session_def demo_session_simps replay_from_def start_seq_def)
  show ?thesis
    using reconnect_is_seamless [OF demo_term_reachable _ a] a by auto
qed

end
