(* ===== verification/Session_Store.thy ===== *)
theory Session_Store
  imports Term_Session "HOL-Library.List_Lexorder" "HOL-Library.Char_ord"
begin

text \<open>
  The terminal sessions of the agent (\<open>monitor/src/api/ws/session.rs\<close>,
  \<open>SessionStore\<close>). A connection and the shell's task hold a session through an
  \<open>Arc\<close>, and go on holding it after the store dropped it, so sessions are kept
  in a heap (an address is an index of the list) and the store maps an id to an
  address. \<open>store_step\<close> interleaves the store's operations with those of any
  holder of any session.
\<close>

section \<open>The store\<close>

record SessionInfo =
  info_id :: string
  info_user :: string
  info_what :: string
  info_remote_ip :: "string option"
  info_opened_at :: string
  info_attached :: bool

record SessionStore =
  heap :: "Session list"
  sessions :: "(string, nat) hashmap"
  max_sessions :: nat
  detached_timeout :: duration

datatype AttachError = Unknown | BadSecret

definition new_session_store :: "nat \<Rightarrow> duration \<Rightarrow> SessionStore" where
  "new_session_store limit timeout =
     \<lparr>heap = [], sessions = hm_empty, max_sessions = limit, detached_timeout = timeout\<rparr>"

definition expired_at :: "instant \<Rightarrow> duration \<Rightarrow> Session \<Rightarrow> bool" where
  "expired_at now timeout s =
     (case att_detached_at (ses_attachment s) of None \<Rightarrow> False
      | Some at \<Rightarrow> saturating_duration_since now at \<ge> timeout)"

fun take_ids :: "string list \<Rightarrow> (string, nat) hashmap \<Rightarrow> (string, nat) hashmap \<times> nat list" where
  "take_ids [] m = (m, [])"
| "take_ids (i # ids) m =
     (case hm_get m i of None \<Rightarrow> take_ids ids m
      | Some a \<Rightarrow> (let (m', as) = take_ids ids (hm_remove i m) in (m', a # as)))"

definition take_expired :: "instant \<Rightarrow> SessionStore \<Rightarrow> SessionStore \<times> nat list" where
  "take_expired now st =
     (let ids = map fst (filter (\<lambda>(_, a). expired_at now (detached_timeout st) (heap st ! a)) (sessions st));
          (m, as) = take_ids ids (sessions st)
      in (st\<lparr>sessions := m\<rparr>, as))"

definition send_close :: "(sender \<Rightarrow> TrySend) \<Rightarrow> sender \<Rightarrow> Effect list" where
  "send_close try_input tx =
     (case try_input tx of SendOk \<Rightarrow> [QueuedInput tx Close]
      | SendFull \<Rightarrow> [SpawnedInput tx Close] | SendClosed \<Rightarrow> [])"

fun terminate :: "(sender \<Rightarrow> TrySend) \<Rightarrow> instant \<Rightarrow> nat list \<Rightarrow> SessionStore \<Rightarrow> SessionStore \<times> Effect list" where
  "terminate try_input now [] st = (st, [])"
| "terminate try_input now (a # as) st =
     (let s = fst (close_session now (heap st ! a));
          (st', effs) = terminate try_input now as (st\<lparr>heap := (heap st)[a := s]\<rparr>)
      in (st', send_close try_input (ses_input s) @ effs))"

definition insert_session ::
  "(sender \<Rightarrow> TrySend) \<Rightarrow> instant \<Rightarrow> Fill \<Rightarrow> Fill \<Rightarrow> Session \<Rightarrow> SessionStore \<Rightarrow>
     SessionStore \<times> Effect list \<times> (MonitorError, (string \<times> nat) option) result" where
  "insert_session try_input now id_fill secret_fill session st =
     (case config_err (random_hex id_fill) of Inl e \<Rightarrow> (st, [], Err e)
      | Inr sid \<Rightarrow>
          (case config_err (random_hex secret_fill) of Inl e \<Rightarrow> (st, [], Err e)
           | Inr sec \<Rightarrow>
               (let a = length (heap st);
                    st1 = st\<lparr>heap := heap st @ [session\<lparr>ses_secret := sec\<rparr>]\<rparr>;
                    (st2, expired) = take_expired now st1;
                    (st3, inserted) =
                      (if hm_len (sessions st2) \<ge> max_sessions st2 then (st2, None)
                       else (st2\<lparr>sessions := hm_insert sid a (sessions st2)\<rparr>, Some (sid @ ''.'' @ sec, a)));
                    (st4, effs) = terminate try_input now expired st3
                in (st4, effs, Ok inserted))))"

definition get_session :: "SessionStore \<Rightarrow> string \<Rightarrow> (AttachError, nat) result" where
  "get_session st handle =
     (case split_once (CHR ''.'') handle of None \<Rightarrow> Err Unknown
      | Some (sid, sec) \<Rightarrow>
          (case hm_get (sessions st) sid of None \<Rightarrow> Err Unknown
           | Some a \<Rightarrow>
               if \<not> constant_time_eq (as_bytes (ses_secret (heap st ! a))) (as_bytes sec) then Err BadSecret
               else Ok a))"

definition remove_session :: "string \<Rightarrow> SessionStore \<Rightarrow> SessionStore" where
  "remove_session handle st =
     (let sid = (case split_once (CHR ''.'') handle of None \<Rightarrow> handle | Some (i, _) \<Rightarrow> i)
      in st\<lparr>sessions := hm_remove sid (sessions st)\<rparr>)"

definition session_info :: "SessionStore \<Rightarrow> string \<times> nat \<Rightarrow> SessionInfo" where
  "session_info st p = (let s = heap st ! snd p in
     \<lparr>info_id = fst p, info_user = ses_user s, info_what = ses_what s, info_remote_ip = ses_remote_ip s,
      info_opened_at = ses_opened_at s, info_attached = (att_current (ses_attachment s) \<noteq> None)\<rparr>)"

definition list_sessions :: "SessionStore \<Rightarrow> SessionInfo list" where
  "list_sessions st = sort_key info_opened_at (map (session_info st) (sessions st))"

definition end_session ::
  "(sender \<Rightarrow> SessionOutput \<Rightarrow> TrySend) \<Rightarrow> (sender \<Rightarrow> TrySend) \<Rightarrow> instant \<Rightarrow> string \<Rightarrow> nat \<Rightarrow> SessionStore \<Rightarrow>
     SessionStore \<times> Effect list" where
  "end_session try_send try_input now code a st =
     (let (s, out) = close_session now (heap st ! a);
          told = (case out of None \<Rightarrow> []
                  | Some tx \<Rightarrow> if try_send tx (Revoked code) = SendOk then [Queued tx (Revoked code)] else [])
      in (st\<lparr>heap := (heap st)[a := s]\<rparr>, told @ send_close try_input (ses_input s)))"

definition close_id ::
  "(sender \<Rightarrow> SessionOutput \<Rightarrow> TrySend) \<Rightarrow> (sender \<Rightarrow> TrySend) \<Rightarrow> instant \<Rightarrow> string \<Rightarrow> string \<Rightarrow> SessionStore \<Rightarrow>
     SessionStore \<times> Effect list \<times> bool" where
  "close_id try_send try_input now sid code st =
     (case hm_get (sessions st) sid of None \<Rightarrow> (st, [], False)
      | Some a \<Rightarrow>
          (let (st', effs) = end_session try_send try_input now code a
                               (st\<lparr>sessions := hm_remove sid (sessions st)\<rparr>)
           in (st', effs, True)))"

fun end_each ::
  "(sender \<Rightarrow> SessionOutput \<Rightarrow> TrySend) \<Rightarrow> (sender \<Rightarrow> TrySend) \<Rightarrow> instant \<Rightarrow> string \<Rightarrow> nat list \<Rightarrow>
     SessionStore \<Rightarrow> SessionStore \<times> Effect list" where
  "end_each try_send try_input now code [] st = (st, [])"
| "end_each try_send try_input now code (a # as) st =
     (let (st1, effs1) = end_session try_send try_input now code a st;
          (st2, effs2) = end_each try_send try_input now code as st1
      in (st2, effs1 @ effs2))"

definition close_all ::
  "(sender \<Rightarrow> SessionOutput \<Rightarrow> TrySend) \<Rightarrow> (sender \<Rightarrow> TrySend) \<Rightarrow> instant \<Rightarrow> string \<Rightarrow> SessionStore \<Rightarrow>
     SessionStore \<times> Effect list \<times> nat" where
  "close_all try_send try_input now code st =
     (let closing = map snd (sessions st);
          (st', effs) = end_each try_send try_input now code closing (st\<lparr>sessions := hm_empty\<rparr>)
      in (st', effs, length closing))"

definition reap_at ::
  "(sender \<Rightarrow> TrySend) \<Rightarrow> instant \<Rightarrow> SessionStore \<Rightarrow> SessionStore \<times> Effect list \<times> nat" where
  "reap_at try_input now st =
     (let (st1, expired) = take_expired now st;
          (st2, effs) = terminate try_input now expired st1
      in (st2, effs, length expired))"

definition len :: "SessionStore \<Rightarrow> nat" where
  "len st = hm_len (sessions st)"

definition is_empty :: "SessionStore \<Rightarrow> bool" where
  "is_empty st \<longleftrightarrow> len st = 0"

text \<open>
  The shell's end (\<open>drive_local_shell\<close> in \<open>terminal.rs\<close>): its exit status is
  published, the loop is left and the session dropped from the store.
\<close>

definition shell_exits ::
  "(sender \<Rightarrow> SessionOutput \<Rightarrow> TrySend) \<Rightarrow> instant \<Rightarrow> 32 word option \<Rightarrow> nat \<Rightarrow> string \<Rightarrow> SessionStore \<Rightarrow>
     SessionStore \<times> Effect list" where
  "shell_exits try_send now status a handle st =
     (let (s, effs) = publish try_send now (Exit status) (heap st ! a)
      in (remove_session handle (st\<lparr>heap := (heap st)[a := s]\<rparr>), effs))"

section \<open>Holders of sessions\<close>

text \<open>
  Every operation is one step. In the source \<open>close_all\<close>, \<open>close_id\<close>, \<open>reap_at\<close> and
  \<open>insert\<close> release the store's lock before they end the sessions they took out, so
  their parts are steps of their own too: sessions leave the map (\<open>removes\<close>,
  \<open>drains\<close>) and a session is ended (\<open>ends_one\<close>), with anything in between.
\<close>

definition opened :: "Session \<Rightarrow> bool" where
  "opened s \<longleftrightarrow> (\<exists>user cap input at since what ip.
     s = (new_session user cap input at)\<lparr>ses_since := since, ses_what := what, ses_remote_ip := ip\<rparr>)"

inductive store_step :: "SessionStore \<Rightarrow> SessionStore \<Rightarrow> bool" where
  publishes: "a < length (heap st) \<Longrightarrow> publish ts now o1 (heap st ! a) = (s, effs) \<Longrightarrow>
     store_step st (st\<lparr>heap := (heap st)[a := s]\<rparr>)"
| attaches: "a < length (heap st) \<Longrightarrow> attach since tx (heap st ! a) = (s, r) \<Longrightarrow>
     store_step st (st\<lparr>heap := (heap st)[a := s]\<rparr>)"
| detaches: "a < length (heap st) \<Longrightarrow> detach aid now (heap st ! a) = (s, ok) \<Longrightarrow>
     store_step st (st\<lparr>heap := (heap st)[a := s]\<rparr>)"
| inserts: "opened s \<Longrightarrow> insert_session ti now idf secf s st = (st', effs, r) \<Longrightarrow> store_step st st'"
| removes: "store_step st (remove_session handle st)"
| closes: "close_id ts ti now sid code st = (st', effs, ok) \<Longrightarrow> store_step st st'"
| closes_all: "close_all ts ti now code st = (st', effs, n) \<Longrightarrow> store_step st st'"
| reaps: "reap_at ti now st = (st', effs, n) \<Longrightarrow> store_step st st'"
| drains: "store_step st (st\<lparr>sessions := hm_empty\<rparr>)"
| ends_one: "a < length (heap st) \<Longrightarrow> end_session ts ti now code a st = (st', effs) \<Longrightarrow> store_step st st'"

text \<open>
  Of one session: it is closed or attached, never both, and the clock of a
  detached session is stopped while a client is attached.
\<close>

definition session_ok :: "Session \<Rightarrow> bool" where
  "session_ok s \<longleftrightarrow> (att_current (ses_attachment s) \<noteq> None \<longrightarrow>
     att_detached_at (ses_attachment s) = None \<and> \<not> att_closed (ses_attachment s))"

definition store_inv :: "SessionStore \<Rightarrow> bool" where
  "store_inv st \<longleftrightarrow> hm_wf (sessions st) \<and> hm_len (sessions st) \<le> max_sessions st
     \<and> (\<forall>i a. hm_get (sessions st) i = Some a \<longrightarrow> a < length (heap st))
     \<and> (\<forall>i j a. hm_get (sessions st) i = Some a \<and> hm_get (sessions st) j = Some a \<longrightarrow> i = j)
     \<and> (\<forall>s \<in> set (heap st). session_ok s)"

definition is_closed :: "SessionStore \<Rightarrow> nat \<Rightarrow> bool" where
  "is_closed st a \<longleftrightarrow> a < length (heap st) \<and> att_closed (ses_attachment (heap st ! a))"

section \<open>How sessions evolve\<close>

text \<open>What no operation undoes: a closed session stays closed, under the secret it was given.\<close>

definition evolves :: "Session \<Rightarrow> Session \<Rightarrow> bool" where
  "evolves s s' \<longleftrightarrow> (att_closed (ses_attachment s) \<longrightarrow> att_closed (ses_attachment s'))
     \<and> (session_ok s \<longrightarrow> session_ok s') \<and> ses_secret s' = ses_secret s"

definition heap_evolves :: "Session list \<Rightarrow> Session list \<Rightarrow> bool" where
  "heap_evolves h h' \<longleftrightarrow> length h \<le> length h' \<and> (\<forall>a < length h. evolves (h ! a) (h' ! a))
     \<and> ((\<forall>s \<in> set h. session_ok s) \<longrightarrow> (\<forall>s \<in> set h'. session_ok s))"

named_theorems evolve_intros \<open>operations under which sessions only evolve\<close>

lemma evolves_refl [evolve_intros, simp]: "evolves s s"
  by (simp add: evolves_def)

lemma publish_evolves [evolve_intros]: "publish ts now o1 s = (s', effs) \<Longrightarrow> evolves s s'"
  by (auto simp: publish_def Let_def evolves_def session_ok_def
      split: if_splits option.splits TrySend.splits SessionOutput.splits)

lemma attach_evolves [evolve_intros]: "attach since tx s = (s', r) \<Longrightarrow> evolves s s'"
  by (auto simp: attach_def Let_def evolves_def session_ok_def split: if_splits)

lemma detach_evolves [evolve_intros]: "detach aid now s = (s', ok) \<Longrightarrow> evolves s s'"
  by (auto simp: detach_def Let_def evolves_def session_ok_def split: if_splits)

lemma close_evolves [evolve_intros]: "evolves s (fst (close_session now s))"
  by (auto simp: close_session_def Let_def evolves_def session_ok_def)

lemma close_closed [simp]: "att_closed (ses_attachment (fst (close_session now s)))"
  by (simp add: close_session_def Let_def)

lemma heap_evolves_refl [evolve_intros, simp]: "heap_evolves h h"
  by (simp add: heap_evolves_def)

lemma evolves_trans: "evolves s s' \<Longrightarrow> evolves s' s'' \<Longrightarrow> evolves s s''"
  unfolding evolves_def by simp

lemma heap_evolves_trans:
  assumes "heap_evolves h h'" "heap_evolves h' h''"
  shows "heap_evolves h h''"
  unfolding heap_evolves_def
proof (intro conjI allI impI)
  show "length h \<le> length h''" using assms by (simp add: heap_evolves_def)
  show "evolves (h ! a) (h'' ! a)" if "a < length h" for a
    using assms that evolves_trans [of "h ! a" "h' ! a"] by (simp add: heap_evolves_def)
  show "\<forall>s \<in> set h''. session_ok s" if "\<forall>s \<in> set h. session_ok s"
    using assms that unfolding heap_evolves_def by blast
qed

lemma heap_evolves_update [evolve_intros]:
  assumes "a < length h" "evolves (h ! a) s"
  shows "heap_evolves h (h[a := s])"
proof -
  have "session_ok s" if "\<forall>s \<in> set h. session_ok s" using that assms by (auto simp: evolves_def)
  then show ?thesis
    using assms set_update_subset_insert [of h a s] by (auto simp: heap_evolves_def nth_list_update)
qed

lemma opened_ok: "opened s \<Longrightarrow> session_ok (s\<lparr>ses_secret := sec\<rparr>) \<and> \<not> att_closed (ses_attachment s)"
  by (auto simp: opened_def new_session_def session_ok_def)

lemma heap_evolves_new [evolve_intros]: "session_ok s \<Longrightarrow> heap_evolves h (h @ [s])"
  by (auto simp: heap_evolves_def nth_append)

section \<open>Ending sessions\<close>

text \<open>
  \<open>ends as st st'\<close>: the sessions at \<open>as\<close> are closed, the others as they were, and
  the store's map is untouched. It is what \<open>terminate\<close> and \<open>end_each\<close> do.
\<close>

definition ends :: "nat list \<Rightarrow> SessionStore \<Rightarrow> SessionStore \<Rightarrow> bool" where
  "ends as st st' \<longleftrightarrow> heap_evolves (heap st) (heap st') \<and> length (heap st') = length (heap st)
     \<and> (\<forall>a \<in> set as. is_closed st' a)
     \<and> (\<forall>a. a \<notin> set as \<longrightarrow> heap st' ! a = heap st ! a) \<and> sessions st' = sessions st
     \<and> max_sessions st' = max_sessions st \<and> detached_timeout st' = detached_timeout st"

lemma is_closed_evolves: "heap_evolves (heap st) (heap st') \<Longrightarrow> is_closed st a \<Longrightarrow> is_closed st' a"
  by (auto simp: heap_evolves_def evolves_def is_closed_def)

lemma ends_Nil [simp]: "ends [] st st"
  by (simp add: ends_def)

lemma ends_Cons:
  assumes "a < length (heap st)"
    and "ends as (st\<lparr>heap := (heap st)[a := fst (close_session now (heap st ! a))]\<rparr>) st'"
  shows "ends (a # as) st st'"
proof -
  let ?st1 = "st\<lparr>heap := (heap st)[a := fst (close_session now (heap st ! a))]\<rparr>"
  have "heap_evolves (heap st) (heap ?st1)" using assms(1) by (simp add: evolve_intros)
  moreover have "is_closed ?st1 a" using assms(1) by (simp add: is_closed_def)
  ultimately show ?thesis
    using assms(2) is_closed_evolves [of ?st1 st' a] by (auto simp: ends_def intro: heap_evolves_trans)
qed

lemma terminate_ends:
  "set as \<subseteq> {..<length (heap st)} \<Longrightarrow> ends as st (fst (terminate ti now as st))"
proof (induction as arbitrary: st)
  case (Cons a as)
  then show ?case using ends_Cons [of a st as now] by (simp add: Let_def split_def)
qed simp

lemma end_session_heap:
  "fst (end_session ts ti now code a st) = st\<lparr>heap := (heap st)[a := fst (close_session now (heap st ! a))]\<rparr>"
  by (simp add: end_session_def Let_def split_def)

lemma end_each_ends:
  "set as \<subseteq> {..<length (heap st)} \<Longrightarrow> ends as st (fst (end_each ts ti now code as st))"
proof (induction as arbitrary: st)
  case (Cons a as)
  then show ?case using ends_Cons [of a st as now] by (simp add: Let_def split_def end_session_heap)
qed simp

lemma map_filter_remove:
  "i \<notin> set ids \<Longrightarrow> List.map_filter (hm_get (hm_remove i m)) ids = List.map_filter (hm_get m) ids"
  by (induction ids) (auto simp: List.map_filter_simps split: option.split)

lemma take_ids_spec:
  "distinct ids \<Longrightarrow> take_ids ids m = (fold hm_remove ids m, List.map_filter (hm_get m) ids)"
proof (induction ids arbitrary: m)
  case (Cons i ids)
  have "fold hm_remove ids (hm_remove i m) = fold hm_remove ids m" if "hm_get m i = None"
    using that by (simp add: hm_remove_def hm_get_def delete_idem map_of_eq_None_iff)
  then show ?case using Cons by (auto simp: List.map_filter_simps map_filter_remove split: option.split)
qed (simp add: List.map_filter_simps)

lemma take_expired_spec:
  assumes wf: "hm_wf (sessions st)" and t: "take_expired now st = (st', as)"
  shows "heap st' = heap st" "max_sessions st' = max_sessions st" "detached_timeout st' = detached_timeout st"
    and "hm_wf (sessions st')"
    and "hm_get (sessions st') i = (case hm_get (sessions st) i of None \<Rightarrow> None
       | Some a \<Rightarrow> if expired_at now (detached_timeout st) (heap st ! a) then None else Some a)"
    and "set as = {a. \<exists>i. hm_get (sessions st) i = Some a \<and> expired_at now (detached_timeout st) (heap st ! a)}"
proof -
  let ?ids = "map fst (filter (\<lambda>(_, a). expired_at now (detached_timeout st) (heap st ! a)) (sessions st))"
  have d: "distinct ?ids" using wf by (simp add: hm_wf_def distinct_map_filter)
  have ids: "i \<in> set ?ids \<longleftrightarrow> (\<exists>a. hm_get (sessions st) i = Some a
      \<and> expired_at now (detached_timeout st) (heap st ! a))" for i
    using wf by (force simp: hm_wf_def hm_get_def)
  have t': "st' = st\<lparr>sessions := fold hm_remove ?ids (sessions st)\<rparr>"
    "as = List.map_filter (hm_get (sessions st)) ?ids"
    using t by (auto simp: take_expired_def Let_def take_ids_spec [OF d])
  show "heap st' = heap st" "max_sessions st' = max_sessions st" "detached_timeout st' = detached_timeout st"
    "hm_wf (sessions st')"
    using wf by (simp_all add: t')
  show "hm_get (sessions st') i = (case hm_get (sessions st) i of None \<Rightarrow> None
       | Some a \<Rightarrow> if expired_at now (detached_timeout st) (heap st ! a) then None else Some a)"
    using ids [of i] by (auto simp: t' hm.get_remove_all simp del: set_map split: option.split)
  show "set as = {a. \<exists>i. hm_get (sessions st) i = Some a \<and> expired_at now (detached_timeout st) (heap st ! a)}"
    using ids unfolding t' List.map_filter_def by (auto simp del: set_map simp: image_iff) force+
qed

section \<open>Every step keeps the invariant\<close>

lemma store_invD:
  assumes "store_inv st"
  shows "hm_wf (sessions st)" "hm_len (sessions st) \<le> max_sessions st"
    and "hm_get (sessions st) i = Some a \<Longrightarrow> a < length (heap st)"
    and "hm_get (sessions st) i = Some a \<Longrightarrow> hm_get (sessions st) j = Some a \<Longrightarrow> i = j"
    and "\<forall>s \<in> set (heap st). session_ok s"
  using assms unfolding store_inv_def by blast+

lemma store_inv_shrink:
  assumes inv: "store_inv st" and h: "heap_evolves (heap st) (heap st')"
    and m: "max_sessions st' = max_sessions st" and wf: "hm_wf (sessions st')"
    and sub: "\<And>i a. hm_get (sessions st') i = Some a \<Longrightarrow> hm_get (sessions st) i = Some a"
  shows "store_inv st'"
proof -
  note I = store_invD [OF inv]
  have "hm_len (sessions st') \<le> hm_len (sessions st)"
    using wf I(1) sub by (intro len_mono_get) auto
  moreover have "a < length (heap st')" if "hm_get (sessions st') i = Some a" for i a
    using I(3) [OF sub [OF that]] h by (simp add: heap_evolves_def)
  ultimately show ?thesis
    using I(2,5) h m wf I(4) [OF sub sub] unfolding store_inv_def heap_evolves_def by fastforce
qed

lemma store_inv_heap: "store_inv st \<Longrightarrow> heap_evolves (heap st) h \<Longrightarrow> store_inv (st\<lparr>heap := h\<rparr>)"
  by (rule store_inv_shrink) (auto dest: store_invD)

lemma ends_inv: "store_inv st \<Longrightarrow> ends as st st' \<Longrightarrow> store_inv st'"
  by (rule store_inv_shrink) (auto simp: ends_def store_inv_def)

lemma expired_addresses:
  assumes "store_inv st" "take_expired now st = (st', as)"
  shows "set as \<subseteq> {..<length (heap st')}"
  using take_expired_spec(1,6) [OF _ assms(2)] assms(1) by (auto simp: store_inv_def)

lemma take_expired_inv:
  assumes "store_inv st" "take_expired now st = (st', as)"
  shows "store_inv st'"
proof -
  note spec = take_expired_spec [OF _ assms(2)]
  have wf: "hm_wf (sessions st)" using assms(1) by (simp add: store_inv_def)
  show ?thesis
    by (rule store_inv_shrink [OF assms(1)]) (use spec [OF wf] in \<open>auto split: option.splits if_splits\<close>)
qed

lemma reap_ends:
  assumes "store_inv st" "reap_at ti now st = (st', effs, n)"
  obtains st1 as where "take_expired now st = (st1, as)" "ends as st1 st'" "n = length as"
  using assms expired_addresses [OF assms(1)] terminate_ends
  by (auto simp: reap_at_def Let_def split: prod.splits) (metis fst_conv)

lemma insert_cases:
  assumes inv: "store_inv st" and s: "opened s" and ins: "insert_session ti now idf secf s st = (st', effs, r)"
  obtains e where "st' = st" "r = Err e"
  | idb secb st1 as where "idf = Ok idb" "secf = Ok secb"
      "take_expired now (st\<lparr>heap := heap st @ [s\<lparr>ses_secret := concat (map hex2 secb)\<rparr>]\<rparr>) = (st1, as)"
      "if hm_len (sessions st1) \<ge> max_sessions st then ends as st1 st' \<and> r = Ok None
       else ends as (st1\<lparr>sessions := hm_insert (concat (map hex2 idb)) (length (heap st)) (sessions st1)\<rparr>) st'
         \<and> r = Ok (Some (concat (map hex2 idb) @ ''.'' @ concat (map hex2 secb), length (heap st)))"
proof (cases "(\<exists>idb. idf = Ok idb) \<and> (\<exists>secb. secf = Ok secb)")
  case False
  then show ?thesis
    using ins that(1) by (cases idf; cases secf) (auto simp: insert_session_def random_hex_def config_err_def)
next
  case True
  then obtain idb secb where f: "idf = Ok idb" "secf = Ok secb" by blast
  let ?st = "st\<lparr>heap := heap st @ [s\<lparr>ses_secret := concat (map hex2 secb)\<rparr>]\<rparr>"
  obtain st1 as where t: "take_expired now ?st = (st1, as)" by (cases "take_expired now ?st")
  have inv': "store_inv ?st" using inv opened_ok [OF s] by (intro store_inv_heap) (auto intro: evolve_intros)
  have as: "set as \<subseteq> {..<length (heap st1)}" by (rule expired_addresses [OF inv' t])
  have m: "max_sessions st1 = max_sessions st"
    using take_expired_spec(2) [OF _ t] inv' by (simp add: store_inv_def)
  show ?thesis
    using ins f t as m that(2) [OF f t]
      terminate_ends [of as st1 ti now]
      terminate_ends [of as "st1\<lparr>sessions := hm_insert (concat (map hex2 idb)) (length (heap st)) (sessions st1)\<rparr>" ti now]
    by (auto simp: insert_session_def random_hex_def config_err_def Let_def split: if_splits prod.splits)
qed

text \<open>
  What a step does to the shared state: sessions evolve, and an id of the store
  either had its address before or has one that is new.
\<close>

definition store_evolves :: "SessionStore \<Rightarrow> SessionStore \<Rightarrow> bool" where
  "store_evolves st st' \<longleftrightarrow> store_inv st' \<and> heap_evolves (heap st) (heap st')
     \<and> (\<forall>i a. hm_get (sessions st') i = Some a \<and> a < length (heap st) \<longrightarrow> hm_get (sessions st) i = Some a)"

lemma store_evolves_shrink:
  assumes "store_inv st" "heap_evolves (heap st) (heap st')" "max_sessions st' = max_sessions st"
    and "hm_wf (sessions st')" "\<And>i a. hm_get (sessions st') i = Some a \<Longrightarrow> hm_get (sessions st) i = Some a"
  shows "store_evolves st st'"
  using store_inv_shrink [OF assms] assms by (auto simp: store_evolves_def)

lemma store_evolves_trans: "store_evolves st st' \<Longrightarrow> store_evolves st' st'' \<Longrightarrow> store_evolves st st''"
  unfolding store_evolves_def by (meson heap_evolves_def heap_evolves_trans order.strict_trans2)

lemma store_evolves_heap:
  "store_inv st \<Longrightarrow> heap_evolves (heap st) h \<Longrightarrow> store_evolves st (st\<lparr>heap := h\<rparr>)"
  by (rule store_evolves_shrink) (auto dest: store_invD)

lemma ends_evolves: "store_inv st \<Longrightarrow> ends as st st' \<Longrightarrow> store_evolves st st'"
  by (rule store_evolves_shrink) (auto simp: ends_def dest: store_invD)

lemma take_expired_evolves:
  assumes "store_inv st" "take_expired now st = (st', as)"
  shows "store_evolves st st'"
  by (rule store_evolves_shrink [OF assms(1)])
    (use take_expired_spec [OF store_invD(1) [OF assms(1)] assms(2)] in \<open>auto split: option.splits if_splits\<close>)

lemma reap_evolves:
  assumes "store_inv st" "reap_at ti now st = (st', effs, n)"
  shows "store_evolves st st'"
  using reap_ends [OF assms] take_expired_evolves [OF assms(1)] ends_evolves
  by (metis store_evolves_def store_evolves_trans)

lemma insert_new_evolves:
  assumes inv: "store_inv st" and a: "Suc a = length (heap st)" "\<forall>i. hm_get (sessions st) i \<noteq> Some a"
    and room: "hm_len (sessions st) < max_sessions st"
  shows "store_inv (st\<lparr>sessions := hm_insert i a (sessions st)\<rparr>)"
proof -
  note I = store_invD [OF inv]
  show ?thesis
    using I(1,2,5) I(3,4) a room hm.len_insert_le [OF I(1), of i a]
    unfolding store_inv_def by (auto split: if_splits)
qed

lemma insert_evolves:
  assumes inv: "store_inv st" and s: "opened s" and ins: "insert_session ti now idf secf s st = (st', effs, r)"
  shows "store_evolves st st'"
  using inv s ins
proof (cases rule: insert_cases)
  case 1
  then show ?thesis using inv by (simp add: store_evolves_def)
next
  case (2 idb secb st1 as)
  let ?st = "st\<lparr>heap := heap st @ [s\<lparr>ses_secret := concat (map hex2 secb)\<rparr>]\<rparr>"
  let ?i = "concat (map hex2 idb)" and ?a = "length (heap st)"
  have grow: "heap_evolves (heap st) (heap ?st)" using opened_ok [OF s] by (simp add: evolve_intros)
  have inv': "store_inv ?st" using store_inv_heap [OF inv grow] by simp
  note spec = take_expired_spec [OF store_invD(1) [OF inv'] 2(3)]
  have e1: "store_evolves st st1"
    using store_evolves_trans [OF _ take_expired_evolves [OF inv' 2(3)]] store_evolves_heap [OF inv grow] by simp
  have fresh: "\<forall>j. hm_get (sessions st1) j \<noteq> Some ?a"
    using spec(5) store_invD(3) [OF inv] by (auto split: option.splits if_splits)
  show ?thesis
  proof (cases "hm_len (sessions st1) \<ge> max_sessions st")
    case True
    then have "ends as st1 st'" using 2(4) by (simp only: if_True)
    then show ?thesis using e1 ends_evolves store_evolves_trans store_evolves_def by blast
  next
    case False
    let ?st2 = "st1\<lparr>sessions := hm_insert ?i ?a (sessions st1)\<rparr>"
    have "store_inv ?st2"
      using e1 fresh False spec(1,2) by (intro insert_new_evolves) (auto simp: store_evolves_def)
    moreover from this have "store_evolves st ?st2"
      using e1 by (auto simp: store_evolves_def)
    moreover have "ends as ?st2 st'" using 2(4) False by (simp only: if_False)
    ultimately show ?thesis using ends_evolves store_evolves_trans by blast
  qed
qed

lemma end_session_evolves:
  assumes "store_inv st" "a < length (heap st)"
  shows "store_evolves st (fst (end_session ts ti now code a st))"
  using assms by (simp add: end_session_heap store_evolves_heap evolve_intros)

lemma remove_evolves:
  assumes "store_inv st"
  shows "store_evolves st (st\<lparr>sessions := hm_remove i (sessions st)\<rparr>)"
  using store_invD(1) [OF assms] by (intro store_evolves_shrink [OF assms]) (auto split: if_splits)

lemma close_id_evolves:
  assumes "store_inv st" "close_id ts ti now i code st = (st', effs, ok)"
  shows "store_evolves st st'"
proof (cases "hm_get (sessions st) i")
  case None
  then show ?thesis using assms by (auto simp: close_id_def store_evolves_def)
next
  case (Some a)
  let ?st = "st\<lparr>sessions := hm_remove i (sessions st)\<rparr>"
  have r: "store_evolves st ?st" by (rule remove_evolves [OF assms(1)])
  have "st' = fst (end_session ts ti now code a ?st)"
    using assms(2) Some by (auto simp: close_id_def Let_def split_def)
  moreover have "store_evolves ?st (fst (end_session ts ti now code a ?st))"
    using r store_invD(3) [OF assms(1) Some] by (intro end_session_evolves) (auto simp: store_evolves_def)
  ultimately show ?thesis using r store_evolves_trans by blast
qed

lemma ran_sessions: "hm_wf m \<Longrightarrow> a \<in> snd ` set m \<longleftrightarrow> (\<exists>i. hm_get m i = Some a)"
  by (force simp: hm_wf_def hm_get_def)

lemma close_all_ends:
  assumes "store_inv st" "close_all ts ti now code st = (st', effs, n)"
  shows "ends (map snd (sessions st)) (st\<lparr>sessions := hm_empty\<rparr>) st'" "n = len st"
proof -
  have "set (map snd (sessions st)) \<subseteq> {..<length (heap (st\<lparr>sessions := hm_empty\<rparr>))}"
    using ran_sessions [OF store_invD(1) [OF assms(1)]] store_invD(3) [OF assms(1)] by auto
  then show "ends (map snd (sessions st)) (st\<lparr>sessions := hm_empty\<rparr>) st'"
    using end_each_ends [of "map snd (sessions st)" "st\<lparr>sessions := hm_empty\<rparr>" ts ti now code] assms(2)
    by (auto simp: close_all_def Let_def split: prod.splits)
  show "n = len st"
    using assms(2) by (auto simp: close_all_def Let_def len_def hm_len_def split: prod.splits)
qed

lemma close_all_evolves:
  assumes "store_inv st" "close_all ts ti now code st = (st', effs, n)"
  shows "store_evolves st st'"
proof -
  have e: "store_evolves st (st\<lparr>sessions := hm_empty\<rparr>)"
    by (rule store_evolves_shrink [OF assms(1)]) auto
  moreover have "store_evolves (st\<lparr>sessions := hm_empty\<rparr>) st'"
    using e by (intro ends_evolves [OF _ close_all_ends(1) [OF assms]]) (simp add: store_evolves_def)
  ultimately show ?thesis by (rule store_evolves_trans)
qed

lemma store_step_evolves: "store_step st st' \<Longrightarrow> store_inv st \<Longrightarrow> store_evolves st st'"
proof (induction rule: store_step.induct)
  case (removes st handle)
  then show ?case by (auto simp: remove_session_def Let_def intro: remove_evolves)
next
  case (inserts s ti now idf secf st st' effs r)
  then show ?case by (blast intro: insert_evolves)
next
  case (closes ts ti now sid code st st' effs ok)
  then show ?case by (blast intro: close_id_evolves)
next
  case (closes_all ts ti now code st st' effs n)
  then show ?case by (blast intro: close_all_evolves)
next
  case (reaps ti now st st' effs n)
  then show ?case by (blast intro: reap_evolves)
next
  case (drains st)
  then show ?case by (intro store_evolves_shrink) (auto simp: hm_empty_def hm_wf_def hm_get_def)
next
  case (ends_one a st ts ti now code st' effs)
  then show ?case using end_session_evolves [of st a] by (metis fst_conv)
qed (auto intro: store_evolves_heap evolve_intros)

interpretation stores: invariant_machine "\<lambda>st. \<exists>n t. st = new_session_store n t" store_step store_inv
proof unfold_locales
  show "store_inv st" if "\<exists>n t. st = new_session_store n t" for st
    using that by (auto simp: new_session_store_def store_inv_def) (simp add: hm_len_def hm_empty_def)
  show "store_inv t" if "store_step s t" "store_inv s" for s t
    using store_step_evolves [OF that] by (simp add: store_evolves_def)
qed

lemma store_reachable_inv: "store_step\<^sup>*\<^sup>* (new_session_store n t) st \<Longrightarrow> store_inv st"
  by (rule stores.inv_reachable) auto

lemma store_steps_evolve:
  assumes "store_step\<^sup>*\<^sup>* st st'" "store_inv st"
  shows "store_evolves st st'"
  using assms
proof (induction rule: rtranclp_induct)
  case base
  then show ?case by (simp add: store_evolves_def)
next
  case (step st' st'')
  then show ?case using store_step_evolves store_evolves_trans by (meson store_evolves_def)
qed

lemma closed_attach: "is_closed st a \<Longrightarrow> attach since tx (heap st ! a) = (heap st ! a, None)"
  by (simp add: is_closed_def attach_def Let_def)

lemma append_sep_inject:
  fixes c :: char
  assumes "c \<notin> set i" "c \<notin> set j"
  shows "i @ c # x = j @ c # y \<longleftrightarrow> i = j \<and> x = y"
proof
  assume e: "i @ c # x = j @ c # y"
  have "Some (i, x) = split_once c (i @ c # x)" using assms by simp
  also have "\<dots> = split_once c (j @ c # y)" by (simp only: e)
  also have "\<dots> = Some (j, y)" using assms by simp
  finally show "i = j \<and> x = y" by simp
qed simp

lemma get_session_Ok:
  "get_session st handle = Ok a \<longleftrightarrow> (\<exists>i. CHR ''.'' \<notin> set i \<and> hm_get (sessions st) i = Some a
     \<and> handle = i @ CHR ''.'' # ses_secret (heap st ! a))"
proof (cases "split_once (CHR ''.'') handle")
  case None
  moreover have "CHR ''.'' \<notin> set handle" using None by (simp add: split_once_None_iff)
  ultimately show ?thesis by (auto simp: get_session_def)
next
  case (Some p)
  then obtain i sec where h: "handle = i @ CHR ''.'' # sec" and i: "CHR ''.'' \<notin> set i"
    by (cases p) (auto dest: split_once_SomeD)
  have "(\<exists>j. CHR ''.'' \<notin> set j \<and> hm_get (sessions st) j = Some a \<and> handle = j @ CHR ''.'' # ses_secret (heap st ! a))
      \<longleftrightarrow> hm_get (sessions st) i = Some a \<and> sec = ses_secret (heap st ! a)"
    using i append_sep_inject [OF i] unfolding h by metis
  moreover have "get_session st handle = Ok a \<longleftrightarrow> hm_get (sessions st) i = Some a \<and> sec = ses_secret (heap st ! a)"
    using i by (auto simp: get_session_def h constant_time_eq_iff as_bytes_inject split: option.splits)
  ultimately show ?thesis by simp
qed

lemma insert_handle:
  assumes inv: "store_inv st" and s: "opened s"
    and ins: "insert_session ti now idf secf s st = (st', effs, Ok (Some (handle, a)))"
  obtains i where "CHR ''.'' \<notin> set i" "hm_get (sessions st') i = Some a" "a < length (heap st')"
    "handle = i @ CHR ''.'' # ses_secret (heap st' ! a)"
  using inv s ins
proof (cases rule: insert_cases)
  case 1
  then show ?thesis by simp
next
  case (2 idb secb st1 as)
  let ?st = "st\<lparr>heap := heap st @ [s\<lparr>ses_secret := concat (map hex2 secb)\<rparr>]\<rparr>"
  let ?i = "concat (map hex2 idb)"
  have grow: "heap_evolves (heap st) (heap ?st)" using opened_ok [OF s] by (simp add: evolve_intros)
  have h: "heap st1 = heap ?st"
    using take_expired_spec(1) [OF store_invD(1) [OF store_inv_heap [OF inv grow]]] 2(3) by simp
  have e: "ends as (st1\<lparr>sessions := hm_insert ?i (length (heap st)) (sessions st1)\<rparr>) st'"
    and r: "handle = ?i @ ''.'' @ concat (map hex2 secb)" "a = length (heap st)"
    using 2(4) by (auto split: if_splits)
  have "ses_secret (heap st' ! a) = concat (map hex2 secb)" "a < length (heap st')"
    using e by (auto simp: ends_def heap_evolves_def evolves_def h r(2))
  then show ?thesis using e r that [of ?i] hex_string_no_dot by (auto simp: ends_def)
qed

text \<open>
  The store the witnesses use: one session, opened at time 5, attached by the
  client on channel 7.
\<close>

definition demo_store :: SessionStore where
  "demo_store = \<lparr>heap = [fst (attach 0 7 (new_session ''ops'' 4 1 ''t''\<lparr>ses_secret := ''02''\<rparr>))],
     sessions = [(''01'', 0)], max_sessions = 2, detached_timeout = 10\<rparr>"

lemma demo_insert:
  "insert_session ti 5 (Ok [1]) (Ok [2]) (new_session ''ops'' 4 1 ''t'') (new_session_store 2 10) =
     (\<lparr>heap = [new_session ''ops'' 4 1 ''t''\<lparr>ses_secret := ''02''\<rparr>], sessions = [(''01'', 0)],
       max_sessions = 2, detached_timeout = 10\<rparr>, [], Ok (Some (''01.02'', 0)))"
  by (simp add: insert_session_def new_session_store_def config_err_def random_hex_def hex2_demo
      take_expired_def hm_empty_def hm_len_def hm_insert_def)

lemma demo_opened: "opened (new_session ''ops'' 4 1 ''t'')"
  unfolding opened_def new_session_def by fastforce

lemma demo_store_reachable: "store_step\<^sup>*\<^sup>* (new_session_store 2 10) demo_store"
proof -
  have "store_step (new_session_store 2 10)
      \<lparr>heap = [new_session ''ops'' 4 1 ''t''\<lparr>ses_secret := ''02''\<rparr>], sessions = [(''01'', 0)],
       max_sessions = 2, detached_timeout = 10\<rparr>" (is "store_step _ ?st")
    by (rule store_step.inserts [OF demo_opened demo_insert])
  moreover have "store_step ?st demo_store"
    using store_step.attaches [of 0 ?st 0 7 "fst (attach 0 7 (heap ?st ! 0))" "snd (attach 0 7 (heap ?st ! 0))"]
    by (simp add: demo_store_def)
  ultimately show ?thesis by (blast intro: converse_rtranclp_into_rtranclp)
qed

text \<open>
  C27. Ending the sessions is final. When the password changes, every session of
  the store is closed and the store left empty; whatever connections, shells and
  the reaper do afterwards, nobody can attach to one of them again, not even a
  connection that looked it up before.
\<close>

theorem ended_sessions_stay_ended:
  assumes "store_step\<^sup>*\<^sup>* (new_session_store n t) st"
    and "close_all ts ti now code st = (st1, effs, closed)"
    and "hm_get (sessions st) i = Some a" and "store_step\<^sup>*\<^sup>* st1 st2"
  shows "is_empty st1 \<and> closed = len st \<and> attach since tx (heap st2 ! a) = (heap st2 ! a, None)"
proof -
  have inv: "store_inv st" by (rule store_reachable_inv [OF assms(1)])
  note e = close_all_ends [OF inv assms(2)]
  have "is_closed st1 a"
    using e(1) ran_sessions [OF store_invD(1) [OF inv], of a] assms(3) by (auto simp: ends_def)
  moreover have "store_evolves st1 st2"
    using store_steps_evolve [OF assms(4)] close_all_evolves [OF inv assms(2)] by (simp add: store_evolves_def)
  ultimately have "attach since tx (heap st2 ! a) = (heap st2 ! a, None)"
    by (intro closed_attach) (auto simp: store_evolves_def intro: is_closed_evolves)
  then show ?thesis
    using e by (auto simp: ends_def is_empty_def len_def hm_len_def hm_empty_def)
qed

theorem ended_sessions_stay_ended_witness:
  "hm_get (sessions demo_store) ''01'' = Some 0
   \<and> is_empty (fst (close_all (\<lambda>_ _. SendOk) (\<lambda>_. SendOk) 9 ''password_changed'' demo_store))
   \<and> snd (attach 0 8 (heap (fst (close_all (\<lambda>_ _. SendOk) (\<lambda>_. SendOk) 9 ''password_changed'' demo_store)) ! 0)) = None"
proof -
  have g: "hm_get (sessions demo_store) ''01'' = Some 0" by (simp add: demo_store_def hm_get_def)
  obtain st1 effs n where c: "close_all (\<lambda>_ _. SendOk) (\<lambda>_. SendOk) 9 ''password_changed'' demo_store = (st1, effs, n)"
    by (cases "close_all (\<lambda>_ _. SendOk) (\<lambda>_. SendOk) 9 ''password_changed'' demo_store") auto
  show ?thesis
    using g ended_sessions_stay_ended [OF demo_store_reachable c g rtranclp.rtrancl_refl, of 0 8]
    by (simp add: c)
qed

text \<open>
  The reaper ends exactly the sessions nobody came back for: it removes and
  closes those whose client left at least the timeout ago, keeps every other one
  untouched, and in no state the agent can reach does it end a session a client
  is attached to.
\<close>

theorem reaper_ends_exactly_the_abandoned:
  assumes "store_step\<^sup>*\<^sup>* (new_session_store n t) st" and "reap_at ti now st = (st', effs, count)"
    and "hm_get (sessions st) i = Some a"
  shows "if \<exists>at. att_detached_at (ses_attachment (heap st ! a)) = Some at \<and> detached_timeout st \<le> now - at
    then hm_get (sessions st') i = None \<and> is_closed st' a \<and> att_current (ses_attachment (heap st ! a)) = None
    else hm_get (sessions st') i = Some a \<and> heap st' ! a = heap st ! a"
proof -
  have inv: "store_inv st" by (rule store_reachable_inv [OF assms(1)])
  note I = store_invD [OF inv]
  obtain st1 as where t: "take_expired now st = (st1, as)" and e: "ends as st1 st'"
    by (rule reap_ends [OF inv assms(2)])
  note spec = take_expired_spec [OF I(1) t]
  have ex: "expired_at now (detached_timeout st) (heap st ! a) \<longleftrightarrow>
      (\<exists>at. att_detached_at (ses_attachment (heap st ! a)) = Some at \<and> detached_timeout st \<le> now - at)"
    by (simp add: expired_at_def saturating_duration_since_def split: option.split)
  have "session_ok (heap st ! a)" using I(3) [OF assms(3)] I(5) by simp
  then have "att_current (ses_attachment (heap st ! a)) = None"
    if "expired_at now (detached_timeout st) (heap st ! a)"
    using that by (cases "att_current (ses_attachment (heap st ! a))") (auto simp: session_ok_def ex)
  moreover have "a \<in> set as \<longleftrightarrow> expired_at now (detached_timeout st) (heap st ! a)"
    using spec(6) assms(3) by auto
  ultimately show ?thesis
    using e spec(1) spec(5) [of i] assms(3) unfolding ex [symmetric]
    by (auto simp: ends_def)
qed

theorem reaper_ends_exactly_the_abandoned_witness:
  "hm_get (sessions (fst (reap_at (\<lambda>_. SendOk) 99 demo_store))) ''01'' = Some 0"
proof -
  have g: "hm_get (sessions demo_store) ''01'' = Some 0" by (simp add: demo_store_def hm_get_def)
  obtain st' effs n where r: "reap_at (\<lambda>_. SendOk) 99 demo_store = (st', effs, n)"
    by (cases "reap_at (\<lambda>_. SendOk) 99 demo_store") auto
  have "att_detached_at (ses_attachment (heap demo_store ! 0)) = None"
    by (simp add: demo_store_def attach_def new_session_def)
  then show ?thesis
    using reaper_ends_exactly_the_abandoned [OF demo_store_reachable r g] by (simp add: r)
qed

text \<open>
  A session's handle is the only key to it: the string returned when it is
  opened finds it, and however the store is used afterwards, a handle that finds
  it is that string, byte for byte.
\<close>

theorem handle_is_the_only_key:
  assumes "store_step\<^sup>*\<^sup>* (new_session_store n t) st" and "opened s"
    and "insert_session ti now idf secf s st = (st1, effs, Ok (Some (handle, a)))"
    and "store_step\<^sup>*\<^sup>* st1 st2"
  shows "get_session st1 handle = Ok a \<and> (get_session st2 h = Ok a \<longrightarrow> h = handle)"
proof -
  have inv: "store_inv st" by (rule store_reachable_inv [OF assms(1)])
  obtain i where i: "CHR ''.'' \<notin> set i" "hm_get (sessions st1) i = Some a" "a < length (heap st1)"
    "handle = i @ CHR ''.'' # ses_secret (heap st1 ! a)"
    by (rule insert_handle [OF inv assms(2,3)])
  have inv1: "store_inv st1" using insert_evolves [OF inv assms(2,3)] by (simp add: store_evolves_def)
  note e = store_steps_evolve [OF assms(4) inv1, unfolded store_evolves_def]
  have "h = handle" if "get_session st2 h = Ok a"
  proof -
    from that obtain j where j: "hm_get (sessions st2) j = Some a" "h = j @ CHR ''.'' # ses_secret (heap st2 ! a)"
      by (auto simp: get_session_Ok)
    then have "j = i" using e i(2,3) store_invD(4) [OF inv1] by blast
    then show ?thesis using e i j by (auto simp: heap_evolves_def evolves_def)
  qed
  moreover have "get_session st1 handle = Ok a" using i by (auto simp: get_session_Ok)
  ultimately show ?thesis by blast
qed

theorem handle_is_the_only_key_witness:
  "get_session (fst (insert_session (\<lambda>_. SendOk) 5 (Ok [1]) (Ok [2])
     (new_session ''ops'' 4 1 ''t'') (new_session_store 2 10))) ''01.02'' = Ok 0"
  using handle_is_the_only_key [OF rtranclp.rtrancl_refl demo_opened demo_insert rtranclp.rtrancl_refl]
  by (simp only: demo_insert fst_conv)

text \<open>
  C36. A shell that ends while its client lags takes the missing output with it.
  Output that finds the client's queue full, or a client told to reconnect and
  not yet back, is not sent, nor is the exit status after it: the client is at
  most told to reconnect and replay. The session's scrollback does hold that
  output (the end of everything published, up to its capacity), but by then the
  session has left the store, and whatever is done with the store afterwards no
  handle leads to it, so the replay the client was told to come for never
  happens.
\<close>

theorem lagging_client_loses_the_end:
  assumes "store_step\<^sup>*\<^sup>* (new_session_store n t) st" and "get_session st handle = Ok a"
    and "att_current (ses_attachment (heap st ! a)) = Some (aid, tx)"
    and "att_replay_requested (ses_attachment (heap st ! a)) \<or> try_send tx (Data d) = SendFull"
    and "holds_output (ses_scrollback (heap st ! a)) published"
    and "publish try_send now (Data d) (heap st ! a) = (s, effs1)"
    and "shell_exits try_send' now' status a handle (st\<lparr>heap := (heap st)[a := s]\<rparr>) = (st1, effs2)"
    and "store_step\<^sup>*\<^sup>* st1 st2"
  shows "set (effs1 @ effs2) \<subseteq> {Spawned tx ReplayRequired}
    \<and> holds_output (ses_scrollback (heap st1 ! a)) (published @ d)
    \<and> get_session st2 h \<noteq> Ok a"
proof -
  let ?st = "st\<lparr>heap := (heap st)[a := s]\<rparr>"
  have inv: "store_inv st" by (rule store_reachable_inv [OF assms(1)])
  obtain i where i: "CHR ''.'' \<notin> set i" "handle = i @ CHR ''.'' # ses_secret (heap st ! a)"
    "hm_get (sessions st) i = Some a" using assms(2) by (auto simp: get_session_Ok)
  then have a: "a < length (heap st)" using store_invD(3) [OF inv] by blast
  obtain s' where s': "publish try_send' now' (Exit status) s = (s', effs2)"
    and st1: "st1 = remove_session handle (st\<lparr>heap := (heap st)[a := s']\<rparr>)"
    using assms(7) a by (auto simp: shell_exits_def split: prod.splits)
  have lag: "att_replay_requested (ses_attachment s)" "set effs1 \<subseteq> {Spawned tx ReplayRequired}"
    using assms(3,4,6) by (auto simp: publish_def Let_def split: if_splits)
  then have "effs2 = []" using s' by (auto simp: publish_def Let_def)
  moreover have "holds_output (ses_scrollback s') (published @ d)"
    using publish_holds [OF s' publish_holds [OF assms(6,5)]] by (simp add: data_of_def)
  moreover have "heap st1 ! a = s'" using a by (simp add: st1 remove_session_def Let_def)
  moreover have "get_session st2 h \<noteq> Ok a"
  proof
    assume "get_session st2 h = Ok a"
    then obtain j where j: "hm_get (sessions st2) j = Some a" by (auto simp: get_session_Ok)
    have "store_step\<^sup>*\<^sup>* st ?st" "store_step ?st (st\<lparr>heap := (heap st)[a := s']\<rparr>)"
      "store_step (st\<lparr>heap := (heap st)[a := s']\<rparr>) st1"
      using store_step.publishes [OF a assms(6)] store_step.publishes [of a ?st, OF _ _] s' a
        store_step.removes st1 by fastforce+
    then have "store_inv st1" using inv store_steps_evolve by (meson r_into_rtranclp store_evolves_def)
    from store_steps_evolve [OF assms(8) this] have "hm_get (sessions st1) j = Some a"
      using j a by (auto simp: store_evolves_def st1 remove_session_def Let_def)
    moreover have "sessions st1 = hm_remove i (sessions st)" using i(1,2) by (simp add: st1 remove_session_def)
    ultimately have "hm_get (sessions st) j = Some a \<and> j \<noteq> i"
      by (simp split: if_splits)
    then show False using i(3) store_invD(4) [OF inv] by blast
  qed
  ultimately show ?thesis using lag(2) by simp
qed

theorem lagging_client_loses_the_end_witness:
  "let s = fst (publish demo_full 6 (Data [4]) (heap demo_store ! 0));
     st1 = fst (shell_exits demo_full 9 (Some 0) 0 ''01.02'' (demo_store\<lparr>heap := (heap demo_store)[0 := s]\<rparr>))
   in sb_buf (ses_scrollback (heap st1 ! 0)) = [4] \<and> get_session st1 ''01.02'' \<noteq> Ok 0"
proof -
  obtain s effs1 where p: "publish demo_full 6 (Data [4]) (heap demo_store ! 0) = (s, effs1)" by fastforce
  obtain st1 effs2 where e: "shell_exits demo_full 9 (Some 0) 0 ''01.02''
      (demo_store\<lparr>heap := (heap demo_store)[0 := s]\<rparr>) = (st1, effs2)" by fastforce
  have g: "get_session demo_store ''01.02'' = Ok 0"
    by (simp add: get_session_def demo_store_def hm_get_def attach_def Let_def new_session_def constant_time_eq_iff)
  have c: "att_current (ses_attachment (heap demo_store ! 0)) = Some (0, 7)"
    and h: "holds_output (ses_scrollback (heap demo_store ! 0)) []"
    by (simp_all add: demo_store_def attach_def Let_def new_session_def)
  have f: "demo_full 7 (Data [4]) = SendFull" by (simp add: demo_full_def)
  have "sb_capacity (ses_scrollback (heap st1 ! 0)) = 4"
    using e p by (auto simp: shell_exits_def remove_session_def Let_def demo_store_def demo_session_simps)
  then show ?thesis
    using lagging_client_loses_the_end [OF demo_store_reachable g c disjI2 [OF f] h p e rtranclp.rtrancl_refl]
    by (simp add: p e holds_output_def)
qed

end
