(* ===== verification/Fs_Roots.thy ===== *)
theory Fs_Roots
  imports Rust_Str
begin

text \<open>
  Where the file API resolves a path, and what it never reaches
  (\<open>monitor/src/core/fs_roots.rs\<close>), on Unix. A path is its text; the part of
  \<open>std::path\<close> the source uses comes first. What the operating system answers is
  an argument: \<open>canon\<close> for \<open>std::fs::canonicalize\<close>, \<open>lstat\<close> for
  \<open>std::fs::symlink_metadata\<close>, \<open>cwd\<close> for the working directory. \<open>rt\<close> is the
  static list of runtime trees.
\<close>

section \<open>Paths\<close>

type_synonym Path = string

datatype Component = RootDir | CurDir | ParentDir | Normal string

definition is_absolute :: "Path \<Rightarrow> bool" where
  "is_absolute p \<longleftrightarrow> p \<noteq> [] \<and> hd p = CHR ''/''"

definition segments :: "Path \<Rightarrow> string list" where
  "segments p = split_on (CHR ''/'') p"

definition names_something :: "string \<Rightarrow> bool" where
  "names_something w \<longleftrightarrow> w \<noteq> [] \<and> w \<noteq> ''.''"

definition component :: "string \<Rightarrow> Component" where
  "component w = (if w = ''..'' then ParentDir else Normal w)"

definition path_head :: "Path \<Rightarrow> Component list" where
  "path_head p = (if is_absolute p then [RootDir] else if hd (segments p) = ''.'' then [CurDir] else [])"

definition components :: "Path \<Rightarrow> Component list" where
  "components p = path_head p @ map component (filter names_something (segments p))"

definition strip_back :: "string list \<Rightarrow> string list" where
  "strip_back ws = rev (dropWhile (\<lambda>w. \<not> names_something w) (rev ws))"

definition parent :: "Path \<Rightarrow> Path option" where
  "parent p =
     (let body = strip_back (drop (length (path_head p)) (segments p)) in
      if body = [] then (if path_head p = [CurDir] then Some [] else None)
      else (let rest = strip_back (butlast body) in
            Some (if is_absolute p then CHR ''/'' # join ''/'' rest
                  else join ''/'' ((if path_head p = [CurDir] then [''.''] else []) @ rest))))"

definition file_name :: "Path \<Rightarrow> string option" where
  "file_name p = (if components p = [] then None
     else (case last (components p) of Normal w \<Rightarrow> Some w | _ \<Rightarrow> None))"

definition push_name :: "Path \<Rightarrow> string \<Rightarrow> Path" where
  "push_name p w = (if is_absolute w then w
     else if p = [] \<or> last p = CHR ''/'' then p @ w else p @ CHR ''/'' # w)"

definition same_path :: "Path \<Rightarrow> Path \<Rightarrow> bool" where
  "same_path p q \<longleftrightarrow> components p = components q"

definition path_starts_with :: "Path \<Rightarrow> Path \<Rightarrow> bool" where
  "path_starts_with p base \<longleftrightarrow> take (length (components base)) (components p) = components base"

lemma split_on_snoc: "c \<notin> set w \<Longrightarrow> split_on c (p @ c # w) = split_on c p @ [w]"
  by (induction p) (auto simp: split_on_no_sep split: list.split)

lemma strip_back_filter [simp]: "filter names_something (strip_back ws) = filter names_something ws"
  by (induction ws rule: rev_induct) (auto simp: strip_back_def)

lemma strip_back_last: "strip_back ws \<noteq> [] \<Longrightarrow> names_something (last (strip_back ws))"
  by (induction ws rule: rev_induct) (auto simp: strip_back_def)

lemma strip_back_set: "w \<in> set (strip_back ws) \<Longrightarrow> w \<in> set ws"
  by (auto simp: strip_back_def dest: set_dropWhileD)

lemma strip_back_butlast:
  assumes "strip_back ws \<noteq> []"
  shows "filter names_something (strip_back (butlast (strip_back ws))) = butlast (filter names_something ws)"
proof -
  have "filter names_something ws = filter names_something (butlast (strip_back ws) @ [last (strip_back ws)])"
    by (metis append_butlast_last_id assms strip_back_filter)
  then show ?thesis using strip_back_last [OF assms] by simp
qed

lemma strip_back_Nil: "strip_back ws = [] \<longleftrightarrow> filter names_something ws = []"
  by (metis filter.simps(1) filter_empty_conv last_in_set strip_back_filter strip_back_last)

lemma absolute_segments: "is_absolute p \<Longrightarrow> segments p = [] # tl (segments p)"
  by (cases p) (auto simp: is_absolute_def segments_def)

lemma segments_no_slash: "w \<in> set (segments p) \<Longrightarrow> CHR ''/'' \<notin> set w"
  unfolding segments_def by (rule split_on_parts)

lemma components_absolute:
  "is_absolute p \<Longrightarrow> components p = RootDir # map component (filter names_something (segments p))"
  by (simp add: components_def path_head_def)

lemma components_join_absolute:
  assumes "\<And>w. w \<in> set ws \<Longrightarrow> CHR ''/'' \<notin> set w"
  shows "components (CHR ''/'' # join ''/'' ws) = RootDir # map component (filter names_something ws)"
proof (cases "ws = []")
  case True
  then show ?thesis by (simp add: components_def path_head_def is_absolute_def segments_def names_something_def)
next
  case False
  have "split_on (CHR ''/'') (join ''/'' ws) = ws" by (rule split_on_join [OF False]) (rule assms)
  then show ?thesis
    by (simp add: components_def path_head_def is_absolute_def segments_def names_something_def)
qed

lemma parent_absolute:
  assumes p: "is_absolute p" and q: "parent p = Some q"
  shows "is_absolute q" "components q = butlast (components p)" "length (components p) \<ge> 2"
proof -
  let ?body = "strip_back (drop 1 (segments p))"
  have h: "path_head p = [RootDir]" and b: "?body \<noteq> []"
    and q': "q = CHR ''/'' # join ''/'' (strip_back (butlast ?body))"
    using p q by (auto simp: parent_def path_head_def Let_def split: if_splits)
  have f: "filter names_something (drop (Suc 0) (segments p)) = filter names_something (segments p)"
    using absolute_segments [OF p] by (metis drop0 drop_Suc_Cons filter.simps(2) names_something_def)
  have "CHR ''/'' \<notin> set w" if "w \<in> set (strip_back (butlast ?body))" for w
    using that by (meson in_set_butlastD in_set_dropD segments_no_slash strip_back_set)
  then show "components q = butlast (components p)"
    using strip_back_butlast [OF b] b
    by (simp add: q' components_join_absolute components_absolute [OF p] f strip_back_Nil map_butlast)
  show "is_absolute q" by (simp add: q' is_absolute_def)
  show "length (components p) \<ge> 2"
    using b by (cases "filter names_something (segments p)")
      (auto simp: components_absolute [OF p] f strip_back_Nil)
qed

text \<open>Each parent is closer to the top: the measure the two loops descend by.\<close>

definition path_depth :: "Path \<Rightarrow> nat" where
  "path_depth p = 2 * length (filter names_something (segments p)) + (if hd (segments p) = ''.'' then 1 else 0)"

lemma filter_segments_join:
  assumes "\<And>w. w \<in> set ws \<Longrightarrow> CHR ''/'' \<notin> set w"
  shows "filter names_something (segments (join ''/'' ws)) = filter names_something ws"
proof (cases "ws = []")
  case False
  then show ?thesis using split_on_join [OF False assms] by (simp add: segments_def)
qed (simp add: segments_def names_something_def)

lemma segments_slash: "filter names_something (segments (CHR ''/'' # s)) = filter names_something (segments s)"
  by (simp add: segments_def names_something_def)

lemma parent_depth:
  assumes "parent p = Some q"
  shows "path_depth q < path_depth p"
proof -
  let ?k = "length (path_head p)"
  let ?body = "strip_back (drop ?k (segments p))" and ?rest = "strip_back (butlast (strip_back (drop (length (path_head p)) (segments p))))"
  have drop: "filter names_something (drop ?k (segments p)) = filter names_something (segments p)"
  proof (cases "segments p")
    case (Cons w ws)
    then show ?thesis using absolute_segments [of p] by (auto simp: path_head_def names_something_def)
  qed simp
  have slash: "CHR ''/'' \<notin> set w" if "w \<in> set ?rest" for w
    using that by (meson in_set_butlastD in_set_dropD segments_no_slash strip_back_set)
  show ?thesis
  proof (cases "?body = []")
    case True
    then have "path_head p = [CurDir]" "q = []" using assms by (auto simp: parent_def Let_def split: if_splits)
    then show ?thesis by (auto simp: path_depth_def path_head_def segments_def names_something_def split: if_splits)
  next
    case False
    have "filter names_something (segments (join ''/'' (''.'' # ?rest))) = filter names_something ?rest"
      by (subst filter_segments_join) (auto simp: names_something_def dest: slash)
    moreover have "filter names_something (segments (join ''/'' ?rest)) = filter names_something ?rest"
      by (rule filter_segments_join [OF slash])
    ultimately have "filter names_something (segments q) = filter names_something ?rest"
      using assms False by (auto simp: parent_def Let_def segments_slash simp del: strip_back_filter split: if_splits)
    then have "length (filter names_something (segments q)) = length (filter names_something (segments p)) - 1"
      using strip_back_butlast [OF False] drop by simp
    moreover have "filter names_something (segments p) \<noteq> []" using False drop by (simp add: strip_back_Nil)
    ultimately show ?thesis by (cases "filter names_something (segments p)") (auto simp: path_depth_def)
  qed
qed

section \<open>Protected state\<close>

datatype FsDenied = NotAbsolute | OutsideRoots | Traversal

record Protected =
  trees :: "Path list"
  named :: "(Path \<times> string) list"
  each_named :: "(Path \<times> string) list"

record FsRoots =
  roots :: "Path list"
  protected :: Protected

text \<open>
  The walk up to the deepest ancestor that exists, which \<open>settled\<close> and
  \<open>resolve_new\<close> both write out: the ancestor where it really is, and the names
  passed on the way, outermost first.
\<close>

function climb :: "(Path \<Rightarrow> Path option) \<Rightarrow> Path \<Rightarrow> string list \<Rightarrow> (Path \<times> string list) option" where
  "climb canon cursor tail =
     (case canon cursor of Some c \<Rightarrow> Some (c, tail)
      | None \<Rightarrow> (case (file_name cursor, parent cursor) of
            (Some name, Some up) \<Rightarrow> climb canon up (name # tail)
          | _ \<Rightarrow> None))"
  by pat_completeness auto
termination
  by (relation "measure (\<lambda>(_, cursor, _). path_depth cursor)") (auto simp: parent_depth)

declare climb.simps [simp del]

definition settled :: "(Path \<Rightarrow> Path option) \<Rightarrow> Path option \<Rightarrow> Path \<Rightarrow> Path" where
  "settled canon cwd path =
     (let absolute = (if is_absolute path then path
                      else (case cwd of Some d \<Rightarrow> push_name d path | None \<Rightarrow> path))
      in (case climb canon absolute [] of Some (c, tail) \<Rightarrow> foldl push_name c tail | None \<Rightarrow> absolute))"

definition no_protection :: Protected where
  "no_protection = \<lparr>trees = [], named = [], each_named = []\<rparr>"

definition protect_file :: "(Path \<Rightarrow> Path option) \<Rightarrow> Path option \<Rightarrow> Path \<Rightarrow> Protected \<Rightarrow> Protected" where
  "protect_file canon cwd f p =
     (let path = settled canon cwd f in
      case (parent path, file_name path) of
        (Some dir, Some name) \<Rightarrow> p\<lparr>named := named p @ [(dir, name)]\<rparr>
      | _ \<Rightarrow> p)"

definition protect_tree :: "(Path \<Rightarrow> Path option) \<Rightarrow> Path option \<Rightarrow> Path \<Rightarrow> Protected \<Rightarrow> Protected" where
  "protect_tree canon cwd dir p = p\<lparr>trees := trees p @ [settled canon cwd dir]\<rparr>"

definition protect_in_each :: "(Path \<Rightarrow> Path option) \<Rightarrow> Path option \<Rightarrow> Path \<Rightarrow> string \<Rightarrow> Protected \<Rightarrow> Protected" where
  "protect_in_each canon cwd dir name p = p\<lparr>each_named := each_named p @ [(settled canon cwd dir, name)]\<rparr>"

definition protect_at_runtime ::
  "(Path \<Rightarrow> Path option) \<Rightarrow> Path option \<Rightarrow> Path \<Rightarrow> Path option \<Rightarrow> Path list \<Rightarrow> Path list" where
  "protect_at_runtime canon cwd dir previous rt =
     (let kept = (case previous of None \<Rightarrow> rt
                  | Some q \<Rightarrow> filter (\<lambda>t. \<not> same_path t (settled canon cwd q)) rt);
          d = settled canon cwd dir
      in if list_ex (same_path d) kept then kept else kept @ [d])"

definition covers :: "Path list \<Rightarrow> Protected \<Rightarrow> Path \<Rightarrow> bool" where
  "covers rt p path =
     (if list_ex (path_starts_with path) (trees p) \<or> list_ex (path_starts_with path) rt then True
      else (case (parent path, file_name path) of
          (Some dir, Some name) \<Rightarrow>
            list_ex (\<lambda>(d, prefix). same_path dir d \<and> starts_with prefix name) (named p)
            \<or> list_ex (\<lambda>(d, prefix). (case parent dir of None \<Rightarrow> False | Some up \<Rightarrow> same_path up d)
                  \<and> starts_with prefix name) (each_named p)
        | _ \<Rightarrow> False))"

definition holds :: "Path list \<Rightarrow> Protected \<Rightarrow> Path \<Rightarrow> bool" where
  "holds rt p path \<longleftrightarrow> covers rt p path
     \<or> list_ex (\<lambda>t. path_starts_with t path) (trees p)
     \<or> list_ex (\<lambda>t. path_starts_with t path) rt
     \<or> list_ex (\<lambda>(d, _). path_starts_with d path) (named p)
     \<or> list_ex (\<lambda>(d, _). path_starts_with d path
          \<or> (case parent path of None \<Rightarrow> False | Some up \<Rightarrow> same_path up d)) (each_named p)"

section \<open>Resolution\<close>

definition whole_filesystem :: FsRoots where
  "whole_filesystem = \<lparr>roots = [''/''], protected = no_protection\<rparr>"

definition from_canonical :: "Path list \<Rightarrow> FsRoots" where
  "from_canonical rs = \<lparr>roots = rs, protected = no_protection\<rparr>"

definition protecting :: "Protected \<Rightarrow> FsRoots \<Rightarrow> FsRoots" where
  "protecting p fs = fs\<lparr>protected := p\<rparr>"

definition hides :: "Path list \<Rightarrow> FsRoots \<Rightarrow> Path \<Rightarrow> bool" where
  "hides rt fs path = covers rt (protected fs) path"

definition check_mutable :: "Path list \<Rightarrow> FsRoots \<Rightarrow> Path \<Rightarrow> (FsDenied, unit) result" where
  "check_mutable rt fs path = (if holds rt (protected fs) path then Err OutsideRoots else Ok ())"

definition check_absolute :: "string \<Rightarrow> (FsDenied, Path) result" where
  "check_absolute requested =
     (if \<not> is_absolute requested then Err NotAbsolute
      else if ParentDir \<in> set (components requested) then Err Traversal
      else Ok requested)"

definition check_within :: "Path list \<Rightarrow> FsRoots \<Rightarrow> Path \<Rightarrow> (FsDenied, Path) result" where
  "check_within rt fs path =
     (if covers rt (protected fs) path then Err OutsideRoots
      else if list_ex (path_starts_with path) (roots fs) then Ok path else Err OutsideRoots)"

definition resolve_existing ::
  "(Path \<Rightarrow> Path option) \<Rightarrow> Path list \<Rightarrow> FsRoots \<Rightarrow> string \<Rightarrow> (FsDenied, Path) result" where
  "resolve_existing canon rt fs requested =
     (case check_absolute requested of Inl e \<Rightarrow> Err e
      | Inr path \<Rightarrow> (case canon path of None \<Rightarrow> Err OutsideRoots
          | Some c \<Rightarrow> check_within rt fs c))"

definition resolve_entry ::
  "(Path \<Rightarrow> Path option) \<Rightarrow> (Path \<Rightarrow> bool) \<Rightarrow> Path list \<Rightarrow> FsRoots \<Rightarrow> string \<Rightarrow> (FsDenied, Path) result" where
  "resolve_entry canon lstat rt fs requested =
     (case check_absolute requested of Inl e \<Rightarrow> Err e
      | Inr path \<Rightarrow>
          (case parent path of None \<Rightarrow> resolve_existing canon rt fs requested
           | Some up \<Rightarrow>
               (case file_name path of None \<Rightarrow> resolve_existing canon rt fs requested
                | Some name \<Rightarrow>
                    (case canon up of None \<Rightarrow> Err OutsideRoots
                     | Some c \<Rightarrow>
                         (case check_within rt fs c of Inl e \<Rightarrow> Err e
                          | Inr dir \<Rightarrow>
                              (let resolved = push_name dir name in
                               if covers rt (protected fs) resolved then Err OutsideRoots
                               else if \<not> lstat resolved then Err OutsideRoots
                               else Ok resolved))))))"

fun append_names :: "Path \<Rightarrow> string list \<Rightarrow> (FsDenied, Path) result" where
  "append_names resolved [] = Ok resolved"
| "append_names resolved (name # tail) =
     (if name = ''..'' \<or> name = ''.'' then Err Traversal else append_names (push_name resolved name) tail)"

definition resolve_new ::
  "(Path \<Rightarrow> Path option) \<Rightarrow> Path list \<Rightarrow> FsRoots \<Rightarrow> string \<Rightarrow> (FsDenied, Path) result" where
  "resolve_new canon rt fs requested =
     (case check_absolute requested of Inl e \<Rightarrow> Err e
      | Inr path \<Rightarrow>
          (case climb canon path [] of None \<Rightarrow> Err OutsideRoots
           | Some (anchor, tail) \<Rightarrow>
               (case check_within rt fs anchor of Inl e \<Rightarrow> Err e
                | Inr dir \<Rightarrow>
                    (case append_names dir tail of Inl e \<Rightarrow> Err e
                     | Inr resolved \<Rightarrow>
                         if covers rt (protected fs) resolved then Err OutsideRoots else Ok resolved))))"

section \<open>Canonical paths as lists of names\<close>

definition plain :: "string \<Rightarrow> bool" where
  "plain n \<longleftrightarrow> n \<noteq> [] \<and> n \<noteq> ''.'' \<and> n \<noteq> ''..'' \<and> CHR ''/'' \<notin> set n"

definition canonical :: "Path \<Rightarrow> bool" where
  "canonical p \<longleftrightarrow> is_absolute p \<and> ParentDir \<notin> set (components p)"

lemma canonical_names:
  assumes "canonical p"
  obtains ns where "components p = RootDir # map Normal ns" "list_all plain ns"
proof
  let ?ns = "filter names_something (segments p)"
  have c: "components p = RootDir # map component ?ns"
    using assms by (simp add: canonical_def components_absolute)
  have dots: "n \<noteq> ''..''" if "n \<in> set ?ns" for n
    using assms that unfolding canonical_def c by (auto simp: component_def)
  then have "map component ?ns = map Normal ?ns" by (auto simp: component_def)
  then show "components p = RootDir # map Normal ?ns" using c by simp
  show "list_all plain ?ns"
    using dots segments_no_slash by (auto simp: list_all_iff plain_def names_something_def)
qed

lemma plain_not_absolute: "plain n \<Longrightarrow> \<not> is_absolute n"
  by (cases n) (auto simp: plain_def is_absolute_def)

lemma push_components:
  assumes "is_absolute p" "plain n"
  shows "is_absolute (push_name p n)" "components (push_name p n) = components p @ [Normal n]"
proof -
  have n: "CHR ''/'' \<notin> set n" "names_something n" "component n = Normal n"
    using assms(2) by (auto simp: plain_def names_something_def component_def)
  show a: "is_absolute (push_name p n)"
    using assms plain_not_absolute by (auto simp: push_name_def is_absolute_def)
  have "filter names_something (segments (push_name p n)) = filter names_something (segments p) @ [n]"
  proof (cases "last p = CHR ''/''")
    case True
    then obtain q where q: "p = q @ [CHR ''/'']" using assms(1) by (metis append_butlast_last_id is_absolute_def)
    then show ?thesis
      using n plain_not_absolute [OF assms(2)] split_on_snoc [of "CHR ''/''" n q] split_on_snoc [of "CHR ''/''" "[]" q]
      by (simp add: push_name_def segments_def names_something_def)
  next
    case False
    then have "push_name p n = p @ CHR ''/'' # n"
      using plain_not_absolute [OF assms(2)] assms(1) by (auto simp: push_name_def is_absolute_def)
    then show ?thesis using n split_on_snoc [of "CHR ''/''" n p] by (simp add: segments_def)
  qed
  then show "components (push_name p n) = components p @ [Normal n]"
    using a assms(1) n(3) by (simp add: components_absolute)
qed

lemma push_canonical: "canonical p \<Longrightarrow> plain n \<Longrightarrow> canonical (push_name p n)"
  by (simp add: canonical_def push_components)

lemma pushes_components:
  "is_absolute p \<Longrightarrow> list_all plain ns \<Longrightarrow>
     is_absolute (foldl push_name p ns) \<and> components (foldl push_name p ns) = components p @ map Normal ns"
  by (induction ns arbitrary: p) (simp_all add: push_components)

lemma append_names_plain: "list_all plain ns \<Longrightarrow> append_names p ns = Ok (foldl push_name p ns)"
  by (induction ns arbitrary: p) (auto simp: plain_def)

lemma file_name_canonical:
  assumes "canonical p" "file_name p = Some n"
  shows "plain n" "components p = butlast (components p) @ [Normal n]"
proof -
  obtain ns where ns: "components p = RootDir # map Normal ns" "list_all plain ns"
    by (rule canonical_names [OF assms(1)])
  then have "ns \<noteq> [] \<and> n = last ns"
    using assms(2) by (cases ns rule: rev_cases) (auto simp: file_name_def)
  then show "plain n" "components p = butlast (components p) @ [Normal n]"
    using ns by (cases ns rule: rev_cases; simp add: butlast_append)+
qed

lemma parent_Some:
  assumes "is_absolute p" "length (components p) \<ge> 2"
  obtains q where "parent p = Some q"
proof -
  have "filter names_something (segments p) \<noteq> []"
    using assms by (auto simp: components_absolute)
  moreover have "filter names_something (drop (Suc 0) (segments p)) = filter names_something (segments p)"
    using absolute_segments [OF assms(1)] by (metis drop0 drop_Suc_Cons filter.simps(2) names_something_def)
  ultimately show ?thesis
    using that assms(1) by (auto simp: parent_def path_head_def Let_def strip_back_Nil)
qed

lemma parent_canonical:
  assumes "canonical p" "parent p = Some q"
  shows "canonical q" "components q = butlast (components p)"
  using parent_absolute [OF _ assms(2)] assms(1) by (auto simp: canonical_def dest: in_set_butlastD)

lemma climb_SomeD:
  "climb canon cursor tail = Some (c, ns) \<Longrightarrow> canonical cursor \<Longrightarrow>
     \<exists>ms cur. ns = ms @ tail \<and> list_all plain ms \<and> canon cur = Some c
       \<and> components cursor = components cur @ map Normal ms"
proof (induction canon cursor tail rule: climb.induct)
  case (1 canon cursor tail)
  show ?case
  proof (cases "canon cursor")
    case (Some x)
    then have "c = x" "ns = tail" using 1(2) by (simp_all add: climb.simps [of canon cursor])
    then show ?thesis using Some by (intro exI [of _ "[]"] exI [of _ cursor]) simp
  next
    case None
    then obtain name up where n: "file_name cursor = Some name" and u: "parent cursor = Some up"
      and r: "climb canon up (name # tail) = Some (c, ns)"
      using 1(2) by (auto simp: climb.simps [of canon cursor] split: option.splits)
    obtain ms cur where "ns = ms @ name # tail" "list_all plain ms" "canon cur = Some c"
      "components up = components cur @ map Normal ms"
      using 1(1) [OF None refl n u r] parent_canonical(1) [OF 1(3) u] by auto
    then show ?thesis
      using file_name_canonical [OF 1(3) n] parent_canonical(2) [OF 1(3) u]
      by (intro exI [of _ "ms @ [name]"] exI [of _ cur]) simp
  qed
qed

section \<open>What is covered\<close>

lemma path_starts_with_iff: "path_starts_with p q \<longleftrightarrow> (\<exists>zs. components p = components q @ zs)"
  unfolding path_starts_with_def by (metis append_eq_conv_conj)

definition in_tree :: "Path list \<Rightarrow> Protected \<Rightarrow> Path \<Rightarrow> bool" where
  "in_tree rt p path \<longleftrightarrow> (\<exists>t \<in> set (trees p) \<union> set rt. path_starts_with path t)"

definition is_named :: "Protected \<Rightarrow> Path \<Rightarrow> bool" where
  "is_named p path \<longleftrightarrow> (\<exists>(d, n) \<in> set (named p). \<exists>m. components path = components d @ [Normal m] \<and> starts_with n m)"

definition is_each_named :: "Protected \<Rightarrow> Path \<Rightarrow> bool" where
  "is_each_named p path \<longleftrightarrow> (\<exists>(d, n) \<in> set (each_named p). \<exists>x m.
     components path = components d @ [Normal x, Normal m] \<and> starts_with n m)"

lemma file_name_snoc [simp]: "components p = cs @ [Normal m] \<Longrightarrow> file_name p = Some m"
  by (simp add: file_name_def)

lemma parent_snoc:
  assumes "canonical p" "components p = RootDir # map Normal (ms @ [m])"
  obtains dir where "parent p = Some dir" "canonical dir" "components dir = RootDir # map Normal ms"
proof -
  obtain dir where dir: "parent p = Some dir"
    using assms parent_Some [of p] by (auto simp: canonical_def)
  show ?thesis
    using that [OF dir] parent_canonical [OF assms(1) dir] assms(2) by (simp add: butlast_append)
qed

lemma parent_of_snoc:
  assumes "canonical p" "components p = cs @ [Normal m]"
  shows "\<exists>q. parent p = Some q \<and> components q = cs"
proof -
  obtain ns where ns: "components p = RootDir # map Normal ns" by (rule canonical_names [OF assms(1)])
  with assms(2) have "ns \<noteq> []" by (cases cs) auto
  then have "length (components p) \<ge> 2" by (cases ns) (simp_all add: ns)
  then obtain q where "parent p = Some q" using assms(1) parent_Some [of p] by (auto simp: canonical_def)
  then show ?thesis using parent_canonical(2) [OF assms(1)] assms(2) by simp
qed

lemma parent_root: "canonical p \<Longrightarrow> components p = [RootDir] \<Longrightarrow> parent p = None"
  using parent_absolute(3) by (cases "parent p") (fastforce simp: canonical_def)+

lemma covers_iff:
  assumes p: "canonical p"
  shows "covers rt prot p \<longleftrightarrow> in_tree rt prot p \<or> is_named prot p \<or> is_each_named prot p"
proof -
  obtain ns where ns: "components p = RootDir # map Normal ns" by (rule canonical_names [OF p])
  have tree: "in_tree rt prot p \<longleftrightarrow>
      list_ex (path_starts_with p) (trees prot) \<or> list_ex (path_starts_with p) rt"
    by (auto simp: in_tree_def list_ex_iff)
  show ?thesis
  proof (cases ns rule: rev_cases)
    case Nil
    then have "\<not> is_named prot p" "\<not> is_each_named prot p"
      using ns by (auto simp: is_named_def is_each_named_def append_eq_Cons_conv)
    then show ?thesis using parent_root [OF p] ns Nil by (simp add: covers_def tree)
  next
    case (snoc ms m)
    obtain dir where dir: "parent p = Some dir" "canonical dir" "components dir = RootDir # map Normal ms"
      using parent_snoc [OF p] ns snoc by auto
    have f: "file_name p = Some m" using ns snoc by (simp add: file_name_def)
    have named: "is_named prot p \<longleftrightarrow>
        list_ex (\<lambda>(d, prefix). same_path dir d \<and> starts_with prefix m) (named prot)"
      using ns snoc dir(3) by (auto simp: is_named_def list_ex_iff same_path_def)
    have each: "is_each_named prot p \<longleftrightarrow>
        list_ex (\<lambda>(d, prefix). (case parent dir of None \<Rightarrow> False | Some up \<Rightarrow> same_path up d)
          \<and> starts_with prefix m) (each_named prot)"
    proof (cases ms rule: rev_cases)
      case Nil
      then show ?thesis
        using ns snoc dir(3) parent_root [OF dir(2)]
        by (auto simp: is_each_named_def list_ex_iff append_eq_Cons_conv)
    next
      case (snoc ks k)
      obtain up where "parent dir = Some up" "components up = RootDir # map Normal ks"
        using parent_snoc [OF dir(2)] dir(3) snoc by auto
      moreover have "components p = (RootDir # map Normal ks) @ [Normal k, Normal m]"
        using ns \<open>ns = ms @ [m]\<close> snoc by simp
      ultimately show ?thesis by (auto simp: is_each_named_def list_ex_iff same_path_def)
    qed
    show ?thesis by (simp add: covers_def tree dir(1) f named each)
  qed
qed

section \<open>What no request reaches\<close>

definition never_reached :: "Path list \<Rightarrow> FsRoots \<Rightarrow> Path \<Rightarrow> bool" where
  "never_reached rt fs p \<longleftrightarrow> in_tree rt (protected fs) p \<or> is_named (protected fs) p \<or> is_each_named (protected fs) p"

lemma check_within_Ok:
  "check_within rt fs p = Ok q \<longleftrightarrow>
     q = p \<and> \<not> covers rt (protected fs) p \<and> (\<exists>r \<in> set (roots fs). path_starts_with p r)"
  by (auto simp: check_within_def list_ex_iff)

lemma check_absolute_Ok: "check_absolute r = Ok p \<longleftrightarrow> p = r \<and> canonical r"
  by (auto simp: check_absolute_def canonical_def)

lemma starts_with_extend: "path_starts_with p r \<Longrightarrow> components q = components p @ zs \<Longrightarrow> path_starts_with q r"
  by (auto simp: path_starts_with_iff)

lemma resolve_existing_Ok:
  "resolve_existing canon rt fs r = Ok p \<Longrightarrow>
     canonical r \<and> canon r = Some p \<and> \<not> covers rt (protected fs) p \<and> (\<exists>t \<in> set (roots fs). path_starts_with p t)"
  by (auto simp: resolve_existing_def check_within_Ok check_absolute_Ok split: sum.splits option.splits)

lemma resolve_entry_Ok:
  assumes "resolve_entry canon lstat rt fs r = Ok p"
  shows "resolve_existing canon rt fs r = Ok p \<or>
    (\<exists>up c n. canonical r \<and> parent r = Some up \<and> file_name r = Some n \<and> canon up = Some c \<and> p = push_name c n
       \<and> (\<exists>t \<in> set (roots fs). path_starts_with c t) \<and> \<not> covers rt (protected fs) p \<and> lstat p)"
  using assms
  by (auto simp: resolve_entry_def check_within_Ok check_absolute_Ok Let_def
      split: sum.splits option.splits if_splits)

lemma resolve_new_Ok:
  assumes "resolve_new canon rt fs r = Ok p"
  obtains c ns cur where "canonical r" "list_all plain ns" "canon cur = Some c"
    "components r = components cur @ map Normal ns" "p = foldl push_name c ns"
    "\<exists>t \<in> set (roots fs). path_starts_with c t" "\<not> covers rt (protected fs) p"
proof -
  from assms obtain c ns where r: "canonical r" and cl: "climb canon r [] = Some (c, ns)"
    and rest: "append_names c ns = Ok p" "\<exists>t \<in> set (roots fs). path_starts_with c t" "\<not> covers rt (protected fs) p"
    by (auto simp: resolve_new_def check_within_Ok check_absolute_Ok split: sum.splits option.splits if_splits)
  from climb_SomeD [OF cl r] obtain cur where "list_all plain ns" "canon cur = Some c"
    "components r = components cur @ map Normal ns" by auto
  then show ?thesis using that r rest append_names_plain by simp
qed

text \<open>Protecting a file protects every name in its directory that begins with its own.\<close>

lemma protect_file_names:
  assumes "canonical (settled canon cwd f)" "file_name (settled canon cwd f) = Some n"
    and "components q = butlast (components (settled canon cwd f)) @ [Normal (n @ suffix)]"
  shows "is_named (protect_file canon cwd f prot) q"
proof -
  let ?p = "settled canon cwd f"
  obtain dir where "parent ?p = Some dir" "components dir = butlast (components ?p)"
    using parent_of_snoc [OF assms(1) file_name_canonical(2) [OF assms(1,2)]] by blast
  then show ?thesis
    using assms(2,3) by (auto simp: is_named_def protect_file_def Let_def starts_with_def strip_prefix_append)
qed

section \<open>What may be moved or removed\<close>

definition wf_protected :: "Path list \<Rightarrow> Protected \<Rightarrow> bool" where
  "wf_protected rt p \<longleftrightarrow> list_all canonical (trees p) \<and> list_all canonical rt
     \<and> list_all (\<lambda>(d, n). canonical d \<and> plain n) (named p)
     \<and> list_all (\<lambda>(d, n). canonical d \<and> plain n) (each_named p)"

lemma covers_same: "canonical p \<Longrightarrow> canonical q \<Longrightarrow> components p = components q \<Longrightarrow> covers rt prot p \<longleftrightarrow> covers rt prot q"
  by (simp add: covers_iff in_tree_def is_named_def is_each_named_def path_starts_with_iff)

lemma append_cases:
  assumes "p @ zs = d @ ws"
  obtains us where "d = p @ us" | us where "p = d @ us" "us @ zs = ws" "us \<noteq> []"
proof -
  from assms obtain us where "p = d @ us \<and> us @ zs = ws \<or> p @ us = d" by (auto simp: append_eq_append_conv2)
  then show ?thesis using that by (cases "us = []") auto
qed

lemma holds_if_below:
  assumes p: "canonical p" and q: "canonical q" "components q = components p @ zs" "covers rt prot q"
  shows "holds rt prot p"
proof (cases "covers rt prot p")
  case False
  from q(3) consider "in_tree rt prot q" | "is_named prot q" | "is_each_named prot q"
    by (auto simp: covers_iff [OF q(1)])
  then show ?thesis
  proof cases
    case 1
    then obtain t ws where t: "t \<in> set (trees prot) \<union> set rt" "components p @ zs = components t @ ws"
      using q(2) by (auto simp: in_tree_def path_starts_with_iff)
    from t(2) show ?thesis
    proof (cases rule: append_cases)
      case (1 us)
      then show ?thesis using t(1) by (auto simp: holds_def list_ex_iff path_starts_with_iff)
    next
      case (2 us)
      then have "in_tree rt prot p" using t(1) by (auto simp: in_tree_def path_starts_with_iff)
      then show ?thesis using False by (simp add: covers_iff [OF p])
    qed
  next
    case 2
    then obtain d n m where d: "(d, n) \<in> set (named prot)" "components p @ zs = components d @ [Normal m]" "starts_with n m"
      using q(2) by (auto simp: is_named_def)
    from d(2) show ?thesis
    proof (cases rule: append_cases)
      case (1 us)
      then show ?thesis using d(1) by (auto simp: holds_def list_ex_iff path_starts_with_iff)
    next
      case (2 us)
      then have "components p = components q" using q(2) d(2) by (cases us) auto
      then show ?thesis using False q(3) covers_same [OF p q(1)] by simp
    qed
  next
    case 3
    then obtain d n x m where d: "(d, n) \<in> set (each_named prot)"
      "components p @ zs = components d @ [Normal x, Normal m]" "starts_with n m"
      using q(2) by (auto simp: is_each_named_def)
    from d(2) show ?thesis
    proof (cases rule: append_cases)
      case (1 us)
      then have "path_starts_with d p" by (simp add: path_starts_with_iff)
      then show ?thesis using d(1) by (force simp: holds_def list_ex_iff)
    next
      case (2 us)
      show ?thesis
      proof (cases "zs = []")
        case True
        then show ?thesis using False q covers_same [OF p q(1)] by simp
      next
        case z: False
        then have "components p = components d @ [Normal x]" using 2 by (cases us; cases "tl us") auto
        then obtain up where "parent p = Some up" "same_path up d"
          using parent_of_snoc [OF p] by (auto simp: same_path_def)
        then show ?thesis using d(1) by (force simp: holds_def list_ex_iff)
      qed
    qed
  qed
qed (simp add: holds_def)

lemma is_named_push: "(d, n) \<in> set (named prot) \<Longrightarrow> canonical d \<Longrightarrow> plain n \<Longrightarrow> is_named prot (push_name d n)"
  by (force simp: is_named_def push_components canonical_def starts_with_iff)

lemma is_each_named_push:
  assumes "(d, n) \<in> set (each_named prot)" "canonical u" "components u = components d @ [Normal x]" "plain n"
  shows "is_each_named prot (push_name u n)"
  using assms by (force simp: is_each_named_def push_components canonical_def starts_with_iff)

lemma mutable_iff_holds_nothing:
  assumes "canonical p" "wf_protected rt prot"
  shows "holds rt prot p \<longleftrightarrow> (\<exists>q. canonical q \<and> path_starts_with q p \<and> covers rt prot q)"
proof
  assume "\<exists>q. canonical q \<and> path_starts_with q p \<and> covers rt prot q"
  then show "holds rt prot p" using holds_if_below [OF assms(1)] by (auto simp: path_starts_with_iff)
next
  note wf = assms(2) [unfolded wf_protected_def list_all_iff]
  assume "holds rt prot p"
  then consider "covers rt prot p"
    | t where "t \<in> set (trees prot) \<union> set rt" "path_starts_with t p"
    | d n where "(d, n) \<in> set (named prot)" "path_starts_with d p"
    | d n where "(d, n) \<in> set (each_named prot)" "path_starts_with d p"
    | d n up where "(d, n) \<in> set (each_named prot)" "parent p = Some up" "same_path up d"
    by (auto simp: holds_def list_ex_iff split: option.splits)
  then show "\<exists>q. canonical q \<and> path_starts_with q p \<and> covers rt prot q"
  proof cases
    case 1
    then show ?thesis using assms(1) path_starts_with_iff by fastforce
  next
    case (2 t)
    then have "canonical t" "in_tree rt prot t" using wf by (auto simp: in_tree_def path_starts_with_iff)
    then show ?thesis using 2 covers_iff by blast
  next
    case (3 d n)
    then have d: "canonical d" "plain n" using wf by auto
    then have "path_starts_with (push_name d n) p"
      using 3(2) by (auto simp: path_starts_with_iff push_components canonical_def)
    then show ?thesis using is_named_push [OF 3(1) d] push_canonical [OF d] covers_iff by blast
  next
    case (4 d n)
    then have d: "canonical d" "plain n" and x: "plain ''x''" using wf by (auto simp: plain_def)
    note u = push_canonical [OF d(1) x]
    have "path_starts_with (push_name (push_name d ''x'') n) p"
      using 4(2) u d x by (auto simp: path_starts_with_iff push_components canonical_def)
    moreover have "is_each_named prot (push_name (push_name d ''x'') n)"
      using is_each_named_push [OF 4(1) u _ d(2)] d x by (simp add: push_components canonical_def)
    ultimately show ?thesis using push_canonical [OF u d(2)] covers_iff by blast
  next
    case (5 d n up)
    then have d: "plain n" using wf by auto
    obtain ns where "components p = RootDir # map Normal ns" by (rule canonical_names [OF assms(1)])
    moreover have "components d = butlast (components p)" "length (components p) \<ge> 2"
      using 5 parent_canonical(2) [OF assms(1)] parent_absolute(3) [OF _ 5(2)] assms(1)
      by (auto simp: same_path_def canonical_def)
    ultimately obtain x where "components p = components d @ [Normal x]"
      by (cases ns rule: rev_cases) (auto simp: butlast_append)
    then have "is_each_named prot (push_name p n)" using is_each_named_push [OF 5(1) assms(1) _ d] by simp
    moreover have "path_starts_with (push_name p n) p"
      using assms(1) d by (auto simp: path_starts_with_iff push_components canonical_def)
    ultimately show ?thesis using push_canonical [OF assms(1) d] covers_iff by blast
  qed
qed

text \<open>
  The file system the witnesses use: a protected file that does not exist yet,
  and a link that leads to an existing protected one.
\<close>

definition sample_canon :: "Path \<Rightarrow> Path option" where
  "sample_canon p = (if p = ''/l'' then Some ''/s/k'' else if p \<in> set [''/'', ''/s'', ''/s/k''] then Some p else None)"

definition sample_protected :: Protected where
  "sample_protected = \<lparr>trees = [], named = [(''/s'', ''k''), (''/s'', ''j'')], each_named = []\<rparr>"

definition sample_fs :: FsRoots where
  "sample_fs = protecting sample_protected whole_filesystem"

text \<open>
  C6. Whatever a request names, what the file API acts on is not the agent's own
  state: a path that any of the three resolvers returns, for an existing file,
  for a directory entry or for something new, is absolute and free of \<open>..\<close>, lies
  under a root, lies in no protected tree, and is neither a protected file nor
  one whose name in its directory begins with a protected name, however links
  led there.
\<close>

theorem resolvers_stay_outside_protected_state:
  assumes os: "\<And>x c. canon x = Some c \<Longrightarrow> canonical c"
    and "resolve_existing canon rt fs r = Ok p \<or> resolve_entry canon lstat rt fs r = Ok p
      \<or> resolve_new canon rt fs r = Ok p"
  shows "canonical p \<and> (\<exists>t \<in> set (roots fs). path_starts_with p t) \<and> \<not> never_reached rt fs p"
proof -
  have fine: "canonical p \<and> (\<exists>t \<in> set (roots fs). path_starts_with p t) \<and> \<not> never_reached rt fs p"
    if "canonical c" "list_all plain ns" "p = foldl push_name c ns"
      "\<exists>t \<in> set (roots fs). path_starts_with c t" "\<not> covers rt (protected fs) p" for c ns
  proof -
    have p: "components p = components c @ map Normal ns" "is_absolute p"
      using pushes_components that(1-3) by (auto simp: canonical_def)
    then have "canonical p" using that(1) by (auto simp: canonical_def)
    then show ?thesis
      using that(4,5) starts_with_extend [OF _ p(1)] by (auto simp: never_reached_def covers_iff)
  qed
  from assms(2) consider "resolve_existing canon rt fs r = Ok p" | "resolve_entry canon lstat rt fs r = Ok p"
    | "resolve_new canon rt fs r = Ok p" by blast
  then show ?thesis
  proof cases
    case 1
    then show ?thesis using fine [of p "[]"] resolve_existing_Ok os by fastforce
  next
    case 2
    then show ?thesis
    proof (cases "resolve_existing canon rt fs r = Ok p")
      case True
      then show ?thesis using fine [of p "[]"] resolve_existing_Ok os by fastforce
    next
      case False
      then obtain up c n where "canonical r" "file_name r = Some n" "canon up = Some c" "p = push_name c n"
        "\<exists>t \<in> set (roots fs). path_starts_with c t" "\<not> covers rt (protected fs) p"
        using resolve_entry_Ok [OF 2] by blast
      then show ?thesis using fine [of c "[n]"] os file_name_canonical(1) by simp
    qed
  next
    case 3
    obtain c ns cur where h: "list_all plain ns" "canon cur = Some c" "p = foldl push_name c ns"
      "\<exists>t \<in> set (roots fs). path_starts_with c t" "\<not> covers rt (protected fs) p"
      by (rule resolve_new_Ok [OF 3])
    show ?thesis by (rule fine [OF os [OF h(2)] h(1,3,4,5)])
  qed
qed

theorem resolvers_stay_outside_protected_state_witness:
  "resolve_existing sample_canon [] sample_fs ''/l'' = Err OutsideRoots
   \<and> resolve_new sample_canon [] sample_fs ''/s//new'' = Ok ''/s/new''
   \<and> \<not> never_reached [] sample_fs ''/s/new''"
proof -
  have os: "\<And>x c. sample_canon x = Some c \<Longrightarrow> canonical c"
    by (auto simp: sample_canon_def canonical_def is_absolute_def components_def path_head_def
        segments_def component_def split: if_splits)
  have new: "resolve_new sample_canon [] sample_fs ''/s//new'' = Ok ''/s/new''" by code_simp
  have "resolve_existing sample_canon [] sample_fs ''/l'' = Err OutsideRoots" by code_simp
  then show ?thesis
    using new resolvers_stay_outside_protected_state [where canon = sample_canon and lstat = "\<lambda>_. True"] os
    by blast
qed

text \<open>
  C28. Renaming, removing or changing the mode of a path is allowed exactly when no
  protected path is that path or lies below it, so no such change carries the
  agent's state away with a directory (for protected entries that are canonical
  directories and plain names).
\<close>

theorem mutable_iff_nothing_protected_below:
  assumes "canonical p" and "wf_protected rt (protected fs)"
  shows "check_mutable rt fs p = Ok () \<longleftrightarrow> (\<forall>q. canonical q \<and> path_starts_with q p \<longrightarrow> \<not> never_reached rt fs q)"
proof -
  have "check_mutable rt fs p = Ok () \<longleftrightarrow> \<not> holds rt (protected fs) p"
    by (simp add: check_mutable_def)
  then show ?thesis
    using mutable_iff_holds_nothing [OF assms] by (auto simp: never_reached_def covers_iff)
qed

theorem mutable_iff_nothing_protected_below_witness:
  "check_mutable [] sample_fs ''/s'' = Err OutsideRoots \<and> check_mutable [] sample_fs ''/s/new'' = Ok ()
   \<and> \<not> never_reached [] sample_fs ''/s/new''"
proof -
  have c: "canonical ''/s/new''" by code_simp
  have wf: "wf_protected [] (protected sample_fs)" by code_simp
  have ok: "check_mutable [] sample_fs ''/s/new'' = Ok ()" by code_simp
  have "path_starts_with ''/s/new'' ''/s/new''" by code_simp
  moreover have "check_mutable [] sample_fs ''/s'' = Err OutsideRoots" by code_simp
  ultimately show ?thesis
    using mutable_iff_nothing_protected_below [OF c wf] ok c by blast
qed

text \<open>
  C37. Under a protected name nothing is protected. Take a path whose parent is
  refused because its name, in a directory that exists, begins with a protected
  one, such as the agent's database before it is created: if neither exists yet
  and nothing else is protected there (no protected tree holds the path, and no
  other entry names files of the missing directory), a request to create the
  path is admitted, although the directory it has to make first is the very
  path the resolver refuses.
\<close>

theorem below_a_protected_name_is_admitted:
  assumes r: "canonical r" "canon r = None" "parent r = Some m" "file_name r = Some n"
    and m: "canon m = None" "parent m = Some up" "file_name m = Some f"
    and d: "canon up = Some d" "canonical d" "check_within rt fs d = Ok d"
    and protects: "(e, prefix) \<in> set (named (protected fs))" "same_path e d" "starts_with prefix f"
    and else_free: "\<not> in_tree rt (protected fs) (push_name (push_name d f) n)"
      "\<forall>(e, _) \<in> set (named (protected fs)). \<not> same_path e (push_name d f)"
      "\<forall>(e, _) \<in> set (each_named (protected fs)). \<not> same_path e d"
  shows "resolve_new canon rt fs m = Err OutsideRoots
    \<and> resolve_new canon rt fs r = Ok (push_name (push_name d f) n)"
proof -
  have cm: "canonical m" using parent_canonical [OF r(1,3)] by blast
  have pl: "plain n" "plain f" using file_name_canonical(1) r(1,4) cm m(3) by blast+
  have p1: "canonical (push_name d f)" "components (push_name d f) = components d @ [Normal f]"
    using push_canonical d(2) pl(2) push_components by (auto simp: canonical_def)
  have p2: "canonical (push_name (push_name d f) n)"
    "components (push_name (push_name d f) n) = components d @ [Normal f, Normal n]"
    using push_canonical [OF p1(1) pl(1)] push_components [OF _ pl(1), of "push_name d f"] p1
    by (auto simp: canonical_def)
  have "is_named (protected fs) (push_name d f)"
    using protects p1(2) by (auto simp: is_named_def same_path_def intro!: bexI [of _ "(e, prefix)"])
  then have covered: "covers rt (protected fs) (push_name d f)" by (simp add: covers_iff [OF p1(1)])
  have "\<not> is_named (protected fs) (push_name (push_name d f) n)"
    using else_free(2) p1(2) p2(2) by (auto simp: is_named_def same_path_def)
  moreover have "\<not> is_each_named (protected fs) (push_name (push_name d f) n)"
    using else_free(3) p2(2) by (auto simp: is_each_named_def same_path_def)
  ultimately have free: "\<not> covers rt (protected fs) (push_name (push_name d f) n)"
    using else_free(1) by (simp add: covers_iff [OF p2(1)])
  have "climb canon m [] = Some (d, [f])" "climb canon r [] = Some (d, [f, n])"
    using r m d(1) by (simp_all add: climb.simps [of canon r] climb.simps [of canon m] climb.simps [of canon up])
  moreover have "append_names d [f] = Ok (push_name d f)" "append_names d [f, n] = Ok (push_name (push_name d f) n)"
    using pl append_names_plain [of "[f]" d] append_names_plain [of "[f, n]" d] by simp_all
  moreover have "check_absolute m = Ok m" "check_absolute r = Ok r" using cm r(1) check_absolute_Ok by blast+
  ultimately show ?thesis using covered free d(3) by (simp add: resolve_new_def)
qed

theorem below_a_protected_name_is_admitted_witness:
  "resolve_new sample_canon [] sample_fs ''/s/j-wal'' = Err OutsideRoots
   \<and> resolve_new sample_canon [] sample_fs ''/s/j-wal/x'' = Ok ''/s/j-wal/x''"
proof -
  have a: "canonical ''/s/j-wal/x''" "sample_canon ''/s/j-wal/x'' = None" "parent ''/s/j-wal/x'' = Some ''/s/j-wal''"
    "file_name ''/s/j-wal/x'' = Some ''x''" "sample_canon ''/s/j-wal'' = None" "parent ''/s/j-wal'' = Some ''/s''"
    "file_name ''/s/j-wal'' = Some ''j-wal''" "sample_canon ''/s'' = Some ''/s''" "canonical ''/s''"
    "check_within [] sample_fs ''/s'' = Ok ''/s''" "same_path ''/s'' ''/s''" "starts_with ''j'' ''j-wal''"
    "push_name (push_name ''/s'' ''j-wal'') ''x'' = ''/s/j-wal/x''"
    by code_simp+
  have p: "(''/s'', ''j'') \<in> set (named (protected sample_fs))"
    by (simp add: sample_fs_def protecting_def sample_protected_def)
  have f: "\<not> in_tree [] (protected sample_fs) (push_name (push_name ''/s'' ''j-wal'') ''x'')"
    "\<forall>(e, _) \<in> set (named (protected sample_fs)). \<not> same_path e (push_name ''/s'' ''j-wal'')"
    "\<forall>(e, _) \<in> set (each_named (protected sample_fs)). \<not> same_path e ''/s''"
    by code_simp+
  show ?thesis
    using below_a_protected_name_is_admitted [where canon = sample_canon, OF a(1-10) p a(11,12) f] a(13) by simp
qed

end
