(* ===== verification/Cron_Schedule.thy ===== *)
theory Cron_Schedule
  imports Civil
begin

text \<open>
  Cron expressions (\<open>crates/sbm_parser/src/cron.rs\<close>): the server's clock, the
  field parser and the search for the next run, against what a schedule means:
  a set of minutes of the calendar.
\<close>

section \<open>The server's clock\<close>

record CronClock =
  epoch :: int
  offset_minutes :: int

definition clock_try_parse :: "string \<Rightarrow> CronClock option" where
  "clock_try_parse value =
     (case split_whitespace value of
        [e, zone] \<Rightarrow>
          (case parse_i64 e of None \<Rightarrow> None
           | Some ep \<Rightarrow>
               if byte_len zone \<noteq> 5 then None
               else (case zone of [] \<Rightarrow> None
                     | c # rest \<Rightarrow>
                         if c \<noteq> CHR ''+'' \<and> c \<noteq> CHR ''-'' then None
                         else if \<not> all_digits rest then None
                         else (case (parse_i32 (take 2 rest), parse_i32 (take 2 (drop 2 rest))) of
                                 (Some hours, Some minutes) \<Rightarrow>
                                   Some \<lparr>epoch = ep,
                                     offset_minutes = (if c = CHR ''+'' then 1 else - 1) * (hours * 60 + minutes)\<rparr>
                               | _ \<Rightarrow> None)))
      | _ \<Rightarrow> None)"

definition now_wall :: "CronClock \<Rightarrow> CivilTime" where
  "now_wall c = from_epoch_minute (tdiv (epoch c + offset_minutes c * 60) 60)"

section \<open>Fields\<close>

definition MACROS :: "(string \<times> string) list" where
  "MACROS = [(''@yearly'', ''0 0 1 1 *''), (''@annually'', ''0 0 1 1 *''), (''@monthly'', ''0 0 1 * *''),
     (''@weekly'', ''0 0 * * 0''), (''@daily'', ''0 0 * * *''), (''@midnight'', ''0 0 * * *''),
     (''@hourly'', ''0 * * * *'')]"

definition MONTH_NAMES :: "(string \<times> nat) list" where
  "MONTH_NAMES = [(''jan'', 1), (''feb'', 2), (''mar'', 3), (''apr'', 4), (''may'', 5), (''jun'', 6),
     (''jul'', 7), (''aug'', 8), (''sep'', 9), (''oct'', 10), (''nov'', 11), (''dec'', 12)]"

definition DAY_NAMES :: "(string \<times> nat) list" where
  "DAY_NAMES = [(''sun'', 0), (''mon'', 1), (''tue'', 2), (''wed'', 3), (''thu'', 4), (''fri'', 5), (''sat'', 6)]"

definition SEARCH_DAYS :: nat where
  "SEARCH_DAYS = 366 * 8"

definition field_value :: "string \<Rightarrow> (string \<times> nat) list option \<Rightarrow> nat \<Rightarrow> nat \<Rightarrow> nat option" where
  "field_value raw names lo hi =
     (let token = trim raw in
      if token = [] then None
      else case (case parse_u32 token of Some n \<Rightarrow> Some n
                 | None \<Rightarrow> (case names of None \<Rightarrow> None | Some ns \<Rightarrow> map_of ns (to_lowercase token))) of
             None \<Rightarrow> None
           | Some value \<Rightarrow> if value < lo \<or> value > hi then None else Some value)"

text \<open>\<open>(from..=to).step_by(step)\<close>\<close>

definition step_range :: "nat \<Rightarrow> nat \<Rightarrow> nat \<Rightarrow> nat list" where
  "step_range from to step =
     (if to < from then [] else map (\<lambda>i. from + i * step) [0..<Suc ((to - from) div step)])"

definition token_range ::
  "string \<Rightarrow> bool \<Rightarrow> nat \<Rightarrow> nat \<Rightarrow> (string \<times> nat) list option \<Rightarrow> (nat \<times> nat) option" where
  "token_range body stepped lo hi names =
     (if body = ''*'' then Some (lo, hi)
      else case split_on (CHR ''-'') body of
             [a] \<Rightarrow> map_option (\<lambda>from. (from, if stepped then hi else from)) (field_value a names lo hi)
           | [a, b] \<Rightarrow>
               (case field_value a names lo hi of None \<Rightarrow> None
                | Some from \<Rightarrow> map_option (\<lambda>to. (from, to)) (field_value b names lo hi))
           | _ \<Rightarrow> None)"

definition parse_token ::
  "string \<Rightarrow> nat \<Rightarrow> nat \<Rightarrow> (string \<times> nat) list option \<Rightarrow> nat list option" where
  "parse_token token lo hi names =
     (if token = [] then None
      else case (case split_once (CHR ''/'') token of
                   None \<Rightarrow> Some (token, False, 1)
                 | Some (body, rest) \<Rightarrow>
                     (case parse_u32 rest of None \<Rightarrow> None
                      | Some step \<Rightarrow> if step < 1 then None else Some (body, True, step))) of
             None \<Rightarrow> None
           | Some (body, stepped, step) \<Rightarrow>
               (case token_range body stepped lo hi names of None \<Rightarrow> None
                | Some (from, to) \<Rightarrow> if to < from then None else Some (step_range from to step)))"

fun parse_tokens ::
  "string list \<Rightarrow> nat \<Rightarrow> nat \<Rightarrow> (string \<times> nat) list option \<Rightarrow> nat list \<Rightarrow> nat list option" where
  "parse_tokens [] lo hi names values = Some values"
| "parse_tokens (t # ts) lo hi names values =
     (case parse_token (trim t) lo hi names of None \<Rightarrow> None
      | Some vs \<Rightarrow> parse_tokens ts lo hi names (values @ vs))"

definition sort_dedup :: "nat list \<Rightarrow> nat list" where
  "sort_dedup xs = remdups_adj (sort xs)"

definition parse_field ::
  "string \<Rightarrow> nat \<Rightarrow> nat \<Rightarrow> (string \<times> nat) list option \<Rightarrow> nat list option" where
  "parse_field field lo hi names =
     (case parse_tokens (split_on (CHR '','') field) lo hi names [] of None \<Rightarrow> None
      | Some values \<Rightarrow> if values = [] then None else Some (sort_dedup values))"

section \<open>Schedules\<close>

record CronSchedule =
  minutes :: "nat list"
  hours :: "nat list"
  days_of_month :: "nat list"
  months :: "nat list"
  days_of_week :: "nat list"
  day_of_month_restricted :: bool
  day_of_week_restricted :: bool
  is_reboot :: bool

definition reboot_schedule :: CronSchedule where
  "reboot_schedule = \<lparr>minutes = [], hours = [], days_of_month = [], months = [], days_of_week = [],
     day_of_month_restricted = False, day_of_week_restricted = False, is_reboot = True\<rparr>"

definition parse_five :: "string \<Rightarrow> CronSchedule option" where
  "parse_five trimmed =
     (case split_whitespace trimmed of
        [f0, f1, f2, f3, f4] \<Rightarrow>
          (case parse_field f0 0 59 None of None \<Rightarrow> None | Some mi \<Rightarrow>
          (case parse_field f1 0 23 None of None \<Rightarrow> None | Some h \<Rightarrow>
          (case parse_field f2 1 31 None of None \<Rightarrow> None | Some doms \<Rightarrow>
          (case parse_field f3 1 12 (Some MONTH_NAMES) of None \<Rightarrow> None | Some mo \<Rightarrow>
          (case parse_field f4 0 7 (Some DAY_NAMES) of None \<Rightarrow> None | Some dows \<Rightarrow>
             Some \<lparr>minutes = mi, hours = h, days_of_month = doms, months = mo,
                   days_of_week = sort_dedup (map (\<lambda>d. d mod 7) dows),
                   day_of_month_restricted = (f2 \<noteq> ''*''), day_of_week_restricted = (f4 \<noteq> ''*''),
                   is_reboot = False\<rparr>)))))
      | _ \<Rightarrow> None)"

text \<open>A macro expands to five fields, so the recursion of \<open>try_parse\<close> ends after one step.\<close>

fun try_parse_fuel :: "nat \<Rightarrow> string \<Rightarrow> CronSchedule option" where
  "try_parse_fuel 0 expression = None"
| "try_parse_fuel (Suc n) expression =
     (let trimmed = trim expression in
      if trimmed = [] then None
      else case strip_prefix ''@'' trimmed of
             Some name \<Rightarrow>
               (let lower = ''@'' @ to_lowercase name in
                if lower = ''@reboot'' then Some reboot_schedule
                else case map_of MACROS lower of None \<Rightarrow> None
                     | Some expanded \<Rightarrow> try_parse_fuel n expanded)
           | None \<Rightarrow> parse_five trimmed)"

definition try_parse :: "string \<Rightarrow> CronSchedule option" where
  "try_parse expression = try_parse_fuel 2 expression"

definition matches_date :: "CronSchedule \<Rightarrow> CivilTime \<Rightarrow> bool" where
  "matches_date s d =
     (if month d \<notin> set (months s) then False
      else let by_day_of_month = day d \<in> set (days_of_month s);
               by_day_of_week = weekday d \<in> set (days_of_week s) in
        if day_of_month_restricted s \<and> day_of_week_restricted s then by_day_of_month \<or> by_day_of_week
        else if day_of_month_restricted s then by_day_of_month
        else if day_of_week_restricted s then by_day_of_week
        else True)"

definition first_time :: "int \<Rightarrow> CivilTime \<Rightarrow> nat list \<Rightarrow> nat list \<Rightarrow> CivilTime option" where
  "first_time start d hs ms =
     map_option (\<lambda>(h, mi). new_civil (year d) (month d) (day d) h mi)
       (List.find (\<lambda>(h, mi). \<not> epoch_minute (new_civil (year d) (month d) (day d) h mi) < start)
         (List.product hs ms))"

fun search_days ::
  "CronSchedule \<Rightarrow> int \<Rightarrow> nat list \<Rightarrow> nat list \<Rightarrow> nat \<Rightarrow> int \<Rightarrow> CivilTime option" where
  "search_days s start hs ms 0 offset = None"
| "search_days s start hs ms (Suc n) offset =
     (let d = from_epoch_minute (start + offset * 1440) in
      if \<not> matches_date s d then search_days s start hs ms n (offset + 1)
      else case first_time start d hs ms of Some at \<Rightarrow> Some at
           | None \<Rightarrow> search_days s start hs ms n (offset + 1))"

definition next_run :: "CronSchedule \<Rightarrow> CivilTime \<Rightarrow> CivilTime option" where
  "next_run s from =
     (if is_reboot s \<or> minutes s = [] \<or> hours s = [] then None
      else search_days s (epoch_minute from + 1) (sort (hours s)) (sort (minutes s)) SEARCH_DAYS 0)"

section \<open>What a schedule means\<close>

definition runs_at :: "CronSchedule \<Rightarrow> CivilTime \<Rightarrow> bool" where
  "runs_at s t \<longleftrightarrow> \<not> is_reboot s \<and> matches_date s t \<and> hour t \<in> set (hours s) \<and> minute t \<in> set (minutes s)"

definition schedule_wf :: "CronSchedule \<Rightarrow> bool" where
  "schedule_wf s \<longleftrightarrow> (\<forall>m \<in> set (minutes s). m < 60) \<and> (\<forall>h \<in> set (hours s). h < 24)
     \<and> (\<forall>d \<in> set (days_of_month s). 1 \<le> d \<and> d \<le> 31) \<and> (\<forall>m \<in> set (months s). 1 \<le> m \<and> m \<le> 12)
     \<and> (\<forall>d \<in> set (days_of_week s). d < 7)
     \<and> sorted (minutes s) \<and> sorted (hours s) \<and> sorted (days_of_month s) \<and> sorted (months s)
     \<and> sorted (days_of_week s)
     \<and> distinct (minutes s) \<and> distinct (hours s) \<and> distinct (days_of_month s) \<and> distinct (months s)
     \<and> distinct (days_of_week s)
     \<and> (is_reboot s \<or> minutes s \<noteq> [] \<and> hours s \<noteq> [] \<and> days_of_month s \<noteq> [] \<and> months s \<noteq> []
        \<and> days_of_week s \<noteq> [])"

definition field_wf :: "nat \<Rightarrow> nat \<Rightarrow> nat list \<Rightarrow> bool" where
  "field_wf lo hi vs \<longleftrightarrow> vs \<noteq> [] \<and> sorted vs \<and> distinct vs \<and> (\<forall>v \<in> set vs. lo \<le> v \<and> v \<le> hi)"

section \<open>Fields in range and in order\<close>

lemma sorted_remdups_adj_distinct: "sorted xs \<Longrightarrow> distinct (remdups_adj xs)" for xs :: "nat list"
  by (induction xs rule: remdups_adj.induct) auto

lemma sort_dedup_set [simp]: "set (sort_dedup xs) = set xs"
  and sort_dedup_sorted [simp]: "sorted (sort_dedup xs)"
  and sort_dedup_distinct [simp]: "distinct (sort_dedup xs)"
  by (simp_all add: sort_dedup_def sorted_remdups_adj sorted_remdups_adj_distinct)

lemma sort_dedup_Nil [simp]: "sort_dedup xs = [] \<longleftrightarrow> xs = []"
  by (metis set_empty2 sort_dedup_set)

lemma field_value_range: "field_value raw names lo hi = Some v \<Longrightarrow> lo \<le> v \<and> v \<le> hi"
  by (auto simp: field_value_def Let_def split: if_splits option.splits)

lemma token_range_range:
  "token_range body st lo hi names = Some (from, to) \<Longrightarrow> lo \<le> from \<and> to \<le> hi"
  by (auto simp: token_range_def dest: field_value_range split: if_splits list.splits option.splits)

lemma step_range_set:
  assumes "0 < step"
  shows "v \<in> set (step_range from to step) \<longleftrightarrow> from \<le> v \<and> v \<le> to \<and> step dvd v - from"
proof -
  have "(\<exists>i < Suc ((to - from) div step). v = from + i * step) \<longleftrightarrow> from \<le> v \<and> v \<le> to \<and> step dvd v - from"
    if le: "from \<le> to"
  proof
    assume "\<exists>i < Suc ((to - from) div step). v = from + i * step"
    then obtain i where i: "i \<le> (to - from) div step" "v = from + i * step"
      using less_Suc_eq_le by blast
    then have "i * step \<le> (to - from) div step * step" by simp
    also have "\<dots> \<le> to - from" by simp
    finally show "from \<le> v \<and> v \<le> to \<and> step dvd v - from" using i(2) le by auto
  next
    assume v: "from \<le> v \<and> v \<le> to \<and> step dvd v - from"
    then have "v = from + (v - from) div step * step" by simp
    moreover have "(v - from) div step \<le> (to - from) div step" using v by (intro div_le_mono diff_le_mono) simp
    ultimately show "\<exists>i < Suc ((to - from) div step). v = from + i * step" using le_imp_less_Suc by blast
  qed
  moreover have "v \<in> set (step_range from to step) \<longleftrightarrow>
    from \<le> to \<and> (\<exists>i < Suc ((to - from) div step). v = from + i * step)"
    by (auto simp: step_range_def simp del: upt_Suc)
  ultimately show ?thesis by auto
qed

lemma parse_token_SomeD:
  assumes "parse_token token lo hi names = Some vs"
  obtains a b k where "0 < k" "lo \<le> a" "a \<le> b" "b \<le> hi" "vs = step_range a b k"
proof -
  from assms obtain body st k a b where k: "0 < k" "token_range body st lo hi names = Some (a, b)" "a \<le> b"
    "vs = step_range a b k"
    by (auto simp: parse_token_def Suc_le_eq not_less split: if_splits option.splits prod.splits)
      (blast intro: zero_less_Suc)
  with token_range_range [OF k(2)] show ?thesis using that by blast
qed

lemma parse_token_range:
  assumes "parse_token token lo hi names = Some vs"
  shows "vs \<noteq> []" "v \<in> set vs \<Longrightarrow> lo \<le> v \<and> v \<le> hi"
proof -
  from assms obtain a b k where p: "0 < k" "lo \<le> a" "a \<le> b" "b \<le> hi"
    "vs = step_range a b k" by (rule parse_token_SomeD)
  have "a \<in> set vs" using p by (simp add: step_range_set)
  then show "vs \<noteq> []" by auto
  show "v \<in> set vs \<Longrightarrow> lo \<le> v \<and> v \<le> hi" using p by (auto simp: step_range_set)
qed

lemma parse_tokens_Some_iff:
  "parse_tokens ts lo hi names acc = Some vs \<longleftrightarrow>
     (\<forall>t \<in> set ts. parse_token (trim t) lo hi names \<noteq> None)
     \<and> vs = acc @ concat (map (\<lambda>t. the (parse_token (trim t) lo hi names)) ts)"
  by (induction ts arbitrary: acc) (auto split: option.splits)

lemma parse_field_SomeD:
  assumes "parse_field field lo hi names = Some vs"
  shows "sorted vs" "distinct vs" "vs \<noteq> []" "v \<in> set vs \<Longrightarrow> lo \<le> v \<and> v \<le> hi"
    and "v \<in> set vs \<longleftrightarrow> (\<exists>t \<in> set (split_on (CHR '','') field). \<exists>ws.
           parse_token (trim t) lo hi names = Some ws \<and> v \<in> set ws)"
proof -
  from assms obtain ws where ws: "parse_tokens (split_on (CHR '','') field) lo hi names [] = Some ws"
    "ws \<noteq> []" "vs = sort_dedup ws" by (auto simp: parse_field_def split: option.splits if_splits)
  show "sorted vs" "distinct vs" "vs \<noteq> []" using ws by simp_all
  show mem: "v \<in> set vs \<longleftrightarrow> (\<exists>t \<in> set (split_on (CHR '','') field). \<exists>ws.
    parse_token (trim t) lo hi names = Some ws \<and> v \<in> set ws)"
  proof -
    from ws(1) have ok: "\<And>t. t \<in> set (split_on (CHR '','') field) \<Longrightarrow> parse_token (trim t) lo hi names \<noteq> None"
      and w: "ws = concat (map (\<lambda>t. the (parse_token (trim t) lo hi names)) (split_on (CHR '','') field))"
      by (auto simp: parse_tokens_Some_iff)
    have "v \<in> set (the (parse_token (trim t) lo hi names)) \<longleftrightarrow>
        (\<exists>us. parse_token (trim t) lo hi names = Some us \<and> v \<in> set us)"
      if "t \<in> set (split_on (CHR '','') field)" for t using ok [OF that] by auto
    then show ?thesis by (simp add: ws(3) w)
  qed
  show "v \<in> set vs \<Longrightarrow> lo \<le> v \<and> v \<le> hi" using parse_token_range(2) by (auto simp: mem)
qed

lemma parse_five_wf: "parse_five e = Some s \<Longrightarrow> schedule_wf s"
proof -
  assume "parse_five e = Some s"
  then obtain f0 f1 f2 f3 f4 mi h doms mo dows where p:
    "parse_field f0 0 59 None = Some mi" "parse_field f1 0 23 None = Some h"
    "parse_field f2 1 31 None = Some doms" "parse_field f3 1 12 (Some MONTH_NAMES) = Some mo"
    "parse_field f4 0 7 (Some DAY_NAMES) = Some dows"
    "s = \<lparr>minutes = mi, hours = h, days_of_month = doms, months = mo,
      days_of_week = sort_dedup (map (\<lambda>d. d mod 7) dows), day_of_month_restricted = (f2 \<noteq> ''*''),
      day_of_week_restricted = (f4 \<noteq> ''*''), is_reboot = False\<rparr>"
    by (auto simp: parse_five_def split: list.splits option.splits)
  note F = parse_field_SomeD(1-4) [OF p(1)] parse_field_SomeD(1-4) [OF p(2)]
    parse_field_SomeD(1-4) [OF p(3)] parse_field_SomeD(1-4) [OF p(4)] parse_field_SomeD(3) [OF p(5)]
  have "\<forall>m \<in> set mi. m < 60" "\<forall>x \<in> set h. x < 24" using F(4,8) by fastforce+
  then show ?thesis using F unfolding schedule_wf_def p(6) by simp
qed

lemma parse_five_not_reboot: "parse_five e = Some s \<Longrightarrow> \<not> is_reboot s"
  by (auto simp: parse_five_def split: list.splits option.splits)

lemma macro_expansion:
  "map_of MACROS n = Some e \<Longrightarrow> trim e = e \<and> e \<noteq> [] \<and> strip_prefix ''@'' e = None"
  by (auto simp: MACROS_def trim_def trim_start_def trim_end_def is_whitespace_def split: if_splits)

lemma try_parse_eq:
  "try_parse e =
     (let t = trim e in
      if t = [] then None
      else case strip_prefix ''@'' t of
             Some name \<Rightarrow>
               (if ''@'' @ to_lowercase name = ''@reboot'' then Some reboot_schedule
                else case map_of MACROS (''@'' @ to_lowercase name) of None \<Rightarrow> None
                     | Some expanded \<Rightarrow> parse_five expanded)
           | None \<Rightarrow> parse_five t)"
  by (auto simp: try_parse_def numeral_2_eq_2 Let_def macro_expansion split: option.splits)

text \<open>The recursion through the macros ends: no amount of further steps changes the answer.\<close>

lemma try_parse_fuel_enough: "try_parse_fuel (Suc (Suc n)) e = try_parse e"
  by (auto simp: try_parse_eq Let_def macro_expansion split: option.splits)

lemma try_parse_wf: "try_parse e = Some s \<Longrightarrow> schedule_wf s"
  by (auto simp: try_parse_eq Let_def dest: parse_five_wf split: if_splits option.splits)
    (simp add: schedule_wf_def reboot_schedule_def)

section \<open>The search\<close>

lemma matches_date_cong:
  "year d = year t \<Longrightarrow> month d = month t \<Longrightarrow> day d = day t \<Longrightarrow> matches_date s d = matches_date s t"
  by (simp add: matches_date_def weekday_def days_from_epoch_def)

text \<open>Two valid times on the same day number have the same date.\<close>

lemma same_day:
  assumes "valid_time t" "minute_in_range m" "days_from_epoch t = m div 1440"
  shows "year (from_epoch_minute m) = year t \<and> month (from_epoch_minute m) = month t
    \<and> day (from_epoch_minute m) = day t"
proof -
  note p = from_epoch_minute_parts [OF assms(2)]
  have "(year (from_epoch_minute m), month (from_epoch_minute m), day (from_epoch_minute m))
    = (year t, month t, day t)"
    by (rule days_inject [OF p(1)])
      (use assms p(2) day_in_range_minute [OF assms(2)] in \<open>simp_all add: days_from_epoch_def valid_time_def\<close>)
  then show ?thesis by simp
qed

definition day_minute :: "nat \<times> nat \<Rightarrow> nat" where
  "day_minute p = (case p of (h, m) \<Rightarrow> h * 60 + m)"

lemma sorted_product:
  assumes "sorted hs" "sorted ms" "\<forall>m \<in> set ms. m < 60" "distinct hs"
  shows "sorted (map day_minute (List.product hs ms))"
  using assms
proof (induction hs)
  case (Cons h hs)
  have one: "sorted (map (\<lambda>m. day_minute (h, m)) ms)"
    using Cons.prems(2) by (simp add: day_minute_def sorted_map sorted_wrt_mono_rel [of _ "(\<le>)"])
  have "h < h'" if "h' \<in> set hs" for h' using Cons.prems(1,4) that by (cases "h = h'") (auto simp: order.strict_iff_order)
  then have "day_minute (h, m) \<le> day_minute (h', m')" if "m \<in> set ms" "h' \<in> set hs" for m h' m'
    using that Cons.prems(3) by (fastforce simp: day_minute_def)
  then show ?case
    using one Cons by (auto simp: sorted_append comp_def)
qed simp

lemma find_Some_least:
  assumes "List.find P xs = Some x" "sorted (map f xs)"
  shows "x \<in> set xs \<and> P x \<and> (\<forall>y \<in> set xs. P y \<longrightarrow> f x \<le> f y)"
  using assms by (induction xs) (auto split: if_splits)

lemma epoch_minute_on_day:
  assumes "minute_in_range m"
  shows "epoch_minute (new_civil (year (from_epoch_minute m)) (month (from_epoch_minute m))
      (day (from_epoch_minute m)) h mi) = m div 1440 * 1440 + int (day_minute (h, mi))"
  using from_epoch_minute_parts(2) [OF assms]
  by (simp add: epoch_minute_def days_from_epoch_def new_civil_def day_minute_def)

lemma valid_on_day:
  assumes "minute_in_range m" "h < 24" "mi < 60"
  shows "valid_time (new_civil (year (from_epoch_minute m)) (month (from_epoch_minute m))
      (day (from_epoch_minute m)) h mi)"
  using from_epoch_minute_parts(1) [OF assms(1)] assms(2,3) by (simp add: valid_time_def new_civil_def)

lemma epoch_minute_eq:
  "epoch_minute t = days_from_epoch t * 1440 + int (day_minute (hour t, minute t))"
  by (simp add: epoch_minute_def day_minute_def)

lemma first_time_None:
  assumes "minute_in_range m" "first_time start (from_epoch_minute m) hs ms = None"
    and "h \<in> set hs" "mi \<in> set ms"
  shows "m div 1440 * 1440 + int (day_minute (h, mi)) < start"
  using assms by (auto simp: first_time_def find_None_iff epoch_minute_on_day)

lemma first_time_Some:
  assumes m: "minute_in_range m" and at: "first_time start (from_epoch_minute m) hs ms = Some at"
    and hs: "sorted hs" "distinct hs" "\<forall>h \<in> set hs. h < 24" and ms: "sorted ms" "\<forall>m \<in> set ms. m < 60"
  shows "valid_time at" "days_from_epoch at = m div 1440" "start \<le> epoch_minute at"
    "hour at \<in> set hs" "minute at \<in> set ms"
    "year at = year (from_epoch_minute m) \<and> month at = month (from_epoch_minute m) \<and> day at = day (from_epoch_minute m)"
    "h \<in> set hs \<Longrightarrow> mi \<in> set ms \<Longrightarrow> start \<le> m div 1440 * 1440 + int (day_minute (h, mi)) \<Longrightarrow>
       epoch_minute at \<le> m div 1440 * 1440 + int (day_minute (h, mi))"
proof -
  let ?d = "from_epoch_minute m"
  let ?P = "\<lambda>(h, mi). \<not> epoch_minute (new_civil (year ?d) (month ?d) (day ?d) h mi) < start"
  from at obtain h0 m0 where f: "List.find ?P (List.product hs ms) = Some (h0, m0)"
    and a: "at = new_civil (year ?d) (month ?d) (day ?d) h0 m0" by (auto simp: first_time_def)
  note least = find_Some_least [OF f sorted_product [OF hs(1) ms hs(2)]]
  then have mem: "h0 \<in> set hs" "m0 \<in> set ms" by auto
  show "valid_time at" using valid_on_day [OF m, of h0 m0] hs(3) ms(2) mem by (simp add: a)
  show "days_from_epoch at = m div 1440"
    using from_epoch_minute_parts(2) [OF m] by (simp add: a days_from_epoch_def new_civil_def)
  show "start \<le> epoch_minute at" using least by (simp add: a not_less)
  show "hour at \<in> set hs" "minute at \<in> set ms" using mem by (simp_all add: a new_civil_def)
  show "year at = year ?d \<and> month at = month ?d \<and> day at = day ?d" by (simp add: a new_civil_def)
  show "epoch_minute at \<le> m div 1440 * 1440 + int (day_minute (h, mi))"
    if "h \<in> set hs" "mi \<in> set ms" "start \<le> m div 1440 * 1440 + int (day_minute (h, mi))"
    using least that by (fastforce simp: a epoch_minute_on_day [OF m] not_less)
qed

definition search_ready :: "CronSchedule \<Rightarrow> nat list \<Rightarrow> nat list \<Rightarrow> bool" where
  "search_ready s hs ms \<longleftrightarrow> \<not> is_reboot s
     \<and> set hs = set (hours s) \<and> sorted hs \<and> distinct hs \<and> (\<forall>h \<in> set hs. h < 24)
     \<and> set ms = set (minutes s) \<and> sorted ms \<and> (\<forall>m \<in> set ms. m < 60)"

lemma search_readyD:
  assumes "search_ready s hs ms"
  shows "set hs = set (hours s)" "sorted hs" "distinct hs" "\<forall>h \<in> set hs. h < 24"
    and "set ms = set (minutes s)" "sorted ms" "\<forall>m \<in> set ms. m < 60" and "\<not> is_reboot s"
  using assms by (simp_all add: search_ready_def)

lemma day_hit:
  assumes ready: "search_ready s hs ms" and m: "minute_in_range m" and md: "matches_date s (from_epoch_minute m)"
    and at: "first_time start (from_epoch_minute m) hs ms = Some at"
  shows "valid_time at \<and> runs_at s at \<and> start \<le> epoch_minute at \<and> days_from_epoch at = m div 1440"
    and "valid_time t \<Longrightarrow> runs_at s t \<Longrightarrow> start \<le> epoch_minute t \<Longrightarrow> m div 1440 \<le> days_from_epoch t
      \<Longrightarrow> epoch_minute at \<le> epoch_minute t"
proof -
  note R = search_readyD [OF ready]
  note ft = first_time_Some [OF m at R(2-4,6,7)]
  have "matches_date s at" using md ft(6) matches_date_cong [of at "from_epoch_minute m" s] by simp
  with ft R(1,5,8)
  show at_ok: "valid_time at \<and> runs_at s at \<and> start \<le> epoch_minute at \<and> days_from_epoch at = m div 1440"
    by (simp add: runs_at_def)
  assume t: "valid_time t" "runs_at s t" "start \<le> epoch_minute t" "m div 1440 \<le> days_from_epoch t"
  show "epoch_minute at \<le> epoch_minute t"
  proof (cases "days_from_epoch t = m div 1440")
    case True
    with t ft(7) [of "hour t" "minute t"] show ?thesis
      by (simp add: runs_at_def R(1,5) epoch_minute_eq [of t])
  next
    case False
    have "epoch_minute at div 1440 < epoch_minute t div 1440"
      using False t at_ok by (simp add: epoch_minute_div)
    then show ?thesis by (metis linorder_not_le order.asym order_le_imp_less_or_eq zdiv_mono1 zero_less_numeral)
  qed
qed

lemma day_miss:
  assumes ready: "search_ready s hs ms" and m: "minute_in_range m"
    and miss: "\<not> matches_date s (from_epoch_minute m) \<or> first_time start (from_epoch_minute m) hs ms = None"
    and t: "valid_time t" "runs_at s t" "start \<le> epoch_minute t" "m div 1440 \<le> days_from_epoch t"
  shows "m div 1440 + 1 \<le> days_from_epoch t"
proof (rule ccontr)
  assume "\<not> m div 1440 + 1 \<le> days_from_epoch t"
  with t(4) have eq: "days_from_epoch t = m div 1440" by simp
  have "matches_date s (from_epoch_minute m)"
    using same_day [OF t(1) m eq] t(2) matches_date_cong [of "from_epoch_minute m" t s]
    by (simp add: runs_at_def)
  with miss have "first_time start (from_epoch_minute m) hs ms = None" by simp
  from first_time_None [OF m this, of "hour t" "minute t"] t(2,3) eq show False
    by (simp add: runs_at_def search_readyD(1,5) [OF ready] epoch_minute_eq [of t])
qed

lemma search_days_correct:
  assumes ready: "search_ready s hs ms"
    and "minute_in_range (start + offset * 1440)" "minute_in_range (start + (offset + int n) * 1440)"
  shows "case search_days s start hs ms n offset of
      None \<Rightarrow> (\<forall>t. valid_time t \<and> runs_at s t \<and> start \<le> epoch_minute t
          \<and> start div 1440 + offset \<le> days_from_epoch t \<longrightarrow>
          start div 1440 + offset + int n \<le> days_from_epoch t)
    | Some at \<Rightarrow> valid_time at \<and> runs_at s at \<and> start \<le> epoch_minute at
        \<and> days_from_epoch at < start div 1440 + offset + int n
        \<and> (\<forall>t. valid_time t \<and> runs_at s t \<and> start \<le> epoch_minute t
          \<and> start div 1440 + offset \<le> days_from_epoch t \<longrightarrow> epoch_minute at \<le> epoch_minute t)"
  using assms(2,3)
proof (induction n arbitrary: offset)
  case (Suc n)
  let ?m = "start + offset * 1440"
  have div: "?m div 1440 = start div 1440 + offset" by simp
  show ?case
  proof (cases "matches_date s (from_epoch_minute ?m) \<and> first_time start (from_epoch_minute ?m) hs ms \<noteq> None")
    case True
    then obtain at where at: "matches_date s (from_epoch_minute ?m)"
      "first_time start (from_epoch_minute ?m) hs ms = Some at" by blast
    with day_hit [OF ready Suc.prems(1) at] show ?thesis unfolding div by (auto simp: Let_def)
  next
    case False
    then have "search_days s start hs ms (Suc n) offset = search_days s start hs ms n (offset + 1)"
      by (auto simp: Let_def)
    moreover have "minute_in_range (start + (offset + 1) * 1440)"
      using Suc.prems by (auto simp: minute_in_range_def abs_le_iff)
    moreover have "start div 1440 + (offset + 1) \<le> days_from_epoch t"
      if "valid_time t" "runs_at s t" "start \<le> epoch_minute t" "start div 1440 + offset \<le> days_from_epoch t" for t
      using day_miss [OF ready Suc.prems(1) _ that(1-3)] False that(4) unfolding div by fastforce
    ultimately show ?thesis
      using Suc.IH [of "offset + 1"] Suc.prems(2) by (fastforce simp: algebra_simps split: option.splits)
  qed
qed simp

section \<open>The horizon is far enough\<close>

lemma days_in_year:
  assumes "valid_date (y, m, d)"
  shows "days_from_civil y 1 1 \<le> days_from_civil y m d" "days_from_civil y m d \<le> days_from_civil y 12 31"
proof -
  have v: "1 \<le> m" "m \<le> 12" "1 \<le> d" "d \<le> month_length y m" using assms by (auto simp: valid_date_def)
  from v(1,2) show "days_from_civil y 1 1 \<le> days_from_civil y m d"
    "days_from_civil y m d \<le> days_from_civil y 12 31"
    using v(3,4)
    by (cases rule: months_cases;
      simp add: days_from_civil_eq month_days_def march_days_step [of y] month_length_def split: if_splits)+
qed

lemma year_span: "days_from_civil y 12 31 \<le> days_from_civil y 1 1 + 365"
  by (simp add: days_from_civil_eq month_days_def march_days_step [of y])

lemma next_year_date:
  assumes "valid_date (y, m, d)" "valid_date (y + 1, m', d')"
  shows "days_from_civil y m d < days_from_civil (y + 1) m' d'"
    and "days_from_civil (y + 1) m' d' \<le> days_from_civil y m d + 731"
  using days_in_year [OF assms(1)] days_in_year [OF assms(2)] year_span [of y] year_span [of "y + 1"]
    days_year_end [of y] by linarith+

lemma leap_near:
  assumes "\<not> leap y"
  obtains k where "1 \<le> k" "k \<le> 7" "leap (y + k)"
proof -
  define r where "r = (- y) mod 4"
  have r: "0 \<le> r" "r < 4" "4 dvd y + r" unfolding r_def by presburger+
  show ?thesis
  proof (cases "leap (y + r)")
    case True
    with assms r show ?thesis using that [of r] by (cases "r = 0") auto
  next
    case False
    with r(3) have "100 dvd y + r" by (auto simp: leap_def)
    then have "\<not> 100 dvd y + r + 4" using dvd_add_right_iff [of 100 "y + r" 4] by simp
    moreover have "4 dvd y + r + 4" using r(3) by presburger
    ultimately have "leap (y + (r + 4))" by (simp add: leap_def add.assoc)
    then show ?thesis using that [of "r + 4"] r by auto
  qed
qed

lemma leap_after_leap: "leap y \<Longrightarrow> leap (y + 4) \<or> leap (y + 8)"
proof -
  assume "leap y"
  then have "4 dvd y + 4" "4 dvd y + 8" by (simp_all add: leap_def)
  moreover have "\<not> 100 dvd y + 4 \<or> \<not> 100 dvd y + 8" by presburger
  ultimately show ?thesis by (auto simp: leap_def)
qed

lemma march_days_range: "0 \<le> k \<Longrightarrow> march_days y + 365 * k \<le> march_days (y + k) \<and> march_days (y + k) \<le> march_days y + 366 * k"
proof (induction k rule: int_ge_induct)
  case (step k)
  then show ?case using march_days_step [of "y + (k + 1)"] by (simp add: algebra_simps split: if_splits)
qed simp

lemma feb29_eq: "days_from_civil y 2 29 = march_days (y - 1) + 365 - 719468"
  by (simp add: days_from_civil_eq month_days_def)

lemma next_feb29:
  assumes v: "valid_date (y, m, d)"
  obtains Y where "leap Y" "days_from_civil y m d < days_from_civil Y 2 29"
    "days_from_civil Y 2 29 \<le> days_from_civil y m d + 2927"
proof (cases "leap y")
  case False
  then obtain k where k: "1 \<le> k" "k \<le> 7" "leap (y + k)" by (rule leap_near)
  have "march_days y + 365 * (k - 1) \<le> march_days (y + k - 1) \<and> march_days (y + k - 1) \<le> march_days y + 366 * (k - 1)"
    using march_days_range [of "k - 1" y] k by (simp add: algebra_simps)
  moreover have "days_from_civil y 12 31 = march_days y + 306 - 719469" "days_from_civil y 1 1 + 59 = march_days y - 719468"
    using False march_days_step [of y] by (simp_all add: days_from_civil_eq month_days_def)
  ultimately show ?thesis
    using that [OF k(3)] days_in_year [OF v] k by (simp add: feb29_eq)
next
  case True
  show ?thesis
  proof (cases "days_from_civil y m d < days_from_civil y 2 29")
    case lt: True
    have "days_from_civil y 2 29 \<le> days_from_civil y 1 1 + 59"
      using march_days_step [of y] by (simp add: days_from_civil_eq month_days_def)
    then show ?thesis using that [OF True lt] days_in_year [OF v] by simp
  next
    case False
    have "\<not> 4 dvd y + 1" using True unfolding leap_def by presburger
    then have "\<not> leap (y + 1)" by (simp add: leap_def)
    then have "march_days (y + 1) = march_days (y - 1) + 366 + 365"
      using True march_days_step [of y] march_days_step [of "y + 1"] by simp
    moreover have "march_days (y + 1) \<le> march_days (y + 3)" "march_days (y + 3) \<le> march_days (y + 1) + 732"
      "march_days (y + 1) \<le> march_days (y + 7)" "march_days (y + 7) \<le> march_days (y + 1) + 2196"
      using march_days_range [of 2 "y + 1"] march_days_range [of 6 "y + 1"] by (simp_all add: algebra_simps)
    moreover have "days_from_civil y m d \<le> march_days y + 306 - 719469"
      using days_in_year(2) [OF v] by (simp add: days_from_civil_eq month_days_def)
    ultimately show ?thesis
      using that [of "y + 4"] that [of "y + 8"] leap_after_leap [OF True] False march_days_step [of y] True
      unfolding feb29_eq [of y] feb29_eq [of "y + 4", simplified] feb29_eq [of "y + 8", simplified]
      by (auto simp: add.commute [of y])
  qed
qed

lemma weekday_reached:
  assumes "w < 7" "1 \<le> m" "m \<le> 12"
  obtains d where "valid_date (y, m, d)" "weekday (new_civil y m d h mi) = w"
proof -
  define d where "d = nat (1 + (int w - (days_from_civil y m 1 + 4)) mod 7)"
  have d: "1 \<le> d" "d \<le> 7" "int d = 1 + (int w - (days_from_civil y m 1 + 4)) mod 7"
    using pos_mod_bound [of 7 "int w - (days_from_civil y m 1 + 4)"] by (auto simp: d_def)
  have "days_from_civil y m d = days_from_civil y m 1 + (int d - 1)" by (simp add: days_from_civil_eq)
  then have "(days_from_civil y m d + 4) mod 7
    = (days_from_civil y m 1 + 4 + (int w - (days_from_civil y m 1 + 4)) mod 7) mod 7"
    using d(3) by (simp add: algebra_simps)
  also have "\<dots> = int w" using assms(1) by (simp add: mod_simps)
  finally have "int (weekday (new_civil y m d h mi)) = int w"
    by (simp add: weekday_eq days_from_epoch_def new_civil_def)
  moreover have "valid_date (y, m, d)"
    using d assms month_length_bounds(1) [of y m] by (simp add: valid_date_def)
  ultimately show ?thesis using that by simp
qed

lemma matches_date_cases:
  assumes "matches_date s t"
  shows "month t \<in> set (months s) \<and>
    (day t \<in> set (days_of_month s) \<and> (\<forall>t'. month t' = month t \<longrightarrow> day t' = day t \<longrightarrow> matches_date s t')
     \<or> weekday t \<in> set (days_of_week s) \<and> (\<forall>t'. month t' = month t \<longrightarrow> weekday t' = weekday t \<longrightarrow> matches_date s t')
     \<or> (\<forall>t'. month t' = month t \<longrightarrow> matches_date s t'))"
  using assms by (auto simp: matches_date_def Let_def split: if_splits)

definition near_match :: "CronSchedule \<Rightarrow> int \<Rightarrow> bool" where
  "near_match s n \<longleftrightarrow> (\<exists>Y M D. valid_date (Y, M, D) \<and> (\<forall>h mi. matches_date s (new_civil Y M D h mi))
     \<and> n < days_from_civil Y M D \<and> days_from_civil Y M D \<le> n + 2927)"

lemma near_match_next_year:
  assumes "valid_date (y, m, d)" "valid_date (y + 1, M, D)" "\<And>h mi. matches_date s (new_civil (y + 1) M D h mi)"
  shows "near_match s (days_from_civil y m d)"
  unfolding near_match_def
  using assms next_year_date [OF assms(1,2)] by (intro exI [of _ "y + 1"] exI [of _ M] exI [of _ D]) auto

lemma matching_date_near:
  assumes s: "schedule_wf s" "matches_date s t" "valid_time t" and v: "valid_date (y, m, d)"
  shows "near_match s (days_from_civil y m d)"
proof -
  have mt: "1 \<le> month t" "month t \<le> 12" "1 \<le> day t" "day t \<le> month_length (year t) (month t)"
    using s(3) by (auto simp: valid_time_def valid_date_def)
  from matches_date_cases [OF s(2)] consider
    (dom) "\<forall>t'. month t' = month t \<longrightarrow> day t' = day t \<longrightarrow> matches_date s t'"
  | (dow) "weekday t \<in> set (days_of_week s)" "\<forall>t'. month t' = month t \<longrightarrow> weekday t' = weekday t \<longrightarrow> matches_date s t'"
  | (any) "\<forall>t'. month t' = month t \<longrightarrow> matches_date s t'" by blast
  then show ?thesis
  proof cases
    case dom
    show ?thesis
    proof (cases "month t = 2 \<and> day t = 29")
      case True
      obtain Y where Y: "leap Y" "days_from_civil y m d < days_from_civil Y 2 29"
        "days_from_civil Y 2 29 \<le> days_from_civil y m d + 2927" using v by (rule next_feb29)
      moreover have "matches_date s (new_civil Y 2 29 h mi)" for h mi using dom True by (simp add: new_civil_def)
      ultimately show ?thesis unfolding near_match_def
        by (intro exI [of _ Y] exI [of _ 2] exI [of _ 29]) (simp add: valid_date_def month_length_def)
    next
      case False
      with mt have "valid_date (y + 1, month t, day t)"
        by (auto simp: valid_date_def month_length_def split: if_splits)
      then show ?thesis using dom by (intro near_match_next_year [OF v]) (auto simp: new_civil_def)
    qed
  next
    case dow
    obtain D where D: "valid_date (y + 1, month t, D)" "weekday (new_civil (y + 1) (month t) D 0 0) = weekday t"
      using weekday_reached [of "weekday t" "month t" "y + 1" 0 0] dow(1) s(1) mt by (auto simp: schedule_wf_def)
    have "weekday (new_civil (y + 1) (month t) D h mi) = weekday t" for h mi
      using D(2) by (simp add: weekday_def days_from_epoch_def new_civil_def)
    then show ?thesis using dow(2) by (intro near_match_next_year [OF v D(1)]) (simp add: new_civil_def)
  next
    case any
    have "valid_date (y + 1, month t, 1)" using mt by (simp add: valid_date_def)
    then show ?thesis using any by (intro near_match_next_year [OF v]) (auto simp: new_civil_def)
  qed
qed

section \<open>Printed fields\<close>

lemma show_nat_no [simp]:
  "CHR ''-'' \<notin> set (show_nat n)" "CHR ''/'' \<notin> set (show_nat n)" "show_nat n \<noteq> []" "show_nat n \<noteq> ''*''"
proof -
  show "CHR ''-'' \<notin> set (show_nat n)" "CHR ''/'' \<notin> set (show_nat n)"
    using show_nat_chars [of "CHR ''-''" n] show_nat_chars [of "CHR ''/''" n]
    by (auto simp: is_ascii_digit_def)
  show "show_nat n \<noteq> []" using show_nat_digits [of n] by simp
  show "show_nat n \<noteq> ''*''" using show_nat_chars [of "CHR ''*''" n] by (auto simp: is_ascii_digit_def)
qed

lemma field_value_show:
  "lo \<le> n \<Longrightarrow> n \<le> hi \<Longrightarrow> hi \<le> 4294967295 \<Longrightarrow> field_value (show_nat n) names lo hi = Some n"
  by (simp add: field_value_def parse_show_nat)

lemma split_dash:
  "split_on (CHR ''-'') (show_nat a @ ''-'' @ show_nat b) = [show_nat a, show_nat b]"
  "split_on (CHR ''-'') (show_nat a) = [show_nat a]"
  using split_on_append [of "CHR ''-''" "show_nat a" "show_nat b"] by (simp_all add: split_on_no_sep)

lemma range_body:
  "show_nat a @ ''-'' @ show_nat b \<noteq> ''*''" "CHR ''/'' \<notin> set (show_nat a @ ''-'' @ show_nat b)"
proof -
  show "show_nat a @ ''-'' @ show_nat b \<noteq> ''*''" by (simp add: append_eq_Cons_conv)
  show "CHR ''/'' \<notin> set (show_nat a @ ''-'' @ show_nat b)" by simp
qed

lemma token_range_forms:
  assumes "lo \<le> a" "a \<le> b" "b \<le> hi" "hi \<le> 4294967295"
  shows "token_range ''*'' st lo hi names = Some (lo, hi)"
    and "token_range (show_nat a) st lo hi names = Some (a, if st then hi else a)"
    and "token_range (show_nat a @ ''-'' @ show_nat b) st lo hi names = Some (a, b)"
  using assms range_body [of a b] split_dash(1) [of a b] split_dash(2) [of a]
  by (simp_all add: token_range_def field_value_show)

lemma parse_token_plain:
  "CHR ''/'' \<notin> set body \<Longrightarrow> body \<noteq> [] \<Longrightarrow> token_range body False lo hi names = Some (a, b) \<Longrightarrow> a \<le> b \<Longrightarrow>
   parse_token body lo hi names = Some (step_range a b 1)"
  using split_once_None_iff [of "CHR ''/''" body] by (simp add: parse_token_def)

lemma parse_token_stepped:
  "CHR ''/'' \<notin> set body \<Longrightarrow> token_range body True lo hi names = Some (a, b) \<Longrightarrow> a \<le> b \<Longrightarrow> 0 < k \<Longrightarrow>
   k \<le> 4294967295 \<Longrightarrow> parse_token (body @ ''/'' @ show_nat k) lo hi names = Some (step_range a b k)"
  by (simp add: parse_token_def parse_show_nat)

section \<open>Properties of schedules\<close>

text \<open>
  C2. The next run shown is the right one: the time returned is a real date and
  time, strictly after the given one, at which the schedule runs, and no
  matching time lies in between; when none is returned the schedule never runs
  again, not within eight years and not ever.
\<close>

theorem next_run_earliest:
  assumes "try_parse e = Some s" "valid_time now" "\<bar>epoch_minute now\<bar> \<le> 100000000000000"
  shows "case next_run s now of
      None \<Rightarrow> \<forall>t. valid_time t \<and> epoch_minute now < epoch_minute t \<longrightarrow> \<not> runs_at s t
    | Some t \<Rightarrow> valid_time t \<and> runs_at s t \<and> epoch_minute now < epoch_minute t
        \<and> (\<forall>t'. valid_time t' \<and> runs_at s t' \<and> epoch_minute now < epoch_minute t' \<longrightarrow>
             epoch_minute t \<le> epoch_minute t')"
proof (cases "is_reboot s \<or> minutes s = [] \<or> hours s = []")
  case True
  then show ?thesis by (auto simp: next_run_def runs_at_def)
next
  case False
  let ?start = "epoch_minute now + 1"
  have wf: "schedule_wf s" using assms(1) by (rule try_parse_wf)
  have ready: "search_ready s (sort (hours s)) (sort (minutes s))"
    using wf False by (simp add: search_ready_def schedule_wf_def)
  have "minute_in_range ?start" "minute_in_range (?start + (0 + int SEARCH_DAYS) * 1440)"
    using assms(3) by (auto simp: minute_in_range_def SEARCH_DAYS_def)
  note srch = search_days_correct [OF ready, of ?start 0 SEARCH_DAYS, simplified, OF this [simplified]]
  have day: "?start div 1440 \<le> days_from_epoch t" if "valid_time t" "epoch_minute now < epoch_minute t" for t
    using that epoch_minute_div [OF that(1)] zdiv_mono1 [of ?start "epoch_minute t" 1440] by simp
  have nr: "next_run s now = search_days s ?start (sort (hours s)) (sort (minutes s)) SEARCH_DAYS 0"
    using False by (simp add: next_run_def)
  show ?thesis
  proof (cases "next_run s now")
    case (Some t)
    then have "search_days s ?start (sort (hours s)) (sort (minutes s)) SEARCH_DAYS 0 = Some t" using nr by simp
    with srch day Some show ?thesis by (auto simp: add1_zle_eq)
  next
    case None
    then have none: "search_days s ?start (sort (hours s)) (sort (minutes s)) SEARCH_DAYS 0 = None" using nr by simp
    have False if t: "valid_time t" "runs_at s t" for t
    proof -
      obtain y m d where v: "valid_date (y, m, d)" "days_from_civil y m d = ?start div 1440"
        using days_surj [of "?start div 1440"] by auto
      have "near_match s (?start div 1440)"
        using matching_date_near [OF wf _ t(1) v(1)] t(2) v(2) by (simp add: runs_at_def)
      then obtain Y M D where D: "valid_date (Y, M, D)" "\<And>h mi. matches_date s (new_civil Y M D h mi)"
        "?start div 1440 < days_from_civil Y M D" "days_from_civil Y M D \<le> ?start div 1440 + 2927"
        by (auto simp: near_match_def)
      let ?t = "new_civil Y M D (hour t) (minute t)"
      have r: "valid_time ?t" "runs_at s ?t" "days_from_epoch ?t = days_from_civil Y M D"
        using D(1,2) t by (simp_all add: valid_time_def runs_at_def days_from_epoch_def) (simp_all add: new_civil_def)
      have "?start \<le> epoch_minute ?t"
        using D(3) r(3) epoch_minute_div [OF r(1)] zdiv_mono1 [of "epoch_minute ?t" ?start 1440] by linarith
      with srch none r D(3,4) show False by (fastforce simp: SEARCH_DAYS_def)
    qed
    with None show ?thesis by auto
  qed
qed

lemmas cron_eval = try_parse_eq parse_five_def parse_field_def parse_token_def token_range_def field_value_def
  trim_def trim_start_def trim_end_def split_whitespace_def is_whitespace_def parse_uint_def parse_digits_def
  all_digits_def is_ascii_digit_def digits_val_def digit_val_def step_range_def sort_dedup_def Let_def

lemma demo_schedule:
  "try_parse ''30 3 29 2 *'' = Some \<lparr>minutes = [30], hours = [3], days_of_month = [29], months = [2],
     days_of_week = [0, 1, 2, 3, 4, 5, 6], day_of_month_restricted = True, day_of_week_restricted = False,
     is_reboot = False\<rparr>"
  by (simp add: cron_eval upt_rec)

theorem next_run_earliest_witness:
  "\<exists>s. try_parse ''30 3 29 2 *'' = Some s \<and>
     (case next_run s (new_civil 2023 1 1 0 0) of None \<Rightarrow> \<not> runs_at s (new_civil 2024 2 29 3 30)
      | Some t \<Rightarrow> runs_at s t \<and> epoch_minute t \<le> epoch_minute (new_civil 2024 2 29 3 30))"
proof -
  let ?now = "new_civil 2023 1 1 0 0" and ?t = "new_civil 2024 2 29 3 30"
  have v: "valid_time ?now" "valid_time ?t"
    by (simp_all add: valid_time_def new_civil_def valid_date_def month_length_def leap_def)
  have e: "epoch_minute ?now = 27875520" "epoch_minute ?t = 28486290"
    by (simp_all add: epoch_minute_def days_from_epoch_def new_civil_def days_from_civil_eq march_days_def month_days_def)
  obtain s where s: "try_parse ''30 3 29 2 *'' = Some s" "runs_at s ?t"
    by (simp add: demo_schedule runs_at_def matches_date_def new_civil_def)
  show ?thesis
    using next_run_earliest [OF s(1) v(1)] e v(2) s by (auto split: option.splits)
qed

text \<open>
  C40. A schedule that parses is one of two things. \<open>@reboot\<close>, in any case, is the
  schedule without times: its five lists are empty. Anything else, the other
  macros included, is five fields, each expanded to a non-empty, strictly
  ascending list inside its own range, a Sunday written 7 folded onto 0.
\<close>

theorem parsed_schedule_wf:
  assumes "try_parse e = Some s"
  shows "(\<exists>name. trim e = CHR ''@'' # name \<and> to_lowercase name = ''reboot'' \<and> s = reboot_schedule)
    \<or> \<not> is_reboot s \<and> field_wf 0 59 (minutes s) \<and> field_wf 0 23 (hours s) \<and> field_wf 1 31 (days_of_month s)
      \<and> field_wf 1 12 (months s) \<and> field_wf 0 6 (days_of_week s)"
proof -
  have five: "\<not> is_reboot s \<and> field_wf 0 59 (minutes s) \<and> field_wf 0 23 (hours s) \<and> field_wf 1 31 (days_of_month s)
      \<and> field_wf 1 12 (months s) \<and> field_wf 0 6 (days_of_week s)" if "parse_five f = Some s" for f
    using parse_five_wf [OF that] parse_five_not_reboot [OF that] by (auto simp: schedule_wf_def field_wf_def)
  show ?thesis
  proof (cases "strip_prefix ''@'' (trim e)")
    case None
    then have "parse_five (trim e) = Some s" using assms by (simp add: try_parse_eq Let_def split: if_splits)
    then show ?thesis using five by blast
  next
    case (Some name)
    then have "trim e = CHR ''@'' # name" by (cases "trim e") (auto split: if_splits)
    then show ?thesis
      using assms Some five by (auto simp: try_parse_eq Let_def split: if_splits option.splits)
  qed
qed

theorem parsed_schedule_wf_witness:
  "\<exists>s. try_parse ''30 3 29 2 *'' = Some s \<and> \<not> is_reboot s \<and> field_wf 1 31 (days_of_month s)"
proof -
  have "trim ''30 3 29 2 *'' \<noteq> CHR ''@'' # name" for name
    by (simp add: trim_def trim_start_def trim_end_def is_whitespace_def)
  then show ?thesis using parsed_schedule_wf [OF demo_schedule] demo_schedule by blast
qed

text \<open>
  A field means what its text says: the numbers read are exactly those of
  its comma-separated parts, \<open>*\<close> every value, \<open>a\<close> itself, \<open>a-b\<close> the range,
  and \<open>/k\<close> every k-th value from the start of the part's range.
\<close>

theorem field_meaning:
  assumes "lo \<le> a" "a \<le> b" "b \<le> hi" "hi \<le> 4294967295" "0 < k" "k \<le> 4294967295"
  shows "(parse_token ''*'' lo hi names = Some (step_range lo hi 1))
    \<and> (parse_token (show_nat a) lo hi names = Some [a])
    \<and> (parse_token (show_nat a @ ''-'' @ show_nat b) lo hi names = Some (step_range a b 1))
    \<and> (parse_token (''*/'' @ show_nat k) lo hi names = Some (step_range lo hi k))
    \<and> (parse_token (show_nat a @ ''/'' @ show_nat k) lo hi names = Some (step_range a hi k))
    \<and> (parse_token (show_nat a @ ''-'' @ show_nat b @ ''/'' @ show_nat k) lo hi names = Some (step_range a b k))
    \<and> (v \<in> set (step_range a b k) \<longleftrightarrow> a \<le> v \<and> v \<le> b \<and> k dvd v - a)
    \<and> (parse_field f lo hi names = Some vs \<longrightarrow> (v \<in> set vs \<longleftrightarrow>
      (\<exists>t \<in> set (split_on (CHR '','') f). \<exists>ws. parse_token (trim t) lo hi names = Some ws \<and> v \<in> set ws)))"
proof (intro conjI impI)
  note F = token_range_forms [OF assms(1-4)] and no = range_body [of a b]
  show "parse_token ''*'' lo hi names = Some (step_range lo hi 1)"
    using parse_token_plain [OF _ _ F(1)] assms by simp
  show "parse_token (show_nat a) lo hi names = Some [a]"
    using parse_token_plain [OF _ _ F(2)] assms by (simp add: step_range_def)
  show "parse_token (show_nat a @ ''-'' @ show_nat b) lo hi names = Some (step_range a b 1)"
    using parse_token_plain [OF no(2) _ F(3)] assms by simp
  show "parse_token (''*/'' @ show_nat k) lo hi names = Some (step_range lo hi k)"
    using parse_token_stepped [OF _ F(1)] assms by simp
  show "parse_token (show_nat a @ ''/'' @ show_nat k) lo hi names = Some (step_range a hi k)"
    using parse_token_stepped [OF _ F(2)] assms by simp
  show "parse_token (show_nat a @ ''-'' @ show_nat b @ ''/'' @ show_nat k) lo hi names = Some (step_range a b k)"
    using parse_token_stepped [OF no(2) F(3)] assms by simp
  show "v \<in> set (step_range a b k) \<longleftrightarrow> a \<le> v \<and> v \<le> b \<and> k dvd v - a"
    using assms(5) by (rule step_range_set)
  show "v \<in> set vs \<longleftrightarrow>
    (\<exists>t \<in> set (split_on (CHR '','') f). \<exists>ws. parse_token (trim t) lo hi names = Some ws \<and> v \<in> set ws)"
    if "parse_field f lo hi names = Some vs" using that by (rule parse_field_SomeD)
qed

theorem field_meaning_witness:
  "parse_token (''*/'' @ show_nat 15) 0 59 None = Some (step_range 0 59 15) \<and> 45 \<in> set (step_range 0 59 15)"
  using field_meaning [of 0 0 59 59 15 None 45] by simp

end
