(* ===== verification/Cron_Document.thy ===== *)
theory Cron_Document
  imports Cron_Schedule Common
begin

text \<open>
  The crontab as a document (\<open>crates/sbm_parser/src/cron.rs\<close>): a list of lines,
  the jobs read out of them, the edits, and the listing script's output. The
  abstract view is a list of entries, one per line: a task, or a line kept as
  it is. Edits are proved to be list updates of that view.
\<close>

section \<open>Jobs\<close>

definition NOT_INSTALLED_EXIT :: int where "NOT_INSTALLED_EXIT = 127"
definition MARKER_USER :: string where "MARKER_USER = ''SrvBoxCron.User'' @ [tab]"
definition MARKER_CLOCK :: string where "MARKER_CLOCK = ''SrvBoxCron.Clock'' @ [tab]"
definition MARKER_BODY :: string where "MARKER_BODY = ''SrvBoxCron.Body''"
definition DISABLED_PREFIX :: string where "DISABLED_PREFIX = ''# ServerBox disabled: ''"

datatype CronParseError = InvalidResponse | NoUser

definition show_parse_error :: "CronParseError \<Rightarrow> string" where
  "show_parse_error e = (case e of InvalidResponse \<Rightarrow> ''Invalid crontab response''
     | NoUser \<Rightarrow> ''Unable to determine the current user'')"

datatype CronValidation = ScheduleEmpty | CommandEmpty | LineBreak | Macro | FieldCount | UnknownLine

definition show_validation :: "CronValidation \<Rightarrow> string" where
  "show_validation v = (case v of ScheduleEmpty \<Rightarrow> ''scheduleEmpty'' | CommandEmpty \<Rightarrow> ''commandEmpty''
     | LineBreak \<Rightarrow> ''lineBreak'' | Macro \<Rightarrow> ''macro'' | FieldCount \<Rightarrow> ''fieldCount''
     | UnknownLine \<Rightarrow> ''unknownLine'')"

record CronJob =
  line_index :: nat
  schedule :: string
  command :: string
  enabled :: bool

record CronJobView =
  v_line_index :: nat
  v_schedule :: string
  v_command :: string
  v_enabled :: bool
  v_parsed :: bool
  v_is_reboot :: bool
  v_minutes :: "nat list"
  v_hours :: "nat list"
  v_days_of_month :: "nat list"
  v_months :: "nat list"
  v_days_of_week :: "nat list"
  v_day_of_month_restricted :: bool
  v_day_of_week_restricted :: bool
  v_next_run :: "string option"

definition parsed :: "CronJob \<Rightarrow> CronSchedule option" where
  "parsed j = try_parse (schedule j)"

definition view :: "CronJob \<Rightarrow> CivilTime option \<Rightarrow> CronJobView" where
  "view j now =
     (let s = parsed j;
          lists = (\<lambda>f. case s of Some p \<Rightarrow> f p | None \<Rightarrow> []);
          flag = (\<lambda>f. case s of Some p \<Rightarrow> f p | None \<Rightarrow> False)
      in \<lparr>v_line_index = line_index j, v_schedule = schedule j, v_command = command j,
          v_enabled = enabled j, v_parsed = (s \<noteq> None), v_is_reboot = flag is_reboot,
          v_minutes = lists minutes, v_hours = lists hours, v_days_of_month = lists days_of_month,
          v_months = lists months, v_days_of_week = lists days_of_week,
          v_day_of_month_restricted = flag day_of_month_restricted,
          v_day_of_week_restricted = flag day_of_week_restricted,
          v_next_run = (case now of None \<Rightarrow> None
            | Some t \<Rightarrow> (case s of None \<Rightarrow> None | Some p \<Rightarrow> map_option to_iso (next_run p t)))\<rparr>)"

abbreviation not_ws :: "char \<Rightarrow> bool" where
  "not_ws c \<equiv> \<not> is_whitespace c"

fun take_fields :: "nat \<Rightarrow> string \<Rightarrow> (string list \<times> string) option" where
  "take_fields 0 rest = Some ([], rest)"
| "take_fields (Suc n) rest =
     (let r = trim_start rest in
      if r = [] then None
      else map_option (\<lambda>(fs, r'). (takeWhile not_ws r # fs, r')) (take_fields n (dropWhile not_ws r)))"

definition parse_job_line :: "string \<Rightarrow> (string \<times> string) option" where
  "parse_job_line line =
     (if starts_with ''@'' line then
        (if list_all not_ws line then None
         else (let cmd = trim (dropWhile not_ws line) in
               if cmd = [] then None else Some (takeWhile not_ws line, cmd)))
      else case take_fields 5 line of None \<Rightarrow> None
           | Some (fs, rest) \<Rightarrow>
               (let cmd = trim rest in if cmd = [] then None else Some (join '' '' fs, cmd)))"

text \<open>What one line of the loop of \<open>parse_jobs\<close> reads: schedule, command, enabled.\<close>

definition line_job :: "string \<Rightarrow> (string \<times> string \<times> bool) option" where
  "line_job line =
     (let candidate = trim_start line in
      case strip_prefix DISABLED_PREFIX candidate of
        Some rest \<Rightarrow> map_option (\<lambda>(s, c). (s, c, False)) (parse_job_line (trim_start rest))
      | None \<Rightarrow>
          if candidate = [] \<or> starts_with ''#'' candidate then None
          else map_option (\<lambda>(s, c). (s, c, True)) (parse_job_line candidate))"

fun parse_jobs_from :: "nat \<Rightarrow> string list \<Rightarrow> CronJob list" where
  "parse_jobs_from i [] = []"
| "parse_jobs_from i (l # ls) =
     (case line_job l of None \<Rightarrow> parse_jobs_from (Suc i) ls
      | Some (s, c, e) \<Rightarrow>
          \<lparr>line_index = i, schedule = s, command = c, enabled = e\<rparr> # parse_jobs_from (Suc i) ls)"

definition parse_jobs :: "string list \<Rightarrow> CronJob list" where
  "parse_jobs lines = parse_jobs_from 0 lines"

definition render_job :: "string \<Rightarrow> string \<Rightarrow> bool \<Rightarrow> string" where
  "render_job s c en = (let line = s @ '' '' @ c in if en then line else DISABLED_PREFIX @ line)"

definition has_line_break :: "string \<Rightarrow> bool" where
  "has_line_break v \<longleftrightarrow> nl \<in> set v \<or> cr \<in> set v \<or> nul \<in> set v"

definition validate :: "string \<Rightarrow> string \<Rightarrow> CronValidation option" where
  "validate sch cmd =
     (let clean_schedule = trim sch; clean_command = trim cmd in
      if clean_schedule = [] then Some ScheduleEmpty
      else if clean_command = [] then Some CommandEmpty
      else if has_line_break clean_schedule \<or> has_line_break clean_command then Some LineBreak
      else if starts_with ''@'' clean_schedule then
        (if byte_len clean_schedule = 1 \<or> length (split_whitespace clean_schedule) \<noteq> 1 then Some Macro else None)
      else if length (split_whitespace clean_schedule) \<noteq> 5 then Some FieldCount
      else None)"

section \<open>Documents\<close>

record CronDocument =
  lines :: "string list"
  jobs :: "CronJob list"

definition from_lines :: "string list \<Rightarrow> CronDocument" where
  "from_lines ls = \<lparr>lines = ls, jobs = parse_jobs ls\<rparr>"

definition parse_document :: "string \<Rightarrow> CronDocument" where
  "parse_document raw =
     (let normalized = normalize_newlines raw;
          ls = (if normalized = [] then [] else split_on nl normalized);
          ls' = (if ls \<noteq> [] \<and> last ls = [] then butlast ls else ls)
      in \<lparr>lines = ls', jobs = parse_jobs ls'\<rparr>)"

definition preserved :: "CronDocument \<Rightarrow> string list" where
  "preserved d =
     (let task_lines = map line_index (jobs d) in
      map snd (filter (\<lambda>(i, l). i \<notin> set task_lines \<and> trim l \<noteq> []) (enumerate 0 (lines d))))"

definition render :: "CronDocument \<Rightarrow> string" where
  "render d = (if lines d = [] then [] else join [nl] (lines d) @ [nl])"

definition job_at :: "CronDocument \<Rightarrow> nat \<Rightarrow> (CronValidation, CronJob) result" where
  "job_at d i = (case List.find (\<lambda>j. line_index j = i) (jobs d) of
     None \<Rightarrow> Err UnknownLine | Some j \<Rightarrow> Ok j)"

definition upsert ::
  "CronDocument \<Rightarrow> nat option \<Rightarrow> string \<Rightarrow> string \<Rightarrow> bool \<Rightarrow> (CronValidation, CronDocument) result" where
  "upsert d index sch cmd en =
     (case validate sch cmd of Some e \<Rightarrow> Err e
      | None \<Rightarrow>
          (let line = render_job (trim sch) (trim cmd) en in
           case index of
             None \<Rightarrow> Ok (from_lines (lines d @ [line]))
           | Some i \<Rightarrow>
               (case job_at d i of Inl e \<Rightarrow> Err e
                | Inr _ \<Rightarrow> if i < length (lines d) then Ok (from_lines ((lines d)[i := line]))
                            else Err UnknownLine)))"

text \<open>\<open>Vec::remove\<close> panics out of range; a job's index never is (\<open>job_index_in_range\<close>).\<close>

definition remove :: "CronDocument \<Rightarrow> nat \<Rightarrow> (CronValidation, CronDocument) result" where
  "remove d i =
     (case job_at d i of Inl e \<Rightarrow> Err e
      | Inr _ \<Rightarrow> Ok (from_lines (take i (lines d) @ drop (Suc i) (lines d))))"

definition set_enabled :: "CronDocument \<Rightarrow> nat \<Rightarrow> bool \<Rightarrow> (CronValidation, CronDocument) result" where
  "set_enabled d i en =
     (case job_at d i of Inl e \<Rightarrow> Err e
      | Inr j \<Rightarrow> upsert d (Some i) (schedule j) (command j) en)"

section \<open>The listing\<close>

definition is_no_crontab :: "string \<Rightarrow> bool" where
  "is_no_crontab stderr =
     (let line = to_lowercase (trim stderr) in
      contains_sub ''no crontab for '' line
      \<or> (starts_with (''crontab: can'' @ [CHR 0x27] @ ''t open '' @ [CHR 0x27]) line
         \<and> ends_with ''no such file or directory'' line))"

record CronFailure =
  not_installed :: bool
  detail :: "string option"

definition from_output :: "string \<Rightarrow> string \<Rightarrow> int option \<Rightarrow> CronFailure" where
  "from_output stdout stderr exit_code =
     (let d = (if trim stderr = [] then trim stdout else trim stderr) in
      \<lparr>not_installed = (exit_code = Some NOT_INSTALLED_EXIT), detail = (if d = [] then None else Some d)\<rparr>)"

record CronCatalog =
  user :: string
  document :: CronDocument
  clock :: "CronClock option"

definition parse_list :: "string \<Rightarrow> (CronParseError, CronCatalog) result" where
  "parse_list output =
     (let normalized = normalize_newlines output; body_marker = MARKER_BODY @ [nl] in
      case find_sub body_marker normalized of None \<Rightarrow> Err InvalidResponse
      | Some body_start \<Rightarrow>
          (let header = take body_start normalized in
           case List.find (starts_with MARKER_USER) (split_on nl header) of None \<Rightarrow> Err NoUser
           | Some user_line \<Rightarrow>
               (let u = trim (drop (length MARKER_USER) user_line) in
                if u = [] then Err NoUser
                else Ok \<lparr>user = u,
                         document = parse_document (drop (body_start + length body_marker) normalized),
                         clock = (case List.find (starts_with MARKER_CLOCK) (split_on nl header) of
                             None \<Rightarrow> None
                           | Some l \<Rightarrow> clock_try_parse (drop (length MARKER_CLOCK) l))\<rparr>)))"

definition read_listing ::
  "string \<Rightarrow> string \<Rightarrow> int option \<Rightarrow> bool \<Rightarrow> (CronFailure, CronCatalog) result" where
  "read_listing stdout stderr exit_code succeeded =
     (let no_crontab = (exit_code = Some 1 \<and> is_no_crontab stderr) in
      if \<not> succeeded \<and> \<not> no_crontab then Err (from_output stdout stderr exit_code)
      else case parse_list stdout of
             Inl e \<Rightarrow> Err \<lparr>not_installed = False, detail = Some (show_parse_error e)\<rparr>
           | Inr c \<Rightarrow> Ok c)"

definition check_save :: "string \<Rightarrow> string \<Rightarrow> int option \<Rightarrow> bool \<Rightarrow> (CronFailure, unit) result" where
  "check_save stdout stderr exit_code succeeded =
     (if succeeded then Ok () else Err (from_output stdout stderr exit_code))"

section \<open>The abstract view\<close>

datatype cron_entry = Task string string bool | Other string

definition entry_of :: "string \<Rightarrow> cron_entry" where
  "entry_of l = (case line_job l of Some (s, c, e) \<Rightarrow> Task s c e | None \<Rightarrow> Other l)"

definition entries_of :: "CronDocument \<Rightarrow> cron_entry list" where
  "entries_of d = map entry_of (lines d)"

definition is_task :: "cron_entry \<Rightarrow> bool" where
  "is_task e = (case e of Task _ _ _ \<Rightarrow> True | Other _ \<Rightarrow> False)"

definition doc_inv :: "CronDocument \<Rightarrow> bool" where
  "doc_inv d \<longleftrightarrow> jobs d = parse_jobs (lines d)"

text \<open>The schedule as it is read back: the five fields, one space apart.\<close>

definition clean_schedule :: "string \<Rightarrow> string" where
  "clean_schedule s = join '' '' (split_whitespace s)"

section \<open>Reading a job back\<close>

lemma first_word:
  fixes s
  defines "w \<equiv> takeWhile not_ws (trim_start s)" and "t \<equiv> dropWhile not_ws (trim_start s)"
  assumes "trim_start s \<noteq> []"
  shows "is_word w" "t = [] \<or> is_whitespace (hd t)" "split_whitespace s = w # split_whitespace t"
proof -
  show w: "is_word w" using assms(3) trim_start_hd [OF assms(3)]
    by (cases "trim_start s") (auto simp: w_def is_word_def dest: set_takeWhileD)
  show t: "t = [] \<or> is_whitespace (hd t)" using hd_dropWhile [of not_ws "trim_start s"] by (auto simp: t_def)
  obtain p where p: "s = p @ trim_start s" "\<forall>c \<in> set p. is_whitespace c" using trim_start_suffix [of s] by blast
  then have "split_whitespace s = split_whitespace (w @ t)"
    using split_whitespace_ws_append [of p "trim_start s"] by (simp add: w_def t_def)
  also have "\<dots> = w # split_whitespace t"
    using w t by (cases t) (simp_all add: split_whitespace_word split_whitespace_word_ws split_whitespace_Cons_ws)
  finally show "split_whitespace s = w # split_whitespace t" .
qed

lemma trim_start_Nil_iff: "trim_start s = [] \<longleftrightarrow> (\<forall>c \<in> set s. is_whitespace c)"
  by (simp add: trim_start_def)

lemma split_whitespace_Nil_iff: "split_whitespace s = [] \<longleftrightarrow> (\<forall>c \<in> set s. is_whitespace c)"
  using first_word(3) [of s] split_whitespace_ws_append [of s "[]"]
  by (cases "trim_start s = []") (auto simp: trim_start_Nil_iff)

lemma split_whitespace_cases:
  assumes "split_whitespace s = w # ws"
  shows "\<exists>s2. trim_start s = w @ s2 \<and> is_word w \<and> (s2 = [] \<or> is_whitespace (hd s2)) \<and> split_whitespace s2 = ws"
proof -
  have "trim_start s \<noteq> []" using assms split_whitespace_Nil_iff [of s] by (auto simp: trim_start_Nil_iff)
  from first_word [OF this] assms show ?thesis
    by (intro exI [of _ "dropWhile not_ws (trim_start s)"]) auto
qed

lemma trim_start_append: "trim_start s \<noteq> [] \<Longrightarrow> trim_start (s @ t) = trim_start s @ t"
  by (induction s) (auto simp: str_simps)

lemma word_takeWhile:
  "is_word w \<Longrightarrow> t = [] \<or> is_whitespace (hd t) \<Longrightarrow> takeWhile not_ws (w @ t) = w \<and> dropWhile not_ws (w @ t) = t"
  by (cases t) (auto simp: is_word_def takeWhile_append2 dropWhile_append2)

lemma take_fields_split:
  "\<exists>t. take_fields (length (split_whitespace s)) (s @ CHR '' '' # c) = Some (split_whitespace s, t @ CHR '' '' # c)
     \<and> (\<forall>x \<in> set t. is_whitespace x)"
proof (induction "split_whitespace s" arbitrary: s)
  case Nil
  then show ?case using split_whitespace_Nil_iff [of s] by (intro exI [of _ s]) simp
next
  case (Cons w ws)
  then obtain s2 where s2: "trim_start s = w @ s2" "is_word w" "s2 = [] \<or> is_whitespace (hd s2)"
    "split_whitespace s2 = ws" using split_whitespace_cases [of s w ws] by auto
  have "trim_start s \<noteq> []" using s2(1,2) by (auto simp: is_word_def)
  then have ts: "trim_start (s @ CHR '' '' # c) = w @ s2 @ CHR '' '' # c"
    by (simp add: trim_start_append s2(1))
  have tw: "takeWhile not_ws (w @ s2 @ CHR '' '' # c) = w \<and> dropWhile not_ws (w @ s2 @ CHR '' '' # c) = s2 @ CHR '' '' # c"
    using s2(3) by (intro word_takeWhile [OF s2(2)]) (cases s2; simp)
  have "w \<noteq> []" using s2(2) by (simp add: is_word_def)
  with Cons(1) [OF s2(4) [symmetric]] Cons(2) ts tw s2(4) show ?case
    by (auto simp: Let_def simp flip: Cons(2))
qed

lemma trim_ws_append: "(\<forall>c \<in> set t. is_whitespace c) \<Longrightarrow> trim (t @ s) = trim s"
  by (simp add: trim_def trim_start_ws_append)

lemma validateD:
  assumes "validate sch cmd = None"
  shows "trim sch \<noteq> []" "trim cmd \<noteq> []"
    and "\<not> has_line_break (trim sch)" "\<not> has_line_break (trim cmd)"
    and "starts_with ''@'' (trim sch) \<Longrightarrow> length (split_whitespace (trim sch)) = 1"
    and "\<not> starts_with ''@'' (trim sch) \<Longrightarrow> length (split_whitespace (trim sch)) = 5"
  using assms by (auto simp: validate_def Let_def split: if_splits)

lemma one_word: "length (split_whitespace s) = 1 \<Longrightarrow> trim s = s \<Longrightarrow> is_word s"
proof -
  assume len: "length (split_whitespace s) = 1" and trim: "trim s = s"
  obtain w where w: "split_whitespace s = [w]" using len by (cases "split_whitespace s") auto
  from split_whitespace_cases [OF w] obtain t where t: "trim_start s = w @ t" "is_word w"
    "split_whitespace t = []" by auto
  have "trim_start s = s" using trim by (metis trim_start_trim)
  then have s: "s = w @ t" using t by simp
  have "t = []"
  proof (rule ccontr)
    assume "t \<noteq> []"
    then have "is_whitespace (last s)" using t(3) s by (simp add: split_whitespace_Nil_iff)
    with trim_last [of s] trim s \<open>t \<noteq> []\<close> show False by simp
  qed
  with t s show ?thesis by simp
qed

lemma parse_job_line_valid:
  assumes "validate sch cmd = None"
  shows "parse_job_line (trim sch @ '' '' @ trim cmd) = Some (clean_schedule (trim sch), trim cmd)"
proof (cases "starts_with ''@'' (trim sch)")
  case True
  note V = validateD [OF assms]
  have w: "is_word (trim sch)" using V(5) [OF True] by (intro one_word) simp_all
  then have "takeWhile not_ws (trim sch @ '' '' @ trim cmd) = trim sch \<and> dropWhile not_ws (trim sch @ '' '' @ trim cmd) = '' '' @ trim cmd"
    by (intro word_takeWhile) simp_all
  moreover have "starts_with ''@'' (trim sch @ '' '' @ trim cmd)" using True by (cases "trim sch") simp_all
  moreover have "trim ('' '' @ trim cmd) = trim cmd" using trim_ws_append [of "'' ''" "trim cmd"] by simp
  ultimately show ?thesis
    using V(2) w by (simp add: parse_job_line_def Let_def clean_schedule_def split_whitespace_word)
next
  case False
  note V = validateD [OF assms]
  have "\<not> starts_with ''@'' (trim sch @ '' '' @ trim cmd)" using False V(1) by (cases "trim sch") simp_all
  moreover obtain t where "take_fields 5 (trim sch @ CHR '' '' # trim cmd)
      = Some (split_whitespace (trim sch), t @ CHR '' '' # trim cmd)" "\<forall>x \<in> set t. is_whitespace x"
    using take_fields_split [of "trim sch" "trim cmd"] V(6) [OF False] by auto
  moreover have "trim (t @ CHR '' '' # trim cmd) = trim cmd" if "\<forall>x \<in> set t. is_whitespace x" for t
    using that trim_ws_append [of "t @ '' ''" "trim cmd"] by simp
  ultimately show ?thesis
    using V(2) by (simp add: parse_job_line_def Let_def clean_schedule_def del: take_fields.simps)
qed

lemma line_job_render:
  assumes "validate sch cmd = None" and "en \<Longrightarrow> hd (trim sch) \<noteq> CHR ''#''"
  shows "line_job (render_job (trim sch) (trim cmd) en) = Some (clean_schedule (trim sch), trim cmd, en)"
proof -
  let ?l = "trim sch @ '' '' @ trim cmd"
  note V = validateD [OF assms(1)] and P = parse_job_line_valid [OF assms(1)]
  have l: "trim_start ?l = ?l" using trim_hd [of sch] V(1) by (intro trim_start_eq_self) simp
  show ?thesis
  proof (cases en)
    case True
    have hd: "hd ?l \<noteq> CHR ''#''" using assms(2) [OF True] V(1) by simp
    then have "strip_prefix DISABLED_PREFIX ?l = None"
      by (auto simp: DISABLED_PREFIX_def strip_prefix_None_iff)
    with True l P hd show ?thesis by (simp add: line_job_def render_job_def Let_def)
  next
    case False
    have "trim_start (DISABLED_PREFIX @ ?l) = DISABLED_PREFIX @ ?l"
      by (rule trim_start_eq_self) (simp add: DISABLED_PREFIX_def is_whitespace_def)
    with False l P show ?thesis by (simp add: line_job_def render_job_def Let_def)
  qed
qed

section \<open>Documents and their entries\<close>

lemma parse_jobs_index: "j \<in> set (parse_jobs_from n ls) \<Longrightarrow> n \<le> line_index j"
  by (induction ls arbitrary: n) (fastforce split: option.splits)+

lemma find_parse_jobs:
  "List.find (\<lambda>j. line_index j = i + k) (parse_jobs_from i ls) =
     (if k < length ls then map_option (\<lambda>(s, c, e). \<lparr>line_index = i + k, schedule = s, command = c, enabled = e\<rparr>)
        (line_job (ls ! k)) else None)"
proof (induction ls arbitrary: i k)
  case (Cons l ls)
  have skip: "List.find (\<lambda>j. line_index j = i) (parse_jobs_from (Suc i) ls) = None"
    using parse_jobs_index [of _ "Suc i" ls] by (fastforce simp: find_None_iff)
  show ?case
  proof (cases k)
    case 0
    with skip show ?thesis by (auto split: option.splits)
  next
    case (Suc k')
    with Cons [of "Suc i" k'] show ?thesis by (auto split: option.splits)
  qed
qed simp

lemma from_lines_inv [simp]: "doc_inv (from_lines ls)"
  by (simp add: doc_inv_def from_lines_def)

lemma parse_document_inv [simp]: "doc_inv (parse_document raw)"
  by (simp add: doc_inv_def parse_document_def Let_def)

lemma lines_from_lines [simp]: "lines (from_lines ls) = ls"
  by (simp add: from_lines_def)

lemma job_at_eq:
  assumes "doc_inv d"
  shows "job_at d i = (if i < length (lines d) then
      (case line_job (lines d ! i) of None \<Rightarrow> Err UnknownLine
       | Some (s, c, e) \<Rightarrow> Ok \<lparr>line_index = i, schedule = s, command = c, enabled = e\<rparr>)
    else Err UnknownLine)"
  using assms find_parse_jobs [of 0 i "lines d"]
  by (auto simp: job_at_def doc_inv_def parse_jobs_def split: option.splits)

lemma job_index_in_range:
  "doc_inv d \<Longrightarrow> job_at d i = Ok j \<Longrightarrow> i < length (lines d) \<and> line_index j = i"
  by (auto simp: job_at_eq split: if_splits option.splits)

lemma job_at_entry:
  assumes "doc_inv d" "i < length (lines d)"
  shows "job_at d i = (case entries_of d ! i of Task s c e \<Rightarrow> Ok \<lparr>line_index = i, schedule = s, command = c, enabled = e\<rparr>
    | Other _ \<Rightarrow> Err UnknownLine)"
  using assms by (auto simp: job_at_eq entries_of_def entry_of_def split: option.splits)

lemma entries_from_lines: "entries_of (from_lines ls) = map entry_of ls"
  by (simp add: entries_of_def)

lemma upsert_eq:
  assumes "doc_inv d" "validate sch cmd = None"
  shows "upsert d None sch cmd en = Ok (from_lines (lines d @ [render_job (trim sch) (trim cmd) en]))"
    and "upsert d (Some i) sch cmd en = (case job_at d i of Inl e \<Rightarrow> Err e
      | Inr _ \<Rightarrow> Ok (from_lines ((lines d)[i := render_job (trim sch) (trim cmd) en])))"
  using assms job_index_in_range [OF assms(1), of i]
  by (auto simp: upsert_def Let_def split: sum.splits)

section \<open>What a job line reads as\<close>

lemma take_fields_words: "take_fields n r = Some (fs, r') \<Longrightarrow> words fs \<and> length fs = n"
proof (induction n arbitrary: r fs)
  case (Suc n)
  then have ne: "trim_start r \<noteq> []" by (auto simp: Let_def split: if_splits)
  from Suc.prems ne obtain gs where gs: "fs = takeWhile not_ws (trim_start r) # gs"
    "take_fields n (dropWhile not_ws (trim_start r)) = Some (gs, r')" by (auto simp: Let_def)
  with Suc.IH [OF gs(2)] first_word(1) [OF ne] show ?case by (simp add: words_def)
qed (simp add: words_def)

lemma join_words_trim:
  assumes "words fs" "fs \<noteq> []"
  shows "trim (join '' '' fs) = join '' '' fs"
proof -
  have "join '' '' fs \<noteq> [] \<and> not_ws (hd (join '' '' fs)) \<and> not_ws (last (join '' '' fs))"
    using assms
  proof (induction fs rule: induct_list012)
    case (3 w v fs)
    then show ?case by (simp add: words_def is_word_def)
  qed (simp_all add: words_def is_word_def)
  then show ?thesis by (intro trim_eq_self) auto
qed

lemma parse_job_line_clean:
  assumes "parse_job_line l = Some (s, c)"
  shows "trim s = s" "trim c = c" "clean_schedule s = s"
proof -
  consider (mac) "starts_with ''@'' l" "s = takeWhile not_ws l" "c = trim (dropWhile not_ws l)"
    | (five) fs r where "take_fields 5 l = Some (fs, r)" "s = join '' '' fs" "c = trim r"
    using assms by (auto simp: parse_job_line_def Let_def split: if_splits option.splits)
  then have "trim s = s \<and> trim c = c \<and> clean_schedule s = s"
  proof cases
    case mac
    then have "is_word s"
      by (cases l) (auto simp: is_word_def is_whitespace_def dest: set_takeWhileD)
    then have "trim s = s" "split_whitespace s = [s]"
      by (auto simp: is_word_def split_whitespace_word intro!: trim_eq_self)
    then show ?thesis using mac by (simp add: clean_schedule_def)
  next
    case five
    from take_fields_words [OF five(1)] have "words fs" "fs \<noteq> []" by auto
    then show ?thesis using five join_words_trim by (simp add: clean_schedule_def split_whitespace_join)
  qed
  then show "trim s = s" "trim c = c" "clean_schedule s = s" by blast+
qed

lemma line_job_clean:
  assumes "line_job l = Some (s, c, e)"
  shows "trim s = s \<and> trim c = c \<and> clean_schedule s = s"
  using assms parse_job_line_clean
  by (auto simp: line_job_def Let_def split: option.splits if_splits)

section \<open>Text and lines\<close>

definition line_ok :: "string \<Rightarrow> bool" where
  "line_ok l \<longleftrightarrow> nl \<notin> set l \<and> cr \<notin> set l"

lemma parse_render:
  assumes "\<forall>l \<in> set ls. line_ok l"
  shows "parse_document (render (from_lines ls)) = from_lines ls"
proof (cases "ls = []")
  case True
  then show ?thesis by (simp add: render_def parse_document_def normalize_id from_lines_def)
next
  case False
  let ?t = "join [nl] ls @ [nl]"
  have cr: "cr \<notin> set ?t" using assms set_join [of cr "[nl]" ls] by (auto simp: line_ok_def cr_def nl_def)
  have "split_on nl ?t = ls @ [[]]"
  proof -
    have "nl \<notin> set w" if "w \<in> set (ls @ [[]])" for w using that assms by (auto simp: line_ok_def)
    then have "split_on nl (join [nl] (ls @ [[]])) = ls @ [[]]" by (intro split_on_join) auto
    then show ?thesis using False by (simp add: join_snoc)
  qed
  with False cr show ?thesis
    by (simp add: render_def parse_document_def normalize_id from_lines_def Let_def)
qed

lemma lines_parse_document:
  "lines (parse_document raw) =
     (let ls = split_on nl (normalize_newlines raw) in
      if normalize_newlines raw = [] then [] else if last ls = [] then butlast ls else ls)"
  by (simp add: parse_document_def Let_def)

lemma split_on_last_Nil:
  assumes "n \<noteq> []"
  shows "last (split_on c n) = [] \<longleftrightarrow> last n = c"
    and "last n = c \<Longrightarrow> butlast (split_on c n) \<noteq> [] \<and> join [c] (butlast (split_on c n)) @ [c] = n"
proof -
  have snoc: "split_on c n = split_on c (butlast n) @ [[]]" if "last n = c"
  proof -
    have "n = butlast n @ [c]" using that assms by (metis append_butlast_last_id)
    then have "join [c] (split_on c (butlast n) @ [[]]) = n" by (simp add: join_snoc)
    moreover have "c \<notin> set w" if "w \<in> set (split_on c (butlast n) @ [[]])" for w
      using that split_on_parts [of w c "butlast n"] by auto
    ultimately show ?thesis using split_on_join [of "split_on c (butlast n) @ [[]]" c] by simp
  qed
  then show "last n = c \<Longrightarrow> butlast (split_on c n) \<noteq> [] \<and> join [c] (butlast (split_on c n)) @ [c] = n"
    using assms by (metis append_butlast_last_id butlast_snoc join_split_on split_on_not_Nil)
  have "last n = c" if "last (split_on c n) = []"
  proof -
    let ?b = "butlast (split_on c n)"
    have s: "split_on c n = ?b @ [[]]" using that by (metis append_butlast_last_id split_on_not_Nil)
    then have "?b \<noteq> []" using assms join_split_on [of c n] by (metis append_Nil join.simps(2))
    then have "n = join [c] ?b @ [c]" using s join_snoc [of ?b "[c]" "[]"] join_split_on [of c n] by simp
    then show ?thesis by (metis last_snoc)
  qed
  with snoc show "last (split_on c n) = [] \<longleftrightarrow> last n = c" by (metis last_snoc)
qed

lemma render_parse:
  "render (parse_document raw) =
     (let n = normalize_newlines raw in if n = [] \<or> last n = nl then n else n @ [nl])"
  using split_on_last_Nil [of "normalize_newlines raw" nl]
  by (simp add: render_def lines_parse_document Let_def)

section \<open>Properties of the crontab\<close>

lemma entry_of_render:
  "validate sch cmd = None \<Longrightarrow> (en \<Longrightarrow> hd (trim sch) \<noteq> CHR ''#'') \<Longrightarrow>
   entry_of (render_job (trim sch) (trim cmd) en) = Task (clean_schedule (trim sch)) (trim cmd) en"
  by (simp add: entry_of_def line_job_render)

lemma entry_of_task_clean:
  "entry_of l = Task s c e \<Longrightarrow> trim s = s \<and> trim c = c \<and> clean_schedule s = s"
  using line_job_clean by (auto simp: entry_of_def split: option.splits)

text \<open>
  C31. Saving a task changes exactly that task: as a list of entries, appending
  or replacing is an append or a list update with the task as written (its
  fields one space apart, its command and its on/off state as given), every
  other line keeps its entry, and the task reads back under its index. A
  schedule that would be written as a comment is excluded.
\<close>

theorem upsert_refines_list_update:
  assumes "doc_inv d" "validate sch cmd = None" "en \<longrightarrow> hd (trim sch) \<noteq> CHR ''#''"
  shows "(\<exists>d'. upsert d None sch cmd en = Ok d' \<and> doc_inv d'
      \<and> entries_of d' = entries_of d @ [Task (clean_schedule (trim sch)) (trim cmd) en])
    \<and> (upsert d (Some i) sch cmd en =
        (if i < length (lines d) \<and> is_task (entries_of d ! i)
         then Ok (from_lines ((lines d)[i := render_job (trim sch) (trim cmd) en])) else Err UnknownLine))
    \<and> (i < length (lines d) \<longrightarrow>
        entries_of (from_lines ((lines d)[i := render_job (trim sch) (trim cmd) en])) =
          (entries_of d)[i := Task (clean_schedule (trim sch)) (trim cmd) en])"
proof -
  have t: "entry_of (render_job (trim sch) (trim cmd) en) = Task (clean_schedule (trim sch)) (trim cmd) en"
    using assms(2,3) by (intro entry_of_render) simp_all
  have "job_at d i = Err UnknownLine" if "\<not> i < length (lines d)" using that job_at_eq [OF assms(1)] by simp
  then have "upsert d (Some i) sch cmd en =
        (if i < length (lines d) \<and> is_task (entries_of d ! i)
         then Ok (from_lines ((lines d)[i := render_job (trim sch) (trim cmd) en])) else Err UnknownLine)"
    using job_at_entry [OF assms(1), of i]
    by (cases "i < length (lines d)")
      (auto simp: upsert_eq(2) [OF assms(1,2)] is_task_def split: cron_entry.splits)
  with t show ?thesis
    by (simp add: upsert_eq(1) [OF assms(1,2)] entries_of_def map_update)
qed

lemmas document_eval = cron_eval validate_def has_line_break_def nl_def cr_def nul_def starts_with_def
  line_job_def parse_job_line_def entry_of_def entries_of_def DISABLED_PREFIX_def

theorem upsert_refines_list_update_witness:
  "\<exists>d'. upsert (from_lines [''# note'']) None '' 0   3 * * *'' ''backup '' False = Ok d'
     \<and> entries_of d' = [Other ''# note'', Task ''0 3 * * *'' ''backup'' False]"
proof -
  have "validate '' 0   3 * * *'' ''backup '' = None" by (simp add: document_eval)
  moreover have "clean_schedule (trim '' 0   3 * * *'') = ''0 3 * * *''" "trim ''backup '' = ''backup''"
    by (simp_all add: clean_schedule_def document_eval)
  moreover have "entries_of (from_lines [''# note'']) = [Other ''# note'']" by (simp add: document_eval)
  ultimately show ?thesis
    using upsert_refines_list_update [of "from_lines [''# note'']" "'' 0   3 * * *''" "''backup ''" False 0] by auto
qed

text \<open>
  Removing a task removes that line and no other, and is refused for a line
  that is not a task; switching a task on or off changes that state and nothing
  else, neither the schedule nor the command nor any other line.
\<close>

theorem remove_and_toggle_refine:
  assumes "doc_inv d" "i < length (lines d)" "entries_of d ! i = Task s c e"
    and "validate s c = None" "en \<longrightarrow> hd s \<noteq> CHR ''#''"
  shows "(\<exists>d'. remove d i = Ok d' \<and> doc_inv d' \<and> entries_of d' = take i (entries_of d) @ drop (Suc i) (entries_of d))
    \<and> (\<exists>d'. set_enabled d i en = Ok d' \<and> doc_inv d' \<and> entries_of d' = (entries_of d)[i := Task s c en])
    \<and> (j < length (lines d) \<and> entries_of d ! j = Other l \<longrightarrow>
        remove d j = Err UnknownLine \<and> set_enabled d j en = Err UnknownLine)"
proof -
  have j: "job_at d i = Ok \<lparr>line_index = i, schedule = s, command = c, enabled = e\<rparr>"
    using job_at_entry [OF assms(1,2)] assms(3) by simp
  have "entry_of (lines d ! i) = Task s c e" using assms(2,3) by (simp add: entries_of_def)
  note clean = entry_of_task_clean [OF this]
  have "set_enabled d i en = Ok (from_lines ((lines d)[i := render_job s c en]))"
    using j upsert_eq(2) [OF assms(1,4)] clean by (simp add: set_enabled_def)
  moreover have "entry_of (render_job s c en) = Task s c en"
    using entry_of_render [OF assms(4), of en] assms(5) clean by simp
  moreover have "remove d j = Err UnknownLine \<and> set_enabled d j en = Err UnknownLine"
    if "j < length (lines d)" "entries_of d ! j = Other l" for j l
    using that job_at_entry [OF assms(1), of j] by (simp add: remove_def set_enabled_def)
  ultimately show ?thesis
    using j by (auto simp: remove_def entries_of_def map_update take_map drop_map)
qed

theorem remove_and_toggle_refine_witness:
  "\<exists>d'. set_enabled (from_lines [''# note'', ''0 3 * * * backup'']) 1 False = Ok d'
     \<and> entries_of d' = [Other ''# note'', Task ''0 3 * * *'' ''backup'' False]"
proof -
  let ?d = "from_lines [''# note'', ''0 3 * * * backup'']"
  have e: "entries_of ?d = [Other ''# note'', Task ''0 3 * * *'' ''backup'' True]"
    by (simp add: document_eval numeral_eq_Suc)
  have "validate ''0 3 * * *'' ''backup'' = None" by (simp add: document_eval)
  then show ?thesis
    using remove_and_toggle_refine [of ?d 1 "''0 3 * * *''" "''backup''" True False] e by (auto simp: e)
qed

text \<open>
  What the exclusion above is for: a schedule of five fields that starts
  with \<open>#\<close> passes validation, and saving it as an enabled task writes a comment.
  The edit is reported as done, and the task is not in the document.
\<close>

theorem comment_schedule_is_lost:
  assumes "doc_inv d" "validate sch cmd = None" "hd (trim sch) = CHR ''#''"
    and "strip_prefix DISABLED_PREFIX (trim sch @ '' '' @ trim cmd) = None"
  shows "\<exists>d'. upsert d None sch cmd True = Ok d'
    \<and> entries_of d' = entries_of d @ [Other (trim sch @ '' '' @ trim cmd)]"
proof -
  let ?l = "trim sch @ '' '' @ trim cmd"
  have "trim_start ?l = ?l" using validateD(1) [OF assms(2)] trim_hd [of sch] by (intro trim_start_eq_self) simp
  moreover have "starts_with ''#'' ?l" using assms(3) validateD(1) [OF assms(2)] by simp
  ultimately have "entry_of ?l = Other ?l" using assms(4) by (simp add: entry_of_def line_job_def Let_def)
  then show ?thesis by (simp add: upsert_eq(1) [OF assms(1,2)] entries_of_def render_job_def Let_def)
qed

theorem comment_schedule_is_lost_witness:
  "\<exists>d'. upsert (from_lines []) None ''# 3 * * *'' ''backup'' True = Ok d' \<and> entries_of d' = [Other ''# 3 * * * backup'']"
proof -
  have "validate ''# 3 * * *'' ''backup'' = None" by (simp add: document_eval)
  moreover have "trim ''# 3 * * *'' = ''# 3 * * *''" "trim ''backup'' = ''backup''" by (simp_all add: document_eval)
  ultimately show ?thesis
    using comment_schedule_is_lost [of "from_lines []" "''# 3 * * *''" "''backup''"]
    by (simp add: DISABLED_PREFIX_def entries_from_lines)
qed

text \<open>
  Nothing in a crontab is lost on the way: text that is read and written
  back is the same text with its line endings normalised (a missing final line
  break added), and a document written out reads back as the same lines and jobs.
\<close>

theorem crontab_text_roundtrip:
  "render (parse_document raw) =
     (let n = normalize_newlines raw in if n = [] \<or> last n = nl then n else n @ [nl])
   \<and> ((\<forall>l \<in> set ls. line_ok l) \<longrightarrow> parse_document (render (from_lines ls)) = from_lines ls)"
  using render_parse parse_render by blast

theorem crontab_text_roundtrip_witness:
  "parse_document (render (from_lines [''# note'', ''0 3 * * * backup''])) = from_lines [''# note'', ''0 3 * * * backup'']"
  using crontab_text_roundtrip [of "[]" "[''# note'', ''0 3 * * * backup'']"]
  by (simp add: line_ok_def nl_def cr_def)

end
