(* ===== verification/Ipv4.thy ===== *)
theory Ipv4
  imports Rust_Str "HOL-Library.Word"
begin

text \<open>
  IPv4 addresses and subnets of the network forms
  (\<open>crates/sbm_virt/src/resource/ipv4.rs\<close>), at the width of the source:
  addresses are 32-bit words, the DHCP arithmetic is done on \<open>u64\<close> values far
  below their bound, as natural numbers.
\<close>

unbundle bit_operations_syntax

fun parse_octets :: "string list \<Rightarrow> 32 word \<Rightarrow> 32 word option" where
  "parse_octets [] out = Some out"
| "parse_octets (p # ps) out =
     (if p = [] \<or> length p > 3 \<or> \<not> all_digits p then None
      else case parse_u32 p of None \<Rightarrow> None
           | Some n \<Rightarrow> if n > 255 then None else parse_octets ps (push_bit 8 out OR word_of_nat n))"

definition parse_ipv4 :: "string \<Rightarrow> 32 word option" where
  "parse_ipv4 s =
     (let parts = split_on (CHR ''.'') (trim s) in
      if length parts \<noteq> 4 then None else parse_octets parts 0)"

definition octet :: "nat \<Rightarrow> 32 word \<Rightarrow> nat" where
  "octet i a = unat (take_bit 8 (drop_bit (24 - 8 * i) a))"

definition format_ipv4 :: "32 word \<Rightarrow> string" where
  "format_ipv4 a = join ''.'' (map (\<lambda>i. show_nat (octet i a)) [0, 1, 2, 3])"

definition mask :: "nat \<Rightarrow> 32 word" where
  "mask prefix = (if prefix = 0 then 0 else push_bit (32 - min prefix 32) (- 1))"

definition split :: "string \<Rightarrow> (32 word \<times> nat) option" where
  "split cidr =
     (case split_once (CHR ''/'') (trim cidr) of None \<Rightarrow> None
      | Some (address, prefix) \<Rightarrow>
          if CHR ''/'' \<in> set prefix then None
          else (case parse_ipv4 address of None \<Rightarrow> None
                | Some a \<Rightarrow> map_option (\<lambda>p. (a, p)) (parse_u8 (trim prefix))))"

definition parse_cidr :: "string \<Rightarrow> (32 word \<times> nat) option" where
  "parse_cidr cidr =
     (case split cidr of None \<Rightarrow> None
      | Some (address, prefix) \<Rightarrow>
          if \<not> (8 \<le> prefix \<and> prefix \<le> 30) then None
          else (let m = mask prefix; net = address AND m in
            if address = net \<or> address = net OR NOT m then None else Some (address, prefix)))"

definition clamp :: "nat \<Rightarrow> nat \<Rightarrow> nat \<Rightarrow> nat" where
  "clamp x lo hi = (if x < lo then lo else if x > hi then hi else x)"

definition default_dhcp_range :: "string \<Rightarrow> (string \<times> string) option" where
  "default_dhcp_range cidr =
     (case parse_cidr cidr of None \<Rightarrow> None
      | Some (address, prefix) \<Rightarrow>
          (let m = mask prefix;
               net = unat (address AND m);
               size = unat (NOT m) + 1;
               at = (\<lambda>share. net + clamp (size * share div 256) 1 (size - 2));
               a = unat address;
               start = at 100; stop = at 200;
               (start, stop) =
                 (if start \<le> a \<and> a \<le> stop
                  then (if a - net < size div 2 then (a + 1, stop) else (start, a - 1))
                  else (start, stop))
           in if start > stop then None
              else Some (format_ipv4 (word_of_nat start), format_ipv4 (word_of_nat stop))))"

definition overlaps :: "string \<Rightarrow> string \<Rightarrow> bool" where
  "overlaps a b =
     (case (split a, split b) of
        (Some (x, px), Some (y, py)) \<Rightarrow>
          if px > 32 \<or> py > 32 then False
          else (let m = mask (min px py) in x AND m = y AND m)
      | _ \<Rightarrow> False)"

definition dhcp_fits :: "32 word \<Rightarrow> nat \<Rightarrow> string option \<Rightarrow> string option \<Rightarrow> bool" where
  "dhcp_fits address prefix start stop =
     (let m = mask prefix; net = address AND m; broadcast = net OR NOT m in
      case (case start of None \<Rightarrow> None | Some t \<Rightarrow> parse_ipv4 t,
            case stop of None \<Rightarrow> None | Some t \<Rightarrow> parse_ipv4 t) of
        (Some s, Some e) \<Rightarrow> s \<le> e \<and> s AND m = net \<and> e AND m = net \<and> s \<noteq> net \<and> e \<noteq> broadcast
          \<and> \<not> (s \<le> address \<and> address \<le> e)
      | _ \<Rightarrow> False)"

section \<open>Printing and reading\<close>

lemma octet_less: "octet i a < 256"
  using take_bit_nat_less_exp [of 8 "unat (drop_bit (24 - 8 * i) a)"] by (simp add: octet_def unsigned_take_bit_eq)

lemma show_octet:
  assumes "n < 256"
  shows "length (show_nat n) \<le> 3" "show_nat n \<noteq> []" "all_digits (show_nat n)" "CHR ''.'' \<notin> set (show_nat n)"
proof -
  show "length (show_nat n) \<le> 3"
    using assms by (simp add: show_nat.simps [of n] show_nat.simps [of "n div 10"] show_nat.simps [of "n div 100"]
        div_mult2_eq [symmetric])
  show d: "all_digits (show_nat n)" and "show_nat n \<noteq> []" using show_nat_digits [of n] by auto
  then show "CHR ''.'' \<notin> set (show_nat n)" by (auto simp: all_digits_def list_all_iff is_ascii_digit_def)
qed

lemma parse_octets_show:
  "(\<And>n. n \<in> set ns \<Longrightarrow> n < 256) \<Longrightarrow>
   parse_octets (map show_nat ns) out = Some (foldl (\<lambda>w n. push_bit 8 w OR word_of_nat n) out ns)"
proof (induction ns arbitrary: out)
  case (Cons n ns)
  then have n: "n < 256" by simp
  have "parse_u32 (show_nat n) = Some n" using n by (intro parse_show_nat) simp
  moreover have "\<not> 255 < n" using n by simp
  ultimately show ?case using Cons show_octet [OF n] by (simp add: not_less)
qed simp

lemma octets_word:
  "foldl (\<lambda>w n. push_bit 8 w OR word_of_nat n) 0 (map (\<lambda>i. octet i a) [0, 1, 2, 3]) = (a :: 32 word)"
proof -
  have o: "(word_of_nat (octet i a) :: 32 word) = take_bit 8 (drop_bit (24 - 8 * i) a)" for i
    by (simp add: octet_def)
  show ?thesis
  proof (rule bit_word_eqI)
    fix n assume "n < LENGTH(32)"
    then consider "n < 8" | "8 \<le> n" "n < 16" | "16 \<le> n" "n < 24" | "24 \<le> n" "n < 32" by fastforce
    then show "bit (foldl (\<lambda>w n. push_bit 8 w OR word_of_nat n) 0 (map (\<lambda>i. octet i a) [0, 1, 2, 3]) :: 32 word) n = bit a n"
      by cases (auto simp: o bit_simps)
  qed
qed

lemma parse_format_ipv4: "parse_ipv4 (format_ipv4 a) = Some a"
proof -
  let ?os = "map (\<lambda>i. octet i a) [0, 1, 2, 3]" and ?ws = "map (\<lambda>i. show_nat (octet i a)) [0, 1, 2, 3]"
  have no: "CHR ''.'' \<notin> set w" if "w \<in> set ?ws" for w
    using that show_octet(4) [OF octet_less] by auto
  then have sp: "split_on (CHR ''.'') (join ''.'' ?ws) = ?ws" by (intro split_on_join) auto
  have tr: "trim (join ''.'' ?ws) = join ''.'' ?ws"
    using show_nat_ends by (intro trim_eq_self) auto
  have "parse_octets (map show_nat ?os) 0 = Some a"
  proof -
    have "parse_octets (map show_nat ?os) 0 = Some (foldl (\<lambda>w n. push_bit 8 w OR word_of_nat n) 0 ?os)"
      by (rule parse_octets_show) (use octet_less in auto)
    then show ?thesis unfolding octets_word .
  qed
  moreover have "map show_nat ?os = ?ws" by simp
  ultimately show ?thesis unfolding parse_ipv4_def format_ipv4_def tr sp Let_def
    by (simp del: parse_octets.simps)
qed

section \<open>Masks\<close>

lemma bit_mask: "bit (mask p) n \<longleftrightarrow> 32 - min p 32 \<le> n \<and> n < 32 \<and> p \<noteq> 0"
  by (auto simp: mask_def bit_simps)

lemma unat_and_mask:
  assumes "0 < p" "p \<le> 32"
  shows "unat (a AND mask p) = unat a div 2 ^ (32 - p) * 2 ^ (32 - p)"
proof -
  have "a AND mask p = push_bit (32 - p) (drop_bit (32 - p) a)"
    using assms by (intro bit_word_eqI) (auto simp: bit_simps bit_mask)
  moreover have "unat (push_bit (32 - p) (drop_bit (32 - p) a)) = unat a div 2 ^ (32 - p) * 2 ^ (32 - p)"
  proof -
    have "unat a div 2 ^ (32 - p) * 2 ^ (32 - p) \<le> unat a" by (rule div_times_less_eq_dividend)
    also have "\<dots> < 2 ^ 32" using unsigned_less [of a, where 'a = nat] by simp
    finally have small: "unat a div 2 ^ (32 - p) * 2 ^ (32 - p) < 2 ^ 32" .
    have "unat (push_bit (32 - p) (drop_bit (32 - p) a)) = take_bit 32 (push_bit (32 - p) (drop_bit (32 - p) (unat a)))"
      using unsigned_less [of a, where 'a = nat]
      by (simp add: unsigned_push_bit_eq unsigned_drop_bit_eq take_bit_nat_eq_self)
    also have "\<dots> = take_bit 32 (unat a div 2 ^ (32 - p) * 2 ^ (32 - p))"
      by (simp only: push_bit_eq_mult drop_bit_eq_div)
    also have "\<dots> = unat a div 2 ^ (32 - p) * 2 ^ (32 - p)" using small by (rule take_bit_nat_eq_self)
    finally show ?thesis .
  qed
  ultimately show ?thesis by simp
qed

lemma unat_not_mask:
  assumes "0 < p" "p \<le> 32"
  shows "unat (NOT (mask p)) = 2 ^ (32 - p) - 1"
proof -
  have "NOT (mask p) = take_bit (32 - p) (- 1)"
    using assms by (intro bit_word_eqI) (auto simp: bit_simps bit_mask)
  then have "unat (NOT (mask p)) = take_bit (32 - p) (Bit_Operations.mask 32)"
    by (simp only: unsigned_take_bit_eq unsigned_minus_1_eq_mask) simp
  also have "\<dots> = Bit_Operations.mask (32 - p)" by simp
  finally show ?thesis by (simp only: mask_eq_exp_minus_1)
qed

lemma unat_broadcast:
  assumes "0 < p" "p \<le> 32"
  shows "unat ((a AND mask p) OR NOT (mask p)) = unat (a AND mask p) + (2 ^ (32 - p) - 1)"
proof -
  have "(a AND mask p) OR NOT (mask p) = (a AND mask p) + NOT (mask p)"
    by (rule disjunctive_add [symmetric]) (auto simp: bit_simps)
  moreover have "unat (a AND mask p) + unat (NOT (mask p)) < 2 ^ 32"
  proof -
    let ?k = "2 ^ (32 - p) :: nat"
    have "2 ^ 32 = ?k * 2 ^ p" using assms by (simp flip: power_add)
    moreover have "unat a < 2 ^ 32" using unsigned_less [of a, where 'a = nat] by simp
    ultimately have "unat a div ?k < 2 ^ p" by (simp add: less_mult_imp_div_less mult.commute)
    then have "(unat a div ?k + 1) * ?k \<le> 2 ^ p * ?k" by (intro mult_le_mono1) simp
    then have "unat a div ?k * ?k + ?k \<le> 2 ^ 32" using \<open>2 ^ 32 = ?k * 2 ^ p\<close> by (simp add: algebra_simps)
    then show ?thesis
      unfolding unat_and_mask [OF assms] unat_not_mask [OF assms] using zero_less_power [of "2::nat" "32 - p"] by linarith
  qed
  ultimately show ?thesis using unat_not_mask [OF assms] by (simp add: unat_word_ariths)
qed

text \<open>The addresses of a subnet, as an interval.\<close>

lemma in_subnet_iff:
  assumes "0 < p" "p \<le> 32"
  shows "b AND mask p = a AND mask p \<longleftrightarrow>
    unat (a AND mask p) \<le> unat b \<and> unat b < unat (a AND mask p) + 2 ^ (32 - p)"
proof -
  let ?k = "2 ^ (32 - p) :: nat"
  have "b AND mask p = a AND mask p \<longleftrightarrow> unat b div ?k = unat a div ?k"
    using unat_and_mask [OF assms, of a] unat_and_mask [OF assms, of b] by (auto simp: word_unat_eq_iff)
  also have "\<dots> \<longleftrightarrow> unat a div ?k * ?k \<le> unat b \<and> unat b < unat a div ?k * ?k + ?k"
  proof
    assume "unat b div ?k = unat a div ?k"
    then show "unat a div ?k * ?k \<le> unat b \<and> unat b < unat a div ?k * ?k + ?k"
      using div_times_less_eq_dividend [of "unat b" ?k] dividend_less_div_times [of ?k "unat b"] by simp
  next
    assume "unat a div ?k * ?k \<le> unat b \<and> unat b < unat a div ?k * ?k + ?k"
    then show "unat b div ?k = unat a div ?k" by (intro div_nat_eqI) (auto simp: mult.commute)
  qed
  finally show ?thesis unfolding unat_and_mask [OF assms] .
qed

section \<open>The offered DHCP range\<close>

lemma parse_cidrD:
  assumes "parse_cidr cidr = Some (a, p)"
  shows "8 \<le> p" "p \<le> 30" "unat (a AND mask p) < unat a" "unat a < unat (a AND mask p) + 2 ^ (32 - p) - 1"
proof -
  from assms show p: "8 \<le> p" "p \<le> 30"
    by (auto simp: parse_cidr_def Let_def split: option.splits if_splits)
  from assms have ne: "a \<noteq> a AND mask p" "a \<noteq> (a AND mask p) OR NOT (mask p)"
    by (auto simp: parse_cidr_def Let_def split: option.splits if_splits)
  have "unat (a AND mask p) \<le> unat a" "unat a < unat (a AND mask p) + 2 ^ (32 - p)"
    using in_subnet_iff [of p a a] p by auto
  moreover have "unat a \<noteq> unat (a AND mask p)" "unat a \<noteq> unat (a AND mask p) + (2 ^ (32 - p) - 1)"
    using ne unat_broadcast [of p a] p by (auto simp: word_unat_eq_iff)
  ultimately show "unat (a AND mask p) < unat a" "unat a < unat (a AND mask p) + 2 ^ (32 - p) - 1" by linarith+
qed

lemma clamp_bounds: "lo \<le> hi \<Longrightarrow> lo \<le> clamp x lo hi \<and> clamp x lo hi \<le> hi"
  by (simp add: clamp_def)

lemma dhcp_range_interval:
  assumes "default_dhcp_range cidr = Some (x, y)"
  obtains a p s e where "parse_cidr cidr = Some (a, p)" "x = format_ipv4 (word_of_nat s)" "y = format_ipv4 (word_of_nat e)"
    "s \<le> e" "unat (a AND mask p) < s" "e < unat (a AND mask p) + 2 ^ (32 - p) - 1" "\<not> (s \<le> unat a \<and> unat a \<le> e)"
proof -
  from assms obtain a p where c: "parse_cidr cidr = Some (a, p)"
    by (auto simp: default_dhcp_range_def split: option.splits)
  note C = parse_cidrD [OF c]
  define net size where "net = unat (a AND mask p)" "size = (2 ^ (32 - p) :: nat)"
  have "(4::nat) = 2 ^ 2" by simp
  also have "\<dots> \<le> size" unfolding net_size_def using C(2) by (intro power_increasing) auto
  finally have size: "4 \<le> size" .
  have nm: "unat (NOT (mask p)) + 1 = size" using unat_not_mask [of p] C(1,2) size by (simp add: net_size_def)
  define s0 e0 where "s0 = net + clamp (size * 100 div 256) 1 (size - 2)" "e0 = net + clamp (size * 200 div 256) 1 (size - 2)"
  have b: "net < s0" "e0 < net + size - 1"
    using clamp_bounds [of 1 "size - 2" "size * 100 div 256"] clamp_bounds [of 1 "size - 2" "size * 200 div 256"] size
    unfolding s0_e0_def by linarith+
  define r where "r = (if s0 \<le> unat a \<and> unat a \<le> e0
    then (if unat a - net < size div 2 then (unat a + 1, e0) else (s0, unat a - 1)) else (s0, e0))"
  have "default_dhcp_range cidr = (case r of (s, e) \<Rightarrow> if s > e then None
    else Some (format_ipv4 (word_of_nat s), format_ipv4 (word_of_nat e)))"
    unfolding default_dhcp_range_def c option.case prod.case Let_def nm
    by (simp add: r_def s0_e0_def net_size_def)
  with assms obtain s e where r: "r = (s, e)" "s \<le> e" "x = format_ipv4 (word_of_nat s)" "y = format_ipv4 (word_of_nat e)"
    by (cases r) (auto split: if_splits)
  moreover have "net < s \<and> e < net + size - 1 \<and> \<not> (s \<le> unat a \<and> unat a \<le> e)"
    using r(1) b C(3,4) by (auto simp: r_def net_size_def split: if_splits)
  ultimately show ?thesis using that c by (simp add: net_size_def)
qed

section \<open>Properties of subnets\<close>

lemma demo_mask: "mask 24 = 4294967040"
  by (simp add: mask_def push_bit_eq_mult del: push_bit_minus_one)

lemma demo_cidr: "split ''10.0.0.5/24'' = Some (word_of_nat 167772165, 24)"
  by (simp add: split_def parse_ipv4_def trim_def trim_start_def trim_end_def is_whitespace_def parse_uint_def
      parse_digits_def all_digits_def is_ascii_digit_def digits_val_def digit_val_def Let_def)

text \<open>
  Every 32-bit address is printed so that it reads back as itself.
\<close>

theorem ipv4_roundtrip: "parse_ipv4 (format_ipv4 a) = Some a \<and> (format_ipv4 a = format_ipv4 b \<longleftrightarrow> a = b)"
  using parse_format_ipv4 by (metis option.inject)

text \<open>
  The DHCP range a form offers is one the subnet can be served with: in
  order, inside the subnet, off its network and broadcast addresses and clear of
  the host's own address.
\<close>

theorem offered_dhcp_range_fits:
  assumes "default_dhcp_range cidr = Some (x, y)" "parse_cidr cidr = Some (a, p)"
  shows "dhcp_fits a p (Some x) (Some y)"
proof -
  obtain s e where r: "x = format_ipv4 (word_of_nat s)" "y = format_ipv4 (word_of_nat e)" "s \<le> e"
    "unat (a AND mask p) < s" "e < unat (a AND mask p) + 2 ^ (32 - p) - 1" "\<not> (s \<le> unat a \<and> unat a \<le> e)"
    using dhcp_range_interval [OF assms(1)] assms(2) by (metis option.inject prod.inject)
  note C = parse_cidrD [OF assms(2)]
  have p: "0 < p" "p \<le> 32" using C(1,2) by auto
  have lt: "e < 2 ^ 32" "s < 2 ^ 32"
    using r(3,5) unat_broadcast [OF p, of a] unsigned_less [of "(a AND mask p) OR NOT (mask p)", where 'a = nat]
    by simp_all
  then have u: "unat (word_of_nat s :: 32 word) = s" "unat (word_of_nat e :: 32 word) = e"
    by (simp_all add: unsigned_of_nat take_bit_nat_eq_self)
  have "word_of_nat s AND mask p = a AND mask p" "word_of_nat e AND mask p = a AND mask p"
    using in_subnet_iff [OF p] u r(3-5) by auto
  moreover have "(word_of_nat s :: 32 word) \<noteq> a AND mask p" "(word_of_nat e :: 32 word) \<noteq> (a AND mask p) OR NOT (mask p)"
    using u r(3-5) unat_broadcast [OF p, of a] by (auto simp: word_unat_eq_iff)
  ultimately show ?thesis
    using u r(3,6) by (simp add: dhcp_fits_def r(1,2) parse_format_ipv4 Let_def word_le_nat_alt)
qed

theorem offered_dhcp_range_fits_witness:
  "dhcp_fits (word_of_nat 167772165) 24 (Some ''10.0.0.100'') (Some ''10.0.0.200'')"
proof (rule offered_dhcp_range_fits [of "''10.0.0.5/24''"])
  show p: "parse_cidr ''10.0.0.5/24'' = Some (word_of_nat 167772165, 24)"
    by (simp add: parse_cidr_def demo_cidr demo_mask Let_def)
  show "default_dhcp_range ''10.0.0.5/24'' = Some (''10.0.0.100'', ''10.0.0.200'')"
  proof -
    have "show_nat 10 = ''10''" "show_nat 0 = ''0''" "show_nat 100 = ''100''" "show_nat 200 = ''200''"
      by (code_simp, code_simp, code_simp, code_simp)
    then show ?thesis
      by (simp add: default_dhcp_range_def p demo_mask Let_def clamp_def format_ipv4_def octet_def)
  qed
qed

lemma mask_le: "p \<le> q \<Longrightarrow> q \<le> 32 \<Longrightarrow> mask q AND mask p = mask p"
  by (intro bit_word_eqI) (auto simp: bit_simps bit_mask)

text \<open>
  Two subnets are said to overlap exactly when some address lies in both,
  for any prefixes from /0 to /32.
\<close>

theorem overlaps_iff_shared_address:
  assumes "split s = Some (x, px)" "split t = Some (y, py)" "px \<le> 32" "py \<le> 32"
  shows "overlaps s t \<longleftrightarrow> (\<exists>a. a AND mask px = x AND mask px \<and> a AND mask py = y AND mask py)"
proof -
  let ?m = "mask (min px py)"
  have m: "mask px AND ?m = ?m" "mask py AND ?m = ?m"
    using mask_le [of "min px py" px] mask_le [of "min px py" py] assms(3,4) by auto
  have "overlaps s t \<longleftrightarrow> x AND ?m = y AND ?m" using assms by (simp add: overlaps_def Let_def)
  also have "\<dots> \<longleftrightarrow> (\<exists>a. a AND mask px = x AND mask px \<and> a AND mask py = y AND mask py)"
  proof
    assume eq: "x AND ?m = y AND ?m"
    show "\<exists>a. a AND mask px = x AND mask px \<and> a AND mask py = y AND mask py"
      using eq by (cases "px \<le> py") (auto simp: min_def split: if_splits)
  next
    assume "\<exists>a. a AND mask px = x AND mask px \<and> a AND mask py = y AND mask py"
    then obtain a where a: "a AND mask px = x AND mask px" "a AND mask py = y AND mask py" by blast
    have "x AND ?m = (x AND mask px) AND ?m" "y AND ?m = (y AND mask py) AND ?m" using m by (simp_all add: and.assoc)
    moreover have "(a AND mask px) AND ?m = (a AND mask py) AND ?m" using m by (simp add: and.assoc)
    ultimately show "x AND ?m = y AND ?m" using a by simp
  qed
  finally show ?thesis .
qed

theorem overlaps_iff_shared_address_witness: "overlaps ''10.0.0.5/24'' ''10.0.0.5/24''"
  using overlaps_iff_shared_address [OF demo_cidr demo_cidr] by auto

end
