(* ===== verification/Firewall.thy ===== *)
theory Firewall
  imports Rust_Net Common
begin

text \<open>
  What the two firewalls share (\<open>crates/sbm_parser/src/firewall/mod.rs\<close>): the
  ways into a server, how a list of rules decides about one, address and port
  matching, and the probe that says which firewalls a server has.
\<close>

unbundle bit_operations_syntax

section \<open>Accesses\<close>

definition dquote :: string where
  "dquote = [CHR 0x22]"

definition ENV :: string where
  "ENV = ''export LC_ALL=C PATH='' @ dquote @ ''$PATH:/usr/sbin:/sbin'' @ dquote"

definition script :: "string list \<Rightarrow> string" where
  "script commands =
     join [nl] ([ENV, ''('', ''set -e''] @ commands
       @ ['')'', ''rc=$?'', ''[ '' @ dquote @ ''$rc'' @ dquote @ '' -ne 2 ] || rc=1'',
          ''exit '' @ dquote @ ''$rc'' @ dquote, []])"

datatype FirewallKind = KUfw | KFirewalld

datatype FirewallAccessVia = Ssh | Monitor

record FirewallAccess =
  via :: FirewallAccessVia
  port :: nat
  client :: "string option"
  server :: "string option"
  iface :: "string option"

definition unscoped :: "string \<Rightarrow> string" where
  "unscoped address = hd (split_on (CHR ''%'') address)"

definition address :: "string \<Rightarrow> IpAddr option" where
  "address value = parse_ip value"

definition from_ssh_connection :: "string \<Rightarrow> FirewallAccess option" where
  "from_ssh_connection value =
     (case split_whitespace value of
        [c, _, s, p] \<Rightarrow>
          (case address (unscoped c) of None \<Rightarrow> None
           | Some cl \<Rightarrow>
               (case address (unscoped s) of None \<Rightarrow> None
                | Some sv \<Rightarrow>
                    (case parse_u16 p of None \<Rightarrow> None
                     | Some prt \<Rightarrow>
                         if prt \<ge> 1
                         then Some \<lparr>via = Ssh, port = prt, client = Some (show_ip cl),
                                    server = Some (show_ip sv), iface = None\<rparr>
                         else None)))
      | _ \<Rightarrow> None)"

definition client_ip :: "FirewallAccess \<Rightarrow> IpAddr option" where
  "client_ip a = (case client a of None \<Rightarrow> None | Some c \<Rightarrow> address c)"

definition server_ip :: "FirewallAccess \<Rightarrow> IpAddr option" where
  "server_ip a = (case server a of None \<Rightarrow> None | Some s \<Rightarrow> address s)"

section \<open>Reach\<close>

datatype FirewallReach = Open | Limited | Unknown | Blocked

fun reach_rank :: "FirewallReach \<Rightarrow> nat" where
  "reach_rank Open = 0"
| "reach_rank Limited = 1"
| "reach_rank Unknown = 2"
| "reach_rank Blocked = 3"

text \<open>The derived order: from best to worst, as the constructors are listed.\<close>

instantiation FirewallReach :: linorder
begin

definition less_eq_FirewallReach :: "FirewallReach \<Rightarrow> FirewallReach \<Rightarrow> bool" where
  "less_eq_FirewallReach a b \<longleftrightarrow> reach_rank a \<le> reach_rank b"

definition less_FirewallReach :: "FirewallReach \<Rightarrow> FirewallReach \<Rightarrow> bool" where
  "less_FirewallReach a b \<longleftrightarrow> reach_rank a < reach_rank b"

instance
proof
  fix a b :: FirewallReach
  assume "a \<le> b" "b \<le> a"
  then show "a = b" by (cases a; cases b; simp add: less_eq_FirewallReach_def)
qed (auto simp: less_eq_FirewallReach_def less_FirewallReach_def)

end

definition admits :: "FirewallReach \<Rightarrow> bool" where
  "admits r \<longleftrightarrow> r = Open \<or> r = Limited"

definition worse_than :: "FirewallReach \<Rightarrow> FirewallReach \<Rightarrow> bool" where
  "worse_than r before \<longleftrightarrow> r > before"

definition worst_change :: "(FirewallReach \<times> FirewallReach) list \<Rightarrow> FirewallReach option" where
  "worst_change reaches =
     (case map snd (filter (\<lambda>(before, after). worse_than after before) reaches) of
        [] \<Rightarrow> None | r # rs \<Rightarrow> Some (foldl max r rs))"

record Judged =
  verdict :: FirewallReach
  sure :: bool

text \<open>The loop of \<open>decide\<close>: what only might apply so far, and the first sure verdict.\<close>

fun decide_loop :: "Judged list \<Rightarrow> FirewallReach list \<Rightarrow> FirewallReach list \<times> FirewallReach option" where
  "decide_loop [] maybes = (maybes, None)"
| "decide_loop (c # cs) maybes =
     (if \<not> sure c then decide_loop cs (maybes @ [verdict c]) else (maybes, Some (verdict c)))"

definition decide :: "Judged list \<Rightarrow> FirewallReach \<Rightarrow> FirewallReach" where
  "decide checks fallback =
     (let (maybes, decided) = decide_loop checks [];
          v = (case decided of Some d \<Rightarrow> d | None \<Rightarrow> fallback)
      in if list_ex (\<lambda>m. admits m \<noteq> admits v) maybes then Unknown else v)"

section \<open>Ports and networks\<close>

definition split_range :: "string \<Rightarrow> string list" where
  "split_range s = split_on (CHR '':'') (map (\<lambda>c. if c = CHR ''-'' then CHR '':'' else c) s)"

definition port_spec_covers :: "string option \<Rightarrow> nat \<Rightarrow> bool" where
  "port_spec_covers spec p =
     (case spec of None \<Rightarrow> True
      | Some sp \<Rightarrow>
          list_ex (\<lambda>part.
            let range = split_range (trim part) in
            case (parse_i64 (hd range), parse_i64 (last range)) of
              (Some start, Some stop) \<Rightarrow> int p \<ge> start \<and> int p \<le> stop
            | _ \<Rightarrow> False) (split_on (CHR '','') sp))"

definition network_contains :: "string \<Rightarrow> IpAddr \<Rightarrow> bool option" where
  "network_contains network addr =
     (let (base, prefix) = (case split_once (CHR ''/'') network of
            Some (b, p) \<Rightarrow> (b, Some p) | None \<Rightarrow> (network, None))
      in case parse_ip base of None \<Rightarrow> None
         | Some base \<Rightarrow>
             if is_ipv6 base \<noteq> is_ipv6 addr then Some False
             else (let a = octets base; b = octets addr; bits = length a * 8 in
               case (case prefix of None \<Rightarrow> Some bits
                     | Some p \<Rightarrow> (case parse_u64 p of None \<Rightarrow> None
                         | Some n \<Rightarrow> if n \<le> bits then Some n else None)) of
                 None \<Rightarrow> None
               | Some n \<Rightarrow>
                   Some (list_all (\<lambda>i. let m = drop_bit (i mod 8) (128 :: 8 word)
                                       in (a ! (i div 8)) AND m = (b ! (i div 8)) AND m) [0..<n])))"

definition holds :: "string \<Rightarrow> IpAddr option \<Rightarrow> bool option" where
  "holds network c = (case c of None \<Rightarrow> None | Some a \<Rightarrow> network_contains network a)"

section \<open>The probe\<close>

record FirewallProbeResult =
  p_ufw :: "bool option"
  p_firewalld :: "bool option"
  p_root :: bool
  p_ssh :: "FirewallAccess option"

definition preferred :: "FirewallProbeResult \<Rightarrow> FirewallKind option" where
  "preferred r =
     (case (p_ufw r, p_firewalld r) of
        (None, None) \<Rightarrow> None
      | (Some _, None) \<Rightarrow> Some KUfw
      | (None, Some _) \<Rightarrow> Some KFirewalld
      | (Some _, Some True) \<Rightarrow> Some KFirewalld
      | (Some _, Some False) \<Rightarrow> Some KUfw)"

definition PROBE_UFW :: string where "PROBE_UFW = ''SrvBoxFw.Ufw'' @ [tab]"
definition PROBE_FIREWALLD :: string where "PROBE_FIREWALLD = ''SrvBoxFw.Firewalld'' @ [tab]"
definition PROBE_UID :: string where "PROBE_UID = ''SrvBoxFw.Uid'' @ [tab]"
definition PROBE_SSH :: string where "PROBE_SSH = ''SrvBoxFw.Ssh'' @ [tab]"
definition PROBE_IFACE :: string where "PROBE_IFACE = ''SrvBoxFw.Iface'' @ [tab]"

definition probe_value :: "string \<Rightarrow> string \<Rightarrow> string option" where
  "probe_value marker line = map_option trim (strip_prefix marker line)"

definition probe_line ::
  "string \<Rightarrow> FirewallProbeResult \<times> string option \<Rightarrow> FirewallProbeResult \<times> string option" where
  "probe_line raw st =
     (let line = trim_end raw; (r, ifc) = st in
      case probe_value PROBE_UFW line of
        Some v \<Rightarrow> (r\<lparr>p_ufw := Some (eq_ignore_ascii_case (replace_char (CHR 0x22) [] v) ''yes'')\<rparr>, ifc)
      | None \<Rightarrow>
      (case probe_value PROBE_FIREWALLD line of
        Some v \<Rightarrow> (r\<lparr>p_firewalld := Some (v = ''active'' \<or> v = ''running'')\<rparr>, ifc)
      | None \<Rightarrow>
      (case probe_value PROBE_UID line of
        Some v \<Rightarrow> (r\<lparr>p_root := (v = ''0'')\<rparr>, ifc)
      | None \<Rightarrow>
      (case probe_value PROBE_SSH line of
        Some v \<Rightarrow> (r\<lparr>p_ssh := from_ssh_connection v\<rparr>, ifc)
      | None \<Rightarrow>
      (case probe_value PROBE_IFACE line of
        Some v \<Rightarrow> (r, if v = [] then ifc else Some v)
      | None \<Rightarrow> (r, ifc))))))"

definition parse_probe :: "string \<Rightarrow> FirewallProbeResult" where
  "parse_probe output =
     (let (r, ifc) = fold probe_line (split_on nl (normalize_newlines output))
            (\<lparr>p_ufw = None, p_firewalld = None, p_root = False, p_ssh = None\<rparr>, None)
      in case p_ssh r of None \<Rightarrow> r | Some a \<Rightarrow> r\<lparr>p_ssh := Some (a\<lparr>iface := ifc\<rparr>)\<rparr>)"

section \<open>Input checks\<close>

definition valid_interface :: "string \<Rightarrow> bool" where
  "valid_interface name \<longleftrightarrow> 1 \<le> length name \<and> length name \<le> 15
     \<and> list_all (\<lambda>c. is_ascii_alphanumeric c \<or> c \<in> set ''_.+-'') name"

definition has_control :: "string \<Rightarrow> bool" where
  "has_control value \<longleftrightarrow> list_ex (\<lambda>c. is_control c \<and> code_of c < 128) value"

definition family_of :: "string \<Rightarrow> bool option" where
  "family_of value =
     (let (host, prefix) = (case split_once (CHR ''/'') value of
            Some (h, p) \<Rightarrow> (h, Some p) | None \<Rightarrow> (value, None))
      in case address host of None \<Rightarrow> None
         | Some a \<Rightarrow>
             (case prefix of None \<Rightarrow> Some (is_ipv6 a)
              | Some p \<Rightarrow> (case parse_u32 p of None \<Rightarrow> None
                  | Some n \<Rightarrow> if n \<le> (if is_ipv6 a then 128 else 32) then Some (is_ipv6 a) else None)))"

section \<open>What a decision means\<close>

text \<open>
  A check that only might apply does or does not. A resolution says which; what
  is sure applies in every one. The connection then meets the first check that
  applies, else the fallback.
\<close>

fun outcome :: "(Judged \<times> bool) list \<Rightarrow> FirewallReach \<Rightarrow> FirewallReach" where
  "outcome [] fallback = fallback"
| "outcome ((c, applies) # rs) fallback = (if applies then verdict c else outcome rs fallback)"

definition resolves :: "Judged list \<Rightarrow> (Judged \<times> bool) list \<Rightarrow> bool" where
  "resolves checks rs \<longleftrightarrow> map fst rs = checks \<and> (\<forall>(c, applies) \<in> set rs. sure c \<longrightarrow> applies)"

definition maybes_of :: "Judged list \<Rightarrow> FirewallReach list" where
  "maybes_of checks = map verdict (takeWhile (\<lambda>c. \<not> sure c) checks)"

definition final_verdict :: "Judged list \<Rightarrow> FirewallReach \<Rightarrow> FirewallReach" where
  "final_verdict checks fallback =
     (case dropWhile (\<lambda>c. \<not> sure c) checks of [] \<Rightarrow> fallback | c # _ \<Rightarrow> verdict c)"

lemma decide_loop_eq:
  "decide_loop cs ms = (ms @ maybes_of cs,
     case dropWhile (\<lambda>c. \<not> sure c) cs of [] \<Rightarrow> None | c # _ \<Rightarrow> Some (verdict c))"
  by (induction cs arbitrary: ms) (auto simp: maybes_of_def)

lemma decide_eq:
  "decide cs fb = (if \<exists>m \<in> set (maybes_of cs). admits m \<noteq> admits (final_verdict cs fb) then Unknown
     else final_verdict cs fb)"
  by (cases "dropWhile (\<lambda>c. \<not> sure c) cs")
    (simp_all add: decide_def decide_loop_eq final_verdict_def list_ex_iff Let_def del: dropWhile_eq_Nil_conv)

lemma outcome_cases:
  "resolves cs rs \<Longrightarrow> outcome rs fb \<in> insert (final_verdict cs fb) (set (maybes_of cs))"
proof (induction rs arbitrary: cs)
  case Nil
  then show ?case by (simp add: resolves_def final_verdict_def)
next
  case (Cons r rs)
  obtain c applies where r: "r = (c, applies)" by (cases r)
  with Cons.prems obtain cs' where cs: "cs = c # cs'" "resolves cs' rs" "sure c \<Longrightarrow> applies"
    by (auto simp: resolves_def)
  from Cons.IH [OF cs(2)] cs(1,3) show ?case
    by (auto simp: r final_verdict_def maybes_of_def)
qed

lemma resolves_all_sure: "resolves cs (map (\<lambda>c. (c, sure c)) cs)"
  by (auto simp: resolves_def comp_def)

lemma outcome_all_sure: "outcome (map (\<lambda>c. (c, sure c)) cs) fb = final_verdict cs fb"
  by (induction cs) (auto simp: final_verdict_def)

lemma outcome_maybe:
  assumes "m \<in> set (maybes_of cs)"
  shows "\<exists>rs. resolves cs rs \<and> outcome rs fb = m"
proof -
  from assms obtain c where c: "c \<in> set (takeWhile (\<lambda>c. \<not> sure c) cs)" "m = verdict c"
    by (auto simp: maybes_of_def)
  from c(1) have "\<exists>rs. resolves cs rs \<and> outcome rs fb = verdict c"
  proof (induction cs)
    case (Cons d cs)
    show ?case
    proof (cases "d = c")
      case True
      then show ?thesis
        using resolves_all_sure [of cs] by (intro exI [of _ "(d, True) # map (\<lambda>c. (c, sure c)) cs"]) (auto simp: resolves_def)
    next
      case False
      with Cons obtain rs where "resolves cs rs" "outcome rs fb = verdict c" by (auto split: if_splits)
      moreover have "\<not> sure d" using Cons.prems by (auto split: if_splits)
      ultimately show ?thesis by (intro exI [of _ "(d, False) # rs"]) (auto simp: resolves_def)
    qed
  qed simp
  with c(2) show ?thesis by simp
qed

lemma decide_sound:
  assumes "decide cs fb \<noteq> Unknown" "resolves cs rs"
  shows "admits (outcome rs fb) = admits (decide cs fb)"
  using assms(1) outcome_cases [OF assms(2), of fb] by (auto simp: decide_eq split: if_splits)

lemma outcome_sure_fallback:
  "resolves cs rs \<Longrightarrow> \<exists>c \<in> set cs. sure c \<Longrightarrow> outcome rs fb = outcome rs fb'"
proof (induction rs arbitrary: cs)
  case (Cons r rs)
  obtain c applies where r: "r = (c, applies)" by (cases r)
  with Cons.prems obtain cs' where cs: "cs = c # cs'" "resolves cs' rs" "sure c \<Longrightarrow> applies"
    by (auto simp: resolves_def)
  show ?case
  proof (cases applies)
    case False
    with Cons.prems(2) cs(1,3) have "\<exists>c \<in> set cs'. sure c" by auto
    with Cons.IH [OF cs(2)] False show ?thesis by (simp add: r)
  qed (simp add: r)
qed (simp add: resolves_def)

lemma decide_unknown_fallback:
  assumes "decide cs Unknown \<noteq> Unknown"
  shows "\<exists>c \<in> set cs. sure c"
proof (rule ccontr)
  assume "\<not> ?thesis"
  then have "dropWhile (\<lambda>c. \<not> sure c) cs = []" by simp
  with assms show False by (simp add: decide_eq final_verdict_def split: if_splits del: dropWhile_eq_Nil_conv)
qed

lemma decide_sure_first: "decide (\<lparr>verdict = v, sure = True\<rparr> # cs) fb = v"
  by (simp add: decide_eq maybes_of_def final_verdict_def)

text \<open>
  A table of rules in which one kind of rule surely lets a way in through: put
  first, it decides. Both firewalls keep a way open by such a rule.
\<close>

locale keep_open_table =
  fixes judge :: "'r \<Rightarrow> FirewallAccess \<Rightarrow> Judged option"
    and allow :: "nat \<Rightarrow> 'r"
  assumes allow_sure: "port a \<le> 65535 \<Longrightarrow> judge (allow (port a)) a = Some \<lparr>verdict = Open, sure = True\<rparr>"
begin

lemma kept_open:
  "port a \<le> 65535 \<Longrightarrow> decide (List.map_filter (\<lambda>r. judge r a) (allow (port a) # rules)) fb = Open"
  by (simp add: List.map_filter_simps allow_sure decide_sure_first)

lemma kept_open_behind:
  assumes "port a \<le> 65535" "\<And>r. r \<in> set before \<Longrightarrow> judge r a = None"
  shows "decide (List.map_filter (\<lambda>r. judge r a) (before @ allow (port a) # rules)) fb = Open"
proof -
  have "List.map_filter (\<lambda>r. judge r a) before = []" using assms(2) by (induction before) (auto simp: List.map_filter_simps)
  then show ?thesis by (simp add: List.map_filter_def allow_sure [OF assms(1)] decide_sure_first)
qed

end

section \<open>Address bits\<close>

definition octet_bits :: "8 word \<Rightarrow> bool list" where
  "octet_bits b = map (\<lambda>k. bit b (7 - k)) [0..<8]"

definition addr_bits :: "IpAddr \<Rightarrow> bool list" where
  "addr_bits a = concat (map octet_bits (octets a))"

lemma bit_128: "bit (drop_bit k (128 :: 8 word)) n \<longleftrightarrow> n + k = 7"
proof -
  have "(128 :: 8 word) = 2 ^ 7" by simp
  then have "bit (128 :: 8 word) m \<longleftrightarrow> m = 7" for m by (simp only: bit_exp_iff) auto
  then show ?thesis by (auto simp only: bit_drop_bit_eq comp_apply add.commute)
qed

lemma and_mask_eq_iff:
  assumes "k < 8"
  shows "a AND drop_bit k (128 :: 8 word) = b AND drop_bit k 128 \<longleftrightarrow> bit a (7 - k) = bit b (7 - k)"
proof
  assume "a AND drop_bit k (128 :: 8 word) = b AND drop_bit k 128"
  then have "bit (a AND drop_bit k (128 :: 8 word)) (7 - k) = bit (b AND drop_bit k 128) (7 - k)" by simp
  with assms show "bit a (7 - k) = bit b (7 - k)" by (simp only: bit_and_iff bit_128) simp
next
  assume eq: "bit a (7 - k) = bit b (7 - k)"
  show "a AND drop_bit k (128 :: 8 word) = b AND drop_bit k 128"
  proof (rule bit_eqI)
    fix n
    have "n + k = 7 \<Longrightarrow> n = 7 - k" by simp
    with eq show "bit (a AND drop_bit k (128 :: 8 word)) n = bit (b AND drop_bit k 128) n"
      by (auto simp only: bit_and_iff bit_128)
  qed
qed

lemma concat_octets_nth:
  "n < 8 * length os \<Longrightarrow> concat (map octet_bits os) ! n = bit (os ! (n div 8)) (7 - n mod 8)"
proof (induction os arbitrary: n)
  case (Cons o os)
  show ?case
  proof (cases "n < 8")
    case True
    then show ?thesis by (simp add: octet_bits_def nth_append)
  next
    case False
    then have "n div 8 = Suc ((n - 8) div 8)" "n mod 8 = (n - 8) mod 8" by (simp_all add: div_if mod_if)
    with Cons False show ?thesis by (simp add: octet_bits_def nth_append)
  qed
qed simp

lemma addr_bits_length: "length (addr_bits a) = 8 * length (octets a)"
proof -
  have "length (concat (map octet_bits os)) = 8 * length os" for os by (induction os) (simp_all add: octet_bits_def)
  then show ?thesis by (simp add: addr_bits_def)
qed

lemma prefix_bits_eq:
  assumes "length (octets a) = length (octets b)" "n \<le> 8 * length (octets a)"
  shows "list_all (\<lambda>i. (octets a ! (i div 8)) AND drop_bit (i mod 8) (128 :: 8 word)
       = (octets b ! (i div 8)) AND drop_bit (i mod 8) 128) [0..<n] \<longleftrightarrow>
    take n (addr_bits a) = take n (addr_bits b)"
proof -
  have nth: "i < n \<Longrightarrow> addr_bits x ! i = bit (octets x ! (i div 8)) (7 - i mod 8)"
    if "length (octets x) = length (octets a)" for x i
    using that assms(2) by (simp add: addr_bits_def concat_octets_nth)
  have "take n (addr_bits a) = take n (addr_bits b) \<longleftrightarrow> (\<forall>i < n. addr_bits a ! i = addr_bits b ! i)"
    using assms by (auto simp: list_eq_iff_nth_eq addr_bits_length)
  also have "\<dots> \<longleftrightarrow> (\<forall>i < n. bit (octets a ! (i div 8)) (7 - i mod 8) = bit (octets b ! (i div 8)) (7 - i mod 8))"
    using nth [of a] nth [of b] assms(1) by simp
  finally show ?thesis by (auto simp: list_all_iff and_mask_eq_iff)
qed

section \<open>Properties\<close>

text \<open>
  \<open>decide\<close> against every way the uncertain checks could turn out: it answers
  unknown exactly when two ways of resolving them disagree about letting the
  connection in, and any other answer is what every resolution comes to.
\<close>

theorem decide_is_certain_answer:
  assumes "\<forall>c \<in> set checks. verdict c \<noteq> Unknown" "fallback \<noteq> Unknown"
  shows "(decide checks fallback = Unknown \<longleftrightarrow>
      (\<exists>rs rs'. resolves checks rs \<and> resolves checks rs'
         \<and> admits (outcome rs fallback) \<noteq> admits (outcome rs' fallback)))
    \<and> (decide checks fallback \<noteq> Unknown \<longrightarrow>
        (\<forall>rs. resolves checks rs \<longrightarrow> admits (outcome rs fallback) = admits (decide checks fallback)))"
proof -
  let ?v = "final_verdict checks fallback"
  have known: "?v \<noteq> Unknown"
    using assms set_dropWhileD [of _ "\<lambda>c. \<not> sure c" checks]
    by (auto simp: final_verdict_def split: list.split)
  show ?thesis
  proof (cases "\<exists>m \<in> set (maybes_of checks). admits m \<noteq> admits ?v")
    case True
    then obtain m rs where "resolves checks rs" "outcome rs fallback = m" "admits m \<noteq> admits ?v"
      using outcome_maybe by blast
    moreover have "decide checks fallback = Unknown" using True by (simp add: decide_eq)
    ultimately show ?thesis
      using resolves_all_sure [of checks] outcome_all_sure [of checks fallback] by metis
  next
    case False
    then have d: "decide checks fallback = ?v" by (auto simp: decide_eq)
    have "admits (outcome rs fallback) = admits ?v" if "resolves checks rs" for rs
      using outcome_cases [OF that, of fallback] False by auto
    with d known show ?thesis by metis
  qed
qed

theorem decide_is_certain_answer_witness:
  "decide [\<lparr>verdict = Blocked, sure = False\<rparr>, \<lparr>verdict = Open, sure = True\<rparr>] Blocked = Unknown
   \<and> (\<exists>rs rs'. resolves [\<lparr>verdict = Blocked, sure = False\<rparr>, \<lparr>verdict = Open, sure = True\<rparr>] rs
        \<and> resolves [\<lparr>verdict = Blocked, sure = False\<rparr>, \<lparr>verdict = Open, sure = True\<rparr>] rs'
        \<and> admits (outcome rs Blocked) \<noteq> admits (outcome rs' Blocked))"
proof -
  have "decide [\<lparr>verdict = Blocked, sure = False\<rparr>, \<lparr>verdict = Open, sure = True\<rparr>] Blocked = Unknown" by code_simp
  then show ?thesis
    using decide_is_certain_answer [of "[\<lparr>verdict = Blocked, sure = False\<rparr>, \<lparr>verdict = Open, sure = True\<rparr>]" Blocked,
        THEN conjunct1] by force
qed

lemma ip_wf_octets: "ip_wf a \<Longrightarrow> length (octets a) = (if is_ipv6 a then 16 else 4)"
  by (cases a) (simp_all add: ip_wf_def is_ipv6_def octets_def)

lemma addr_bits_inj:
  assumes "length (octets a) = length (octets b)" "is_ipv6 a = is_ipv6 b" "addr_bits a = addr_bits b"
  shows "a = b"
proof -
  have inj: "x = y" if "octet_bits x = octet_bits y" for x y
  proof (rule bit_word_eqI)
    fix n assume "n < LENGTH(8)"
    then have "7 - n < 8" "n = 7 - (7 - n)" by auto
    then show "bit x n = bit y n" using arg_cong [OF that, of "\<lambda>bs. bs ! (7 - n)"] by (simp add: octet_bits_def)
  qed
  have len: "length (octet_bits x) = 8" for x by (simp add: octet_bits_def)
  have "xs = ys" if "length xs = length ys" "concat (map octet_bits xs) = concat (map octet_bits ys)" for xs ys
    using that by (induction xs ys rule: list_induct2) (auto simp: len intro: inj)
  with assms show ?thesis by (cases a; cases b) (auto simp: addr_bits_def is_ipv6_def octets_def)
qed

lemma network_contains_eq:
  assumes "split_once (CHR ''/'') network = map_option (Pair base) prefix" "prefix = None \<Longrightarrow> network = base"
    and "parse_ip base = Some net" "ip_wf a"
  shows "network_contains network a = (if is_ipv6 net \<noteq> is_ipv6 a then Some False
    else map_option (\<lambda>n. take n (addr_bits net) = take n (addr_bits a))
      (case prefix of None \<Rightarrow> Some (length (octets net) * 8)
       | Some p \<Rightarrow> (case parse_u64 p of None \<Rightarrow> None
           | Some n \<Rightarrow> if n \<le> length (octets net) * 8 then Some n else None)))"
proof -
  have len: "length (octets net) = length (octets a)" if "is_ipv6 net = is_ipv6 a"
    using that ip_wf_octets [OF parse_ip_wf [OF assms(3)]] ip_wf_octets [OF assms(4)] by simp
  show ?thesis
  proof (cases prefix)
    case None
    with assms len show ?thesis
      by (simp only: network_contains_def Let_def) (simp add: prefix_bits_eq)
  next
    case (Some p)
    with assms len show ?thesis
      by (simp only: network_contains_def Let_def) (auto simp: prefix_bits_eq split: option.split)
  qed
qed

text \<open>
  \<open>network_contains\<close> on an address followed by a prefix length: across
  families never, on too long a prefix no answer, else exactly the addresses that
  share the network's first bits; a bare address holds itself alone.
\<close>

theorem network_contains_is_common_prefix:
  assumes "parse_ip base = Some net" "CHR ''/'' \<notin> set base" "ip_wf a"
  shows "network_contains base a = Some (a = net)
    \<and> network_contains (base @ ''/'' @ show_nat n) a =
        (if is_ipv6 net \<noteq> is_ipv6 a then Some False
         else if n \<le> (if is_ipv6 net then 128 else 32)
         then Some (take n (addr_bits a) = take n (addr_bits net)) else None)"
proof -
  have wf: "length (octets net) = (if is_ipv6 net then 16 else 4)" "length (octets a) = (if is_ipv6 a then 16 else 4)"
    using parse_ip_wf [OF assms(1)] assms(3) by (simp_all add: ip_wf_octets)
  have slash: "split_once (CHR ''/'') base = None" "split_once (CHR ''/'') (base @ ''/'' @ show_nat n) = Some (base, show_nat n)"
    using assms(2) by (simp_all add: split_once_None_iff)
  have upto: "network_contains base a = (if is_ipv6 net \<noteq> is_ipv6 a then Some False else Some (addr_bits net = addr_bits a))"
    by (subst network_contains_eq [of base base None net a])
      (use assms(1,3) slash(1) wf in \<open>auto simp: addr_bits_length\<close>)
  have "is_ipv6 net = is_ipv6 a \<Longrightarrow> addr_bits net = addr_bits a \<Longrightarrow> a = net"
    by (rule addr_bits_inj) (simp_all add: wf)
  with upto have 1: "network_contains base a = Some (a = net)" by auto
  have "parse_uint 18446744073709551615 (show_nat n) = (if n \<le> 18446744073709551615 then Some n else None)"
    using show_nat_digits [of n] by (simp add: parse_uint_digits)
  then have 2: "network_contains (base @ ''/'' @ show_nat n) a =
        (if is_ipv6 net \<noteq> is_ipv6 a then Some False
         else if n \<le> (if is_ipv6 net then 128 else 32)
         then Some (take n (addr_bits a) = take n (addr_bits net)) else None)"
    using network_contains_eq [of "base @ ''/'' @ show_nat n" base "Some (show_nat n)" net a] assms(1,3) slash(2) wf
    by auto
  from 1 2 show ?thesis by blast
qed

theorem network_contains_is_common_prefix_witness:
  "network_contains ''10.1.2.0/23'' (V4 [10, 1, 3, 9]) =
     Some (take 23 (addr_bits (V4 [10, 1, 3, 9])) = take 23 (addr_bits (V4 [10, 1, 2, 0])))
   \<and> network_contains ''10.1.2.0'' (V4 [10, 1, 3, 9]) = Some False"
proof -
  have parsed: "parse_ip ''10.1.2.0'' = Some (V4 [10, 1, 2, 0])" by code_simp
  have "show_nat 23 = ''23''" by code_simp
  then show ?thesis
    using network_contains_is_common_prefix [OF parsed, of "V4 [10, 1, 3, 9]" 23]
    by (simp add: ip_wf_def is_ipv6_def)
qed

text \<open>
  A probe line about ufw with a value sets whether ufw is on, and touches
  nothing else; with an empty value, which the probe script prints for an installed
  ufw whose configuration has no readable \<open>ENABLED=\<close>, it sets nothing: trimming the
  line takes the tab the marker ends with, and ufw then counts as not installed.
\<close>

theorem probe_ufw_line:
  "probe_line (PROBE_UFW @ v) (r, ifc) =
     (if trim v = [] then (r, ifc)
      else (r\<lparr>p_ufw := Some (eq_ignore_ascii_case (replace_char (CHR 0x22) [] (trim v)) ''yes'')\<rparr>, ifc))"
proof (cases "trim v = []")
  case True
  have "trim_end (PROBE_UFW @ v) = trim_end PROBE_UFW"
    using True by (simp only: trim_Nil_iff trim_end_ws_append)
  also have "\<dots> = ''SrvBoxFw.Ufw''" by code_simp
  finally have "trim_end (PROBE_UFW @ v) = ''SrvBoxFw.Ufw''" .
  moreover have "list_all (\<lambda>m. probe_value m ''SrvBoxFw.Ufw'' = None)
      [PROBE_UFW, PROBE_FIREWALLD, PROBE_UID, PROBE_SSH, PROBE_IFACE]" by code_simp
  ultimately show ?thesis using True by (simp add: probe_line_def)
next
  case False
  then have "trim_end v \<noteq> []" by (simp add: trim_Nil_iff trim_end_Nil_iff)
  then have "trim_end (PROBE_UFW @ v) = PROBE_UFW @ trim_end v" by (rule trim_end_append)
  with False show ?thesis by (simp add: probe_line_def probe_value_def)
qed

end
