(* ===== verification/Ufw.thy ===== *)
theory Ufw
  imports Firewall Shell Utf8
begin

text \<open>
  ufw (\<open>crates/sbm_parser/src/firewall/ufw.rs\<close>): its rules read from the tuple
  lines of its rule files, what they do to a connection, and the commands that
  change it. The regular expression of a port item belongs to the \<open>regex\<close> crate
  and is the parameter \<open>item\<close>, which gives the captures of its two groups.
\<close>

section \<open>Words\<close>

definition sq :: "string \<Rightarrow> string" where
  "sq s = [CHR 0x27] @ s @ [CHR 0x27]"

definition dq :: "string \<Rightarrow> string" where
  "dq s = [CHR 0x22] @ s @ [CHR 0x22]"

datatype UfwAction = Allow | Deny | Reject | Limit

fun action_name :: "UfwAction \<Rightarrow> string" where
  "action_name Allow = ''allow''"
| "action_name Deny = ''deny''"
| "action_name Reject = ''reject''"
| "action_name Limit = ''limit''"

definition action_from_name :: "string \<Rightarrow> UfwAction option" where
  "action_from_name value = find (\<lambda>a. action_name a = value) [Allow, Deny, Reject, Limit]"

datatype UfwDirection = Incoming | Outgoing

fun direction_token :: "UfwDirection \<Rightarrow> string" where
  "direction_token Incoming = ''in''"
| "direction_token Outgoing = ''out''"

definition direction_from_token :: "string \<Rightarrow> UfwDirection option" where
  "direction_from_token value = find (\<lambda>d. direction_token d = value) [Incoming, Outgoing]"

datatype UfwPolicy = PolicyAllow | PolicyDeny | PolicyReject

fun policy_name :: "UfwPolicy \<Rightarrow> string" where
  "policy_name PolicyAllow = ''allow''"
| "policy_name PolicyDeny = ''deny''"
| "policy_name PolicyReject = ''reject''"

definition policy_from_target :: "string \<Rightarrow> UfwPolicy option" where
  "policy_from_target value =
     (let v = to_ascii_uppercase value in
      if v = ''ACCEPT'' then Some PolicyAllow
      else if v = ''DROP'' then Some PolicyDeny
      else if v = ''REJECT'' then Some PolicyReject
      else None)"

datatype UfwChain = ChainIncoming | ChainOutgoing | ChainRouted

definition ALL_CHAINS :: "UfwChain list" where
  "ALL_CHAINS = [ChainIncoming, ChainOutgoing, ChainRouted]"

fun chain_name :: "UfwChain \<Rightarrow> string" where
  "chain_name ChainIncoming = ''incoming''"
| "chain_name ChainOutgoing = ''outgoing''"
| "chain_name ChainRouted = ''routed''"

fun chain_key :: "UfwChain \<Rightarrow> string" where
  "chain_key ChainIncoming = ''INPUT''"
| "chain_key ChainOutgoing = ''OUTPUT''"
| "chain_key ChainRouted = ''FORWARD''"

datatype UfwLogLevel = LevelOff | LevelLow | LevelMedium | LevelHigh | LevelFull

definition ALL_LEVELS :: "UfwLogLevel list" where
  "ALL_LEVELS = [LevelOff, LevelLow, LevelMedium, LevelHigh, LevelFull]"

fun level_name :: "UfwLogLevel \<Rightarrow> string" where
  "level_name LevelOff = ''off''"
| "level_name LevelLow = ''low''"
| "level_name LevelMedium = ''medium''"
| "level_name LevelHigh = ''high''"
| "level_name LevelFull = ''full''"

datatype UfwIpVersion = Ip4 | Ip6 | IpBoth

datatype UfwLog = Log | LogAll

fun log_token :: "UfwLog \<Rightarrow> string" where
  "log_token Log = ''log''"
| "log_token LogAll = ''log-all''"

definition log_from_token :: "string \<Rightarrow> UfwLog option" where
  "log_from_token value = find (\<lambda>l. log_token l = value) [Log, LogAll]"

section \<open>Rules\<close>

record UfwEndpoint =
  e_address :: "string option"
  e_port :: "string option"
  e_app :: "string option"

text \<open>A rule's comment is its Unicode scalar values: ufw's files hold it in UTF-8.\<close>

record UfwRule =
  r_action :: UfwAction
  r_direction :: UfwDirection
  r_routed :: bool
  r_log :: "UfwLog option"
  r_protocol :: "string option"
  r_to :: UfwEndpoint
  r_from :: UfwEndpoint
  r_interface_in :: "string option"
  r_interface_out :: "string option"
  r_comment :: "nat list option"
  r_ip_version :: UfwIpVersion
  r_tuples :: "string list"

fun action_verdict :: "UfwAction \<Rightarrow> FirewallReach" where
  "action_verdict Allow = Open"
| "action_verdict Limit = Limited"
| "action_verdict Deny = Blocked"
| "action_verdict Reject = Blocked"

text \<open>The loop over the two addresses of a rule: \<open>None\<close> where one surely does not match.\<close>

fun judge_addresses :: "(string option \<times> IpAddr option) list \<Rightarrow> bool \<Rightarrow> bool option" where
  "judge_addresses [] s = Some s"
| "judge_addresses ((None, _) # rest) s = judge_addresses rest s"
| "judge_addresses ((Some network, addr) # rest) s =
     (case holds network addr of
        Some False \<Rightarrow> None
      | None \<Rightarrow> judge_addresses rest False
      | Some True \<Rightarrow> judge_addresses rest s)"

definition judge :: "UfwRule \<Rightarrow> FirewallAccess \<Rightarrow> Judged option" where
  "judge r a =
     (if r_routed r \<or> r_direction r \<noteq> Incoming then None
      else if (case r_protocol r of None \<Rightarrow> False | Some p \<Rightarrow> p \<noteq> ''tcp'') then None
      else if \<not> port_spec_covers (e_port (r_to r)) (port a) then None
      else if (case client_ip a of None \<Rightarrow> False
               | Some c \<Rightarrow> r_ip_version r = (if is_ipv6 c then Ip4 else Ip6)) then None
      else (case judge_addresses
                [(e_address (r_from r), client_ip a), (e_address (r_to r), server_ip a)]
                (r_interface_in r = None \<and> e_port (r_from r) = None) of
              None \<Rightarrow> None
            | Some s \<Rightarrow> Some \<lparr>verdict = action_verdict (r_action r), sure = s\<rparr>))"

record UfwAppPort =
  a_port :: string
  a_protocol :: "string option"

definition parse_app_port :: "string \<Rightarrow> UfwAppPort option" where
  "parse_app_port spec =
     (let value = trim spec in
      if value = [] then None
      else (case split_once (CHR ''/'') value of
              Some (prt, proto) \<Rightarrow> Some \<lparr>a_port = prt, a_protocol = Some proto\<rparr>
            | None \<Rightarrow> Some \<lparr>a_port = value, a_protocol = None\<rparr>))"

record UfwApp =
  a_name :: string
  a_ports :: "UfwAppPort list"

record UfwSnapshot =
  s_active :: "bool option"
  s_status_line :: "string option"
  s_version :: "string option"
  s_log_level :: "UfwLogLevel option"
  s_ipv6 :: bool
  s_policies :: "UfwChain \<rightharpoonup> UfwPolicy"
  s_rules :: "UfwRule list"
  s_apps :: "UfwApp list"

definition or_else :: "'a option \<Rightarrow> 'a option \<Rightarrow> 'a option" where
  "or_else x y = (case x of None \<Rightarrow> y | Some _ \<Rightarrow> x)"

definition policy_reach :: "UfwPolicy option \<Rightarrow> FirewallReach" where
  "policy_reach p = (case p of Some PolicyAllow \<Rightarrow> Open
     | Some PolicyDeny \<Rightarrow> Blocked | Some PolicyReject \<Rightarrow> Blocked | None \<Rightarrow> Unknown)"

definition client_is_ipv6 :: "FirewallAccess \<Rightarrow> bool" where
  "client_is_ipv6 a = (case client_ip a of None \<Rightarrow> False | Some c \<Rightarrow> is_ipv6 c)"

definition reach :: "UfwSnapshot \<Rightarrow> FirewallAccess \<Rightarrow> bool option \<Rightarrow> UfwRule list option
    \<Rightarrow> UfwPolicy option \<Rightarrow> FirewallReach" where
  "reach s a active rules inc =
     (if or_else active (s_active s) = Some False then Open
      else if \<not> s_ipv6 s \<and> client_is_ipv6 a then Open
      else decide (List.map_filter (\<lambda>r. judge r a) (unwrap_or (s_rules s) rules))
             (policy_reach (or_else inc (s_policies s ChainIncoming))))"

definition with_rules :: "UfwSnapshot \<Rightarrow> UfwRule list \<Rightarrow> bool \<Rightarrow> UfwRule list" where
  "with_rules s added prepend = (if prepend then added @ s_rules s else s_rules s @ added)"

section \<open>Drafts\<close>

record UfwRuleDraft =
  d_action :: UfwAction
  d_direction :: UfwDirection
  d_routed :: bool
  d_protocol :: "string option"
  d_port :: string
  d_source_port :: string
  d_app :: "string option"
  d_from :: string
  d_to :: string
  d_interface_in :: string
  d_interface_out :: string
  d_log :: "UfwLog option"
  d_comment :: string
  d_prepend :: bool

definition new_draft :: "UfwAction \<Rightarrow> UfwDirection \<Rightarrow> UfwRuleDraft" where
  "new_draft action direction =
     \<lparr>d_action = action, d_direction = direction, d_routed = False, d_protocol = None,
      d_port = [], d_source_port = [], d_app = None, d_from = [], d_to = [],
      d_interface_in = [], d_interface_out = [], d_log = None, d_comment = [], d_prepend = False\<rparr>"

definition effective_interface_in :: "UfwRuleDraft \<Rightarrow> string" where
  "effective_interface_in d =
     (if d_routed d \<or> d_direction d = Incoming then trim (d_interface_in d) else [])"

definition effective_interface_out :: "UfwRuleDraft \<Rightarrow> string" where
  "effective_interface_out d =
     (if d_routed d \<or> d_direction d = Outgoing then trim (d_interface_out d) else [])"

definition nonempty :: "string \<Rightarrow> string option" where
  "nonempty v = (if trim v = [] then None else Some (trim v))"

definition draft_ports :: "UfwRuleDraft \<Rightarrow> UfwApp list \<Rightarrow> UfwAppPort list" where
  "draft_ports d apps =
     (case d_app d of
        None \<Rightarrow> [\<lparr>a_port = trim (d_port d), a_protocol = d_protocol d\<rparr>]
      | Some app \<Rightarrow> (case find (\<lambda>a. a_name a = app) apps of None \<Rightarrow> [] | Some a \<Rightarrow> a_ports a))"

definition draft_family :: "UfwRuleDraft \<Rightarrow> UfwIpVersion" where
  "draft_family d =
     (if CHR '':'' \<in> set (d_from d) \<or> CHR '':'' \<in> set (d_to d) then Ip6
      else if trim (d_from d) \<noteq> [] \<or> trim (d_to d) \<noteq> [] then Ip4
      else IpBoth)"

definition as_rules :: "UfwRuleDraft \<Rightarrow> UfwApp list \<Rightarrow> UfwRule list" where
  "as_rules d apps =
     map (\<lambda>spec.
       \<lparr>r_action = d_action d, r_direction = d_direction d, r_routed = d_routed d, r_log = None,
        r_protocol = a_protocol spec,
        r_to = \<lparr>e_address = nonempty (d_to d), e_port = nonempty (a_port spec), e_app = d_app d\<rparr>,
        r_from = \<lparr>e_address = nonempty (d_from d), e_port = nonempty (d_source_port d), e_app = None\<rparr>,
        r_interface_in = nonempty (effective_interface_in d),
        r_interface_out = nonempty (effective_interface_out d),
        r_comment = None, r_ip_version = draft_family d, r_tuples = []\<rparr>) (draft_ports d apps)"

datatype UfwDraftIssue =
  NothingMatched | InvalidPort | TooManyPorts | PortsNeedProtocol | InvalidAddress
  | MixedIpVersions | InvalidInterface | InvalidComment | InvalidProtocol

definition PROTOCOLS :: "string list" where
  "PROTOCOLS = [''tcp'', ''udp'', ''ah'', ''esp'', ''gre'', ''ipv6'', ''igmp'', ''vrrp'']"

section \<open>Reading\<close>

definition VERSION_MARKER :: string where "VERSION_MARKER = ''SrvBoxUfw.Version'' @ [tab]"
definition STATUS_MARKER :: string where "STATUS_MARKER = ''SrvBoxUfw.Status'' @ [tab]"
definition DEFAULTS_MARKER :: string where "DEFAULTS_MARKER = ''SrvBoxUfw.Defaults''"
definition CONF_MARKER :: string where "CONF_MARKER = ''SrvBoxUfw.Conf''"
definition V4_MARKER :: string where "V4_MARKER = ''SrvBoxUfw.V4''"
definition V6_MARKER :: string where "V6_MARKER = ''SrvBoxUfw.V6''"
definition APPS_MARKER :: string where "APPS_MARKER = ''SrvBoxUfw.Apps''"
definition V6_UNREADABLE :: string where "V6_UNREADABLE = ''SrvBoxUfw.V6Unreadable''"

definition RULES4 :: string where "RULES4 = ''/etc/ufw/user.rules''"
definition RULES6 :: string where "RULES6 = ''/etc/ufw/user6.rules''"
definition TUPLE_PREFIX :: string where "TUPLE_PREFIX = ''### tuple ### ''"
definition ANY4 :: string where "ANY4 = ''0.0.0.0/0''"
definition ANY6 :: string where "ANY6 = ''::/0''"

definition read_script :: string where
  "read_script =
     concat (map (\<lambda>l. l @ [nl])
       [ENV,
        ''[ -r '' @ RULES4 @ '' ] || { echo '' @ sq (''Cannot read '' @ RULES4) @ '' >&2; exit 1; }'',
        ''v=$(ufw version 2>/dev/null | head -n 1)'',
        ''s=$(ufw status 2>&1 | grep -v '' @ sq ''^WARN'' @ '' | head -n 1)'',
        ''printf '' @ sq (VERSION_MARKER @ ''%s'' @ [CHR 0x5C] @ ''n'') @ '' '' @ dq ''$v'',
        ''printf '' @ sq (STATUS_MARKER @ ''%s'' @ [CHR 0x5C] @ ''n'') @ '' '' @ dq ''$s'',
        ''echo '' @ DEFAULTS_MARKER,
        ''grep -E '' @ sq ''^(IPV6|DEFAULT_[A-Z]+_POLICY)='' @ '' /etc/default/ufw 2>/dev/null'',
        ''echo '' @ CONF_MARKER,
        ''grep -E '' @ sq ''^LOGLEVEL='' @ '' /etc/ufw/ufw.conf 2>/dev/null'',
        ''echo '' @ V4_MARKER,
        ''grep '' @ sq (''^'' @ TUPLE_PREFIX) @ '' '' @ RULES4 @ '' 2>/dev/null'',
        ''echo '' @ V6_MARKER,
        ''grep '' @ sq (''^'' @ TUPLE_PREFIX) @ '' '' @ RULES6 @ '' 2>/dev/null; [ $? -le 1 ] || echo '' @ V6_UNREADABLE,
        ''echo '' @ APPS_MARKER,
        ''ufw app info all 2>/dev/null'',
        ''exit 0''])"

definition v4_twin :: "string \<Rightarrow> string" where
  "v4_twin v6_tuple =
     (case strip_prefix TUPLE_PREFIX v6_tuple of None \<Rightarrow> v6_tuple
      | Some rest \<Rightarrow>
          (let flds = split_on (CHR '' '') rest in
           if length flds < 7 then v6_tuple
           else TUPLE_PREFIX @ join '' ''
             (foldl (\<lambda>fs i. if fs ! i = ANY6 then fs[i := ANY4] else fs) flds [3, 5])))"

definition hex_digit :: "char \<Rightarrow> nat option" where
  "hex_digit c = (if is_ascii_hexdigit c then Some (hex_val c) else None)"

text \<open>\<open>u8::from_str_radix(_, 16)\<close> on two characters, the first of which may be a sign.\<close>

definition hex_byte :: "char \<Rightarrow> char \<Rightarrow> nat option" where
  "hex_byte a b =
     (if a = CHR ''+'' then hex_digit b
      else (case (hex_digit a, hex_digit b) of (Some x, Some y) \<Rightarrow> Some (16 * x + y) | _ \<Rightarrow> None))"

fun hex_bytes :: "string \<Rightarrow> nat list option" where
  "hex_bytes (a # b # rest) =
     (case (hex_byte a b, hex_bytes rest) of (Some x, Some xs) \<Rightarrow> Some (x # xs) | _ \<Rightarrow> None)"
| "hex_bytes _ = Some []"

definition decode_comment :: "string \<Rightarrow> nat list option" where
  "decode_comment hex =
     (if hex = [] \<or> length hex mod 2 \<noteq> 0 \<or> \<not> list_all (\<lambda>c. code_of c < 128) hex then None
      else map_option from_utf8_lossy (hex_bytes hex))"

text \<open>The loop over the parts of a rule's direction field.\<close>

fun direction_loop :: "string list \<Rightarrow> UfwDirection option \<times> string option \<times> string option
    \<Rightarrow> (UfwDirection option \<times> string option \<times> string option) option" where
  "direction_loop [] st = Some st"
| "direction_loop (part # parts) (direction, i_in, i_out) =
     (let (dir, ifc) = (case split_once (CHR ''_'') part of
            Some (d, i) \<Rightarrow> (d, Some i) | None \<Rightarrow> (part, None))
      in case direction_from_token dir of None \<Rightarrow> None
         | Some d \<Rightarrow>
             (let first = (case direction of None \<Rightarrow> Some d | Some x \<Rightarrow> Some x) in
              case d of Incoming \<Rightarrow> direction_loop parts (first, ifc, i_out)
              | Outgoing \<Rightarrow> direction_loop parts (first, i_in, ifc)))"

definition split_comment :: "string list \<Rightarrow> nat list option \<times> string list" where
  "split_comment flds =
     (case strip_prefix ''comment='' (last flds) of
        Some hex \<Rightarrow> (decode_comment hex, butlast flds)
      | None \<Rightarrow> (None, flds))"

text \<open>The action and the logging suffix of the first field; an unknown suffix is an unknown rule.\<close>

definition parse_head :: "string \<Rightarrow> (UfwAction \<times> UfwLog option) option" where
  "parse_head h =
     (let (action, log) = (case split_once (CHR ''_'') h of
            Some (a, l) \<Rightarrow> (a, Some l) | None \<Rightarrow> (h, None))
      in case action_from_name action of None \<Rightarrow> None
         | Some act \<Rightarrow> (case log of None \<Rightarrow> Some (act, None)
             | Some token \<Rightarrow> map_option (\<lambda>l. (act, Some l)) (log_from_token token)))"

definition any_none :: "string \<Rightarrow> string option" where
  "any_none v = (if v \<noteq> ''any'' then Some v else None)"

definition tuple_address :: "string \<Rightarrow> string option" where
  "tuple_address v = (if v \<noteq> ANY4 \<and> v \<noteq> ANY6 then Some v else None)"

definition tuple_app :: "string \<Rightarrow> string option" where
  "tuple_app v = (if v \<noteq> ''-'' then Some (replace_sub ''%20'' '' '' v) else None)"

definition parse_tuple :: "string list \<Rightarrow> UfwIpVersion \<Rightarrow> UfwRule option" where
  "parse_tuple tuples version =
     (case tuples of [] \<Rightarrow> None
      | line # _ \<Rightarrow>
        (case strip_prefix TUPLE_PREFIX line of None \<Rightarrow> None
         | Some rest \<Rightarrow>
          (let (comment, flds) = split_comment (split_on (CHR '' '') (trim rest)) in
           if length flds \<noteq> 7 \<and> length flds \<noteq> 9 then None
           else
            (let (routed, h) = (case strip_prefix ''route:'' (flds ! 0) of
                   Some h \<Rightarrow> (True, h) | None \<Rightarrow> (False, flds ! 0));
                 apps = (length flds = 9)
             in case parse_head h of None \<Rightarrow> None
                | Some (action, log) \<Rightarrow>
                 (case direction_loop (split_on (CHR ''!'') (last flds)) (None, None, None) of
                    Some (Some direction, i_in, i_out) \<Rightarrow>
                      Some \<lparr>r_action = action, r_direction = direction, r_routed = routed, r_log = log,
                        r_protocol = any_none (flds ! 1),
                        r_to = \<lparr>e_address = tuple_address (flds ! 3), e_port = any_none (flds ! 2),
                                e_app = (if apps then tuple_app (flds ! 6) else None)\<rparr>,
                        r_from = \<lparr>e_address = tuple_address (flds ! 5), e_port = any_none (flds ! 4),
                                  e_app = (if apps then tuple_app (flds ! 7) else None)\<rparr>,
                        r_interface_in = i_in, r_interface_out = i_out, r_comment = comment,
                        r_ip_version = version, r_tuples = tuples\<rparr>
                  | _ \<Rightarrow> None)))))"

definition twins_of :: "string list \<Rightarrow> string \<rightharpoonup> string" where
  "twins_of v6 = foldl (\<lambda>m t. m(v4_twin t \<mapsto> t)) Map.empty v6"

text \<open>The loop over the v4 tuples: the v6 tuples folded in so far, and the rules.\<close>

fun merge_v4 :: "(string \<rightharpoonup> string) \<Rightarrow> string list \<Rightarrow> string list \<Rightarrow> UfwRule list
    \<Rightarrow> string list \<times> UfwRule list" where
  "merge_v4 twins [] merged rules = (merged, rules)"
| "merge_v4 twins (tuple # v4) merged rules =
     (let rule = (case twins tuple of
            Some twin \<Rightarrow> parse_tuple [tuple, twin] IpBoth
          | None \<Rightarrow> parse_tuple [tuple] Ip4)
      in case rule of
           None \<Rightarrow> merge_v4 twins v4 merged rules
         | Some r \<Rightarrow> merge_v4 twins v4
             (merged @ (case twins tuple of Some t \<Rightarrow> [t] | None \<Rightarrow> [])) (rules @ [r]))"

definition merge_rules :: "string list \<Rightarrow> string list \<Rightarrow> UfwRule list" where
  "merge_rules v4 v6 =
     (let (merged, rules) = merge_v4 (twins_of v6) v4 [] [] in
      rules @ List.map_filter (\<lambda>tuple. if tuple \<in> set merged then None else parse_tuple [tuple] Ip6) v6)"

definition strip_quote_start :: "string \<Rightarrow> string" where
  "strip_quote_start v = (case v of c # cs \<Rightarrow> if c \<in> {CHR 0x22, CHR 0x27} then cs else v | [] \<Rightarrow> v)"

definition strip_quote_end :: "string \<Rightarrow> string" where
  "strip_quote_end v = (if v \<noteq> [] \<and> last v \<in> {CHR 0x22, CHR 0x27} then butlast v else v)"

definition key_values :: "string list \<Rightarrow> string \<rightharpoonup> string" where
  "key_values lines =
     foldl (\<lambda>m line. case split_once (CHR ''='') line of
         Some (k, v) \<Rightarrow> if k = [] then m
           else m(trim k \<mapsto> strip_quote_end (strip_quote_start (trim v)))
       | None \<Rightarrow> m) Map.empty lines"

text \<open>The profile being read, and whether its ports are.\<close>

fun parse_apps_loop :: "string list \<Rightarrow> UfwApp list \<Rightarrow> UfwApp option \<Rightarrow> bool \<Rightarrow> UfwApp list" where
  "parse_apps_loop [] apps current in_ports =
     apps @ (case current of Some a \<Rightarrow> [a] | None \<Rightarrow> [])"
| "parse_apps_loop (line # lines) apps current in_ports =
     (case strip_prefix ''Profile: '' line of
        Some name \<Rightarrow> parse_apps_loop lines
          (apps @ (case current of Some a \<Rightarrow> [a] | None \<Rightarrow> []))
          (Some \<lparr>a_name = trim name, a_ports = []\<rparr>) False
      | None \<Rightarrow>
          if line = ''Ports:'' \<or> line = ''Port:'' then parse_apps_loop lines apps current True
          else if in_ports \<and> starts_with '' '' line then
            parse_apps_loop lines apps
              (case (current, parse_app_port line) of
                 (Some app, Some p) \<Rightarrow> Some (app\<lparr>a_ports := a_ports app @ [p]\<rparr>)
               | _ \<Rightarrow> current) in_ports
          else parse_apps_loop lines apps current False)"

definition parse_apps :: "string list \<Rightarrow> UfwApp list" where
  "parse_apps lines = parse_apps_loop lines [] None False"

record UfwRead =
  u_version :: "string option"
  u_status :: "string option"
  u_sections :: "string \<rightharpoonup> string list"
  u_section :: "string option"
  u_unreadable :: bool

definition parse_line :: "UfwRead \<Rightarrow> string \<Rightarrow> UfwRead" where
  "parse_line u raw =
     (let line = trim_end raw in
      case strip_prefix VERSION_MARKER line of
        Some v \<Rightarrow> u\<lparr>u_version := Some (trim v)\<rparr>
      | None \<Rightarrow>
      (case strip_prefix STATUS_MARKER line of
        Some s \<Rightarrow> u\<lparr>u_status := Some (trim s)\<rparr>
      | None \<Rightarrow>
          if line = V6_UNREADABLE then u\<lparr>u_unreadable := True\<rparr>
          else if line \<in> set [DEFAULTS_MARKER, CONF_MARKER, V4_MARKER, V6_MARKER, APPS_MARKER]
          then u\<lparr>u_section := Some line, u_sections := (u_sections u)(line \<mapsto> [])\<rparr>
          else (case u_section u of
                  Some s \<Rightarrow> if line = [] then u
                    else u\<lparr>u_sections := (u_sections u)(s \<mapsto> unwrap_or [] (u_sections u s) @ [line])\<rparr>
                | None \<Rightarrow> u)))"

definition parse_version :: "string \<Rightarrow> string" where
  "parse_version v =
     (case strip_prefix ''ufw'' v of
        Some rest \<Rightarrow> if rest \<noteq> [] \<and> is_whitespace (hd rest) then trim_start rest else v
      | None \<Rightarrow> v)"

definition parse_active :: "string \<Rightarrow> bool option" where
  "parse_active status =
     (if status = ''Status: active'' then Some True
      else if status = ''Status: inactive'' then Some False else None)"

definition parse_policies :: "(string \<rightharpoonup> string) \<Rightarrow> UfwChain \<rightharpoonup> UfwPolicy" where
  "parse_policies defaults chain =
     (case defaults (''DEFAULT_'' @ chain_key chain @ ''_POLICY'') of
        None \<Rightarrow> None | Some v \<Rightarrow> policy_from_target v)"

definition parse :: "string \<Rightarrow> (string, UfwSnapshot) result" where
  "parse output =
     (let u = foldl parse_line
            \<lparr>u_version = None, u_status = None, u_sections = Map.empty, u_section = None, u_unreadable = False\<rparr>
            (split_on nl (normalize_newlines output));
          section = (\<lambda>m. unwrap_or [] (u_sections u m))
      in case u_status u of None \<Rightarrow> Err ''Unable to read the ufw status''
         | Some status \<Rightarrow>
            (let defaults = key_values (section DEFAULTS_MARKER);
                 conf = key_values (section CONF_MARKER);
                 ipv6 = (case defaults ''IPV6'' of None \<Rightarrow> True | Some v \<Rightarrow> \<not> eq_ignore_ascii_case v ''no'')
             in if ipv6 \<and> u_unreadable u then Err (''Cannot read '' @ RULES6)
                else Ok
                 \<lparr>s_active = parse_active status, s_status_line = Some status,
                  s_version = map_option parse_version (u_version u),
                  s_log_level = (case conf ''LOGLEVEL'' of None \<Rightarrow> None
                    | Some l \<Rightarrow> find (\<lambda>v. eq_ignore_ascii_case (level_name v) l) ALL_LEVELS),
                  s_ipv6 = ipv6,
                  s_policies = parse_policies defaults,
                  s_rules = merge_rules (section V4_MARKER) (if ipv6 then section V6_MARKER else []),
                  s_apps = parse_apps (section APPS_MARKER)\<rparr>))"

section \<open>Commands\<close>

definition ENABLE_COMMAND :: string where "ENABLE_COMMAND = ''ufw --force enable''"
definition DISABLE_COMMAND :: string where "DISABLE_COMMAND = ''ufw disable''"
definition RELOAD_COMMAND :: string where "RELOAD_COMMAND = ''ufw reload''"

definition policy_command :: "UfwChain \<Rightarrow> UfwPolicy \<Rightarrow> string" where
  "policy_command chain policy = ''ufw default '' @ policy_name policy @ '' '' @ chain_name chain"

definition logging_command :: "UfwLogLevel \<Rightarrow> string" where
  "logging_command level = ''ufw logging '' @ level_name level"

definition allow_tcp_command :: "nat \<Rightarrow> string" where
  "allow_tcp_command p = ''ufw prepend allow in proto tcp from any to any port '' @ show_nat p"

definition delete_commands :: "UfwRule \<Rightarrow> string list" where
  "delete_commands r =
     concat (map (\<lambda>tuple.
       [''t='' @ shell_quote_unix tuple,
        ''n=$(grep -h '' @ sq (''^'' @ TUPLE_PREFIX) @ '' '' @ RULES4 @ '' '' @ RULES6
          @ '' 2>/dev/null | grep -nxF -e '' @ dq ''$t'' @ '' | head -n 1 | cut -d: -f1)'',
        ''[ -n '' @ dq ''$n'' @ '' ] || { echo '' @ dq ''Rule not found: $t'' @ '' >&2; exit 3; }'',
        ''ufw --force delete '' @ dq ''$n'']) (r_tuples r))"

text \<open>
  The loop over the parts of a port spec gives the weight, or the first issue.
  Both groups of the expression are one to five digits, so \<open>parse\<close> on them cannot
  fail (\<open>item_parses\<close> below) and their value is \<open>digits_val\<close>.
\<close>

type_synonym item_regex = "string \<Rightarrow> (string \<times> string option) option"

fun port_weight :: "item_regex \<Rightarrow> string list \<Rightarrow> nat \<Rightarrow> (UfwDraftIssue, nat) result" where
  "port_weight item [] weight = Ok weight"
| "port_weight item (part # parts) weight =
     (case item part of None \<Rightarrow> Err InvalidPort
      | Some (a, e) \<Rightarrow>
          (let start = digits_val a; stop = map_option digits_val e in
           if \<not> (1 \<le> start \<and> start \<le> 65535) then Err InvalidPort
           else (case stop of
                   Some t \<Rightarrow> if t \<le> start \<or> t > 65535 then Err InvalidPort
                     else port_weight item parts (weight + 2)
                 | None \<Rightarrow> port_weight item parts (weight + 1))))"

definition port_issue :: "item_regex \<Rightarrow> string \<Rightarrow> string option \<Rightarrow> UfwDraftIssue option" where
  "port_issue item spec protocol =
     (case port_weight item (split_on (CHR '','') spec) 0 of
        Inl issue \<Rightarrow> Some issue
      | Inr weight \<Rightarrow>
          if weight > 15 then Some TooManyPorts
          else if weight > 1 \<and> protocol = None then Some PortsNeedProtocol
          else None)"

definition spec_issue :: "item_regex \<Rightarrow> string option \<Rightarrow> string \<Rightarrow> UfwDraftIssue option" where
  "spec_issue item protocol spec = (if spec = [] then None else port_issue item spec protocol)"

definition bad_interface :: "string \<Rightarrow> bool" where
  "bad_interface name \<longleftrightarrow> name \<noteq> [] \<and> \<not> valid_interface name"

definition validate_draft :: "item_regex \<Rightarrow> UfwRuleDraft \<Rightarrow> UfwDraftIssue option" where
  "validate_draft item d =
     (let prt = (if d_app d = None then trim (d_port d) else []);
          source_port = trim (d_source_port d);
          src = trim (d_from d); dst = trim (d_to d);
          protocol = (if d_app d = None then d_protocol d else None);
          src_family = (if src \<noteq> [] then Some (family_of src) else None);
          dst_family = (if dst \<noteq> [] then Some (family_of dst) else None)
      in if d_app d = None \<and> prt = [] \<and> source_port = [] \<and> src = [] \<and> dst = []
            \<and> effective_interface_in d = [] \<and> effective_interface_out d = [] then Some NothingMatched
         else if (case protocol of None \<Rightarrow> False | Some p \<Rightarrow> p \<notin> set PROTOCOLS) then Some InvalidProtocol
         else (case spec_issue item protocol prt of Some issue \<Rightarrow> Some issue | None \<Rightarrow>
              (case spec_issue item protocol source_port of Some issue \<Rightarrow> Some issue | None \<Rightarrow>
         if src_family = Some None \<or> dst_family = Some None then Some InvalidAddress
         else if (case (src_family, dst_family) of (Some (Some a), Some (Some b)) \<Rightarrow> a \<noteq> b | _ \<Rightarrow> False)
         then Some MixedIpVersions
         else if list_ex bad_interface [effective_interface_in d, effective_interface_out d]
         then Some InvalidInterface
         else if CHR 0x27 \<in> set (d_comment d) \<or> has_control (d_comment d) then Some InvalidComment
         else None)))"

text \<open>The words pushed in order, each the way it is written into the line.\<close>

definition add_words :: "UfwRuleDraft \<Rightarrow> string list" where
  "add_words d =
     (let prt = trim (d_port d); source_port = trim (d_source_port d);
          src = trim (d_from d); dst = trim (d_to d);
          i_in = effective_interface_in d; i_out = effective_interface_out d;
          ifc = (if i_in = [] then i_out else i_in);
          comment = trim (d_comment d)
      in [''ufw'']
        @ (if d_routed d then [''route''] else [])
        @ (if d_prepend d then [''prepend''] else [])
        @ [action_name (d_action d)]
        @ (if d_routed d then
             (if i_in \<noteq> [] then [''in'', ''on'', shell_quote_unix i_in] else [])
             @ (if i_out \<noteq> [] then [''out'', ''on'', shell_quote_unix i_out] else [])
           else [direction_token (d_direction d)]
             @ (if ifc \<noteq> [] then [''on'', shell_quote_unix ifc] else []))
        @ (case d_log d of Some l \<Rightarrow> [log_token l] | None \<Rightarrow> [])
        @ (case (d_app d, d_protocol d) of (None, Some p) \<Rightarrow> [''proto'', p] | _ \<Rightarrow> [])
        @ [''from'', if src = [] then ''any'' else shell_quote_unix src]
        @ (if source_port \<noteq> [] then [''port'', source_port] else [])
        @ [''to'', if dst = [] then ''any'' else shell_quote_unix dst]
        @ (case d_app d of Some app \<Rightarrow> [''app'', shell_quote_unix app]
           | None \<Rightarrow> if prt \<noteq> [] then [''port'', prt] else [])
        @ (if comment \<noteq> [] then [''comment'', shell_quote_unix comment] else []))"

definition add_command :: "item_regex \<Rightarrow> UfwRuleDraft \<Rightarrow> (UfwDraftIssue, string) result" where
  "add_command item d =
     (case validate_draft item d of
        Some issue \<Rightarrow> Err issue
      | None \<Rightarrow> Ok (join '' '' (add_words d)))"

end
