(* ===== verification/Ufw_Read.thy ===== *)
theory Ufw_Read
  imports Ufw
begin

text \<open>
  Reading ufw's rule files: the words of a tuple and their codecs, the comment
  field, and the folding of the two families into one list.
\<close>

section \<open>Words and what they name\<close>

text \<open>The enumerations that ufw writes by a word: each value has its own word, and only that.\<close>

locale word_codec =
  fixes enc :: "'a \<Rightarrow> string" and dec :: "string \<Rightarrow> 'a option"
  assumes dec_enc: "dec (enc x) = Some x"
    and dec_only: "dec w = Some x \<Longrightarrow> w = enc x"
begin

lemma dec_iff: "dec w = Some x \<longleftrightarrow> w = enc x"
  using dec_enc dec_only by blast

lemma enc_inject: "enc x = enc y \<longleftrightarrow> x = y"
  using dec_enc by (metis option.inject)

end

interpretation action_word: word_codec action_name action_from_name
proof
  show "action_from_name (action_name x) = Some x" for x by (cases x) (simp_all add: action_from_name_def)
  show "action_from_name w = Some x \<Longrightarrow> w = action_name x" for w x
    unfolding action_from_name_def by (drule find_SomeD) simp
qed

interpretation direction_word: word_codec direction_token direction_from_token
proof
  show "direction_from_token (direction_token x) = Some x" for x by (cases x) (simp_all add: direction_from_token_def)
  show "direction_from_token w = Some x \<Longrightarrow> w = direction_token x" for w x
    unfolding direction_from_token_def by (drule find_SomeD) simp
qed

interpretation log_word: word_codec log_token log_from_token
proof
  show "log_from_token (log_token x) = Some x" for x by (cases x) (simp_all add: log_from_token_def)
  show "log_from_token w = Some x \<Longrightarrow> w = log_token x" for w x
    unfolding log_from_token_def by (drule find_SomeD) simp
qed

lemma parse_head_words:
  "parse_head (action_name a @ (case l of None \<Rightarrow> [] | Some t \<Rightarrow> ''_'' @ log_token t)) = Some (a, l)"
proof -
  have "CHR ''_'' \<notin> set (action_name a)" by (cases a) simp_all
  then show ?thesis
    by (cases l) (simp_all add: parse_head_def split_once_None_iff [THEN iffD2] action_word.dec_enc log_word.dec_enc)
qed

section \<open>Comments\<close>

definition hex_char :: "nat \<Rightarrow> char" where
  "hex_char n = (if n < 10 then char_of (48 + n) else char_of (87 + n))"

definition hex_encode :: "nat list \<Rightarrow> string" where
  "hex_encode bs = concat (map (\<lambda>b. [hex_char (b div 16), hex_char (b mod 16)]) bs)"

lemma hex_char_ok:
  assumes "n < 16"
  shows "hex_digit (hex_char n) = Some n \<and> code_of (hex_char n) < (128 :: nat) \<and> hex_char n \<noteq> CHR ''+''"
proof -
  have code: "code_of (hex_char n) = (if n < 10 then 48 + n else 87 + n)"
    using assms by (simp add: hex_char_def)
  then have "hex_digit (hex_char n) = Some n"
    using assms by (auto simp: hex_digit_def hex_val_def is_ascii_hexdigit_def is_ascii_digit_def is_ascii_lower_def)
  moreover have "hex_char n \<noteq> CHR ''+''"
  proof
    assume "hex_char n = CHR ''+''"
    then have "code_of (hex_char n) = (43 :: nat)" by simp
    with code show False by (auto split: if_splits)
  qed
  ultimately show ?thesis using code assms by auto
qed

lemma hex_bytes_encode: "list_all (\<lambda>b. b < 256) bs \<Longrightarrow> hex_bytes (hex_encode bs) = Some bs"
proof (induction bs)
  case (Cons b bs)
  have "b div 16 < 16" "b mod 16 < 16" using Cons.prems by auto
  then show ?case using Cons by (simp add: hex_encode_def hex_byte_def hex_char_ok)
qed (simp add: hex_encode_def)

lemma hex_encode_ascii: "list_all (\<lambda>b. b < 256) bs \<Longrightarrow> list_all (\<lambda>c. code_of c < (128 :: nat)) (hex_encode bs)"
  by (induction bs) (auto simp: hex_encode_def hex_char_ok)

lemma hex_encode_length: "length (hex_encode bs) = 2 * length bs"
  by (induction bs) (auto simp: hex_encode_def)

text \<open>
  A comment is read back as it was given: any text but the empty one, written
  as the hexadecimal digits of its UTF-8 bytes, decodes to the same text.
\<close>

theorem comment_roundtrip:
  assumes "list_all scalar cs" "cs \<noteq> []"
  shows "decode_comment (hex_encode (concat (map utf8 cs))) = Some cs"
proof -
  let ?bs = "concat (map utf8 cs)"
  have bytes: "list_all (\<lambda>b. b < 256) ?bs" using assms(1) utf8_bytes by (fastforce simp: list_all_iff)
  have "?bs \<noteq> []" using assms(2) utf8_not_Nil by (cases cs) auto
  then have "hex_encode ?bs \<noteq> []" using hex_encode_length [of ?bs] by auto
  then show ?thesis
    using hex_encode_ascii [OF bytes] hex_bytes_encode [OF bytes] from_utf8_lossy_encode [OF assms(1)]
    by (simp add: decode_comment_def hex_encode_length)
qed

theorem comment_roundtrip_witness:
  "decode_comment (hex_encode (concat (map utf8 [104, 233, 8364]))) = Some [104, 233, 8364]"
  using comment_roundtrip [of "[104, 233, 8364]"] by (simp add: scalar_def)

section \<open>Both families in one list\<close>

lemma parse_tuple_first:
  "parse_tuple (t # ts) v = map_option (\<lambda>r. r\<lparr>r_ip_version := v, r_tuples := t # ts\<rparr>) (parse_tuple [t] w)"
  by (simp add: parse_tuple_def Let_def split: option.split prod.split)

definition readable :: "string \<Rightarrow> bool" where
  "readable t \<longleftrightarrow> parse_tuple [t] Ip4 \<noteq> None"

lemma parse_tuple_None: "parse_tuple (t # ts) v = None \<longleftrightarrow> \<not> readable t"
  using parse_tuple_first [of t ts v Ip4] by (simp add: readable_def)

lemma parse_tuple_keeps: "parse_tuple (t # ts) v = Some r \<Longrightarrow> r_tuples r = t # ts \<and> r_ip_version r = v"
  using parse_tuple_first [of t ts v Ip4] by auto

lemma twins_of_Some: "twins_of v6 u = Some t \<Longrightarrow> t \<in> set v6 \<and> v4_twin t = u"
  by (induction v6 rule: rev_induct) (auto simp: twins_of_def split: if_splits)

text \<open>What the loop over the v4 tuples makes of one of them.\<close>

definition v4_rule :: "(string \<rightharpoonup> string) \<Rightarrow> string \<Rightarrow> UfwRule option" where
  "v4_rule twins t = (case twins t of Some u \<Rightarrow> parse_tuple [t, u] IpBoth | None \<Rightarrow> parse_tuple [t] Ip4)"

definition v4_folded :: "(string \<rightharpoonup> string) \<Rightarrow> string list \<Rightarrow> string list" where
  "v4_folded twins v4 = List.map_filter twins (filter readable v4)"

lemma merge_v4_eq:
  "merge_v4 twins v4 merged rules = (merged @ v4_folded twins v4, rules @ List.map_filter (v4_rule twins) v4)"
proof (induction v4 arbitrary: merged rules)
  case (Cons t v4)
  have "v4_rule twins t = None \<longleftrightarrow> \<not> readable t"
    by (cases "twins t") (simp_all add: v4_rule_def parse_tuple_None)
  with Cons show ?case
    by (auto simp: v4_rule_def [symmetric] v4_folded_def List.map_filter_simps split: option.splits)
qed (simp add: v4_folded_def List.map_filter_simps)

lemma merge_rules_eq:
  "merge_rules v4 v6 = List.map_filter (v4_rule (twins_of v6)) v4 @
     List.map_filter (\<lambda>t. if t \<in> set (v4_folded (twins_of v6) v4) then None else parse_tuple [t] Ip6) v6"
  by (simp add: merge_rules_def merge_v4_eq)

text \<open>
  Every rule of the merged list is one v4 tuple alone, one v6 tuple alone, or
  a v4 tuple with the v6 tuple that only repeats it; and no tuple that can be read
  is left out of the list, in either file.
\<close>

theorem merge_rules_lists_every_tuple:
  "(\<forall>r \<in> set (merge_rules v4 v6).
      (\<exists>t \<in> set v4. r_tuples r = [t] \<and> r_ip_version r = Ip4)
      \<or> (\<exists>t \<in> set v4. \<exists>u \<in> set v6. r_tuples r = [t, u] \<and> v4_twin u = t \<and> r_ip_version r = IpBoth)
      \<or> (\<exists>u \<in> set v6. r_tuples r = [u] \<and> r_ip_version r = Ip6))
   \<and> (\<forall>t \<in> set v4 \<union> set v6. readable t \<longrightarrow> (\<exists>r \<in> set (merge_rules v4 v6). t \<in> set (r_tuples r)))"
proof (intro conjI ballI impI)
  fix r assume "r \<in> set (merge_rules v4 v6)"
  then consider t where "t \<in> set v4" "v4_rule (twins_of v6) t = Some r"
    | t where "t \<in> set v6" "parse_tuple [t] Ip6 = Some r"
    by (auto simp: merge_rules_eq set_map_filter_eq split: if_splits)
  then show "(\<exists>t \<in> set v4. r_tuples r = [t] \<and> r_ip_version r = Ip4)
      \<or> (\<exists>t \<in> set v4. \<exists>u \<in> set v6. r_tuples r = [t, u] \<and> v4_twin u = t \<and> r_ip_version r = IpBoth)
      \<or> (\<exists>u \<in> set v6. r_tuples r = [u] \<and> r_ip_version r = Ip6)"
  proof cases
    case 1
    then show ?thesis
    proof (cases "twins_of v6 t")
      case (Some u)
      with 1 have "parse_tuple [t, u] IpBoth = Some r" by (simp add: v4_rule_def)
      with 1(1) twins_of_Some [OF Some] show ?thesis by (auto dest!: parse_tuple_keeps)
    qed (auto simp: v4_rule_def dest!: parse_tuple_keeps)
  qed (auto dest!: parse_tuple_keeps)
next
  fix t assume t: "t \<in> set v4 \<union> set v6" "readable t"
  have v4: "\<exists>r \<in> set (merge_rules v4 v6). set (r_tuples r) = insert u (set_option (twins_of v6 u))"
    if u: "u \<in> set v4" "readable u" for u
  proof -
    have "v4_rule (twins_of v6) u \<noteq> None"
      using u(2) by (cases "twins_of v6 u") (simp_all add: v4_rule_def parse_tuple_None del: not_None_eq)
    then obtain r where r: "v4_rule (twins_of v6) u = Some r" by blast
    then have "r \<in> set (merge_rules v4 v6)" using u(1) by (auto simp: merge_rules_eq set_map_filter_eq)
    moreover have "set (r_tuples r) = insert u (set_option (twins_of v6 u))"
      using r by (cases "twins_of v6 u") (auto simp: v4_rule_def dest: parse_tuple_keeps)
    ultimately show ?thesis by blast
  qed
  show "\<exists>r \<in> set (merge_rules v4 v6). t \<in> set (r_tuples r)"
  proof (cases "t \<in> set v4 \<or> t \<in> set (v4_folded (twins_of v6) v4)")
    case True
    then obtain u where "u \<in> set v4" "readable u" "t \<in> insert u (set_option (twins_of v6 u))"
      using t(2) by (auto simp: v4_folded_def set_map_filter_eq)
    with v4 [of u] show ?thesis by metis
  next
    case False
    then have "parse_tuple [t] Ip6 \<noteq> None" "t \<in> set v6"
      using t by (auto simp: parse_tuple_None simp del: not_None_eq)
    then obtain r where r: "parse_tuple [t] Ip6 = Some r" "t \<in> set v6" by blast
    with False have "r \<in> set (merge_rules v4 v6)" by (auto simp: merge_rules_eq set_map_filter_eq)
    then show ?thesis using parse_tuple_keeps [OF r(1)] by force
  qed
qed

definition sample_v4 :: "string list" where
  "sample_v4 = [''### tuple ### allow tcp 22 0.0.0.0/0 any 0.0.0.0/0 in'']"

definition sample_v6 :: "string list" where
  "sample_v6 = [''### tuple ### allow tcp 22 ::/0 any ::/0 in'', ''### tuple ### deny any 80 ::/0 any ::/0 in'']"

theorem merge_rules_lists_every_tuple_witness:
  "map r_tuples (merge_rules sample_v4 sample_v6) = [[hd sample_v4, sample_v6 ! 0], [sample_v6 ! 1]]
   \<and> (\<exists>r \<in> set (merge_rules sample_v4 sample_v6). sample_v6 ! 1 \<in> set (r_tuples r))"
proof -
  have "readable (sample_v6 ! 1)" "sample_v6 ! 1 \<in> set sample_v6" by code_simp+
  then have "\<exists>r \<in> set (merge_rules sample_v4 sample_v6). sample_v6 ! 1 \<in> set (r_tuples r)"
    using merge_rules_lists_every_tuple [of sample_v4 sample_v6] by blast
  moreover have "map r_tuples (merge_rules sample_v4 sample_v6) = [[hd sample_v4, sample_v6 ! 0], [sample_v6 ! 1]]"
    by code_simp
  ultimately show ?thesis by blast
qed

end
