(* ===== verification/Firewalld.thy ===== *)
theory Firewalld
  imports Firewall Shell "HOL-Library.Char_ord" "HOL-Library.List_Lexorder"
begin

text \<open>
  firewalld (\<open>crates/sbm_parser/src/firewall/firewalld.rs\<close>): its zones, rich rules,
  policies and services read from its listings, what they do to a connection, and
  the commands that change it. The regular expressions belong to the \<open>regex\<close>
  crate: each is a field of the record \<open>FirewalldRegex\<close> that the parsers take,
  giving the captures the code asks for.
\<close>

section \<open>Targets and ports\<close>

datatype FirewalldTarget = DefaultTarget | AcceptTarget | DropTarget | RejectTarget

definition ALL_TARGETS :: "FirewalldTarget list" where
  "ALL_TARGETS = [DefaultTarget, AcceptTarget, DropTarget, RejectTarget]"

fun target_token :: "FirewalldTarget \<Rightarrow> string" where
  "target_token DefaultTarget = ''default''"
| "target_token AcceptTarget = ''ACCEPT''"
| "target_token DropTarget = ''DROP''"
| "target_token RejectTarget = ''%%REJECT%%''"

definition target_from_token :: "string \<Rightarrow> FirewalldTarget option" where
  "target_from_token value =
     (if value = ''REJECT'' then Some RejectTarget
      else find (\<lambda>t. target_token t = value) ALL_TARGETS)"

record FirewalldPort =
  fp_port :: string
  fp_protocol :: string

definition parse_port_spec :: "string \<Rightarrow> FirewalldPort option" where
  "parse_port_spec spec =
     (case split_once (CHR ''/'') spec of None \<Rightarrow> None
      | Some (prt, proto) \<Rightarrow>
          if prt = [] \<or> proto = [] then None
          else Some \<lparr>fp_port = prt, fp_protocol = proto\<rparr>)"

definition covers :: "FirewalldPort \<Rightarrow> nat \<Rightarrow> string \<Rightarrow> bool" where
  "covers p prt proto \<longleftrightarrow> fp_protocol p = proto \<and> port_spec_covers (Some (fp_port p)) prt"

definition show_port :: "FirewalldPort \<Rightarrow> string" where
  "show_port p = fp_port p @ ''/'' @ fp_protocol p"

type_synonym services = "(string, FirewalldPort list) hashmap"

section \<open>Regular expressions\<close>

text \<open>
  A token of a rich rule: \<open>key="value"\<close>, or a word without white space. The other
  fields: the flags after a block's name; the \<open>protocol\<close> and \<open>port\<close> attributes of
  a service's element, match by match; the \<open>service\<close> attribute of an include; a
  typed port's start, end and protocol; and whether a text is a MAC address, an
  ipset, a forwarded port.
\<close>

datatype token = Attr string string | Word string

record FirewalldRegex =
  rx_token :: "string \<Rightarrow> token list"
  rx_flags :: "string \<Rightarrow> string option"
  rx_attrs :: "string \<Rightarrow> (string option \<times> string option) list"
  rx_include :: "string \<Rightarrow> string option"
  rx_port :: "string \<Rightarrow> (string \<times> string option \<times> string) option"
  rx_mac :: "string \<Rightarrow> bool"
  rx_ipset :: "string \<Rightarrow> bool"
  rx_forward :: "string \<Rightarrow> bool"

section \<open>Rich rules\<close>

record FirewalldRichRule =
  rr_raw :: string
  rr_priority :: int
  rr_family :: "string option"
  rr_source :: "string option"
  rr_source_not :: bool
  rr_source_other :: bool
  rr_destination :: "string option"
  rr_destination_not :: bool
  rr_element :: "string option"
  rr_service :: "string option"
  rr_port :: "string option"
  rr_protocol :: "string option"
  rr_action :: "string option"
  rr_limited :: bool

definition ELEMENTS :: "string list" where
  "ELEMENTS = [''service'', ''port'', ''protocol'', ''icmp-block'', ''icmp-type'', ''masquerade'',
     ''forward-port'', ''source-port'', ''tcp-mss-clamp'']"

definition ACTIONS :: "string list" where
  "ACTIONS = [''accept'', ''reject'', ''drop'', ''mark'']"

definition empty_rich_rule :: "string \<Rightarrow> FirewalldRichRule" where
  "empty_rich_rule raw =
     \<lparr>rr_raw = raw, rr_priority = 0, rr_family = None, rr_source = None, rr_source_not = False,
      rr_source_other = False, rr_destination = None, rr_destination_not = False, rr_element = None,
      rr_service = None, rr_port = None, rr_protocol = None, rr_action = None, rr_limited = False\<rparr>"

definition rich_word :: "string \<Rightarrow> FirewalldRichRule \<times> string option \<Rightarrow> FirewalldRichRule \<times> string option" where
  "rich_word w st =
     (let (rule, ctx) = st in
      if w = ''not'' then
        (if ctx = Some ''source'' then (rule\<lparr>rr_source_not := True\<rparr>, ctx)
         else if ctx = Some ''destination'' then (rule\<lparr>rr_destination_not := True\<rparr>, ctx)
         else (rule, ctx))
      else if w = ''limit'' then
        ((case ctx of None \<Rightarrow> rule
          | Some c \<Rightarrow> if c \<in> set ACTIONS then rule\<lparr>rr_limited := True\<rparr> else rule), Some ''limit'')
      else
        (let rule = (if w \<in> set ELEMENTS then rule\<lparr>rr_element := Some w\<rparr> else rule);
             rule = (if w \<in> set ACTIONS then rule\<lparr>rr_action := Some w\<rparr> else rule)
         in (rule, Some w)))"

definition rich_attr :: "string \<Rightarrow> string \<Rightarrow> FirewalldRichRule \<Rightarrow> string option \<Rightarrow> FirewalldRichRule" where
  "rich_attr key value rule ctx =
     (if ctx = Some ''rule'' \<and> key = ''priority''
      then rule\<lparr>rr_priority := unwrap_or 0 (parse_i32 value)\<rparr>
      else if ctx = Some ''rule'' \<and> key = ''family'' then rule\<lparr>rr_family := Some value\<rparr>
      else if ctx = Some ''source'' \<and> key = ''address'' then rule\<lparr>rr_source := Some value\<rparr>
      else if ctx = Some ''source'' \<and> (key = ''ipset'' \<or> key = ''mac'') then rule\<lparr>rr_source_other := True\<rparr>
      else if ctx = Some ''destination'' \<and> key = ''address'' then rule\<lparr>rr_destination := Some value\<rparr>
      else if ctx = Some ''service'' \<and> key = ''name'' then rule\<lparr>rr_service := Some value\<rparr>
      else if ctx = Some ''port'' \<and> key = ''port'' then rule\<lparr>rr_port := Some value\<rparr>
      else if (ctx = Some ''port'' \<and> key = ''protocol'') \<or> (ctx = Some ''protocol'' \<and> key = ''value'')
      then rule\<lparr>rr_protocol := Some value\<rparr>
      else rule)"

definition rich_token :: "FirewalldRichRule \<times> string option \<Rightarrow> token \<Rightarrow> FirewalldRichRule \<times> string option" where
  "rich_token st t = (case t of Word w \<Rightarrow> rich_word w st
     | Attr k v \<Rightarrow> (rich_attr k v (fst st) (snd st), snd st))"

definition parse_rich_rule :: "FirewalldRegex \<Rightarrow> string \<Rightarrow> FirewalldRichRule" where
  "parse_rich_rule rx raw = fst (foldl rich_token (empty_rich_rule raw, None) (rx_token rx raw))"

definition rich_verdict :: "FirewalldRichRule \<Rightarrow> FirewallReach option" where
  "rich_verdict r =
     (case rr_action r of None \<Rightarrow> None
      | Some a \<Rightarrow> if a = ''accept'' then Some (if rr_limited r then Limited else Open)
          else if a = ''reject'' \<or> a = ''drop'' then Some Blocked else None)"

text \<open>Each of the three parts of the judgement: \<open>None\<close> when the rule surely does not apply.\<close>

definition rich_family :: "FirewalldRichRule \<Rightarrow> IpAddr option \<Rightarrow> bool option" where
  "rich_family r cl =
     (case (cl, rr_family r) of
        (Some c, Some family) \<Rightarrow>
          if family \<noteq> (if is_ipv6 c then ''ipv6'' else ''ipv4'') then None else Some True
      | (None, Some _) \<Rightarrow> Some False
      | _ \<Rightarrow> Some True)"

fun rich_networks :: "(string option \<times> IpAddr option \<times> bool) list \<Rightarrow> bool \<Rightarrow> bool option" where
  "rich_networks [] s = Some s"
| "rich_networks ((None, _, _) # rest) s = rich_networks rest s"
| "rich_networks ((Some network, addr, neg) # rest) s =
     (case holds network addr of
        None \<Rightarrow> rich_networks rest False
      | Some contains \<Rightarrow> if contains = neg then None else rich_networks rest s)"

definition rich_element :: "FirewalldRichRule \<Rightarrow> nat \<Rightarrow> services \<Rightarrow> bool \<Rightarrow> bool option" where
  "rich_element r prt services s =
     (case rr_element r of None \<Rightarrow> Some s
      | Some e \<Rightarrow>
          if e = ''service'' then
            (case (case rr_service r of None \<Rightarrow> None | Some n \<Rightarrow> hm_get services n) of
               None \<Rightarrow> Some False
             | Some ports \<Rightarrow> if \<not> list_ex (\<lambda>p. covers p prt ''tcp'') ports then None else Some s)
          else if e = ''port'' then
            (if rr_protocol r \<noteq> Some ''tcp'' \<or> \<not> port_spec_covers (rr_port r) prt then None else Some s)
          else if e = ''protocol'' then
            (if rr_protocol r \<noteq> Some ''tcp'' then None else Some s)
          else if e = ''source-port'' then Some False
          else None)"

definition rich_judge :: "FirewalldRichRule \<Rightarrow> FirewallAccess \<Rightarrow> services \<Rightarrow> Judged option" where
  "rich_judge r a services =
     (case rich_verdict r of None \<Rightarrow> None
      | Some v \<Rightarrow>
        (case rich_family r (client_ip a) of None \<Rightarrow> None
         | Some s \<Rightarrow>
           (case rich_networks
               [(rr_source r, client_ip a, rr_source_not r), (rr_destination r, server_ip a, rr_destination_not r)]
               (if rr_source_other r then False else s) of None \<Rightarrow> None
            | Some s \<Rightarrow>
              (case rich_element r (port a) services s of None \<Rightarrow> None
               | Some s \<Rightarrow> Some \<lparr>verdict = v, sure = s\<rparr>))))"

section \<open>Zones\<close>

record FirewalldZone =
  z_name :: string
  z_target :: FirewalldTarget
  z_active :: bool
  z_interfaces :: "string list"
  z_sources :: "string list"
  z_services :: "string list"
  z_ports :: "FirewalldPort list"
  z_protocols :: "string list"
  z_source_ports :: "FirewalldPort list"
  z_forward_ports :: "string list"
  z_rich_rules :: "FirewalldRichRule list"
  z_masquerade :: bool

definition forward_fields :: "string \<Rightarrow> string \<rightharpoonup> string" where
  "forward_fields spec =
     foldl (\<lambda>m part. case split_once (CHR ''='') part of
         Some (k, v) \<Rightarrow> if k = [] then m else m(k \<mapsto> v) | None \<Rightarrow> m)
       Map.empty (split_on (CHR '':'') spec)"

definition forwards :: "string \<Rightarrow> nat \<Rightarrow> bool" where
  "forwards spec prt \<longleftrightarrow> forward_fields spec ''proto'' = Some ''tcp''
     \<and> port_spec_covers (forward_fields spec ''port'') prt"

definition zone_judged :: "FirewalldZone \<Rightarrow> FirewallAccess \<Rightarrow> services \<Rightarrow> (int \<Rightarrow> bool) \<Rightarrow> Judged list" where
  "zone_judged z a services pick =
     List.map_filter (\<lambda>r. rich_judge r a services)
       (filter (\<lambda>r. pick (rr_priority r)) (sort_key rr_priority (z_rich_rules z)))"

definition zone_admitted :: "FirewalldZone \<Rightarrow> nat \<Rightarrow> services \<Rightarrow> bool" where
  "zone_admitted z prt services \<longleftrightarrow> ''tcp'' \<in> set (z_protocols z)
     \<or> list_ex (\<lambda>p. covers p prt ''tcp'') (z_ports z)
     \<or> list_ex (\<lambda>(name, ports). name \<in> set (z_services z) \<and> list_ex (\<lambda>p. covers p prt ''tcp'') ports) services"

definition zone_checks :: "FirewalldZone \<Rightarrow> FirewallAccess \<Rightarrow> services \<Rightarrow> Judged list" where
  "zone_checks z a services =
     (let at_zero = zone_judged z a services (\<lambda>p. p = 0) in
      map (\<lambda>_. \<lparr>verdict = Blocked, sure = False\<rparr>) (filter (\<lambda>spec. forwards spec (port a)) (z_forward_ports z))
      @ zone_judged z a services (\<lambda>p. p < 0)
      @ filter (\<lambda>c. verdict c = Blocked) at_zero
      @ (if zone_admitted z (port a) services then [\<lparr>verdict = Open, sure = True\<rparr>] else [])
      @ (if list_ex (\<lambda>s. hm_get services s = None) (z_services z) then [\<lparr>verdict = Open, sure = False\<rparr>] else [])
      @ (if list_ex (\<lambda>p. fp_protocol p = ''tcp'') (z_source_ports z) then [\<lparr>verdict = Open, sure = False\<rparr>] else [])
      @ filter (\<lambda>c. verdict c \<noteq> Blocked) at_zero
      @ zone_judged z a services (\<lambda>p. p > 0))"

definition zone_reach :: "FirewalldZone \<Rightarrow> FirewallAccess \<Rightarrow> services \<Rightarrow> FirewallReach" where
  "zone_reach z a services =
     decide (zone_checks z a services) (if z_target z = AcceptTarget then Open else Blocked)"

definition sorted_join :: "string list \<Rightarrow> string" where
  "sorted_join items = join '' '' (sort items)"

definition digest :: "FirewalldZone \<Rightarrow> string" where
  "digest z = join '' | ''
     [target_token (z_target z), sorted_join (z_sources z), sorted_join (z_services z),
      sorted_join (map show_port (z_ports z)), sorted_join (z_protocols z),
      sorted_join (z_forward_ports z), sorted_join (map rr_raw (z_rich_rules z)),
      if z_masquerade z then ''true'' else ''false'']"

record FirewalldPolicy =
  pol_name :: string
  pol_target :: string
  pol_egress_host :: bool
  pol_decides :: bool

record FirewalldSnapshot =
  fs_running :: bool
  fs_version :: "string option"
  fs_default_zone :: "string option"
  fs_panic :: bool
  fs_runtime :: "FirewalldZone list option"
  fs_permanent :: "FirewalldZone list"
  fs_services :: services
  fs_service_names :: "string list"
  fs_policies :: "FirewalldPolicy list"

definition zones :: "FirewalldSnapshot \<Rightarrow> FirewalldZone list" where
  "zones s = unwrap_or (fs_permanent s) (fs_runtime s)"

definition zone :: "FirewalldSnapshot \<Rightarrow> string \<Rightarrow> bool \<Rightarrow> FirewalldZone option" where
  "zone s name permanent = find (\<lambda>z. z_name z = name) (if permanent then fs_permanent s else zones s)"

definition saved_digests :: "FirewalldZone list \<Rightarrow> string \<rightharpoonup> string" where
  "saved_digests zs = foldl (\<lambda>m z. m(z_name z \<mapsto> digest z)) Map.empty zs"

definition drifted :: "FirewalldSnapshot \<Rightarrow> bool" where
  "drifted s =
     (case fs_runtime s of None \<Rightarrow> False
      | Some runtime \<Rightarrow>
          list_ex (\<lambda>z. saved_digests (fs_permanent s) (z_name z) \<noteq> Some (digest z)) runtime
          \<or> list_ex (\<lambda>z. z_name z \<notin> set (map z_name runtime)) (fs_permanent s))"

text \<open>The loops of \<open>zones_for\<close>: the zones whose sources hold the client, and whether one might.\<close>

definition source_hits :: "FirewalldZone list \<Rightarrow> IpAddr option \<Rightarrow> nat list" where
  "source_hits zs cl =
     concat (map (\<lambda>(i, z). map (\<lambda>_. i) (filter (\<lambda>src. holds src cl = Some True) (z_sources z)))
       (enumerate 0 zs))"

definition source_unknown :: "FirewalldZone list \<Rightarrow> IpAddr option \<Rightarrow> bool" where
  "source_unknown zs cl \<longleftrightarrow> list_ex (\<lambda>z. list_ex (\<lambda>src. holds src cl = None) (z_sources z)) zs"

definition add_candidate :: "nat \<Rightarrow> nat list \<Rightarrow> nat list" where
  "add_candidate i cs = (if i \<in> set cs then cs else cs @ [i])"

definition position :: "('a \<Rightarrow> bool) \<Rightarrow> 'a list \<Rightarrow> nat option" where
  "position P xs = map_option fst (find (\<lambda>(i, x). P x) (enumerate 0 xs))"

definition zones_for :: "FirewalldSnapshot \<Rightarrow> FirewallAccess \<Rightarrow> FirewalldZone list option \<Rightarrow> string option
    \<Rightarrow> FirewalldZone list" where
  "zones_for s a zs default_zone =
     (let zlist = unwrap_or (zones s) zs;
          default_zone = (case default_zone of None \<Rightarrow> fs_default_zone s | Some z \<Rightarrow> Some z);
          fallback = position (\<lambda>z. Some (z_name z) = default_zone) zlist;
          by_source = source_hits zlist (client_ip a);
          unknown = source_unknown zlist (client_ip a)
      in map ((!) zlist)
        (if by_source \<noteq> [] \<and> \<not> unknown then fold add_candidate by_source []
         else
          (let by_interface = map fst (filter (\<lambda>(_, z). case iface a of
                  None \<Rightarrow> z_interfaces z \<noteq> [] | Some name \<Rightarrow> name \<in> set (z_interfaces z)) (enumerate 0 zlist));
               cs = fold add_candidate by_source [];
               cs = (if unknown
                     then fold add_candidate (map fst (filter (\<lambda>(_, z). z_sources z \<noteq> []) (enumerate 0 zlist))) cs
                     else cs);
               cs = fold add_candidate by_interface cs
           in if iface a = None \<or> by_interface = []
              then (case fallback of Some i \<Rightarrow> add_candidate i cs | None \<Rightarrow> cs)
              else cs)))"

definition combine_reaches :: "FirewallReach list \<Rightarrow> FirewallReach" where
  "combine_reaches rs =
     (let reaches = remdups rs in
      if length reaches = 1 then hd reaches
      else if list_all admits reaches then Limited else Unknown)"

definition fwd_reach :: "FirewalldSnapshot \<Rightarrow> FirewallAccess \<Rightarrow> bool option \<Rightarrow> bool option
    \<Rightarrow> FirewalldZone list option \<Rightarrow> string option \<Rightarrow> FirewallReach" where
  "fwd_reach s a running panic zs default_zone =
     (if \<not> unwrap_or (fs_running s) running then Open
      else if unwrap_or (fs_panic s) panic then Blocked
      else (let candidates = zones_for s a zs default_zone in
        if candidates = [] then Unknown
        else (let r = combine_reaches (map (\<lambda>z. zone_reach z a (fs_services s)) candidates) in
          if admits r \<and> list_ex (\<lambda>p. pol_egress_host p \<and> pol_decides p) (fs_policies s) then Unknown else r)))"

definition shut_by_reload :: "FirewalldSnapshot \<Rightarrow> FirewallAccess \<Rightarrow> bool" where
  "shut_by_reload s a \<longleftrightarrow> drifted s \<and> admits (fwd_reach s a None None None None)
     \<and> \<not> admits (fwd_reach s a (Some True) None (Some (fs_permanent s)) None)"

end
