(* ===== verification/Firewalld_Read.thy ===== *)
theory Firewalld_Read
  imports Firewalld
begin

text \<open>
  Reading firewalld and changing it (\<open>firewalld.rs\<close> from \<open>read_script\<close> on): the
  script that lists both configurations, the parsers of what it prints, the
  commands, and the checks of what is typed.
\<close>

section \<open>The listing script\<close>

definition RUNNING_MARKER :: string where "RUNNING_MARKER = ''SrvBoxFwd.Running''"
definition FWD_VERSION_MARKER :: string where "FWD_VERSION_MARKER = ''SrvBoxFwd.Version'' @ [tab]"
definition DEFAULT_MARKER :: string where "DEFAULT_MARKER = ''SrvBoxFwd.Default'' @ [tab]"
definition PANIC_MARKER :: string where "PANIC_MARKER = ''SrvBoxFwd.Panic'' @ [tab]"
definition RUNTIME_MARKER :: string where "RUNTIME_MARKER = ''SrvBoxFwd.Runtime''"
definition PERMANENT_MARKER :: string where "PERMANENT_MARKER = ''SrvBoxFwd.Permanent''"
definition POLICIES_MARKER :: string where "POLICIES_MARKER = ''SrvBoxFwd.Policies''"
definition SERVICES_MARKER :: string where "SERVICES_MARKER = ''SrvBoxFwd.Services''"
definition SERVICE_NAMES_MARKER :: string where "SERVICE_NAMES_MARKER = ''SrvBoxFwd.ServiceNames''"
definition INCOMPLETE_MARKER :: string where "INCOMPLETE_MARKER = ''SrvBoxFwd.Incomplete''"
definition SERVICE_DIRS :: string where
  "SERVICE_DIRS = ''/usr/lib/firewalld/services /etc/firewalld/services''"

definition quoted :: "char \<Rightarrow> string \<Rightarrow> string" where
  "quoted q s = [q] @ s @ [q]"

definition printf_line :: "string \<Rightarrow> string \<Rightarrow> string" where
  "printf_line marker command = ''  printf '' @ quoted (CHR 0x27) (marker @ ''%s'' @ [CHR 0x5C] @ ''n'')
     @ '' '' @ quoted (CHR 0x22) (''$('' @ command @ '' 2>/dev/null)'')"

definition fwd_read_script :: string where
  "fwd_read_script =
     concat (map (\<lambda>l. l @ [nl])
       [ENV,
        ''if firewall-cmd --state >/dev/null 2>&1; then'',
        ''  echo '' @ RUNNING_MARKER,
        printf_line FWD_VERSION_MARKER ''firewall-cmd --version'',
        printf_line DEFAULT_MARKER ''firewall-cmd --get-default-zone'',
        printf_line PANIC_MARKER ''firewall-cmd --query-panic'',
        ''  echo '' @ RUNTIME_MARKER,
        ''  firewall-cmd --list-all-zones 2>/dev/null || echo '' @ INCOMPLETE_MARKER,
        ''  echo '' @ PERMANENT_MARKER,
        ''  firewall-cmd --permanent --list-all-zones 2>/dev/null || echo '' @ INCOMPLETE_MARKER,
        ''  echo '' @ POLICIES_MARKER,
        ''  firewall-cmd --list-all-policies 2>/dev/null || echo '' @ INCOMPLETE_MARKER,
        ''else'',
        printf_line FWD_VERSION_MARKER ''firewall-offline-cmd --version'',
        printf_line DEFAULT_MARKER ''firewall-offline-cmd --get-default-zone'',
        ''  echo '' @ PERMANENT_MARKER,
        ''  firewall-offline-cmd --list-all-zones 2>/dev/null || echo '' @ INCOMPLETE_MARKER,
        ''fi'',
        ''echo '' @ SERVICES_MARKER,
        ''grep -H -o -E '' @ quoted (CHR 0x27) ''<(port|include) [^>]*>'' @ '' $(for d in '' @ SERVICE_DIRS
          @ ''; do ls -d '' @ quoted (CHR 0x22) ''$d'' @ ''/*.xml 2>/dev/null; done) 2>/dev/null'',
        ''echo '' @ SERVICE_NAMES_MARKER,
        ''for d in '' @ SERVICE_DIRS @ ''; do ls '' @ quoted (CHR 0x22) ''$d'' @ '' 2>/dev/null; done'',
        ''exit 0''])"

section \<open>Blocks\<close>

record Block =
  b_header :: string
  b_fields :: "string \<rightharpoonup> string list"
  b_items :: "string \<rightharpoonup> string list"

definition block_first :: "Block \<Rightarrow> string \<Rightarrow> string option" where
  "block_first b key = (case b_fields b key of Some (w # _) \<Rightarrow> Some w | _ \<Rightarrow> None)"

definition flags :: "FirewalldRegex \<Rightarrow> Block \<Rightarrow> string list" where
  "flags rx b = (case rx_flags rx (b_header b) of None \<Rightarrow> []
     | Some m \<Rightarrow> map trim (split_on (CHR '','') m))"

definition block_item :: "string \<Rightarrow> string option \<Rightarrow> Block \<Rightarrow> Block" where
  "block_item line key b = (case key of None \<Rightarrow> b
     | Some k \<Rightarrow> b\<lparr>b_items := (b_items b)(k \<mapsto> unwrap_or [] (b_items b k) @ [trim line])\<rparr>)"

definition map_last :: "('a \<Rightarrow> 'a) \<Rightarrow> 'a list \<Rightarrow> 'a list" where
  "map_last f xs = (if xs = [] then [] else butlast xs @ [f (last xs)])"

definition blocks_line :: "Block list \<times> string option \<Rightarrow> string \<Rightarrow> Block list \<times> string option" where
  "blocks_line st line =
     (let (bs, key) = st in
      if trim line = [] then st
      else if starts_with [tab] line then (map_last (block_item line key) bs, key)
      else if starts_with '' '' line then
        (if bs = [] then st
         else (case split_once (CHR '':'') line of None \<Rightarrow> st
           | Some (before, after) \<Rightarrow>
               (let k = trim before;
                    ws = filter (\<lambda>w. w \<noteq> []) (split_on (CHR '' '') (trim after))
                in (map_last (\<lambda>b. b\<lparr>b_fields := (b_fields b)(k \<mapsto> ws)\<rparr>) bs, Some k))))
      else (bs @ [\<lparr>b_header = trim line, b_fields = Map.empty, b_items = Map.empty\<rparr>], None))"

definition blocks :: "string list \<Rightarrow> Block list" where
  "blocks lines = fst (foldl blocks_line ([], None) lines)"

definition block_name :: "Block \<Rightarrow> string" where
  "block_name b = hd (split_on (CHR '' '') (b_header b))"

definition field_list :: "Block \<Rightarrow> string \<Rightarrow> string list" where
  "field_list b key = unwrap_or [] (b_fields b key)"

definition item_list :: "Block \<Rightarrow> string \<Rightarrow> string list" where
  "item_list b key = unwrap_or [] (b_items b key)"

definition parse_zone :: "FirewalldRegex \<Rightarrow> Block \<Rightarrow> FirewalldZone option" where
  "parse_zone rx b =
     (if block_name b = [] then None
      else Some
       \<lparr>z_name = block_name b,
        z_target = unwrap_or DefaultTarget
          (case block_first b ''target'' of None \<Rightarrow> None | Some t \<Rightarrow> target_from_token t),
        z_active = (''active'' \<in> set (flags rx b)),
        z_interfaces = field_list b ''interfaces'',
        z_sources = field_list b ''sources'',
        z_services = field_list b ''services'',
        z_ports = List.map_filter parse_port_spec (field_list b ''ports''),
        z_protocols = field_list b ''protocols'',
        z_source_ports = List.map_filter parse_port_spec (field_list b ''source-ports''),
        z_forward_ports = item_list b ''forward-ports'',
        z_rich_rules = map (parse_rich_rule rx) (item_list b ''rich rules''),
        z_masquerade = (block_first b ''masquerade'' = Some ''yes'')\<rparr>)"

definition parse_zones :: "FirewalldRegex \<Rightarrow> string list \<Rightarrow> FirewalldZone list" where
  "parse_zones rx lines = List.map_filter (parse_zone rx) (blocks lines)"

definition parse_policy :: "Block \<Rightarrow> FirewalldPolicy" where
  "parse_policy b =
     (let target = unwrap_or ''CONTINUE'' (block_first b ''target'') in
      \<lparr>pol_name = block_name b, pol_target = target,
       pol_egress_host = (''HOST'' \<in> set (field_list b ''egress-zones'')),
       pol_decides = (target \<noteq> ''CONTINUE''
         \<or> list_ex (\<lambda>k. field_list b k \<noteq> []) [''services'', ''ports'', ''protocols'', ''forward-ports'']
         \<or> list_ex (\<lambda>r. \<not> contains_sub ''icmp-type'' r) (item_list b ''rich rules''))\<rparr>)"

definition parse_fwd_policies :: "FirewalldRegex \<Rightarrow> string list \<Rightarrow> FirewalldPolicy list" where
  "parse_fwd_policies rx lines =
     map parse_policy (filter (\<lambda>b. ''active'' \<in> set (flags rx b)) (blocks lines))"

section \<open>Services\<close>

record Own =
  own_ports :: "FirewalldPort list"
  own_includes :: "string list"

definition empty_own :: Own where
  "empty_own = \<lparr>own_ports = [], own_includes = []\<rparr>"

definition first_some :: "'a option \<Rightarrow> 'a option \<Rightarrow> 'a option" where
  "first_some x y = (case x of None \<Rightarrow> y | Some _ \<Rightarrow> x)"

definition service_element :: "FirewalldRegex \<Rightarrow> string \<Rightarrow> Own \<Rightarrow> Own" where
  "service_element rx element entry =
     (if starts_with ''<include'' element then
        (case rx_include rx element of None \<Rightarrow> entry
         | Some name \<Rightarrow> entry\<lparr>own_includes := own_includes entry @ [name]\<rparr>)
      else (case foldl (\<lambda>(protocol, prt) (m1, m2). (first_some protocol m1, first_some prt m2))
                  (None, None) (rx_attrs rx element) of
              (Some protocol, Some prt) \<Rightarrow> if prt = [] then entry
                else entry\<lparr>own_ports := own_ports entry @ [\<lparr>fp_port = prt, fp_protocol = protocol\<rparr>]\<rparr>
            | _ \<Rightarrow> entry))"

definition service_line ::
  "FirewalldRegex \<Rightarrow> string list \<times> (string, Own) hashmap \<Rightarrow> string \<Rightarrow> string list \<times> (string, Own) hashmap" where
  "service_line rx st line =
     (case find_sub '':<'' line of None \<Rightarrow> st
      | Some tag \<Rightarrow>
          (let (paths, by_file) = st;
               path = take tag line;
               paths = (if hm_get by_file path = None then paths @ [path] else paths)
           in (paths, hm_modify path empty_own (service_element rx (drop (tag + 1) line)) by_file)))"

definition service_name :: "string \<Rightarrow> string" where
  "service_name path =
     (let file = last (split_on (CHR ''/'') path) in unwrap_or file (strip_suffix ''.xml'' file))"

definition own_services :: "FirewalldRegex \<Rightarrow> string list \<Rightarrow> (string, Own) hashmap" where
  "own_services rx lines =
     (let (paths, by_file) = foldl (service_line rx) ([], hm_empty) lines in
      foldl (\<lambda>own path. hm_insert (service_name path) (unwrap_or empty_own (hm_get by_file path)) own)
        hm_empty (sort_key (starts_with ''/etc/'') paths))"

text \<open>
  \<open>resolve\<close> with the set of services seen threaded through. The recursion goes as
  deep as there are services not seen yet; the fuel bounds that depth and is
  never used up (\<open>resolve_fuel\<close> in \<open>Firewalld_Services\<close>).
\<close>

fun resolve :: "nat \<Rightarrow> (string, Own) hashmap \<Rightarrow> string \<Rightarrow> string list \<Rightarrow> FirewalldPort list \<times> string list"
  and resolve_includes :: "nat \<Rightarrow> (string, Own) hashmap \<Rightarrow> string list \<Rightarrow> string list
    \<Rightarrow> FirewalldPort list \<times> string list" where
  "resolve 0 own name seen = ([], seen)"
| "resolve (Suc n) own name seen =
     (case hm_get own name of None \<Rightarrow> ([], seen)
      | Some entry \<Rightarrow>
          if name \<in> set seen then ([], seen)
          else (let (ports, seen') = resolve_includes n own (own_includes entry) (name # seen)
                in (own_ports entry @ ports, seen')))"
| "resolve_includes n own [] seen = ([], seen)"
| "resolve_includes n own (include # rest) seen =
     (let (ports, seen') = resolve n own include seen;
          (ports', seen'') = resolve_includes n own rest seen'
      in (ports @ ports', seen''))"

definition parse_services :: "FirewalldRegex \<Rightarrow> string list \<Rightarrow> services" where
  "parse_services rx lines =
     (let own = own_services rx lines in
      map (\<lambda>(name, _). (name, fst (resolve (Suc (hm_len own)) own name []))) own)"

section \<open>The snapshot\<close>

record FwdRead =
  g_running :: bool
  g_version :: "string option"
  g_default :: "string option"
  g_panic :: bool
  g_sections :: "string \<rightharpoonup> string list"
  g_section :: "string option"

definition fwd_line :: "FwdRead \<Rightarrow> string \<Rightarrow> FwdRead" where
  "fwd_line g raw =
     (let line = trim_end raw in
      if line = RUNNING_MARKER then g\<lparr>g_running := True\<rparr>
      else (case strip_prefix FWD_VERSION_MARKER line of Some v \<Rightarrow> g\<lparr>g_version := Some (trim v)\<rparr>
      | None \<Rightarrow> (case strip_prefix DEFAULT_MARKER line of Some v \<Rightarrow> g\<lparr>g_default := Some (trim v)\<rparr>
      | None \<Rightarrow> (case strip_prefix PANIC_MARKER line of Some v \<Rightarrow> g\<lparr>g_panic := (trim v = ''yes'')\<rparr>
      | None \<Rightarrow>
          if line \<in> set [RUNTIME_MARKER, PERMANENT_MARKER, POLICIES_MARKER, SERVICES_MARKER, SERVICE_NAMES_MARKER]
          then g\<lparr>g_section := Some line, g_sections := (g_sections g)(line \<mapsto> [])\<rparr>
          else (case g_section g of None \<Rightarrow> g
            | Some s \<Rightarrow> g\<lparr>g_sections := (g_sections g)(s \<mapsto>
                unwrap_or [] (g_sections g s) @ [replace_char cr [] raw])\<rparr>)))))"

fun fwd_lines :: "FwdRead \<Rightarrow> string list \<Rightarrow> (string, FwdRead) result" where
  "fwd_lines g [] = Ok g"
| "fwd_lines g (raw # rest) =
     (if trim_end raw = INCOMPLETE_MARKER then Err ''firewalld did not list its zones and policies''
      else fwd_lines (fwd_line g raw) rest)"

definition nonempty_option :: "string option \<Rightarrow> string option" where
  "nonempty_option v = (if v = Some [] then None else v)"

definition fwd_snapshot :: "FirewalldRegex \<Rightarrow> FwdRead \<Rightarrow> (string, FirewalldSnapshot) result" where
  "fwd_snapshot rx g =
     (case g_sections g PERMANENT_MARKER of None \<Rightarrow> Err ''Unable to read firewalld zones''
      | Some plines \<Rightarrow>
          (let section = (\<lambda>m. unwrap_or [] (g_sections g m));
               names = sort (remdups (List.map_filter (\<lambda>line. strip_suffix ''.xml'' (trim line))
                 (section SERVICE_NAMES_MARKER)));
               permanent = parse_zones rx plines;
               runtime = (if g_running g then Some (parse_zones rx (section RUNTIME_MARKER)) else None)
           in if permanent = [] \<or> runtime = Some [] then Err ''Unable to read firewalld zones''
              else Ok
               \<lparr>fs_running = g_running g, fs_version = nonempty_option (g_version g),
                fs_default_zone = nonempty_option (g_default g), fs_panic = g_panic g,
                fs_runtime = runtime, fs_permanent = permanent,
                fs_services = parse_services rx (section SERVICES_MARKER), fs_service_names = names,
                fs_policies = parse_fwd_policies rx (section POLICIES_MARKER)\<rparr>))"

definition parse_firewalld :: "FirewalldRegex \<Rightarrow> string \<Rightarrow> (string, FirewalldSnapshot) result" where
  "parse_firewalld rx output =
     (case fwd_lines \<lparr>g_running = False, g_version = None, g_default = None, g_panic = False,
             g_sections = Map.empty, g_section = None\<rparr> (split_on nl (normalize_newlines output)) of
        Inl e \<Rightarrow> Err e
      | Inr g \<Rightarrow> fwd_snapshot rx g)"

section \<open>Commands\<close>

definition both :: "bool \<Rightarrow> string \<Rightarrow> string list" where
  "both running args =
     (if running then [''firewall-cmd '' @ args, ''firewall-cmd --permanent '' @ args]
      else [''firewall-offline-cmd '' @ args])"

definition zone_arg :: "string \<Rightarrow> string" where
  "zone_arg z = ''--zone='' @ shell_quote_unix z"

definition item :: "string \<Rightarrow> bool \<Rightarrow> string \<Rightarrow> string \<Rightarrow> string" where
  "item z add kind value =
     zone_arg z @ '' --'' @ (if add then ''add'' else ''remove'') @ ''-'' @ kind @ ''='' @ shell_quote_unix value"

datatype FirewalldItem = ItemService | ItemPort | ItemRichRule | ItemSource | ItemForwardPort

fun item_kind :: "FirewalldItem \<Rightarrow> string" where
  "item_kind ItemService = ''service''"
| "item_kind ItemPort = ''port''"
| "item_kind ItemRichRule = ''rich-rule''"
| "item_kind ItemSource = ''source''"
| "item_kind ItemForwardPort = ''forward-port''"

definition item_commands :: "bool \<Rightarrow> string \<Rightarrow> FirewalldItem \<Rightarrow> string \<Rightarrow> bool \<Rightarrow> string list" where
  "item_commands running z k value add = both running (item z add (item_kind k) value)"

definition item_command_in :: "bool \<Rightarrow> bool \<Rightarrow> string \<Rightarrow> FirewalldItem \<Rightarrow> string \<Rightarrow> string" where
  "item_command_in running permanent z k value =
     (let args = item z True (item_kind k) value in
      if \<not> running then ''firewall-offline-cmd '' @ args
      else if \<not> permanent then ''firewall-cmd '' @ args
      else ''firewall-cmd --permanent '' @ args)"

definition fwd_keep_open_rule :: "nat \<Rightarrow> string" where
  "fwd_keep_open_rule p =
     ''rule priority='' @ quoted (CHR 0x22) ''-32768'' @ '' port port='' @ quoted (CHR 0x22) (show_nat p)
       @ '' protocol='' @ quoted (CHR 0x22) ''tcp'' @ '' accept''"

definition change_interface :: "bool \<Rightarrow> string \<Rightarrow> string \<Rightarrow> string list" where
  "change_interface running z ifc =
     both running (zone_arg z @ '' --change-interface='' @ shell_quote_unix ifc)"

definition remove_interface :: "bool \<Rightarrow> string \<Rightarrow> string \<Rightarrow> string list" where
  "remove_interface running z ifc = both running (item z False ''interface'' ifc)"

definition masquerade :: "bool \<Rightarrow> string \<Rightarrow> bool \<Rightarrow> string list" where
  "masquerade running z add =
     both running (zone_arg z @ '' --'' @ (if add then ''add'' else ''remove'') @ ''-masquerade'')"

definition FWD_RELOAD_COMMAND :: string where "FWD_RELOAD_COMMAND = ''firewall-cmd --reload''"
definition RUNTIME_TO_PERMANENT_COMMAND :: string where
  "RUNTIME_TO_PERMANENT_COMMAND = ''firewall-cmd --runtime-to-permanent''"
definition PANIC_OFF_COMMAND :: string where "PANIC_OFF_COMMAND = ''firewall-cmd --panic-off''"
definition START_COMMAND :: string where
  "START_COMMAND = ''if [ -d /run/systemd/system ]; then systemctl enable --now firewalld; else rc-update add firewalld default && rc-service firewalld start; fi''"
definition STOP_COMMAND :: string where
  "STOP_COMMAND = ''if [ -d /run/systemd/system ]; then systemctl disable --now firewalld; else rc-update del firewalld default >/dev/null 2>&1 || true; rc-service firewalld stop; fi''"

definition set_target :: "bool \<Rightarrow> string \<Rightarrow> FirewalldTarget \<Rightarrow> string list" where
  "set_target running z t =
     (let args = zone_arg z @ '' --set-target='' @ shell_quote_unix (target_token t) in
      if running then [''firewall-cmd --permanent '' @ args, FWD_RELOAD_COMMAND]
      else [''firewall-offline-cmd '' @ args])"

definition default_zone :: "bool \<Rightarrow> string \<Rightarrow> string" where
  "default_zone running z =
     (if running then ''firewall-cmd'' else ''firewall-offline-cmd'') @ '' --set-default-zone='' @ shell_quote_unix z"

section \<open>What is typed\<close>

datatype FirewalldInputIssue =
  BadPort | BadSource | BadInterface | BadRichRule | BadForwardPort

text \<open>The groups of a port are one to five digits, so their \<open>parse\<close> cannot fail.\<close>

definition parse_port :: "FirewalldRegex \<Rightarrow> string \<Rightarrow> FirewalldPort option" where
  "parse_port rx value =
     (case rx_port rx (trim value) of None \<Rightarrow> None
      | Some (a, e, protocol) \<Rightarrow>
          (case parse_u32 a of None \<Rightarrow> None
           | Some start \<Rightarrow>
              if \<not> (1 \<le> start \<and> start \<le> 65535) then None
              else (case map_option digits_val e of
                      None \<Rightarrow> Some \<lparr>fp_port = show_nat start, fp_protocol = protocol\<rparr>
                    | Some stop \<Rightarrow> if stop \<le> start \<or> stop > 65535 then None
                        else Some \<lparr>fp_port = show_nat start @ ''-'' @ show_nat stop, fp_protocol = protocol\<rparr>)))"

definition check_source :: "FirewalldRegex \<Rightarrow> string \<Rightarrow> FirewalldInputIssue option" where
  "check_source rx value =
     (let v = trim value in
      if rx_mac rx v \<or> rx_ipset rx v \<or> family_of v \<noteq> None then None else Some BadSource)"

definition check_interface :: "string \<Rightarrow> FirewalldInputIssue option" where
  "check_interface value = (if \<not> valid_interface (trim value) then Some BadInterface else None)"

definition check_rich_rule :: "string \<Rightarrow> FirewalldInputIssue option" where
  "check_rich_rule value =
     (let v = trim value in
      if \<not> starts_with ''rule'' v \<or> has_control v then Some BadRichRule else None)"

definition check_forward_port :: "FirewalldRegex \<Rightarrow> string \<Rightarrow> FirewalldInputIssue option" where
  "check_forward_port rx value =
     (let v = trim value;
          somewhere = contains_sub '':toport='' v \<or> contains_sub '':toaddr='' v
      in if \<not> rx_forward rx v \<or> \<not> somewhere then Some BadForwardPort else None)"

end
