(* ===== verification/Fw_Change.thy ===== *)
theory Fw_Change
  imports Ufw Firewalld_Read
begin

text \<open>
  A change to a firewall, planned before it is made
  (\<open>crates/sbm_parser/src/firewall/change.rs\<close>): the commands it runs, what it does to
  each way in, and the rules that would keep open a way it shuts. The regular
  expressions are parameters, as in the theories of the two firewalls.
\<close>

section \<open>Changes and plans\<close>

datatype UfwChange =
  Enable | Disable | Reload
  | Policy UfwChain UfwPolicy
  | Logging UfwLogLevel
  | AddRule UfwRuleDraft
  | DeleteRule "string list"

datatype FirewalldChange =
  Start | Stop | FwdReload | RuntimeToPermanent | PanicOff
  | DefaultZone string
  | Target string FirewalldTarget
  | Masquerade string bool
  | Add string FirewalldItem string
  | Remove string FirewalldItem string
  | ChangeInterface string string
  | RemoveInterface string string

record Effect =
  ef_access :: FirewallAccess
  ef_before :: FirewallReach
  ef_after :: FirewallReach
  ef_later :: bool
  ef_worse :: bool

datatype PlanNote = ReloadLoses

record Plan =
  pl_commands :: "string list"
  pl_effects :: "Effect list"
  pl_notes :: "PlanNote list"
  pl_destructive :: bool
  pl_confirm :: bool
  pl_keep_open :: "string list"
  pl_keep_open_default :: bool
  pl_countdown :: bool

definition warnings :: "Plan \<Rightarrow> Effect list" where
  "warnings p = filter ef_worse (pl_effects p)"

definition script_commands :: "Plan \<Rightarrow> bool \<Rightarrow> string list" where
  "script_commands p keep_open = (if keep_open then pl_keep_open p else []) @ pl_commands p"

datatype ChangeError =
  Unchanged | Draft UfwDraftIssue | Input FirewalldInputIssue | NoSuchRule | NoSuchZone

definition effects :: "FirewallAccess list \<Rightarrow> (FirewallAccess \<Rightarrow> FirewallReach)
    \<Rightarrow> (FirewallAccess \<Rightarrow> FirewallReach) \<Rightarrow> bool \<Rightarrow> Effect list" where
  "effects accesses before after later =
     map (\<lambda>a. \<lparr>ef_access = a, ef_before = before a, ef_after = after a, ef_later = later,
               ef_worse = worse_than (after a) (before a)\<rparr>) accesses"

text \<open>The loop that collects the accesses a change shuts, each once.\<close>

definition shut_by :: "Effect list \<Rightarrow> FirewallAccess list" where
  "shut_by worse =
     foldl (\<lambda>shut e. if \<not> admits (ef_after e) \<and> ef_access e \<notin> set shut then shut @ [ef_access e] else shut)
       [] worse"

definition plan :: "string list \<Rightarrow> Effect list \<Rightarrow> PlanNote list \<Rightarrow> bool \<Rightarrow> bool
    \<Rightarrow> (FirewallAccess list \<Rightarrow> string list) \<Rightarrow> Plan" where
  "plan commands effs notes destructive always_confirm keep_open =
     (let worse = filter ef_worse effs;
          shut = shut_by worse;
          rescue = (if shut = [] then [] else keep_open shut);
          countdown = list_ex (\<lambda>e. ef_after e = Blocked) worse
      in \<lparr>pl_commands = commands, pl_effects = effs, pl_notes = notes,
          pl_destructive = (destructive \<or> (\<not> always_confirm \<and> worse \<noteq> [])),
          pl_confirm = (always_confirm \<or> worse \<noteq> []),
          pl_keep_open = rescue,
          pl_keep_open_default = (rescue \<noteq> [] \<and> countdown),
          pl_countdown = countdown\<rparr>)"

section \<open>ufw\<close>

definition ports_once :: "FirewallAccess list \<Rightarrow> nat list" where
  "ports_once accesses =
     foldl (\<lambda>ports a. if port a \<notin> set ports then ports @ [port a] else ports) [] accesses"

definition ufw_keep_open :: "FirewallAccess list \<Rightarrow> string list" where
  "ufw_keep_open accesses = map allow_tcp_command (ports_once accesses)"

definition ufw_plan :: "item_regex \<Rightarrow> UfwSnapshot \<Rightarrow> UfwChange \<Rightarrow> FirewallAccess list
    \<Rightarrow> (ChangeError, Plan) result" where
  "ufw_plan rx s change accesses =
     (let now = (\<lambda>a. reach s a None None None) in
      case change of
        Enable \<Rightarrow>
          Ok (plan [ENABLE_COMMAND]
            (effects accesses (\<lambda>a. reach s a (Some False) None None) (\<lambda>a. reach s a (Some True) None None) False)
            [] True True ufw_keep_open)
      | Disable \<Rightarrow> Ok (plan [DISABLE_COMMAND] [] [] True True ufw_keep_open)
      | Reload \<Rightarrow> Ok (plan [RELOAD_COMMAND] [] [] False False ufw_keep_open)
      | Logging level \<Rightarrow> Ok (plan [logging_command level] [] [] False False ufw_keep_open)
      | Policy chain policy \<Rightarrow>
          if s_policies s chain = Some policy then Err Unchanged
          else Ok (plan [policy_command chain policy]
            (if chain = ChainIncoming then effects accesses now (\<lambda>a. reach s a None None (Some policy)) False else [])
            [] (policy \<noteq> PolicyAllow) True ufw_keep_open)
      | DeleteRule tuples \<Rightarrow>
          (case find (\<lambda>r. r_tuples r = tuples) (s_rules s) of
             None \<Rightarrow> Err NoSuchRule
           | Some rule \<Rightarrow>
               Ok (plan (delete_commands rule)
                 (effects accesses now (\<lambda>a. reach s a None (Some (filter (\<lambda>r. r \<noteq> rule) (s_rules s))) None) False)
                 [] True True ufw_keep_open))
      | AddRule draft \<Rightarrow>
          (case add_command rx draft of
             Inl issue \<Rightarrow> Err (Draft issue)
           | Inr line \<Rightarrow>
               Ok (plan [line]
                 (effects accesses now
                   (\<lambda>a. reach s a None (Some (with_rules s (as_rules draft (s_apps s)) (d_prepend draft))) None) False)
                 [] False False ufw_keep_open)))"

section \<open>firewalld\<close>

definition fwd_now :: "FirewalldSnapshot \<Rightarrow> FirewallAccess \<Rightarrow> FirewalldZone list option \<Rightarrow> string option
    \<Rightarrow> bool option \<Rightarrow> FirewallReach" where
  "fwd_now s a zs dz running = fwd_reach s a running None zs dz"

definition fwd_saved :: "FirewalldSnapshot \<Rightarrow> FirewallAccess \<Rightarrow> FirewalldZone list option \<Rightarrow> string option
    \<Rightarrow> FirewallReach" where
  "fwd_saved s a zs dz = fwd_reach s a (Some True) None (Some (unwrap_or (fs_permanent s) zs)) dz"

definition zone_effects :: "FirewalldSnapshot \<Rightarrow> FirewallAccess list \<Rightarrow> FirewalldZone list option
    \<Rightarrow> FirewalldZone list \<Rightarrow> string option \<Rightarrow> Effect list" where
  "zone_effects s accesses runtime permanent dz =
     (if fs_running s
      then effects accesses (\<lambda>a. fwd_now s a None None None) (\<lambda>a. fwd_now s a runtime dz None) False else [])
     @ effects accesses (\<lambda>a. fwd_saved s a None None) (\<lambda>a. fwd_saved s a (Some permanent) dz) True"

definition add_commands :: "bool \<Rightarrow> bool \<Rightarrow> nat \<Rightarrow> FirewalldZone list \<Rightarrow> string list \<Rightarrow> string list" where
  "add_commands running saved prt zs commands =
     foldl (\<lambda>cs z. let c = item_command_in running saved (z_name z) ItemRichRule (fwd_keep_open_rule prt)
                   in if c \<notin> set cs then cs @ [c] else cs) commands zs"

definition fwd_keep_open :: "FirewalldSnapshot \<Rightarrow> FirewallAccess list \<Rightarrow> FirewalldZone list option
    \<Rightarrow> FirewalldZone list \<Rightarrow> string option \<Rightarrow> bool \<Rightarrow> string list" where
  "fwd_keep_open s shut runtime permanent dz running =
     foldl (\<lambda>commands a.
         let commands = (case runtime of
               Some rt \<Rightarrow> if running
                 then add_commands running False (port a) (zones_for s a (Some rt) dz) commands else commands
             | None \<Rightarrow> commands)
         in add_commands running True (port a) (zones_for s a (Some permanent) dz) commands) [] shut"

definition reload_notes :: "FirewalldSnapshot \<Rightarrow> PlanNote list" where
  "reload_notes s = (if drifted s then [ReloadLoses] else [])"

definition applied :: "string \<Rightarrow> (FirewalldZone \<Rightarrow> FirewalldZone) \<Rightarrow> FirewalldZone list \<Rightarrow> FirewalldZone list" where
  "applied name change zs = map (\<lambda>z. if z_name z = name then change z else z) zs"

definition zone_change :: "FirewalldSnapshot \<Rightarrow> FirewallAccess list \<Rightarrow> string list
    \<Rightarrow> (FirewalldZone list \<Rightarrow> FirewalldZone list) \<Rightarrow> bool \<Rightarrow> Plan" where
  "zone_change s accesses commands change always =
     (let permanent = change (fs_permanent s); runtime = map_option change (fs_runtime s) in
      plan commands (zone_effects s accesses runtime permanent None) [] always always
        (\<lambda>shut. fwd_keep_open s shut runtime permanent None (fs_running s)))"

definition zone_known :: "FirewalldSnapshot \<Rightarrow> string \<Rightarrow> bool" where
  "zone_known s z \<longleftrightarrow> zone s z False \<noteq> None \<or> zone s z True \<noteq> None"

definition quiet :: "string list \<Rightarrow> Plan" where
  "quiet commands = plan commands [] [] False False (\<lambda>_. [])"

definition checked :: "FirewalldInputIssue option \<Rightarrow> Plan \<Rightarrow> (ChangeError, Plan) result" where
  "checked issue p = (case issue of None \<Rightarrow> Ok p | Some i \<Rightarrow> Err (Input i))"

definition add_plan :: "FirewalldRegex \<Rightarrow> FirewalldSnapshot \<Rightarrow> FirewallAccess list \<Rightarrow> string
    \<Rightarrow> FirewalldItem \<Rightarrow> string \<Rightarrow> (ChangeError, Plan) result" where
  "add_plan rx s accesses z k typed =
     (let value = trim typed;
          commands = (\<lambda>v. item_commands (fs_running s) z k v True)
      in case k of
           ItemService \<Rightarrow> Ok (quiet (commands value))
         | ItemPort \<Rightarrow> (case parse_port rx value of None \<Rightarrow> Err (Input BadPort)
             | Some p \<Rightarrow> Ok (quiet (commands (show_port p))))
         | ItemSource \<Rightarrow> checked (check_source rx value)
             (zone_change s accesses (commands value)
               (applied z (\<lambda>zn. zn\<lparr>z_sources := z_sources zn @ [value]\<rparr>)) False)
         | ItemRichRule \<Rightarrow> checked (check_rich_rule value)
             (zone_change s accesses (commands value)
               (applied z (\<lambda>zn. zn\<lparr>z_rich_rules := z_rich_rules zn @ [parse_rich_rule rx value]\<rparr>)) False)
         | ItemForwardPort \<Rightarrow> checked (check_forward_port rx value)
             (zone_change s accesses (commands value)
               (applied z (\<lambda>zn. zn\<lparr>z_forward_ports := z_forward_ports zn @ [value]\<rparr>)) False))"

definition without_item :: "FirewalldItem \<Rightarrow> string \<Rightarrow> FirewalldZone \<Rightarrow> FirewalldZone" where
  "without_item k value z =
     (case k of
        ItemService \<Rightarrow> z\<lparr>z_services := filter (\<lambda>v. v \<noteq> value) (z_services z)\<rparr>
      | ItemSource \<Rightarrow> z\<lparr>z_sources := filter (\<lambda>v. v \<noteq> value) (z_sources z)\<rparr>
      | ItemForwardPort \<Rightarrow> z\<lparr>z_forward_ports := filter (\<lambda>v. v \<noteq> value) (z_forward_ports z)\<rparr>
      | ItemRichRule \<Rightarrow> z\<lparr>z_rich_rules := filter (\<lambda>r. rr_raw r \<noteq> value) (z_rich_rules z)\<rparr>
      | ItemPort \<Rightarrow> z\<lparr>z_ports := filter (\<lambda>p. show_port p \<noteq> value) (z_ports z)\<rparr>)"

definition moved_interface :: "string \<Rightarrow> string \<Rightarrow> FirewalldZone \<Rightarrow> FirewalldZone" where
  "moved_interface to ifc z =
     (let rest = filter (\<lambda>i. i \<noteq> ifc) (z_interfaces z) in
      z\<lparr>z_interfaces := (if z_name z = to then rest @ [ifc] else rest)\<rparr>)"

definition firewalld_plan :: "FirewalldRegex \<Rightarrow> FirewalldSnapshot \<Rightarrow> FirewalldChange \<Rightarrow> FirewallAccess list
    \<Rightarrow> (ChangeError, Plan) result" where
  "firewalld_plan rx s change accesses =
     (let running = fs_running s;
          in_zone = (\<lambda>z r. if zone_known s z then r else Err NoSuchZone)
      in case change of
        Start \<Rightarrow>
          Ok (plan [START_COMMAND]
            (effects accesses (\<lambda>_. Open) (\<lambda>a. fwd_now s a (Some (fs_permanent s)) None (Some True)) False)
            [] True True (\<lambda>shut. fwd_keep_open s shut None (fs_permanent s) None False))
      | Stop \<Rightarrow> Ok (plan [STOP_COMMAND] [] [] True True (\<lambda>_. []))
      | PanicOff \<Rightarrow> Ok (quiet [PANIC_OFF_COMMAND])
      | FwdReload \<Rightarrow>
          Ok (plan [FWD_RELOAD_COMMAND] (zone_effects s accesses (Some (fs_permanent s)) (fs_permanent s) None)
            (reload_notes s) (drifted s) True
            (\<lambda>shut. fwd_keep_open s shut None (fs_permanent s) None running))
      | RuntimeToPermanent \<Rightarrow>
          (case fs_runtime s of None \<Rightarrow> Err Unchanged
           | Some runtime \<Rightarrow>
               Ok (plan [RUNTIME_TO_PERMANENT_COMMAND] (zone_effects s accesses (Some runtime) runtime None)
                 [] False True (\<lambda>_. [])))
      | DefaultZone z \<Rightarrow> in_zone z
          (if fs_default_zone s = Some z then Err Unchanged
           else Ok (plan [default_zone running z]
             (zone_effects s accesses (fs_runtime s) (fs_permanent s) (Some z)) [] False True
             (\<lambda>shut. fwd_keep_open s shut (fs_runtime s) (fs_permanent s) (Some z) running)))
      | Target z t \<Rightarrow> in_zone z
          (let permanent = applied z (\<lambda>zn. zn\<lparr>z_target := t\<rparr>) (fs_permanent s) in
           Ok (plan (set_target running z t) (zone_effects s accesses (Some permanent) permanent None)
             (reload_notes s) (t \<noteq> AcceptTarget) True
             (\<lambda>shut. fwd_keep_open s shut None permanent None running)))
      | Masquerade z enabled \<Rightarrow> in_zone z (Ok (quiet (masquerade running z enabled)))
      | Add z k value \<Rightarrow> in_zone z (add_plan rx s accesses z k value)
      | Remove z k value \<Rightarrow> in_zone z
          (Ok (zone_change s accesses (item_commands running z k value False)
            (applied z (without_item k value)) True))
      | ChangeInterface z typed \<Rightarrow> in_zone z
          (checked (check_interface typed)
            (zone_change s accesses (change_interface running z (trim typed))
              (map (moved_interface z (trim typed))) False))
      | RemoveInterface z ifc \<Rightarrow> in_zone z
          (Ok (zone_change s accesses (remove_interface running z ifc)
            (applied z (\<lambda>zn. zn\<lparr>z_interfaces := filter (\<lambda>i. i \<noteq> ifc) (z_interfaces zn)\<rparr>)) True)))"

end
