(* ===== verification/Ufw_Rules.thy ===== *)
theory Ufw_Rules
  imports Ufw
begin

text \<open>
  What ufw's rules do to a connection, said without the app's uncertainty: the
  connection is fully known, and the first rule that matches decides. The app's
  judgement of an access is shown sound against it.
\<close>

section \<open>A connection and the rules that match it\<close>

text \<open>
  The other end, this end, the port it leaves from; which interface names it is
  on; and which of the networks that are written in no form the app reads hold it.
\<close>

record Conn =
  c_src :: IpAddr
  c_dst :: IpAddr
  c_sport :: nat
  c_on :: "string \<Rightarrow> bool"
  c_named :: "string \<Rightarrow> bool"

definition net_matches :: "Conn \<Rightarrow> string option \<Rightarrow> IpAddr \<Rightarrow> bool" where
  "net_matches c network addr = (case network of None \<Rightarrow> True
     | Some n \<Rightarrow> (case network_contains n addr of Some b \<Rightarrow> b | None \<Rightarrow> c_named c n))"

definition family_matches :: "UfwIpVersion \<Rightarrow> IpAddr \<Rightarrow> bool" where
  "family_matches v addr = (case v of IpBoth \<Rightarrow> True | Ip4 \<Rightarrow> \<not> is_ipv6 addr | Ip6 \<Rightarrow> is_ipv6 addr)"

definition rule_matches :: "UfwRule \<Rightarrow> nat \<Rightarrow> Conn \<Rightarrow> bool" where
  "rule_matches r p c \<longleftrightarrow>
     \<not> r_routed r \<and> r_direction r = Incoming
     \<and> (case r_protocol r of None \<Rightarrow> True | Some q \<Rightarrow> q = ''tcp'')
     \<and> port_spec_covers (e_port (r_to r)) p
     \<and> family_matches (r_ip_version r) (c_src c)
     \<and> net_matches c (e_address (r_from r)) (c_src c)
     \<and> net_matches c (e_address (r_to r)) (c_dst c)
     \<and> (case r_interface_in r of None \<Rightarrow> True | Some i \<Rightarrow> c_on c i)
     \<and> port_spec_covers (e_port (r_from r)) (c_sport c)"

definition first_match :: "UfwRule list \<Rightarrow> FirewallReach \<Rightarrow> nat \<Rightarrow> Conn \<Rightarrow> FirewallReach" where
  "first_match rules fb p c =
     (case find (\<lambda>r. rule_matches r p c) rules of
        None \<Rightarrow> fb | Some r \<Rightarrow> action_verdict (r_action r))"

text \<open>A ufw that is on, with IPv6 on or off, these rules and this incoming policy.\<close>

definition ufw_verdict :: "bool \<Rightarrow> bool \<Rightarrow> UfwRule list \<Rightarrow> UfwPolicy \<Rightarrow> nat \<Rightarrow> Conn \<Rightarrow> FirewallReach" where
  "ufw_verdict on ipv6 rules policy p c =
     (if \<not> on \<or> (\<not> ipv6 \<and> is_ipv6 (c_src c)) then Open
      else first_match rules (policy_reach (Some policy)) p c)"

text \<open>A connection an access may stand for: it has the addresses that are known.\<close>

definition compatible :: "FirewallAccess \<Rightarrow> Conn \<Rightarrow> bool" where
  "compatible a c \<longleftrightarrow>
     (case client_ip a of None \<Rightarrow> True | Some x \<Rightarrow> c_src c = x)
     \<and> (case server_ip a of None \<Rightarrow> True | Some x \<Rightarrow> c_dst c = x)"

section \<open>Judging is sound\<close>

lemma judge_sound:
  assumes "compatible a c" "client_ip a \<noteq> None \<or> r_ip_version r = IpBoth"
  shows "case judge r a of None \<Rightarrow> \<not> rule_matches r (port a) c
    | Some j \<Rightarrow> verdict j = action_verdict (r_action r) \<and> (sure j \<longrightarrow> rule_matches r (port a) c)"
proof -
  let ?ps = "[(e_address (r_from r), client_ip a), (e_address (r_to r), server_ip a)]"
  let ?s = "r_interface_in r = None \<and> e_port (r_from r) = None"
  have nets: "(judge_addresses ?ps s = None \<longrightarrow>
        \<not> (net_matches c (e_address (r_from r)) (c_src c) \<and> net_matches c (e_address (r_to r)) (c_dst c)))
    \<and> (judge_addresses ?ps s = Some True \<longrightarrow>
        s \<and> net_matches c (e_address (r_from r)) (c_src c) \<and> net_matches c (e_address (r_to r)) (c_dst c))" for s
    using assms(1)
    by (auto simp: compatible_def net_matches_def holds_def split: option.splits bool.splits)
  have family: "(case client_ip a of None \<Rightarrow> False | Some x \<Rightarrow> r_ip_version r = (if is_ipv6 x then Ip4 else Ip6))
      \<longleftrightarrow> \<not> family_matches (r_ip_version r) (c_src c)"
    using assms by (auto simp: compatible_def family_matches_def split: option.splits UfwIpVersion.splits)
  let ?n = "net_matches c (e_address (r_from r)) (c_src c) \<and> net_matches c (e_address (r_to r)) (c_dst c)"
  let ?i = "(case r_interface_in r of None \<Rightarrow> True | Some i \<Rightarrow> c_on c i) \<and> port_spec_covers (e_port (r_from r)) (c_sport c)"
  let ?b = "\<not> r_routed r \<and> r_direction r = Incoming \<and> (case r_protocol r of None \<Rightarrow> True | Some q \<Rightarrow> q = ''tcp'')
     \<and> port_spec_covers (e_port (r_to r)) (port a) \<and> family_matches (r_ip_version r) (c_src c)"
  have m: "rule_matches r (port a) c \<longleftrightarrow> ?b \<and> ?n \<and> ?i" by (auto simp: rule_matches_def)
  have i: "?s \<Longrightarrow> ?i" by (auto simp: port_spec_covers_def)
  have proto: "(case r_protocol r of None \<Rightarrow> False | Some p \<Rightarrow> p \<noteq> ''tcp'')
      \<longleftrightarrow> \<not> (case r_protocol r of None \<Rightarrow> True | Some q \<Rightarrow> q = ''tcp'')" by (cases "r_protocol r") simp_all
  have j: "judge r a = (if ?b then map_option (\<lambda>s. \<lparr>verdict = action_verdict (r_action r), sure = s\<rparr>)
      (judge_addresses ?ps ?s) else None)"
    unfolding judge_def family proto by (cases "judge_addresses ?ps ?s") simp_all
  have "case (if B then map_option (\<lambda>s. \<lparr>verdict = v, sure = s\<rparr>) J else None) of
      None \<Rightarrow> \<not> (B \<and> N \<and> I) | Some k \<Rightarrow> verdict k = v \<and> (sure k \<longrightarrow> B \<and> N \<and> I)"
    if "(J = None \<longrightarrow> \<not> N) \<and> (J = Some True \<longrightarrow> S \<and> N)" "S \<Longrightarrow> I" for B N I S J and v
    using that by (cases J) auto
  from this [OF nets [of ?s] i] show ?thesis by (simp only: j m)
qed

text \<open>The resolution of the judged rules that a concrete connection is.\<close>

definition resolution :: "UfwRule list \<Rightarrow> FirewallAccess \<Rightarrow> Conn \<Rightarrow> (Judged \<times> bool) list" where
  "resolution rules a c =
     List.map_filter (\<lambda>r. map_option (\<lambda>j. (j, rule_matches r (port a) c)) (judge r a)) rules"

definition families_known :: "FirewallAccess \<Rightarrow> UfwRule list \<Rightarrow> bool" where
  "families_known a rules \<longleftrightarrow> client_ip a \<noteq> None \<or> list_all (\<lambda>r. r_ip_version r = IpBoth) rules"

lemma resolution_ok:
  assumes "compatible a c" "families_known a rules"
  shows "resolves (List.map_filter (\<lambda>r. judge r a) rules) (resolution rules a c)
    \<and> outcome (resolution rules a c) fb = first_match rules fb (port a) c"
  using assms(2)
proof (induction rules)
  case Nil
  show ?case by (simp add: resolution_def resolves_def first_match_def List.map_filter_simps)
next
  case (Cons r rules)
  then have known: "client_ip a \<noteq> None \<or> r_ip_version r = IpBoth" "families_known a rules"
    by (auto simp: families_known_def)
  note j = judge_sound [OF assms(1) known(1)]
  show ?case
  proof (cases "judge r a")
    case None
    with j Cons.IH [OF known(2)] show ?thesis
      by (simp add: resolution_def first_match_def List.map_filter_simps)
  next
    case (Some k)
    with j Cons.IH [OF known(2)] show ?thesis
      by (auto simp: resolution_def first_match_def List.map_filter_simps resolves_def)
  qed
qed

lemma reach_on:
  "or_else active (s_active s) \<noteq> Some False \<Longrightarrow> s_ipv6 s \<or> \<not> client_is_ipv6 a \<Longrightarrow>
   reach s a active rules inc = decide (List.map_filter (\<lambda>r. judge r a) (unwrap_or (s_rules s) rules))
     (policy_reach (or_else inc (s_policies s ChainIncoming)))"
  by (auto simp: reach_def)

section \<open>A rule that keeps a way in open\<close>

text \<open>The draft that \<open>allow_tcp_command\<close> writes out, and the one rule it adds.\<close>

definition keep_open_draft :: "nat \<Rightarrow> UfwRuleDraft" where
  "keep_open_draft p = (new_draft Allow Incoming)
     \<lparr>d_protocol := Some ''tcp'', d_port := show_nat p, d_prepend := True\<rparr>"

definition keep_open_rule :: "nat \<Rightarrow> UfwRule" where
  "keep_open_rule p = hd (as_rules (keep_open_draft p) [])"

lemma as_rules_keep_open: "as_rules (keep_open_draft p) apps = [keep_open_rule p]"
  by (simp add: keep_open_rule_def as_rules_def keep_open_draft_def new_draft_def draft_ports_def)

lemma split_range_show_nat: "split_range (show_nat p) = [show_nat p]"
proof -
  have "CHR ''-'' \<notin> set (show_nat p)" "CHR '':'' \<notin> set (show_nat p)"
    using show_nat_chars [of "CHR ''-''" p] show_nat_chars [of "CHR '':''" p] by (auto simp: is_ascii_digit_def)
  then have "map (\<lambda>c. if c = CHR ''-'' then CHR '':'' else c) (show_nat p) = show_nat p" "CHR '':'' \<notin> set (show_nat p)"
    by (auto intro: map_idI)
  then show ?thesis by (simp add: split_range_def split_on_no_sep)
qed

lemma show_nat_no_comma: "split_on (CHR '','') (show_nat p) = [show_nat p]"
  using show_nat_chars [of "CHR '',''" p] by (auto simp: is_ascii_digit_def intro: split_on_no_sep)

lemma parse_i64_show_nat: "n \<le> 65535 \<Longrightarrow> parse_i64 (show_nat n) = Some (int n)"
  using show_nat_chars [of "CHR ''-''" n] parse_show_nat [of n "9223372036854775807"] show_nat_not_Nil [of n]
  by (cases "show_nat n") (auto simp: parse_sint_def is_ascii_digit_def)

lemma port_spec_covers_one: "n \<le> 65535 \<Longrightarrow> port_spec_covers (Some (show_nat n)) p \<longleftrightarrow> p = n"
  by (auto simp: port_spec_covers_def show_nat_no_comma split_range_show_nat parse_i64_show_nat)

lemma judge_keep_open_rule:
  assumes "p \<le> 65535"
  shows "judge (keep_open_rule p) a = (if port a = p then Some \<lparr>verdict = Open, sure = True\<rparr> else None)"
proof -
  have rule: "keep_open_rule p = \<lparr>r_action = Allow, r_direction = Incoming, r_routed = False, r_log = None,
        r_protocol = Some ''tcp'', r_to = \<lparr>e_address = None, e_port = Some (show_nat p), e_app = None\<rparr>,
        r_from = \<lparr>e_address = None, e_port = None, e_app = None\<rparr>, r_interface_in = None,
        r_interface_out = None, r_comment = None, r_ip_version = IpBoth, r_tuples = []\<rparr>"
    by (simp add: keep_open_rule_def as_rules_def keep_open_draft_def new_draft_def draft_ports_def
        draft_family_def nonempty_def effective_interface_in_def effective_interface_out_def show_nat_not_Nil)
  show ?thesis
    by (simp add: judge_def rule port_spec_covers_one [OF assms] split: option.splits)
qed

lemma judge_action:
  "judge (r\<lparr>r_action := x\<rparr>) a = map_option (\<lambda>j. j\<lparr>verdict := action_verdict x\<rparr>) (judge r a)"
  by (simp add: judge_def split: option.split)

interpretation ufw_table: keep_open_table judge keep_open_rule
  by unfold_locales (simp add: judge_keep_open_rule)

text \<open>
  Several rules of that kind put first, one per port: every access to one of the
  ports is open, whatever follows and whatever the policy.
\<close>

lemma kept_open_among:
  assumes "port a \<le> 65535" "port a \<in> set ports" "\<forall>p \<in> set ports. p \<le> 65535"
  shows "decide (List.map_filter (\<lambda>r. judge r a) (map keep_open_rule ports @ rules)) fb = Open"
  using assms(2,3)
proof (induction ports)
  case (Cons p ports)
  show ?case
  proof (cases "p = port a")
    case True
    then show ?thesis using ufw_table.kept_open [OF assms(1)] by simp
  next
    case False
    with Cons show ?thesis by (simp add: judge_keep_open_rule List.map_filter_simps)
  qed
qed simp

lemma reach_kept_open:
  assumes "port a \<le> 65535" "port a \<in> set ports" "\<forall>p \<in> set ports. p \<le> 65535"
  shows "reach s a active (Some (map keep_open_rule ports @ rules)) inc = Open"
  by (simp add: reach_def kept_open_among [OF assms] unwrap_or_def)

section \<open>Properties\<close>

text \<open>
  C1. A verdict of ufw's rules that is not unknown holds for every connection the
  access may stand for: whichever interface and source port it comes by, and
  whatever address is not known, the first rule that matches it, else the policy,
  lets it in or not as the verdict says. The family of an unknown client has to be
  immaterial: every rule is for both and IPv6 is on.
\<close>

theorem reach_is_sound:
  assumes "reach s a active rules inc \<noteq> Unknown" "compatible a c"
    and "client_ip a \<noteq> None \<or> s_ipv6 s" "families_known a (unwrap_or (s_rules s) rules)"
    and "or_else inc (s_policies s ChainIncoming) \<in> {None, Some policy}"
  shows "admits (reach s a active rules inc) = admits (ufw_verdict (or_else active (s_active s) \<noteq> Some False)
    (s_ipv6 s) (unwrap_or (s_rules s) rules) policy (port a) c)"
proof (cases "or_else active (s_active s) = Some False \<or> (\<not> s_ipv6 s \<and> client_is_ipv6 a)")
  case True
  then show ?thesis
    using assms(2) by (auto simp: reach_def ufw_verdict_def compatible_def client_is_ipv6_def split: option.splits)
next
  case False
  let ?rules = "unwrap_or (s_rules s) rules" and ?fb = "policy_reach (or_else inc (s_policies s ChainIncoming))"
  let ?cs = "List.map_filter (\<lambda>r. judge r a) ?rules"
  have d: "reach s a active rules inc = decide ?cs ?fb" using False by (simp add: reach_on)
  note res = resolution_ok [OF assms(2,4)]
  have "outcome (resolution ?rules a c) ?fb = outcome (resolution ?rules a c) (policy_reach (Some policy))"
  proof (cases "or_else inc (s_policies s ChainIncoming)")
    case None
    then have "decide ?cs Unknown \<noteq> Unknown" using assms(1) d by (simp add: policy_reach_def)
    then show ?thesis using outcome_sure_fallback [OF res [THEN conjunct1]] decide_unknown_fallback by blast
  qed (use assms(5) in auto)
  moreover have "s_ipv6 s \<or> \<not> is_ipv6 (c_src c)"
    using False assms(2,3) by (auto simp: compatible_def client_is_ipv6_def split: option.splits)
  ultimately show ?thesis
    using decide_sound [OF assms(1) [unfolded d] res [THEN conjunct1]] res [THEN conjunct2] False
    by (auto simp: d ufw_verdict_def)
qed

text \<open>A ufw that denies what no rule takes, with one rule, and an SSH access to port 22.\<close>

definition sample_snapshot :: "UfwRule \<Rightarrow> UfwSnapshot" where
  "sample_snapshot r = \<lparr>s_active = Some True, s_status_line = None, s_version = None, s_log_level = None,
     s_ipv6 = True, s_policies = (\<lambda>_. Some PolicyDeny), s_rules = [r], s_apps = []\<rparr>"

definition sample_access :: "string option \<Rightarrow> FirewallAccess" where
  "sample_access cl = \<lparr>via = Ssh, port = 22, client = cl, server = None, iface = None\<rparr>"

definition sample_conn :: "IpAddr \<Rightarrow> Conn" where
  "sample_conn src = \<lparr>c_src = src, c_dst = V4 [10, 0, 0, 2], c_sport = 50000, c_on = (\<lambda>_. True), c_named = (\<lambda>_. False)\<rparr>"

theorem reach_is_sound_witness:
  "reach (sample_snapshot (keep_open_rule 22)) (sample_access (Some ''10.0.0.1'')) None None None = Open
   \<and> admits (reach (sample_snapshot (keep_open_rule 22)) (sample_access (Some ''10.0.0.1'')) None None None)
     = admits (ufw_verdict True True [keep_open_rule 22] PolicyDeny 22 (sample_conn (V4 [10, 0, 0, 1])))"
proof -
  let ?s = "sample_snapshot (keep_open_rule 22)" and ?a = "sample_access (Some ''10.0.0.1'')"
  have client: "client_ip ?a = Some (V4 [10, 0, 0, 1])" by code_simp
  have server: "server_ip ?a = None" by code_simp
  have open_: "reach ?s ?a None None None = Open"
    using kept_open_among [of ?a "[22]" "[]"]
    by (simp add: reach_def sample_snapshot_def sample_access_def or_else_def unwrap_or_def)
  then have "admits (reach ?s ?a None None None) = admits (ufw_verdict (or_else None (s_active ?s) \<noteq> Some False)
      (s_ipv6 ?s) (unwrap_or (s_rules ?s) None) PolicyDeny (port ?a) (sample_conn (V4 [10, 0, 0, 1])))"
    by (intro reach_is_sound)
      (simp_all add: client server compatible_def sample_conn_def families_known_def or_else_def sample_snapshot_def)
  with open_ show ?thesis
    by (simp add: sample_snapshot_def sample_access_def or_else_def unwrap_or_def)
qed

text \<open>
  An access whose client address is not known and a rule of one family only:
  the rule is taken to apply surely. With an allow rule for IPv4 alone, as is left
  when the IPv6 half of a rule is deleted, the verdict is open, and a connection
  over IPv6 that the access may stand for is refused.
\<close>

theorem one_family_rule_is_taken_as_sure:
  assumes "client_ip a = None" "port a \<le> 65535" "c_src c = V6 os"
    and "r = (keep_open_rule (port a))\<lparr>r_ip_version := Ip4\<rparr>"
  shows "reach (sample_snapshot r) a None None None = Open
    \<and> ufw_verdict True True [r] PolicyDeny (port a) c = Blocked"
proof -
  have "judge r a = judge (keep_open_rule (port a)) a" by (simp add: judge_def assms cong: option.case_cong)
  then have "judge r a = Some \<lparr>verdict = Open, sure = True\<rparr>" using assms(2) by (simp add: judge_keep_open_rule)
  then have "reach (sample_snapshot r) a None None None = Open"
    by (simp add: reach_def sample_snapshot_def or_else_def unwrap_or_def List.map_filter_simps decide_sure_first)
  moreover have "\<not> rule_matches r (port a) c"
    using assms(3,4) by (simp add: rule_matches_def family_matches_def is_ipv6_def)
  ultimately show ?thesis by (simp add: ufw_verdict_def first_match_def policy_reach_def is_ipv6_def)
qed

theorem one_family_rule_is_taken_as_sure_witness:
  "reach (sample_snapshot ((keep_open_rule 22)\<lparr>r_ip_version := Ip4\<rparr>)) (sample_access None) None None None = Open
   \<and> ufw_verdict True True [(keep_open_rule 22)\<lparr>r_ip_version := Ip4\<rparr>] PolicyDeny 22
       (sample_conn (V6 (replicate 16 1))) = Blocked
   \<and> compatible (sample_access None) (sample_conn (V6 (replicate 16 1)))"
proof -
  have "client_ip (sample_access None) = None" "server_ip (sample_access None) = None" by code_simp+
  then show ?thesis
    using one_family_rule_is_taken_as_sure [of "sample_access None" "sample_conn (V6 (replicate 16 1))" "replicate 16 1"]
    by (simp add: sample_access_def sample_conn_def compatible_def)
qed

end
