(* ===== verification/Ufw_Commands.thy ===== *)
theory Ufw_Commands
  imports Ufw_Rules
begin

text \<open>
  The commands that change ufw, read back the way \<open>sh\<close> reads them: what a draft
  holds reaches ufw as the words it is, and as nothing else.
\<close>

section \<open>The port item's regular expression\<close>

text \<open>
  What the \<open>regex\<close> crate documents of \<open>^([0-9]{1,5})(?::([0-9]{1,5}))?$\<close>: the
  whole of the text is one to five digits, or two such runs with a colon between.
\<close>

definition digits15 :: "string \<Rightarrow> bool" where
  "digits15 s \<longleftrightarrow> all_digits s \<and> 1 \<le> length s \<and> length s \<le> 5"

definition is_item_regex :: "item_regex \<Rightarrow> bool" where
  "is_item_regex item \<longleftrightarrow> (\<forall>s a e. item s = Some (a, e) \<longleftrightarrow> digits15 a
     \<and> (case e of None \<Rightarrow> s = a | Some b \<Rightarrow> digits15 b \<and> s = a @ '':'' @ b))"

text \<open>A function that is such an expression, for concrete inputs.\<close>

definition item_captures :: item_regex where
  "item_captures s =
     (if digits15 s then Some (s, None)
      else case split_once (CHR '':'') s of
        Some (a, b) \<Rightarrow> if digits15 a \<and> digits15 b then Some (a, Some b) else None
      | None \<Rightarrow> None)"

lemma digits15_no: "digits15 s \<Longrightarrow> c \<in> set s \<Longrightarrow> is_ascii_digit c"
  by (auto simp: digits15_def all_digits_def list_all_iff)

lemma item_captures_is_regex: "is_item_regex item_captures"
proof -
  have colon: "CHR '':'' \<notin> set s" if "digits15 s" for s
    using digits15_no [OF that, of "CHR '':''"] by (auto simp: is_ascii_digit_def)
  have "item_captures s = Some (a, e) \<longleftrightarrow> digits15 a
     \<and> (case e of None \<Rightarrow> s = a | Some b \<Rightarrow> digits15 b \<and> s = a @ '':'' @ b)" for s a e
  proof (cases e)
    case None
    then show ?thesis by (auto simp: item_captures_def split: option.splits if_splits)
  next
    case (Some b)
    have "item_captures s = Some (a, Some b) \<longleftrightarrow> digits15 a \<and> digits15 b \<and> s = a @ '':'' @ b"
    proof
      assume "item_captures s = Some (a, Some b)"
      then have "split_once (CHR '':'') s = Some (a, b)" "digits15 a" "digits15 b"
        by (auto simp: item_captures_def split: option.splits if_splits)
      then show "digits15 a \<and> digits15 b \<and> s = a @ '':'' @ b" by (auto dest: split_once_SomeD)
    next
      assume s: "digits15 a \<and> digits15 b \<and> s = a @ '':'' @ b"
      then have "split_once (CHR '':'') s = Some (a, b)" "\<not> digits15 s" using colon [of a] colon [of s] by auto
      with s show "item_captures s = Some (a, Some b)" by (simp add: item_captures_def)
    qed
    with Some show ?thesis by simp
  qed
  then show ?thesis by (simp add: is_item_regex_def)
qed

lemma digits15_parse: "digits15 s \<Longrightarrow> parse_u32 s = Some (digits_val s)"
proof -
  assume s: "digits15 s"
  then have "digits_val s < 10 ^ length s" "(10::nat) ^ length s \<le> 10 ^ 5"
    using digits_val_less [of s] power_increasing [of "length s" 5 "10 :: nat"] by (auto simp: digits15_def)
  then have "digits_val s \<le> 4294967295" by simp
  moreover have "s \<noteq> []" "all_digits s" using s by (auto simp: digits15_def)
  ultimately show ?thesis by (simp add: parse_uint_digits)
qed

lemma item_parses:
  assumes "is_item_regex item" "item s = Some (a, e)"
  shows "parse_u32 a = Some (digits_val a) \<and> (\<forall>b. e = Some b \<longrightarrow> parse_u32 b = Some (digits_val b))"
  using assms by (auto simp: is_item_regex_def intro: digits15_parse)

section \<open>The words of the add command\<close>

text \<open>
  The words of ufw's grammar for a draft, as ufw is to receive them: the action
  and side, then the optional parts in the order its parser takes them.
\<close>

definition add_argv :: "UfwRuleDraft \<Rightarrow> string list" where
  "add_argv d =
     (let opt = (\<lambda>keyword v. if v = [] then [] else [keyword, v]);
          side = (\<lambda>keyword v. if v = [] then [] else [keyword, ''on'', v]);
          i_in = effective_interface_in d; i_out = effective_interface_out d;
          any = (\<lambda>v. if v = [] then ''any'' else v)
      in [''ufw''] @ (if d_routed d then [''route''] else [])
        @ (if d_prepend d then [''prepend''] else []) @ [action_name (d_action d)]
        @ (if d_routed d then side ''in'' i_in @ side ''out'' i_out
           else direction_token (d_direction d) # opt ''on'' (if i_in = [] then i_out else i_in))
        @ (case d_log d of None \<Rightarrow> [] | Some l \<Rightarrow> [log_token l])
        @ (if d_app d = None then (case d_protocol d of None \<Rightarrow> [] | Some p \<Rightarrow> [''proto'', p]) else [])
        @ [''from'', any (trim (d_from d))] @ opt ''port'' (trim (d_source_port d))
        @ [''to'', any (trim (d_to d))]
        @ (case d_app d of None \<Rightarrow> opt ''port'' (trim (d_port d)) | Some app \<Rightarrow> [''app'', app])
        @ opt ''comment'' (trim (d_comment d)))"

lemma all_plain_digits: "digits15 s \<Longrightarrow> list_all sh_plain s"
  using digits15_no by (auto simp: list_all_iff sh_plain_def is_ascii_alphanumeric_def)

lemma port_weight_plain:
  assumes "is_item_regex item" "port_weight item parts w = Ok w'"
  shows "\<forall>part \<in> set parts. part \<noteq> [] \<and> list_all sh_plain part"
  using assms(2)
proof (induction parts arbitrary: w)
  case (Cons part parts)
  then obtain a e where i: "item part = Some (a, e)" by (auto split: option.splits)
  then have "part \<noteq> [] \<and> list_all sh_plain part"
    using assms(1) all_plain_digits
    by (auto simp: is_item_regex_def digits15_def sh_plain_def split: option.splits)
  moreover have "\<exists>w. port_weight item parts w = Ok w'"
    using Cons.prems i by (auto simp: Let_def split: option.splits if_splits)
  ultimately show ?case using Cons.IH by auto
qed simp

lemma join_plain:
  assumes "\<forall>part \<in> set parts. part \<noteq> [] \<and> list_all sh_plain part" "parts \<noteq> []" "sh_plain c"
  shows "plain_word (join [c] parts)"
  using assms by (induction parts rule: induct_list012) (auto simp: plain_word_def)

lemma port_issue_plain:
  assumes "is_item_regex item" "port_issue item spec protocol = None"
  shows "plain_word spec"
proof -
  from assms(2) obtain w where "port_weight item (split_on (CHR '','') spec) 0 = Ok w"
    by (auto simp: port_issue_def split: sum.splits)
  from join_plain [OF port_weight_plain [OF assms(1) this], of "CHR '',''"] show ?thesis
    by (simp add: sh_plain_def)
qed

lemma validate_draftD:
  assumes "is_item_regex item" "validate_draft item d = None"
  shows "d_app d = None \<Longrightarrow> d_protocol d = Some p \<Longrightarrow> p \<in> set PROTOCOLS"
    and "d_app d = None \<Longrightarrow> trim (d_port d) \<noteq> [] \<Longrightarrow> plain_word (trim (d_port d))"
    and "trim (d_source_port d) \<noteq> [] \<Longrightarrow> plain_word (trim (d_source_port d))"
proof -
  let ?protocol = "if d_app d = None then d_protocol d else None"
  have v: "\<not> (case ?protocol of None \<Rightarrow> False | Some p \<Rightarrow> p \<notin> set PROTOCOLS)"
    "spec_issue item ?protocol (if d_app d = None then trim (d_port d) else []) = None"
    "spec_issue item ?protocol (trim (d_source_port d)) = None"
    using assms(2) unfolding validate_draft_def Let_def by (auto split: if_splits option.splits)
  show "d_app d = None \<Longrightarrow> d_protocol d = Some p \<Longrightarrow> p \<in> set PROTOCOLS" using v(1) by simp
  show "d_app d = None \<Longrightarrow> trim (d_port d) \<noteq> [] \<Longrightarrow> plain_word (trim (d_port d))"
    using v(2) port_issue_plain [OF assms(1)] by (simp add: spec_issue_def)
  show "trim (d_source_port d) \<noteq> [] \<Longrightarrow> plain_word (trim (d_source_port d))"
    using v(3) port_issue_plain [OF assms(1)] by (auto simp: spec_issue_def)
qed

lemma plain_words:
  "plain_word (action_name x)" "plain_word (direction_token y)" "plain_word (log_token z)"
  subgoal by (induction x) code_simp+
  subgoal by (induction y) code_simp+
  subgoal by (induction z) code_simp+
  done

lemma plain_keywords:
  "plain_word ''ufw''" "plain_word ''route''" "plain_word ''prepend''" "plain_word ''on''" "plain_word ''in''"
  "plain_word ''out''" "plain_word ''proto''" "plain_word ''from''" "plain_word ''to''" "plain_word ''port''"
  "plain_word ''app''" "plain_word ''comment''" "plain_word ''any''"
  by code_simp+

lemma plain_protocols: "p \<in> set PROTOCOLS \<Longrightarrow> plain_word p"
proof -
  have "list_all plain_word PROTOCOLS" by code_simp
  then show "p \<in> set PROTOCOLS \<Longrightarrow> plain_word p" by (simp add: list_all_iff)
qed

lemma add_words_spell:
  assumes "is_item_regex item" "validate_draft item d = None"
  shows "list_all2 spells (add_words d) (add_argv d)"
proof -
  note spell = spells_plain [OF plain_words(1)] spells_plain [OF plain_words(2)] spells_plain [OF plain_words(3)]
    plain_keywords [THEN spells_plain] spells_quote
  have "d_app d = None \<Longrightarrow> d_protocol d = Some p \<Longrightarrow> spells p p" for p
    using validate_draftD(1) [OF assms] plain_protocols spells_plain by blast
  moreover have "d_app d = None \<Longrightarrow> trim (d_port d) \<noteq> [] \<Longrightarrow> spells (trim (d_port d)) (trim (d_port d))"
    "trim (d_source_port d) \<noteq> [] \<Longrightarrow> spells (trim (d_source_port d)) (trim (d_source_port d))"
    using validate_draftD(2,3) [OF assms] spells_plain by blast+
  ultimately show ?thesis
    unfolding add_words_def add_argv_def Let_def
    by (intro list_all2_appendI) (auto simp: spell split: option.split)
qed

lemma validate_keep_open_draft:
  assumes "is_item_regex item" "1 \<le> p" "p \<le> 65535"
  shows "validate_draft item ((keep_open_draft p)\<lparr>d_action := act\<rparr>) = None"
proof -
  have "digits15 (show_nat p)"
    using show_nat_digits [of p] show_nat_length [of p 4] assms(3) by (auto simp: digits15_def Suc_le_eq)
  then have "item (show_nat p) = Some (show_nat p, None)" using assms(1) by (simp add: is_item_regex_def)
  moreover have "''tcp'' \<in> set PROTOCOLS" by code_simp
  ultimately show ?thesis
    using assms(2,3) show_nat_digits [of p]
    by (simp add: validate_draft_def keep_open_draft_def new_draft_def Let_def spec_issue_def port_issue_def
        show_nat_no_comma effective_interface_in_def effective_interface_out_def bad_interface_def has_control_def)
qed

section \<open>Properties\<close>

text \<open>
  C30. A draft the validation accepts becomes a command line that \<open>sh\<close> reads as
  exactly the words of ufw's grammar for it. The addresses, interfaces, profile
  name and comment of the draft are each one word, whatever characters they hold:
  nothing in a draft can end the command, start another or be expanded.
\<close>

theorem add_command_is_read_back:
  assumes "is_item_regex item" "add_command item d = Ok line"
  shows "sh_words line = Some (add_argv d)"
  using assms add_words_spell [OF assms(1)] sh_words_join
  by (auto simp: add_command_def split: option.splits)

theorem add_command_is_read_back_witness:
  "\<exists>line. add_command item_captures
       ((new_draft Deny Incoming)\<lparr>d_from := ''10.0.0.1'', d_protocol := Some ''tcp'', d_port := '' 22,80'',
          d_comment := ''no; rm $HOME''\<rparr>) = Ok line
     \<and> sh_words line = Some [''ufw'', ''deny'', ''in'', ''proto'', ''tcp'', ''from'', ''10.0.0.1'',
          ''to'', ''any'', ''port'', ''22,80'', ''comment'', ''no; rm $HOME'']"
proof -
  let ?d = "(new_draft Deny Incoming)\<lparr>d_from := ''10.0.0.1'', d_protocol := Some ''tcp'', d_port := '' 22,80'',
          d_comment := ''no; rm $HOME''\<rparr>"
  have evals: "family_of ''10.0.0.1'' = Some False" "item_captures ''22'' = Some (''22'', None)"
      "item_captures ''80'' = Some (''80'', None)" "split_on (CHR '','') ''22,80'' = [''22'', ''80'']"
      "trim '' 22,80'' = ''22,80''" "trim ''10.0.0.1'' = ''10.0.0.1''" "has_control ''no; rm $HOME'' = False"
      "''tcp'' \<in> set PROTOCOLS"
    by code_simp+
  have digits: "digits_val ''22'' = 22" "digits_val ''80'' = 80" by code_simp+
  have "validate_draft item_captures ?d = None"
    by (simp add: validate_draft_def new_draft_def Let_def evals digits spec_issue_def port_issue_def
        effective_interface_in_def effective_interface_out_def bad_interface_def)
  then obtain line where line: "add_command item_captures ?d = Ok line" by (simp add: add_command_def)
  moreover have "add_argv ?d = [''ufw'', ''deny'', ''in'', ''proto'', ''tcp'', ''from'', ''10.0.0.1'',
          ''to'', ''any'', ''port'', ''22,80'', ''comment'', ''no; rm $HOME'']" by code_simp
  ultimately show ?thesis using add_command_is_read_back [OF item_captures_is_regex line] by auto
qed

text \<open>
  The command that keeps a port open is the add command of the draft that
  allows TCP to the port from anywhere, put before every other rule.
\<close>

theorem allow_tcp_command_is_add_command:
  assumes "is_item_regex item" "1 \<le> p" "p \<le> 65535"
  shows "add_command item (keep_open_draft p) = Ok (allow_tcp_command p)"
proof -
  have "validate_draft item (keep_open_draft p) = None"
    using validate_keep_open_draft [OF assms, of Allow] by (simp add: keep_open_draft_def new_draft_def)
  then show ?thesis
    using show_nat_not_Nil [of p]
    by (simp add: add_command_def add_words_def keep_open_draft_def new_draft_def allow_tcp_command_def
        effective_interface_in_def effective_interface_out_def)
qed

theorem allow_tcp_command_is_add_command_witness:
  "add_command item_captures (keep_open_draft 22) = Ok (allow_tcp_command 22)
   \<and> allow_tcp_command 22 = ''ufw prepend allow in proto tcp from any to any port 22''"
proof -
  have "show_nat 22 = ''22''" by code_simp
  then show ?thesis
    using allow_tcp_command_is_add_command [OF item_captures_is_regex, of 22] by (simp add: allow_tcp_command_def)
qed

end
