(* ===== verification/Fw_Plan.thy ===== *)
theory Fw_Plan
  imports Fw_Change Ufw_Commands
begin

text \<open>
  What a plan promises: its effects say what the change does to every way in, a
  change that shuts one is always asked about, and the keep-open commands, run
  before the change, keep it open.
\<close>

section \<open>The parts of a plan\<close>

lemma plan_simps [simp]:
  "pl_commands (plan cs es ns d al k) = cs"
  "pl_effects (plan cs es ns d al k) = es"
  "pl_confirm (plan cs es ns d al k) \<longleftrightarrow> al \<or> (\<exists>e \<in> set es. ef_worse e)"
  "pl_countdown (plan cs es ns d al k) \<longleftrightarrow> (\<exists>e \<in> set es. ef_worse e \<and> ef_after e = Blocked)"
  "pl_keep_open (plan cs es ns d al k) = (if shut_by (filter ef_worse es) = [] then [] else k (shut_by (filter ef_worse es)))"
  by (auto simp: plan_def Let_def filter_empty_conv list_ex_iff)

lemma foldl_collect:
  "set (foldl (\<lambda>acc e. if P e \<and> f e \<notin> set acc then acc @ [f e] else acc) acc es) = set acc \<union> f ` {e \<in> set es. P e}"
  by (induction es arbitrary: acc) auto

lemma set_shut_by: "set (shut_by es) = ef_access ` {e \<in> set es. \<not> admits (ef_after e)}"
  using foldl_collect [where P = "\<lambda>e. \<not> admits (ef_after e)" and f = ef_access and acc = "[]"]
  by (simp add: shut_by_def)

lemma set_ports_once: "set (ports_once as) = port ` set as"
  using foldl_collect [where P = "\<lambda>_. True" and f = port and acc = "[]"] by (simp add: ports_once_def)

lemma set_effects:
  "e \<in> set (effects as before after later) \<longleftrightarrow>
     (\<exists>a \<in> set as. e = \<lparr>ef_access = a, ef_before = before a, ef_after = after a, ef_later = later,
        ef_worse = worse_than (after a) (before a)\<rparr>)"
  by (auto simp: effects_def)

lemma worse_than_admits: "admits r \<Longrightarrow> \<not> admits r' \<Longrightarrow> worse_than r' r"
  by (cases r; cases r') (simp_all add: admits_def worse_than_def less_FirewallReach_def)

section \<open>What a change makes of ufw\<close>

text \<open>
  The snapshot after the change. A new rule is put first or last, as the draft
  says; deleting takes out the rule that was named.
\<close>

definition apply_ufw :: "UfwChange \<Rightarrow> UfwSnapshot \<Rightarrow> UfwSnapshot" where
  "apply_ufw change s =
     (case change of
        Enable \<Rightarrow> s\<lparr>s_active := Some True\<rparr>
      | Disable \<Rightarrow> s\<lparr>s_active := Some False\<rparr>
      | Reload \<Rightarrow> s
      | Logging level \<Rightarrow> s\<lparr>s_log_level := Some level\<rparr>
      | Policy chain policy \<Rightarrow> s\<lparr>s_policies := (s_policies s)(chain \<mapsto> policy)\<rparr>
      | AddRule d \<Rightarrow> s\<lparr>s_rules := (if d_prepend d then as_rules d (s_apps s) @ s_rules s
                                    else s_rules s @ as_rules d (s_apps s))\<rparr>
      | DeleteRule tuples \<Rightarrow> s\<lparr>s_rules := (case find (\<lambda>r. r_tuples r = tuples) (s_rules s) of
            Some rule \<Rightarrow> filter (\<lambda>r. r \<noteq> rule) (s_rules s) | None \<Rightarrow> s_rules s)\<rparr>)"

definition ufw_now :: "UfwSnapshot \<Rightarrow> FirewallAccess \<Rightarrow> FirewallReach" where
  "ufw_now s a = reach s a None None None"

definition before_change :: "UfwChange \<Rightarrow> UfwSnapshot \<Rightarrow> UfwSnapshot" where
  "before_change change s = (if change = Enable then s\<lparr>s_active := Some False\<rparr> else s)"

lemma reach_alt [simp]:
  "reach s a (Some b) None None = ufw_now (s\<lparr>s_active := Some b\<rparr>) a"
  "reach s a None (Some rules) None = ufw_now (s\<lparr>s_rules := rules\<rparr>) a"
  "reach s a None None (Some p) = ufw_now (s\<lparr>s_policies := (s_policies s)(ChainIncoming \<mapsto> p)\<rparr>) a"
  "reach s a None None None = ufw_now s a"
  by (simp_all add: ufw_now_def reach_def or_else_def unwrap_or_def)

lemma ufw_now_frame:
  "chain \<noteq> ChainIncoming \<Longrightarrow> ufw_now (s\<lparr>s_policies := (s_policies s)(chain \<mapsto> p)\<rparr>) a = ufw_now s a"
  "ufw_now (s\<lparr>s_log_level := l\<rparr>) a = ufw_now s a"
  by (auto simp: ufw_now_def reach_def or_else_def unwrap_or_def)

lemma ufw_off: "ufw_now (s\<lparr>s_active := Some False\<rparr>) a = Open"
  by (simp add: ufw_now_def reach_def or_else_def)

lemma ufw_plan_effects:
  assumes "ufw_plan rx s change as = Ok p"
  shows "pl_effects p = effects as (ufw_now (before_change change s)) (ufw_now (apply_ufw change s)) False
    \<or> (pl_effects p = [] \<and> (\<forall>a. \<not> worse_than (ufw_now (apply_ufw change s) a) (ufw_now (before_change change s) a)))"
proof (cases change)
  case Disable
  with assms show ?thesis
    by (auto simp: ufw_plan_def apply_ufw_def ufw_off worse_than_def less_FirewallReach_def)
next
  case (Policy chain policy)
  with assms show ?thesis
    by (auto simp: ufw_plan_def apply_ufw_def before_change_def ufw_now_frame worse_than_def split: if_splits)
next
  case (AddRule d)
  with assms show ?thesis
    by (auto simp: ufw_plan_def apply_ufw_def before_change_def with_rules_def split: sum.splits)
next
  case (DeleteRule tuples)
  with assms show ?thesis
    by (auto simp: ufw_plan_def apply_ufw_def before_change_def split: option.splits)
qed (use assms in \<open>auto simp: ufw_plan_def apply_ufw_def before_change_def ufw_now_frame worse_than_def\<close>)

lemma ufw_plan_keep_open:
  assumes "ufw_plan rx s change as = Ok p"
  shows "pl_keep_open p = ufw_keep_open (shut_by (warnings p))"
proof -
  obtain cs es ns d al where "p = plan cs es ns d al ufw_keep_open"
    using assms by (auto simp: ufw_plan_def Let_def split: UfwChange.splits if_splits option.splits sum.splits)
  then show ?thesis by (simp add: warnings_def ufw_keep_open_def ports_once_def)
qed

lemma ufw_plan_confirm:
  assumes "ufw_plan rx s change as = Ok p" "e \<in> set (warnings p)"
  shows "pl_confirm p \<and> (ef_after e = Blocked \<longrightarrow> pl_countdown p)"
proof -
  obtain cs es ns d al where "p = plan cs es ns d al ufw_keep_open"
    using assms(1) by (auto simp: ufw_plan_def Let_def split: UfwChange.splits if_splits option.splits sum.splits)
  with assms(2) show ?thesis by (auto simp: warnings_def)
qed

section \<open>Properties\<close>

text \<open>
  C29. A change to ufw that shuts a way in never runs unasked: when a way that was
  open before the change is not surely open after it, the plan asks for
  confirmation, warns of that way, offers the command that keeps its port open,
  and makes the button count down when the way surely closes.
\<close>

theorem ufw_plan_warns_of_every_shut_way:
  assumes "ufw_plan rx s change as = Ok p" "a \<in> set as"
    and "admits (ufw_now (before_change change s) a)" "\<not> admits (ufw_now (apply_ufw change s) a)"
  shows "pl_confirm p
    \<and> (\<exists>e \<in> set (warnings p). ef_access e = a \<and> ef_after e = ufw_now (apply_ufw change s) a)
    \<and> allow_tcp_command (port a) \<in> set (pl_keep_open p)
    \<and> (ufw_now (apply_ufw change s) a = Blocked \<longrightarrow> pl_countdown p)"
proof -
  have worse: "worse_than (ufw_now (apply_ufw change s) a) (ufw_now (before_change change s) a)"
    using worse_than_admits assms(3,4) by blast
  with ufw_plan_effects [OF assms(1)]
  have "pl_effects p = effects as (ufw_now (before_change change s)) (ufw_now (apply_ufw change s)) False" by blast
  with assms(2) worse obtain e where
    e: "e \<in> set (warnings p)" "ef_access e = a" "ef_after e = ufw_now (apply_ufw change s) a"
    by (fastforce simp: warnings_def set_effects)
  then have "a \<in> set (shut_by (warnings p))" using assms(4) by (force simp: set_shut_by)
  then have "allow_tcp_command (port a) \<in> set (pl_keep_open p)"
    by (simp add: ufw_plan_keep_open [OF assms(1)] ufw_keep_open_def set_ports_once)
  with e ufw_plan_confirm [OF assms(1) e(1)] show ?thesis by auto
qed

definition open_snapshot :: UfwSnapshot where
  "open_snapshot = (sample_snapshot (keep_open_rule 0))\<lparr>s_rules := [], s_policies := (\<lambda>_. Some PolicyAllow)\<rparr>"

lemma open_snapshot_now:
  "ufw_now open_snapshot a = Open"
  "ufw_now (apply_ufw (Policy ChainIncoming PolicyDeny) open_snapshot) a = Blocked"
  by (simp_all add: ufw_now_def reach_def open_snapshot_def sample_snapshot_def apply_ufw_def or_else_def
      unwrap_or_def policy_reach_def decide_def List.map_filter_simps)

theorem ufw_plan_warns_of_every_shut_way_witness:
  "\<exists>p. ufw_plan item_captures open_snapshot (Policy ChainIncoming PolicyDeny) [sample_access None] = Ok p
     \<and> pl_confirm p \<and> pl_countdown p \<and> allow_tcp_command 22 \<in> set (pl_keep_open p)"
proof -
  let ?c = "Policy ChainIncoming PolicyDeny"
  obtain p where p: "ufw_plan item_captures open_snapshot ?c [sample_access None] = Ok p"
    by (simp add: ufw_plan_def open_snapshot_def)
  then show ?thesis
    using ufw_plan_warns_of_every_shut_way [OF p, of "sample_access None"]
    by (simp add: open_snapshot_now before_change_def admits_def sample_access_def)
qed

section \<open>The keep-open commands, run before the change\<close>

text \<open>
  What ufw makes of a rule command, by its manual: the words of
  \<open>ufw [prepend] ACTION DIRECTION proto P from A to B port N\<close> name one draft, and a rule
  that is there already, whatever its action, its logging and its comment, is not put
  first again but left where it is (\<open>Skipping inserting existing rule\<close>). Both are read
  off the text of the command.
\<close>

definition ufw_rule_args :: "bool \<Rightarrow> string list \<Rightarrow> UfwRuleDraft option" where
  "ufw_rule_args first ws =
     (case ws of
        [act, dir, k1, protocol, k2, src, k3, dst, k4, spec] \<Rightarrow>
          if [k1, k2, k3, k4] = [''proto'', ''from'', ''to'', ''port''] then
            Option.bind (action_from_name act) (\<lambda>a. map_option (\<lambda>d.
              (new_draft a d)\<lparr>d_protocol := Some protocol, d_port := spec, d_prepend := first,
                d_from := (if src = ''any'' then [] else src), d_to := (if dst = ''any'' then [] else dst)\<rparr>)
              (direction_from_token dir))
          else None
      | _ \<Rightarrow> None)"

definition ufw_rule_command :: "string \<Rightarrow> UfwRuleDraft option" where
  "ufw_rule_command line =
     (case sh_words line of
        Some (cmd # w # ws) \<Rightarrow>
          if cmd \<noteq> ''ufw'' then None
          else if w = ''prepend'' then ufw_rule_args True ws else ufw_rule_args False (w # ws)
      | _ \<Rightarrow> None)"

definition same_match :: "UfwRule \<Rightarrow> UfwRule \<Rightarrow> bool" where
  "same_match r q \<longleftrightarrow> r = q\<lparr>r_action := r_action r, r_log := r_log r, r_comment := r_comment r,
     r_ip_version := r_ip_version r, r_tuples := r_tuples r\<rparr>"

definition ufw_put_rule :: "bool \<Rightarrow> UfwRule list \<Rightarrow> UfwRule \<Rightarrow> UfwRule list" where
  "ufw_put_rule first rules r =
     (if list_ex (same_match r) rules
      then (if first then rules else map (\<lambda>q. if same_match r q then q\<lparr>r_action := r_action r\<rparr> else q) rules)
      else if first then r # rules else rules @ [r])"

definition run_rule_command :: "UfwSnapshot \<Rightarrow> string \<Rightarrow> UfwSnapshot" where
  "run_rule_command s line =
     (case ufw_rule_command line of None \<Rightarrow> s
      | Some d \<Rightarrow> s\<lparr>s_rules := foldl (ufw_put_rule (d_prepend d)) (s_rules s) (as_rules d (s_apps s))\<rparr>)"

definition run_rule_commands :: "UfwSnapshot \<Rightarrow> string list \<Rightarrow> UfwSnapshot" where
  "run_rule_commands = foldl run_rule_command"

text \<open>
  The change itself, made on a machine that other commands have touched since: a rule is
  deleted by its tuples, so the rule that goes is the one the plan was made for.
\<close>

definition apply_planned :: "UfwSnapshot \<Rightarrow> UfwChange \<Rightarrow> UfwSnapshot \<Rightarrow> UfwSnapshot" where
  "apply_planned planned change s =
     (case change of
        DeleteRule tuples \<Rightarrow> s\<lparr>s_rules := (case find (\<lambda>r. r_tuples r = tuples) (s_rules planned) of
            Some rule \<Rightarrow> filter (\<lambda>r. r \<noteq> rule) (s_rules s) | None \<Rightarrow> s_rules s)\<rparr>
      | _ \<Rightarrow> apply_ufw change s)"

lemma apply_planned_now: "apply_planned s change s = apply_ufw change s"
  by (cases change) (simp_all add: apply_planned_def apply_ufw_def)

lemma run_rule_frame:
  "s_active (run_rule_command s line) = s_active s" "s_ipv6 (run_rule_command s line) = s_ipv6 s"
  "s_apps (run_rule_command s line) = s_apps s" "s_policies (run_rule_command s line) = s_policies s"
  by (simp_all add: run_rule_command_def split: option.split)

lemma run_rules_frame:
  "s_active (run_rule_commands s cs) = s_active s" "s_ipv6 (run_rule_commands s cs) = s_ipv6 s"
  "s_apps (run_rule_commands s cs) = s_apps s" "s_policies (run_rule_commands s cs) = s_policies s"
  by (induction cs arbitrary: s) (simp_all add: run_rule_commands_def run_rule_frame)

lemma allow_tcp_words:
  "sh_words (allow_tcp_command p) = Some [''ufw'', ''prepend'', ''allow'', ''in'', ''proto'', ''tcp'', ''from'', ''any'',
     ''to'', ''any'', ''port'', show_nat p]"
proof -
  have "plain_word ''allow''" "plain_word ''tcp''" by code_simp+
  moreover have "plain_word (show_nat p)"
    using show_nat_chars [of _ p] by (auto simp: plain_word_def list_all_iff sh_plain_def is_ascii_alphanumeric_def)
  ultimately have "list_all2 spells [''ufw'', ''prepend'', ''allow'', ''in'', ''proto'', ''tcp'', ''from'', ''any'',
       ''to'', ''any'', ''port'', show_nat p] [''ufw'', ''prepend'', ''allow'', ''in'', ''proto'', ''tcp'', ''from'', ''any'',
       ''to'', ''any'', ''port'', show_nat p]"
    using plain_keywords by (simp add: spells_plain)
  from sh_words_join [OF this] show ?thesis by (simp add: allow_tcp_command_def)
qed

lemma allow_tcp_draft: "ufw_rule_command (allow_tcp_command p) = Some (keep_open_draft p)"
  by (simp add: ufw_rule_command_def allow_tcp_words ufw_rule_args_def keep_open_draft_def new_draft_def
      action_from_name_def direction_from_token_def)

lemma run_allow_tcp:
  "run_rule_command s (allow_tcp_command p) = s\<lparr>s_rules := ufw_put_rule True (s_rules s) (keep_open_rule p)\<rparr>"
  by (simp add: run_rule_command_def allow_tcp_draft as_rules_keep_open) (simp add: keep_open_draft_def)

lemma same_match_keep_open [simp]: "same_match (keep_open_rule p) (keep_open_rule q) \<longleftrightarrow> p = q"
  by (auto simp: same_match_def keep_open_rule_def as_rules_def keep_open_draft_def new_draft_def draft_ports_def
      draft_family_def nonempty_def effective_interface_in_def effective_interface_out_def show_nat_not_Nil)

text \<open>Commands for ports ufw has no such rule for yet: each puts its rule before every other.\<close>

lemma run_keep_open:
  assumes "distinct ports" "\<forall>p \<in> set ports. \<forall>q \<in> set (s_rules s). \<not> same_match (keep_open_rule p) q"
  shows "s_rules (run_rule_commands s (map allow_tcp_command ports)) = map keep_open_rule (rev ports) @ s_rules s"
  using assms
proof (induction ports arbitrary: s)
  case (Cons p ports)
  let ?s = "s\<lparr>s_rules := keep_open_rule p # s_rules s\<rparr>"
  have "run_rule_command s (allow_tcp_command p) = ?s"
    using Cons.prems(2) by (simp add: run_allow_tcp ufw_put_rule_def list_ex_iff)
  moreover have "s_rules (run_rule_commands ?s (map allow_tcp_command ports)) = map keep_open_rule (rev ports) @ s_rules ?s"
    using Cons.prems by (intro Cons.IH) auto
  ultimately show ?case by (simp add: run_rule_commands_def)
qed (simp add: run_rule_commands_def)

text \<open>
  A command for a rule ufw has already changes nothing: the rule stays behind those above
  it, and goes with a change that deletes it.
\<close>

lemma keep_open_skipped:
  assumes "q \<in> set (s_rules s)" "same_match (keep_open_rule p) q"
  shows "run_rule_command s (allow_tcp_command p) = s"
  using assms by (auto simp: run_allow_tcp ufw_put_rule_def list_ex_iff)

lemma ufw_now_kept:
  assumes "s_rules s = map keep_open_rule ports @ rules" "port a \<in> set ports" "\<forall>p \<in> set ports. p \<le> 65535"
  shows "ufw_now s a = Open"
  using kept_open_among [of a ports rules] assms by (simp add: ufw_now_def reach_def unwrap_or_def)

lemma change_keeps_front:
  assumes "s_rules s = map keep_open_rule ports @ rules" "\<And>d. change = AddRule d \<Longrightarrow> \<not> d_prepend d"
    and "\<forall>p \<in> set ports. \<forall>q \<in> set (s_rules planned). \<not> same_match (keep_open_rule p) q"
  shows "\<exists>rules'. s_rules (apply_planned planned change s) = map keep_open_rule ports @ rules'"
proof (cases change)
  case (DeleteRule tuples)
  have "filter (\<lambda>r. r \<noteq> rule) (map keep_open_rule ports) = map keep_open_rule ports"
    if "find (\<lambda>r. r_tuples r = tuples) (s_rules planned) = Some rule" for rule
  proof -
    have "rule \<in> set (s_rules planned)" using that by (auto simp: find_Some_iff)
    then have "keep_open_rule p \<noteq> rule" if "p \<in> set ports" for p
      using assms(3) that same_match_keep_open [of p p] by metis
    then show ?thesis by (simp add: filter_id_conv)
  qed
  with DeleteRule show ?thesis by (simp add: apply_planned_def assms(1) split: option.split)
next
  case (AddRule d)
  then show ?thesis using assms(2) by (simp add: apply_planned_def apply_ufw_def assms(1))
qed (simp_all add: apply_planned_def apply_ufw_def assms(1))

lemma distinct_ports_once: "distinct (ports_once as)"
proof -
  have "distinct (foldl (\<lambda>ports a. if port a \<notin> set ports then ports @ [port a] else ports) acc as)"
    if "distinct acc" for acc using that by (induction as arbitrary: acc) simp_all
  then show ?thesis by (simp add: ports_once_def)
qed

text \<open>
  C3. The keep-open commands keep open what the change would shut. The script runs them
  before the change; read by the shell and run by ufw, they leave every way the plan lists
  as shut surely open once the change is made, for every change but a rule the draft puts
  first, where ufw has no rule yet for TCP to one of their ports from anywhere (it skips a
  command for a rule it has).
\<close>

theorem ufw_keep_open_keeps_open:
  assumes "ufw_plan rx s change as = Ok p" "a \<in> set (shut_by (warnings p))" "\<forall>a \<in> set as. port a \<le> 65535"
    and "\<forall>d. change = AddRule d \<longrightarrow> \<not> d_prepend d"
    and "\<forall>b \<in> set (shut_by (warnings p)). \<forall>q \<in> set (s_rules s). \<not> same_match (keep_open_rule (port b)) q"
  shows "script_commands p True = pl_keep_open p @ pl_commands p
    \<and> ufw_now (apply_planned s change (run_rule_commands s (pl_keep_open p))) a = Open"
proof -
  let ?ports = "ports_once (shut_by (warnings p))"
  have keep: "pl_keep_open p = map allow_tcp_command ?ports"
    using ufw_plan_keep_open [OF assms(1)] by (simp add: ufw_keep_open_def)
  have shut: "set (shut_by (warnings p)) \<subseteq> set as"
    using ufw_plan_effects [OF assms(1)] by (auto simp: set_shut_by warnings_def set_effects)
  have none: "\<forall>p \<in> set ?ports. \<forall>q \<in> set (s_rules s). \<not> same_match (keep_open_rule p) q"
    using assms(5) by (auto simp: set_ports_once)
  have "s_rules (run_rule_commands s (pl_keep_open p)) = map keep_open_rule (rev ?ports) @ s_rules s"
    unfolding keep by (rule run_keep_open [OF distinct_ports_once none])
  then have "\<exists>rules'. s_rules (apply_planned s change (run_rule_commands s (pl_keep_open p)))
      = map keep_open_rule (rev ?ports) @ rules'"
    by (rule change_keeps_front) (use assms(4) none in simp_all)
  then obtain rules' where
    "s_rules (apply_planned s change (run_rule_commands s (pl_keep_open p))) = map keep_open_rule (rev ?ports) @ rules'" ..
  then have "ufw_now (apply_planned s change (run_rule_commands s (pl_keep_open p))) a = Open"
    by (rule ufw_now_kept) (use assms(2,3) shut in \<open>auto simp: set_ports_once\<close>)
  then show ?thesis by (simp add: script_commands_def)
qed

theorem ufw_keep_open_keeps_open_witness:
  "\<exists>p. ufw_plan item_captures open_snapshot (Policy ChainIncoming PolicyDeny) [sample_access None] = Ok p
     \<and> script_commands p True = [allow_tcp_command 22, policy_command ChainIncoming PolicyDeny]
     \<and> ufw_now (apply_planned open_snapshot (Policy ChainIncoming PolicyDeny)
         (run_rule_commands open_snapshot [allow_tcp_command 22])) (sample_access None) = Open"
proof -
  let ?c = "Policy ChainIncoming PolicyDeny" and ?a = "sample_access None"
  let ?es = "effects [?a] (ufw_now open_snapshot) (ufw_now (apply_ufw ?c open_snapshot)) False"
  define p where "p = plan [policy_command ChainIncoming PolicyDeny] ?es [] True True ufw_keep_open"
  have p: "ufw_plan item_captures open_snapshot ?c [?a] = Ok p"
    by (simp add: ufw_plan_def apply_ufw_def p_def) (simp add: open_snapshot_def)
  have shut: "shut_by (warnings p) = [?a]"
    by (simp add: p_def warnings_def effects_def open_snapshot_now shut_by_def admits_def worse_than_def less_FirewallReach_def)
  have "ports_once [?a] = [22]" by (simp add: ports_once_def sample_access_def)
  then have "pl_keep_open p = [allow_tcp_command 22]"
    using shut by (simp add: ufw_plan_keep_open [OF p] ufw_keep_open_def)
  moreover have "pl_commands p = [policy_command ChainIncoming PolicyDeny]" by (simp add: p_def)
  moreover have "s_rules open_snapshot = []" by (simp add: open_snapshot_def)
  ultimately show ?thesis
    using p ufw_keep_open_keeps_open [OF p, of ?a] by (simp add: shut) (simp add: sample_access_def)
qed

text \<open>
  A rule the draft puts first defeats the keep-open command: the command runs
  before the change, so the new rule lands ahead of the one that was to keep the
  way open, and a way the new rule surely refuses is blocked all the same.
\<close>

theorem prepended_rule_defeats_keep_open:
  assumes "d_prepend d" "as_rules d (s_apps s) = r # rs" "judge r a = Some \<lparr>verdict = Blocked, sure = True\<rparr>"
    and "s_active s \<noteq> Some False" "s_ipv6 s"
  shows "ufw_now (apply_ufw (AddRule d) (run_rule_commands s cs)) a = Blocked"
  using assms
  by (simp add: ufw_now_def reach_def apply_ufw_def run_rules_frame or_else_def unwrap_or_def
      List.map_filter_simps decide_sure_first)

text \<open>
  And so does deleting the one rule that lets the port in: ufw has it, skips the keep-open
  command, and the change then deletes it.
\<close>

definition ssh_rule :: UfwRule where
  "ssh_rule = (keep_open_rule 22)\<lparr>r_tuples := [''allow tcp 22'']\<rparr>"

definition ssh_only :: UfwSnapshot where
  "ssh_only = sample_snapshot ssh_rule"

theorem deleting_the_rule_defeats_keep_open:
  "\<exists>p. ufw_plan item_captures ssh_only (DeleteRule [''allow tcp 22'']) [sample_access None] = Ok p
     \<and> pl_keep_open p = [allow_tcp_command 22]
     \<and> ufw_now (apply_planned ssh_only (DeleteRule [''allow tcp 22'']) (run_rule_commands ssh_only (pl_keep_open p)))
         (sample_access None) = Blocked"
proof -
  let ?c = "DeleteRule [''allow tcp 22'']" and ?a = "sample_access None"
  have rules: "s_rules ssh_only = [ssh_rule]" by (simp add: ssh_only_def sample_snapshot_def)
  have judged: "judge ssh_rule ?a = Some \<lparr>verdict = Open, sure = True\<rparr>"
  proof -
    have "judge ssh_rule ?a = judge (keep_open_rule 22) ?a" by (simp add: ssh_rule_def judge_def cong: option.case_cong)
    then show ?thesis by (simp add: judge_keep_open_rule) (simp add: sample_access_def)
  qed
  have now: "ufw_now ssh_only ?a = Open"
    by (simp add: ufw_now_def reach_def rules List.map_filter_simps judged or_else_def unwrap_or_def decide_sure_first)
  have after: "ufw_now (apply_ufw ?c ssh_only) ?a = Blocked"
    by (simp add: apply_ufw_def rules ssh_rule_def ufw_now_def reach_def or_else_def unwrap_or_def
        List.map_filter_simps decide_def)
      (simp add: ssh_only_def sample_snapshot_def policy_reach_def)
  obtain p where p: "ufw_plan item_captures ssh_only ?c [?a] = Ok p"
    by (simp add: ufw_plan_def rules ssh_rule_def)
  have "pl_effects p = effects [?a] (ufw_now ssh_only) (ufw_now (apply_ufw ?c ssh_only)) False"
  proof -
    have "worse_than (ufw_now (apply_ufw ?c ssh_only) ?a) (ufw_now (before_change ?c ssh_only) ?a)"
      by (simp add: before_change_def now after worse_than_def less_FirewallReach_def)
    with ufw_plan_effects [OF p]
    have "pl_effects p = effects [?a] (ufw_now (before_change ?c ssh_only)) (ufw_now (apply_ufw ?c ssh_only)) False" by blast
    then show ?thesis by (simp add: before_change_def)
  qed
  then have "shut_by (warnings p) = [?a]"
    by (simp add: warnings_def effects_def now after shut_by_def admits_def worse_than_def less_FirewallReach_def)
  then have keep: "pl_keep_open p = [allow_tcp_command 22]"
    by (simp add: ufw_plan_keep_open [OF p] ufw_keep_open_def ports_once_def sample_access_def)
  have "same_match (keep_open_rule 22) ssh_rule" by (simp add: same_match_def ssh_rule_def)
  then have "run_rule_commands ssh_only (pl_keep_open p) = ssh_only"
    using keep_open_skipped [of ssh_rule ssh_only 22] by (simp add: keep run_rule_commands_def rules)
  with p keep after show ?thesis by (auto simp: apply_planned_now)
qed

end
