(* ===== verification/Firewalld_Zones.thy ===== *)
theory Firewalld_Zones
  imports Firewalld_Read Ufw_Rules
begin

text \<open>
  Which zone handles a connection and what the zone does with it: the candidates
  the app considers are complete, its verdict holds in whichever zone the
  connection lands in, and the rule that keeps a way open is asked first there.
\<close>

section \<open>The tokens of a rich rule\<close>

text \<open>
  What the \<open>regex\<close> crate documents of \<open>([A-Za-z0-9_-]+)="([^"]*)"|(\S+)\<close>, matched
  over and over from the left, the first alternative preferred.
\<close>

definition is_key_char :: "char \<Rightarrow> bool" where
  "is_key_char c \<longleftrightarrow> is_ascii_alphanumeric c \<or> c = CHR ''_'' \<or> c = CHR ''-''"

fun attr_value :: "string \<Rightarrow> (string \<times> string) option" where
  "attr_value (e # q # t) =
     (if e = CHR ''='' \<and> q = CHR 0x22 \<and> CHR 0x22 \<in> set t
      then Some (takeWhile (\<lambda>c. c \<noteq> CHR 0x22) t, tl (dropWhile (\<lambda>c. c \<noteq> CHR 0x22) t)) else None)"
| "attr_value _ = None"

lemma attr_value_shorter: "attr_value s = Some (v, rest) \<Longrightarrow> length rest < length s"
proof (induction s rule: attr_value.induct)
  case (1 e q t)
  then have "rest = tl (dropWhile (\<lambda>c. c \<noteq> CHR 0x22) t)" by (auto split: if_splits)
  then show ?case using length_dropWhile_le [of "\<lambda>c. c \<noteq> CHR 0x22" t] by simp
qed simp_all

lemma attr_rest_shorter: "attr_value (dropWhile is_key_char s) = Some (v, rest) \<Longrightarrow> length rest \<le> length s"
  using attr_value_shorter [of "dropWhile is_key_char s"] length_dropWhile_le [of is_key_char s] by fastforce

function token_scan :: "string \<Rightarrow> token list" where
  "token_scan [] = []"
| "token_scan (c # s) =
     (if is_whitespace c then token_scan s
      else case (if is_key_char c then attr_value (dropWhile is_key_char s) else None) of
        Some (v, rest) \<Rightarrow> Attr (c # takeWhile is_key_char s) v # token_scan rest
      | None \<Rightarrow> Word (c # takeWhile (\<lambda>d. \<not> is_whitespace d) s) # token_scan (dropWhile (\<lambda>d. \<not> is_whitespace d) s))"
  by pat_completeness auto
termination
  by (relation "measure length")
    (auto simp: less_Suc_eq_le length_dropWhile_le split: if_splits dest: attr_rest_shorter)

definition is_token_regex :: "FirewalldRegex \<Rightarrow> bool" where
  "is_token_regex rx \<longleftrightarrow> (\<forall>s. rx_token rx s = token_scan s)"

lemma token_scan_space [simp]: "token_scan (CHR '' '' # s) = token_scan s"
  by (simp add: is_whitespace_def)

lemma key_char_facts:
  "is_key_char c \<Longrightarrow> \<not> is_whitespace c" "\<not> is_key_char (CHR ''='')" "\<not> is_key_char (CHR '' '')"
  by (auto simp: is_key_char_def is_whitespace_def is_ascii_alphanumeric_def is_ascii_digit_def is_ascii_lower_def
      is_ascii_upper_def)

lemma token_scan_attr:
  assumes "list_all is_key_char k" "k \<noteq> []" "CHR 0x22 \<notin> set v"
  shows "token_scan (k @ CHR ''='' # CHR 0x22 # v @ CHR 0x22 # rest) = Attr k v # token_scan rest"
proof -
  obtain c k' where k: "k = c # k'" using assms(2) by (cases k) auto
  have "takeWhile is_key_char (k' @ CHR ''='' # t) = k'" "dropWhile is_key_char (k' @ CHR ''='' # t) = CHR ''='' # t" for t
    using assms(1) k key_char_facts(2) by (induction k' arbitrary: k) auto
  moreover have "takeWhile (\<lambda>c. c \<noteq> CHR 0x22) (v @ CHR 0x22 # rest) = v"
      "dropWhile (\<lambda>c. c \<noteq> CHR 0x22) (v @ CHR 0x22 # rest) = CHR 0x22 # rest"
    using assms(3) by (induction v) auto
  ultimately show ?thesis using assms(1) k key_char_facts(1) by simp
qed

lemma token_scan_word:
  assumes "list_all is_key_char w" "w \<noteq> []" "rest = [] \<or> hd rest = CHR '' ''"
  shows "token_scan (w @ rest) = Word w # token_scan rest"
proof -
  obtain c w' where w: "w = c # w'" using assms(2) by (cases w) auto
  have "dropWhile is_key_char (w' @ rest) = rest"
    using assms(1,3) w key_char_facts(3) by (cases rest) (auto simp: dropWhile_append list_all_iff)
  moreover have "takeWhile (\<lambda>d. \<not> is_whitespace d) (w' @ rest) = w'" "dropWhile (\<lambda>d. \<not> is_whitespace d) (w' @ rest) = rest"
    using assms(1,3) w key_char_facts(1) by (cases rest; auto simp: takeWhile_append dropWhile_append list_all_iff is_whitespace_def)+
  moreover have "attr_value rest = None"
    using assms(3) by (cases rest rule: attr_value.cases) auto
  ultimately show ?thesis using assms(1) w key_char_facts(1) by simp
qed

section \<open>The keep-open rule\<close>

definition fwd_kept :: "nat \<Rightarrow> FirewalldRichRule" where
  "fwd_kept p = (empty_rich_rule (fwd_keep_open_rule p))
     \<lparr>rr_priority := -32768, rr_element := Some ''port'', rr_port := Some (show_nat p),
      rr_protocol := Some ''tcp'', rr_action := Some ''accept''\<rparr>"

lemma keep_open_tokens:
  "token_scan (fwd_keep_open_rule p) =
     [Word ''rule'', Attr ''priority'' ''-32768'', Word ''port'', Attr ''port'' (show_nat p),
      Attr ''protocol'' ''tcp'', Word ''accept'']"
proof -
  have keys: "list_all is_key_char ''rule''" "list_all is_key_char ''priority''" "list_all is_key_char ''port''"
      "list_all is_key_char ''protocol''" "list_all is_key_char ''accept''"
    by code_simp+
  have "CHR 0x22 \<notin> set (show_nat p)" using show_nat_chars [of "CHR 0x22" p] by (auto simp: is_ascii_digit_def)
  then show ?thesis
    using token_scan_word [OF keys(1), of "'' '' @ t" for t] token_scan_attr [OF keys(2), of "''-32768''"]
      token_scan_word [OF keys(3), of "'' '' @ t" for t] token_scan_attr [OF keys(3), of "show_nat p"]
      token_scan_attr [OF keys(4), of "''tcp''"] token_scan_word [OF keys(5), of "[]"]
    by (simp add: fwd_keep_open_rule_def quoted_def del: token_scan.simps(2))
qed

lemma parse_keep_open_rule:
  assumes "is_token_regex rx"
  shows "parse_rich_rule rx (fwd_keep_open_rule p) = fwd_kept p"
proof -
  have "parse_i32 ''-32768'' = Some (-32768)"
    by (simp add: parse_sint_def parse_digits_def all_digits_def is_ascii_digit_def digits_val_def digit_val_def)
  then show ?thesis
    using assms
    by (simp add: parse_rich_rule_def is_token_regex_def keep_open_tokens rich_token_def rich_word_def rich_attr_def
        ELEMENTS_def ACTIONS_def fwd_kept_def empty_rich_rule_def unwrap_or_def)
qed

lemma rich_judge_kept:
  assumes "p \<le> 65535"
  shows "rich_judge (fwd_kept p) a services = (if port a = p then Some \<lparr>verdict = Open, sure = True\<rparr> else None)"
  by (simp add: rich_judge_def rich_verdict_def rich_family_def rich_element_def fwd_kept_def empty_rich_rule_def
      port_spec_covers_one [OF assms] split: option.split)

interpretation fwd_table: keep_open_table "\<lambda>r a. rich_judge r a services" fwd_kept for services
  by unfold_locales (simp add: rich_judge_kept)

lemma sort_key_first:
  "(\<And>x. x \<in> set xs \<Longrightarrow> f k < f x) \<Longrightarrow> sort_key f (xs @ [k]) = k # sort_key f xs"
  by (induction xs) (auto simp: not_le [symmetric])

lemma decide_append_first: "decide ((\<lparr>verdict = v, sure = True\<rparr> # cs) @ ds) fb = v"
  by (simp add: decide_sure_first)

section \<open>Zones a connection may land in\<close>

text \<open>
  Where firewalld puts a connection: the zones with a source that holds its
  address; if there is none, the zones that name its interface; if there is none,
  the default zone. The predicate decides the sources that are not written as an
  address or a network.
\<close>

definition source_holds :: "(string \<Rightarrow> bool) \<Rightarrow> IpAddr \<Rightarrow> FirewalldZone \<Rightarrow> bool" where
  "source_holds named src z \<longleftrightarrow>
     list_ex (\<lambda>n. case network_contains n src of Some b \<Rightarrow> b | None \<Rightarrow> named n) (z_sources z)"

definition landing_zones ::
  "(string \<Rightarrow> bool) \<Rightarrow> IpAddr \<Rightarrow> string \<Rightarrow> FirewalldZone list \<Rightarrow> string option \<Rightarrow> FirewalldZone set" where
  "landing_zones named src ifc zs dz =
     (if list_ex (source_holds named src) zs then {z \<in> set zs. source_holds named src z}
      else if list_ex (\<lambda>z. ifc \<in> set (z_interfaces z)) zs then {z \<in> set zs. ifc \<in> set (z_interfaces z)}
      else set_option (find (\<lambda>z. Some (z_name z) = dz) zs))"

definition may_be :: "FirewallAccess \<Rightarrow> IpAddr \<Rightarrow> string \<Rightarrow> bool" where
  "may_be a src ifc \<longleftrightarrow> (case client_ip a of None \<Rightarrow> True | Some x \<Rightarrow> x = src)
     \<and> (case iface a of None \<Rightarrow> True | Some n \<Rightarrow> n = ifc)"

lemma set_fold_add [simp]: "set (fold add_candidate is cs) = set is \<union> set cs"
  by (induction "is" arbitrary: cs) (auto simp: add_candidate_def)

lemma nth_enumerate_filter:
  "(!) zs ` fst ` {x \<in> set (enumerate 0 zs). P (snd x)} = {z \<in> set zs. P z}"
proof -
  have "{x \<in> set (enumerate 0 zs). P (snd x)} = (\<lambda>i. (i, zs ! i)) ` {i. i < length zs \<and> P (zs ! i)}"
    by (auto simp: in_set_enumerate_eq image_iff)
  then show ?thesis by (force simp: image_image in_set_conv_nth)
qed

lemma nth_source_hits:
  "(!) zs ` set (source_hits zs cl) = {z \<in> set zs. list_ex (\<lambda>n. holds n cl = Some True) (z_sources z)}"
proof -
  have "set (source_hits zs cl) = fst ` {x \<in> set (enumerate 0 zs). list_ex (\<lambda>n. holds n cl = Some True) (z_sources (snd x))}"
    by (force simp: source_hits_def list_ex_iff)
  then show ?thesis using nth_enumerate_filter [of zs] by simp
qed

lemma position_find:
  "map_option ((!) zs) (position P zs) = find P zs"
proof -
  have "map_option (\<lambda>x. (zs @ ys) ! fst x) (find (\<lambda>(i, x). P x) (enumerate (length zs) ys)) = find P ys" for zs ys
  proof (induction ys arbitrary: zs)
    case (Cons y ys)
    from Cons [of "zs @ [y]"] show ?case by (simp add: nth_append)
  qed simp
  from this [of "[]" zs] show ?thesis by (simp add: position_def option.map_comp comp_def)
qed

definition default_of :: "FirewalldSnapshot \<Rightarrow> string option \<Rightarrow> string option" where
  "default_of s dz = (case dz of None \<Rightarrow> fs_default_zone s | Some z \<Rightarrow> Some z)"

definition on_interface :: "FirewallAccess \<Rightarrow> FirewalldZone \<Rightarrow> bool" where
  "on_interface a z \<longleftrightarrow> (case iface a of None \<Rightarrow> z_interfaces z \<noteq> [] | Some name \<Rightarrow> name \<in> set (z_interfaces z))"

text \<open>The candidates as a set: by source alone where that is certain, else everything it might be.\<close>

lemma set_zones_for:
  fixes s a zs dz
  defines "zl \<equiv> unwrap_or (zones s) zs"
  defines "src \<equiv> {z \<in> set zl. list_ex (\<lambda>n. holds n (client_ip a) = Some True) (z_sources z)}"
  defines "ifs \<equiv> {z \<in> set zl. on_interface a z}"
  shows "set (zones_for s a zs dz) =
    (if src \<noteq> {} \<and> \<not> source_unknown zl (client_ip a) then src
     else src \<union> (if source_unknown zl (client_ip a) then {z \<in> set zl. z_sources z \<noteq> []} else {}) \<union> ifs
       \<union> (if iface a = None \<or> ifs = {} then set_option (find (\<lambda>z. Some (z_name z) = default_of s dz) zl) else {}))"
proof -
  let ?hits = "source_hits zl (client_ip a)"
  let ?ifs = "map fst (filter (\<lambda>(_, z). case iface a of None \<Rightarrow> z_interfaces z \<noteq> []
      | Some name \<Rightarrow> name \<in> set (z_interfaces z)) (enumerate 0 zl))"
  let ?srcs = "map fst (filter (\<lambda>(_, z). z_sources z \<noteq> []) (enumerate 0 zl))"
  let ?pos = "position (\<lambda>z. Some (z_name z) = default_of s dz) zl"
  have hits: "(!) zl ` set ?hits = src" by (simp add: nth_source_hits src_def)
  have ifs: "(!) zl ` set ?ifs = ifs"
    using nth_enumerate_filter [of zl "on_interface a"] by (simp add: ifs_def on_interface_def case_prod_beta')
  have srcs: "(!) zl ` set ?srcs = {z \<in> set zl. z_sources z \<noteq> []}"
    using nth_enumerate_filter [of zl "\<lambda>z. z_sources z \<noteq> []"] by (simp add: case_prod_beta')
  have dflt: "(!) zl ` set_option ?pos = set_option (find (\<lambda>z. Some (z_name z) = default_of s dz) zl)"
    using position_find [of zl "\<lambda>z. Some (z_name z) = default_of s dz"] by (metis option.set_map)
  have idx: "set (if H \<noteq> [] \<and> \<not> u then fold add_candidate H []
      else let cs = fold add_candidate H []; cs = (if u then fold add_candidate S cs else cs); cs = fold add_candidate I cs
        in if c then (case P of Some i \<Rightarrow> add_candidate i cs | None \<Rightarrow> cs) else cs)
    = (if H \<noteq> [] \<and> \<not> u then set H
       else set H \<union> (if u then set S else {}) \<union> set I \<union> (if c then set_option P else {}))" for H S I P u c
    by (cases P) (auto simp: add_candidate_def Let_def)
  have empties: "?hits = [] \<longleftrightarrow> src = {}" "?ifs = [] \<longleftrightarrow> ifs = {}"
    by (simp_all only: hits [symmetric] ifs [symmetric] image_is_empty set_empty)
  have "zones_for s a zs dz = map ((!) zl) (if ?hits \<noteq> [] \<and> \<not> source_unknown zl (client_ip a) then fold add_candidate ?hits []
      else let cs = fold add_candidate ?hits [];
             cs = (if source_unknown zl (client_ip a) then fold add_candidate ?srcs cs else cs);
             cs = fold add_candidate ?ifs cs
        in if iface a = None \<or> ?ifs = [] then (case ?pos of Some i \<Rightarrow> add_candidate i cs | None \<Rightarrow> cs) else cs)"
    by (simp only: zones_for_def Let_def zl_def default_of_def)
  then have "set (zones_for s a zs dz) = (!) zl ` (if ?hits \<noteq> [] \<and> \<not> source_unknown zl (client_ip a) then set ?hits
       else set ?hits \<union> (if source_unknown zl (client_ip a) then set ?srcs else {}) \<union> set ?ifs
         \<union> (if iface a = None \<or> ?ifs = [] then set_option ?pos else {}))"
    by (simp only: list.set_map idx)
  also have "\<dots> = (if src \<noteq> {} \<and> \<not> source_unknown zl (client_ip a) then src
     else src \<union> (if source_unknown zl (client_ip a) then {z \<in> set zl. z_sources z \<noteq> []} else {}) \<union> ifs
       \<union> (if iface a = None \<or> ifs = {} then set_option (find (\<lambda>z. Some (z_name z) = default_of s dz) zl) else {}))"
    by (simp only: empties if_distrib [of "image ((!) zl)"] image_Un image_empty hits srcs ifs dflt)
  finally show ?thesis .
qed

lemma landing_zones_candidates:
  assumes "may_be a src ifc"
  shows "landing_zones named src ifc (unwrap_or (zones s) zs) (default_of s dz) \<subseteq> set (zones_for s a zs dz)"
proof -
  let ?zl = "unwrap_or (zones s) zs"
  let ?u = "source_unknown ?zl (client_ip a)"
  have known: "holds n (client_ip a) = network_contains n src \<and> network_contains n src \<noteq> None"
    if "\<not> ?u" "z \<in> set ?zl" "n \<in> set (z_sources z)" for z n
    using that assms by (force simp: source_unknown_def list_ex_iff holds_def may_be_def split: option.splits)
  have src: "source_holds named src z \<longleftrightarrow> list_ex (\<lambda>n. holds n (client_ip a) = Some True) (z_sources z)"
    if "\<not> ?u" "z \<in> set ?zl" for z
    unfolding source_holds_def list_ex_iff
  proof (intro bex_cong refl)
    fix n assume "n \<in> set (z_sources z)"
    from known [OF that this] obtain b where "network_contains n src = Some b" "holds n (client_ip a) = Some b" by auto
    then show "(case network_contains n src of None \<Rightarrow> named n | Some b \<Rightarrow> b) = (holds n (client_ip a) = Some True)" by simp
  qed
  have sources: "source_holds named src z \<Longrightarrow> z_sources z \<noteq> []" for z by (auto simp: source_holds_def)
  have ifs: "ifc \<in> set (z_interfaces z) \<Longrightarrow> on_interface a z" for z
    using assms by (auto simp: on_interface_def may_be_def split: option.splits)
  have ifs': "iface a \<noteq> None \<Longrightarrow> on_interface a z \<Longrightarrow> ifc \<in> set (z_interfaces z)" for z
    using assms by (auto simp: on_interface_def may_be_def split: option.splits)
  show ?thesis
    unfolding set_zones_for landing_zones_def list_ex_iff [of "source_holds named src"]
      list_ex_iff [of "\<lambda>z. ifc \<in> set (z_interfaces z)"]
    using src sources ifs ifs' by (cases ?u) (auto 0 3 split: if_splits)
qed

lemma combine_reaches_agree:
  assumes "combine_reaches rs \<noteq> Unknown" "r \<in> set rs"
  shows "admits r = admits (combine_reaches rs)"
proof (cases "length (remdups rs) = 1")
  case True
  then obtain x where x: "remdups rs = [x]" by (auto simp: length_Suc_conv)
  then have "set rs = {x}" by (metis set_remdups list.set(1,2))
  with x assms(2) show ?thesis by (simp add: combine_reaches_def)
next
  case False
  with assms show ?thesis
    by (auto simp: combine_reaches_def Let_def list_all_iff admits_def split: if_splits)
qed

section \<open>Properties\<close>

text \<open>
  C26. A verdict of firewalld's zones that is not unknown holds wherever the
  connection lands: whatever its address and interface where those are not known,
  the zone firewalld handles it in is among the candidates, and lets it in or not
  as the verdict says.
\<close>

theorem fwd_reach_holds_where_it_lands:
  assumes "fwd_reach s a running panic zs dz \<noteq> Unknown" "unwrap_or (fs_running s) running" "\<not> unwrap_or (fs_panic s) panic"
    and "may_be a src ifc" "z \<in> landing_zones named src ifc (unwrap_or (zones s) zs) (default_of s dz)"
  shows "z \<in> set (zones_for s a zs dz)
    \<and> admits (zone_reach z a (fs_services s)) = admits (fwd_reach s a running panic zs dz)"
proof -
  let ?rs = "map (\<lambda>z. zone_reach z a (fs_services s)) (zones_for s a zs dz)"
  have z: "z \<in> set (zones_for s a zs dz)" using landing_zones_candidates [OF assms(4)] assms(5) by blast
  then have r: "fwd_reach s a running panic zs dz = combine_reaches ?rs" "combine_reaches ?rs \<noteq> Unknown"
    using assms(1-3) by (auto simp: fwd_reach_def Let_def split: if_splits)
  with combine_reaches_agree [OF r(2), of "zone_reach z a (fs_services s)"] z show ?thesis by simp
qed

definition sample_zone :: "FirewalldPort list \<Rightarrow> FirewalldZone" where
  "sample_zone source_ports = \<lparr>z_name = ''public'', z_target = DefaultTarget, z_active = True, z_interfaces = [],
     z_sources = [], z_services = [], z_ports = [], z_protocols = [''tcp''], z_source_ports = source_ports,
     z_forward_ports = [], z_rich_rules = [], z_masquerade = False\<rparr>"

definition sample_fwd :: "FirewalldZone \<Rightarrow> FirewalldZone \<Rightarrow> FirewalldSnapshot" where
  "sample_fwd runtime permanent = \<lparr>fs_running = True, fs_version = None, fs_default_zone = Some ''public'', fs_panic = False,
     fs_runtime = Some [runtime], fs_permanent = [permanent], fs_services = [], fs_service_names = [], fs_policies = []\<rparr>"

theorem fwd_reach_holds_where_it_lands_witness:
  "fwd_reach (sample_fwd (sample_zone []) (sample_zone [])) (sample_access None) None None None None = Open
   \<and> admits (zone_reach (sample_zone []) (sample_access None) [])
     = admits (fwd_reach (sample_fwd (sample_zone []) (sample_zone [])) (sample_access None) None None None None)"
proof -
  let ?s = "sample_fwd (sample_zone []) (sample_zone [])" and ?a = "sample_access None"
  have open_: "fwd_reach ?s ?a None None None None = Open" by code_simp
  have "client_ip ?a = None" by code_simp
  then have "may_be ?a (V4 [10, 0, 0, 1]) ''eth0''" by (simp add: may_be_def sample_access_def)
  moreover have "sample_zone [] \<in> landing_zones (\<lambda>_. False) (V4 [10, 0, 0, 1]) ''eth0'' (unwrap_or (zones ?s) None) (default_of ?s None)"
    by (simp add: landing_zones_def source_holds_def sample_zone_def sample_fwd_def zones_def unwrap_or_def default_of_def)
  ultimately show ?thesis
    using fwd_reach_holds_where_it_lands [of ?s ?a None None None None] open_
    by (simp add: sample_fwd_def unwrap_or_def)
qed

text \<open>
  The keep-open rule is asked before everything else in its zone: with it
  added, the zone lets the connection in for certain, whatever its target and its
  other rules say, provided no rich rule shares the lowest priority and no
  forwarded port takes the connection away before the zone is asked.
\<close>

theorem fwd_keep_open_rule_opens_zone:
  assumes "is_token_regex rx" "port a \<le> 65535"
    and "\<forall>r \<in> set (z_rich_rules z). -32768 < rr_priority r" "\<forall>spec \<in> set (z_forward_ports z). \<not> forwards spec (port a)"
  shows "zone_reach (z\<lparr>z_rich_rules := z_rich_rules z @ [parse_rich_rule rx (fwd_keep_open_rule (port a))]\<rparr>) a services = Open"
proof -
  let ?z = "z\<lparr>z_rich_rules := z_rich_rules z @ [fwd_kept (port a)]\<rparr>"
  have prio: "rr_priority (fwd_kept (port a)) = -32768" by (simp add: fwd_kept_def)
  have "sort_key rr_priority (z_rich_rules z @ [fwd_kept (port a)]) = fwd_kept (port a) # sort_key rr_priority (z_rich_rules z)"
    using assms(3) by (intro sort_key_first) (simp add: prio)
  then have "zone_judged ?z a services (\<lambda>p. p < 0) = \<lparr>verdict = Open, sure = True\<rparr> # zone_judged z a services (\<lambda>p. p < 0)"
    by (simp add: zone_judged_def prio List.map_filter_simps rich_judge_kept [OF assms(2)])
  moreover have "filter (\<lambda>spec. forwards spec (port a)) (z_forward_ports z) = []" using assms(4) by (simp add: filter_empty_conv)
  ultimately show ?thesis
    by (simp add: zone_reach_def zone_checks_def Let_def parse_keep_open_rule [OF assms(1)] decide_sure_first)
qed

text \<open>
  A rule that refuses at the same lowest priority, listed before the keep-open
  rule, is asked before it.
\<close>

lemma same_priority_rule_comes_first:
  assumes "is_token_regex rx" "z_rich_rules z = [r]" "rr_priority r = -32768" "z_forward_ports z = []"
    and "rich_judge r a services = Some \<lparr>verdict = Blocked, sure = True\<rparr>"
  shows "zone_reach (z\<lparr>z_rich_rules := z_rich_rules z @ [parse_rich_rule rx (fwd_keep_open_rule (port a))]\<rparr>) a services = Blocked"
proof -
  have "rr_priority (fwd_kept (port a)) = -32768" by (simp add: fwd_kept_def)
  then show ?thesis
    using assms by (simp add: zone_reach_def zone_checks_def zone_judged_def Let_def parse_keep_open_rule
        List.map_filter_simps decide_sure_first)
qed

definition scan_regex :: FirewalldRegex where
  "scan_regex = \<lparr>rx_token = token_scan, rx_flags = (\<lambda>_. None), rx_attrs = (\<lambda>_. []), rx_include = (\<lambda>_. None),
     rx_port = (\<lambda>_. None), rx_mac = (\<lambda>_. False), rx_ipset = (\<lambda>_. False), rx_forward = (\<lambda>_. False)\<rparr>"

theorem fwd_keep_open_rule_opens_zone_witness:
  "zone_reach ((sample_zone [])\<lparr>z_protocols := []\<rparr>) (sample_access None) [] = Blocked
   \<and> zone_reach ((sample_zone [])\<lparr>z_protocols := [], z_rich_rules := [parse_rich_rule scan_regex (fwd_keep_open_rule 22)]\<rparr>)
       (sample_access None) [] = Open"
proof -
  have "is_token_regex scan_regex" by (simp add: is_token_regex_def scan_regex_def)
  then have "zone_reach ((sample_zone [])\<lparr>z_protocols := [], z_rich_rules := [parse_rich_rule scan_regex (fwd_keep_open_rule 22)]\<rparr>)
       (sample_access None) [] = Open"
    using fwd_keep_open_rule_opens_zone [of scan_regex "sample_access None" "(sample_zone [])\<lparr>z_protocols := []\<rparr>" "[]"]
    by (simp add: sample_zone_def sample_access_def)
  moreover have "zone_reach ((sample_zone [])\<lparr>z_protocols := []\<rparr>) (sample_access None) [] = Blocked" by code_simp
  ultimately show ?thesis by blast
qed

section \<open>Drift\<close>

lemma digest_source_ports [simp]: "digest (z\<lparr>z_source_ports := ps\<rparr>) = digest z"
  by (simp add: digest_def)

lemma saved_digests_get:
  "distinct (map z_name zs) \<Longrightarrow> z \<in> set zs \<Longrightarrow> saved_digests zs (z_name z) = Some (digest z)"
proof (induction zs rule: rev_induct)
  case (snoc x zs)
  show ?case
  proof (cases "z \<in> set zs")
    case True
    then have "z_name z \<in> z_name ` set zs" by (rule imageI)
    then have "z_name z \<noteq> z_name x" using snoc.prems(1) by auto
    with True snoc show ?thesis by (simp add: saved_digests_def)
  qed (use snoc.prems(2) in \<open>simp add: saved_digests_def\<close>)
qed simp

text \<open>
  A difference in source ports is not drift: a runtime that differs from the
  saved zones in nothing but its source ports counts as the same, though source
  ports decide what a zone lets in. A reload then changes the firewall unannounced.
\<close>

theorem source_ports_are_not_drift:
  assumes "fs_runtime s = Some rt" "distinct (map z_name rt)"
    and "fs_permanent s = map (\<lambda>z. z\<lparr>z_source_ports := f z\<rparr>) rt"
  shows "\<not> drifted s \<and> \<not> shut_by_reload s a"
proof -
  have names: "map z_name (fs_permanent s) = map z_name rt" using assms(3) by (simp add: comp_def)
  have "saved_digests (fs_permanent s) (z_name z) = Some (digest z)" if "z \<in> set rt" for z
    using saved_digests_get [of "fs_permanent s" "z\<lparr>z_source_ports := f z\<rparr>"] that assms(2,3) names by (simp add: comp_def)
  moreover have "z_name z \<in> set (map z_name rt)" if "z \<in> set (fs_permanent s)" for z
    using that names by (metis image_eqI set_map)
  ultimately have "\<not> drifted s" using assms(1) by (auto simp: drifted_def list_ex_iff)
  then show ?thesis by (simp add: shut_by_reload_def)
qed

theorem source_ports_are_not_drift_witness:
  "let open_zone = (sample_zone [\<lparr>fp_port = ''4000'', fp_protocol = ''tcp''\<rparr>])\<lparr>z_protocols := []\<rparr>;
       closed_zone = (sample_zone [])\<lparr>z_protocols := []\<rparr>
   in \<not> drifted (sample_fwd open_zone closed_zone)
      \<and> zone_reach open_zone (sample_access None) [] = Unknown \<and> zone_reach closed_zone (sample_access None) [] = Blocked"
proof -
  let ?o = "(sample_zone [\<lparr>fp_port = ''4000'', fp_protocol = ''tcp''\<rparr>])\<lparr>z_protocols := []\<rparr>"
  let ?c = "(sample_zone [])\<lparr>z_protocols := []\<rparr>"
  have "\<not> drifted (sample_fwd ?o ?c)"
    using source_ports_are_not_drift [of "sample_fwd ?o ?c" "[?o]" "\<lambda>_. []"] by (simp add: sample_fwd_def sample_zone_def)
  moreover have "zone_reach ?o (sample_access None) [] = Unknown" "zone_reach ?c (sample_access None) [] = Blocked" by code_simp+
  ultimately show ?thesis by (simp add: Let_def)
qed

end
