(* ===== verification/Firewalld_Services.thy ===== *)
theory Firewalld_Services
  imports Firewalld_Read
begin

text \<open>
  The ports of a service with what it includes: the depth-first walk of
  \<open>parse_services\<close>, which cuts cycles by the services it has seen, collects exactly
  the ports of the services reachable by includes, and its depth is bounded by the
  number of services.
\<close>

section \<open>The include graph\<close>

definition include_edges :: "(string, Own) hashmap \<Rightarrow> (string \<times> string) set" where
  "include_edges own = {(n, m). \<exists>e. hm_get own n = Some e \<and> m \<in> set (own_includes e)}"

definition known :: "(string, Own) hashmap \<Rightarrow> string set" where
  "known own = {n. hm_get own n \<noteq> None}"

definition ports_of :: "(string, Own) hashmap \<Rightarrow> string \<Rightarrow> FirewalldPort set" where
  "ports_of own n = (case hm_get own n of None \<Rightarrow> {} | Some e \<Rightarrow> set (own_ports e))"

lemma known_finite: "finite (known own) \<and> card (known own) \<le> hm_len own"
proof -
  have "known own = fst ` set own" by (auto simp: known_def hm_get_def map_of_eq_None_iff simp del: not_None_eq)
  then show ?thesis using card_length [of "map fst own"] by (simp add: hm_len_def)
qed

text \<open>What is not seen yet; the recursion goes no deeper than that.\<close>

definition unseen :: "(string, Own) hashmap \<Rightarrow> string list \<Rightarrow> nat" where
  "unseen own seen = card (known own - set seen)"

lemma unseen_mono: "set seen \<subseteq> set seen' \<Longrightarrow> unseen own seen' \<le> unseen own seen"
  using known_finite [of own] by (auto simp: unseen_def intro!: card_mono)

lemma unseen_Cons: "name \<in> known own \<Longrightarrow> name \<notin> set seen \<Longrightarrow> unseen own (name # seen) < unseen own seen"
  unfolding unseen_def using known_finite [of own] by (intro psubset_card_mono) auto

section \<open>The walk\<close>

lemma resolve_grows:
  "set seen \<subseteq> set (snd (resolve n own name seen))"
  "set seen \<subseteq> set (snd (resolve_includes n own names seen))"
proof (induction n own name seen and n own names seen rule: resolve_resolve_includes.induct)
  case (2 n own name seen)
  then show ?case by (force split: option.splits prod.splits)
next
  case (4 n own inc rest seen)
  then show ?case by (force split: prod.splits)
qed simp_all

text \<open>What a walk that went from one set of seen services to another has done.\<close>

definition walked :: "(string, Own) hashmap \<Rightarrow> string set \<Rightarrow> string list \<Rightarrow> FirewalldPort list \<times> string list \<Rightarrow> bool" where
  "walked own starts seen r \<longleftrightarrow>
     set (fst r) = (\<Union>m \<in> set (snd r) - set seen. ports_of own m)
     \<and> set (snd r) - set seen \<subseteq> known own \<inter> (include_edges own)\<^sup>* `` starts
     \<and> starts \<inter> known own \<subseteq> set (snd r)
     \<and> (\<forall>m \<in> set (snd r) - set seen. include_edges own `` {m} \<inter> known own \<subseteq> set (snd r))"

lemma walked_seq:
  assumes "walked own A seen (ps, seen')" "walked own B seen' (qs, seen'')" "set seen \<subseteq> set seen'" "set seen' \<subseteq> set seen''"
  shows "walked own (A \<union> B) seen (ps @ qs, seen'')"
proof -
  have new: "set seen'' - set seen = (set seen' - set seen) \<union> (set seen'' - set seen')" using assms(3,4) by blast
  have ps: "set ps = (\<Union>m \<in> set seen' - set seen. ports_of own m)" "set qs = (\<Union>m \<in> set seen'' - set seen'. ports_of own m)"
    and reach: "set seen' - set seen \<subseteq> known own \<inter> (include_edges own)\<^sup>* `` A"
      "set seen'' - set seen' \<subseteq> known own \<inter> (include_edges own)\<^sup>* `` B"
    and starts: "A \<inter> known own \<subseteq> set seen'" "B \<inter> known own \<subseteq> set seen''"
    and closed: "\<forall>m \<in> set seen' - set seen. include_edges own `` {m} \<inter> known own \<subseteq> set seen'"
      "\<forall>m \<in> set seen'' - set seen'. include_edges own `` {m} \<inter> known own \<subseteq> set seen''"
    using assms(1,2) unfolding walked_def by simp_all
  show ?thesis
    unfolding walked_def fst_conv snd_conv new
  proof (intro conjI)
    show "set (ps @ qs) = (\<Union>m \<in> (set seen' - set seen) \<union> (set seen'' - set seen'). ports_of own m)"
      using ps by simp
    show "(set seen' - set seen) \<union> (set seen'' - set seen') \<subseteq> known own \<inter> (include_edges own)\<^sup>* `` (A \<union> B)"
      unfolding Image_Un using reach by (meson Int_mono Un_least Un_upper1 Un_upper2 order_refl subset_trans)
    show "(A \<union> B) \<inter> known own \<subseteq> set seen''" using starts assms(4) by blast
    show "\<forall>m \<in> (set seen' - set seen) \<union> (set seen'' - set seen'). include_edges own `` {m} \<inter> known own \<subseteq> set seen''"
      using closed assms(4) by (meson Un_iff order_trans)
  qed
qed

lemma walked_step:
  assumes "walked own (set (own_includes e)) (name # seen) (ps, seen')" "hm_get own name = Some e"
    and "name \<notin> set seen" "set (name # seen) \<subseteq> set seen'"
  shows "walked own {name} seen (own_ports e @ ps, seen')"
proof -
  have new: "set seen' - set seen = insert name (set seen' - set (name # seen))" using assms(3,4) by auto
  note w = assms(1) [unfolded walked_def fst_conv snd_conv]
  have edges: "include_edges own `` {name} = set (own_includes e)" using assms(2) by (auto simp: include_edges_def)
  have "(include_edges own)\<^sup>* `` set (own_includes e) \<subseteq> (include_edges own)\<^sup>* `` {name}"
    using edges by (auto intro: converse_rtrancl_into_rtrancl)
  then have reach: "insert name (set seen' - set (name # seen)) \<subseteq> known own \<inter> (include_edges own)\<^sup>* `` {name}"
    using w [THEN conjunct2, THEN conjunct1] assms(2) by (simp add: known_def) blast
  show ?thesis
    unfolding walked_def fst_conv snd_conv new
  proof (intro conjI)
    show "set (own_ports e @ ps) = (\<Union>m \<in> insert name (set seen' - set (name # seen)). ports_of own m)"
      using w assms(2) by (simp add: ports_of_def)
    show "insert name (set seen' - set (name # seen)) \<subseteq> known own \<inter> (include_edges own)\<^sup>* `` {name}" by (rule reach)
    show "{name} \<inter> known own \<subseteq> set seen'" using assms(4) by auto
    show "\<forall>m \<in> insert name (set seen' - set (name # seen)). include_edges own `` {m} \<inter> known own \<subseteq> set seen'"
      using w edges by blast
  qed
qed

lemma resolve_walked:
  "unseen own seen < n \<Longrightarrow> walked own {name} seen (resolve n own name seen)"
  "unseen own seen < n \<Longrightarrow> walked own (set names) seen (resolve_includes n own names seen)"
proof (induction n own name seen and n own names seen rule: resolve_resolve_includes.induct)
  case (1 own name seen)
  then show ?case by simp
next
  case (2 n own name seen)
  show ?case
  proof (cases "hm_get own name")
    case None
    then show ?thesis by (simp add: walked_def known_def)
  next
    case (Some e)
    show ?thesis
    proof (cases "name \<in> set seen")
      case True
      then show ?thesis by (auto simp: Some walked_def)
    next
      case False
      obtain ps seen' where r: "resolve_includes n own (own_includes e) (name # seen) = (ps, seen')" by fastforce
      have "unseen own (name # seen) < n"
        using unseen_Cons [of name own seen] False Some "2.prems" by (auto simp: known_def)
      from "2.IH" [OF Some False this] r resolve_grows(2) [of "name # seen" n own "own_includes e"] Some False
      show ?thesis using walked_step by (simp add: r)
    qed
  qed
next
  case (3 n own seen)
  then show ?case by (simp add: walked_def)
next
  case (4 n own inc rest seen)
  obtain ps seen' where r: "resolve n own inc seen = (ps, seen')" by fastforce
  obtain qs seen'' where q: "resolve_includes n own rest seen' = (qs, seen'')" by fastforce
  have grow: "set seen \<subseteq> set seen'" "set seen' \<subseteq> set seen''"
    using resolve_grows(1) [of seen n own inc] resolve_grows(2) [of seen' n own rest] r q by simp_all
  have "walked own {inc} seen (ps, seen')" using "4.IH"(1) "4.prems" r by simp
  moreover have "walked own (set rest) seen' (qs, seen'')"
    using "4.IH"(2) [OF r [symmetric] refl] "4.prems" unseen_mono [OF grow(1), of own] q by simp
  ultimately have "walked own ({inc} \<union> set rest) seen (ps @ qs, seen'')" by (rule walked_seq [OF _ _ grow])
  then show ?case by (simp add: r q)
qed

text \<open>More fuel than there are unseen services changes nothing.\<close>

lemma resolve_fuel:
  "unseen own seen < n \<Longrightarrow> resolve (Suc n) own name seen = resolve n own name seen"
  "unseen own seen < n \<Longrightarrow> resolve_includes (Suc n) own names seen = resolve_includes n own names seen"
proof (induction n own name seen and n own names seen rule: resolve_resolve_includes.induct)
  case (2 n own name seen)
  show ?case
  proof (cases "hm_get own name = None \<or> name \<in> set seen")
    case True
    then show ?thesis by (auto split: option.splits)
  next
    case False
    then obtain e where e: "hm_get own name = Some e" "name \<notin> set seen" by auto
    then have "unseen own (name # seen) < n"
      using unseen_Cons [of name own seen] "2.prems" by (auto simp: known_def)
    from "2.IH" [OF e this] e show ?thesis by simp
  qed
next
  case (4 n own inc rest seen)
  obtain ps seen' where r: "resolve n own inc seen = (ps, seen')" by fastforce
  have "unseen own seen' < n"
    using resolve_grows(1) [of seen n own inc] r unseen_mono [of seen seen' own] "4.prems" by simp
  with "4.IH" "4.prems" r show ?case by simp
qed simp_all

section \<open>Properties\<close>

text \<open>
  C32. The ports read for a service are its own and those of every service it
  includes, directly or through others, and no others; a cycle of includes ends
  the walk and loses nothing, and the walk always returns: no fuel beyond the
  number of services is ever needed.
\<close>

theorem resolve_collects_reachable_ports:
  "set (fst (resolve (Suc (hm_len own)) own name [])) = (\<Union>m \<in> (include_edges own)\<^sup>* `` {name}. ports_of own m)
   \<and> resolve (Suc (hm_len own) + extra) own name [] = resolve (Suc (hm_len own)) own name []"
proof
  let ?r = "resolve (Suc (hm_len own)) own name []"
  have bound: "unseen own [] < Suc (hm_len own) + k" for k using known_finite [of own] by (simp add: unseen_def)
  have w: "walked own {name} [] ?r" using resolve_walked(1) [OF bound [of 0]] by simp
  have "m \<in> set (snd ?r)" if "(name, m) \<in> (include_edges own)\<^sup>*" "m \<in> known own" for m
    using that
  proof (induction rule: rtrancl_induct)
    case base
    with w show ?case by (auto simp: walked_def)
  next
    case (step k m)
    then have "k \<in> known own" by (auto simp: include_edges_def known_def)
    then have "k \<in> set (snd ?r)" using step.IH by blast
    with w step.hyps(2) step.prems show ?case by (auto simp: walked_def)
  qed
  then have "set (snd ?r) = known own \<inter> (include_edges own)\<^sup>* `` {name}" using w by (auto simp: walked_def)
  moreover have "set (fst ?r) = (\<Union>m \<in> set (snd ?r). ports_of own m)" using w by (simp add: walked_def)
  moreover have "(\<Union>m \<in> known own \<inter> X. ports_of own m) = (\<Union>m \<in> X. ports_of own m)" for X
  proof -
    have "ports_of own m = {}" if "m \<notin> known own" for m using that by (simp add: ports_of_def known_def)
    then show ?thesis by blast
  qed
  ultimately show "set (fst ?r) = (\<Union>m \<in> (include_edges own)\<^sup>* `` {name}. ports_of own m)" by (simp only:)
  show "resolve (Suc (hm_len own) + extra) own name [] = ?r"
  proof (induction extra)
    case (Suc k)
    then show ?case using resolve_fuel(1) [OF bound [of k], of name] by simp
  qed simp
qed

end
