(* ===== verification/Spec2Isabelle.thy ===== *)
theory Spec2Isabelle
  imports Snippet Kernel Tmux Shares User_Commands Service_Listing Storage_Safety Custom_Commands Throttle Session_Store Fs_Roots Cron_Document Ipv4 Ufw_Read Fw_Plan Firewalld_Zones Firewalld_Services
begin

text \<open>
  \<^bold>\<open>Server Box: a verification of its core logic.\<close>

  The repository holds an app that looks after servers (\<open>lib/\<close>, Dart), a monitor
  that runs on them (\<open>monitor/\<close>, Rust) and the Rust crates both share (\<open>crates/\<close>).
  What a client shows and changes on a server goes through \<open>crates/sbm_parser\<close>: it
  makes the scripts that are run there, reads what they print, and works out the
  commands of a change before it is made. The monitor answers the same questions
  over HTTP and WebSockets, behind a login. This development models the parts of
  that Rust code that decide something: who may log in and when, what opens a
  WebSocket, when a cron job next runs and what an edit does to a crontab, what a
  firewall lets in, and what a change to it shuts, which kernel may be removed, which
  folders are shared, what a snippet types, what saving an account changes and which disks a
  change may take.

  \<^bold>\<open>Foundations.\<close>

    \<^item> \<open>Prelude\<close>: results as sums, saturating and checked arithmetic, \<open>Duration\<close> and
      \<open>Instant\<close> as nanoseconds, \<open>HashMap\<close> as an association list behind the locale
      \<open>hash_map\<close>, and the passage from one step to all reachable states.
    \<^item> \<open>Rust_Str\<close>, \<open>Rust_Net\<close>, \<open>Utf8\<close>: what the sources use of \<open>char\<close>, \<open>str\<close>, the integer
      parsers and printers, \<open>std::net::IpAddr\<close> with its parser and printer, and
      \<open>from_utf8_lossy\<close>. A Rust \<open>char\<close> is an HOL character, so texts are those over
      U+0000 to U+00FF; only a ufw comment, which is decoded from bytes, is a list
      of Unicode scalar values.
    \<^item> \<open>Shell\<close>: \<open>shell_quote_unix\<close>, \<open>shell_quote_ps\<close> and \<open>replace_file_script\<close> of
      \<open>script.rs\<close>, and which words \<open>sh\<close> makes of a command line.

  \<^bold>\<open>The monitor's door.\<close>

    \<^item> \<open>Throttle\<close> (\<open>monitor/src/api/ratelimit.rs\<close>): the login throttle. A \<open>LoginThrottle\<close> is
      its two locked fields, each operation is one atomic step, \<open>Instant::now()\<close> is an
      argument; \<open>throttle_step\<close> interleaves attempts that begin, fail, succeed and are
      dropped. No reservation leaks, a burst on a key admits no more than the free attempts
      and one, whichever of them fail meanwhile (a success or a cancelled attempt on that key
      gives reservations back and is left out), a refused caller is told exactly the wait after which
      it is admitted, at most \<open>MAX_DELAY\<close>, and callers do not disturb each other.
    \<^item> \<open>Ticket\<close> (\<open>monitor/src/api/ws/ticket.rs\<close>, \<open>utils/error.rs\<close>) and \<open>Secrets\<close>
      (\<open>utils/secrets.rs\<close>): single-use WebSocket tickets and the random text behind them.
      What \<open>getrandom\<close> delivers, or the text of its error, is an argument. Over every interleaving a ticket is
      reserved by at most one caller at a time and spent once; the store is bounded; a
      password has the promised shape and its characters are unbiased.

    \<^item> \<open>Term_Session\<close>, \<open>Session_Store\<close> (\<open>monitor/src/api/ws/session.rs\<close>, the shell's end in
      \<open>terminal.rs\<close>): terminal sessions that outlive their WebSocket. What tokio's \<open>try_send\<close>
      answers is an argument and what is put on a channel is returned; sessions are shared
      by address, as the \<open>Arc\<close>s are. A reconnecting client loses and repeats nothing, a
      session that was ended is never attached again, the reaper ends exactly the
      abandoned ones, and only the handle given out finds a session. \<open>close_all\<close>, \<open>close_id\<close>,
      \<open>reap_at\<close> and \<open>insert_session\<close> are one step each; as the source ends sessions after it
      released the store's lock, \<open>store_step\<close> also has their parts as steps, in any order.
    \<^item> \<open>Fs_Roots\<close> (\<open>monitor/src/core/fs_roots.rs\<close>): paths as texts with the part of \<open>std::path\<close>
      the source uses, \<open>canonicalize\<close> and \<open>symlink_metadata\<close> as arguments. No resolver
      returns the agent's own state, and a path may be moved exactly when none of it
      lies at or below it. The loops that climb to an existing directory terminate by
      \<open>path_depth\<close>.

  \<^bold>\<open>Cron\<close> (\<open>crates/sbm_parser/src/cron.rs\<close>).

    \<^item> \<open>Civil\<close>: the calendar arithmetic. It follows the Gregorian calendar, and minutes and
      civil times convert both ways. Statements about \<open>i32\<close> and \<open>i64\<close> values carry the
      ranges in which no operation overflows (years within those of a 32-bit year, minute
      numbers far beyond any clock).
    \<^item> \<open>Cron_Schedule\<close>: fields, macros, \<open>matches_date\<close>, \<open>next_run\<close>. The recursion of
      \<open>try_parse\<close> through a macro has fuel two, which is enough since no macro names
      another; the search of \<open>next_run\<close> has the source's own bound \<open>SEARCH_DAYS\<close>, and is
      shown to find the earliest minute that matches.
    \<^item> \<open>Cron_Document\<close>: a crontab as its lines. An edit is a list update on the jobs and
      leaves every other line alone; text and document convert both ways.

  \<^bold>\<open>Firewalls\<close> (\<open>crates/sbm_parser/src/firewall/\<close>).

    \<^item> \<open>Firewall\<close> (\<open>mod.rs\<close>): a way into a server, and verdicts on it when addresses or
      interfaces are not known. \<open>decide\<close> answers unknown exactly when two ways of
      resolving what is not known disagree; a network holds the addresses that share its
      prefix bits. The locale \<open>keep_open_table\<close> says what a rule that keeps a way open has
      to do, and is interpreted for both firewalls.
    \<^item> \<open>Ufw\<close>, \<open>Ufw_Read\<close>, \<open>Ufw_Rules\<close>, \<open>Ufw_Commands\<close> (\<open>ufw.rs\<close>): the rules as ufw's own
      files have them, drafts, commands. The verdict on an access is sound for every
      connection the access may stand for, against a plain first-match semantics; no
      readable rule is lost when the two families are merged; an add command is read by
      \<open>sh\<close> as exactly the words of the draft. The locale \<open>word_codec\<close> carries the
      enumerations ufw writes by a word.
    \<^item> \<open>Firewalld\<close>, \<open>Firewalld_Read\<close>, \<open>Firewalld_Zones\<close>, \<open>Firewalld_Services\<close>
      (\<open>firewalld.rs\<close>): rich rules, zones, policies, services. The candidates for the zone of a
      connection are complete and the verdict holds in whichever it lands in; the keep-open
      rule is asked first in its zone; the include walk over services collects exactly the
      reachable ports, and its fuel, one more than there are services, is never used up.
    \<^item> \<open>Fw_Change\<close>, \<open>Fw_Plan\<close> (\<open>change.rs\<close>): a change as a plan. A plan for ufw warns of every
      way it shuts and asks first. Its keep-open commands, read by \<open>sh\<close> and run as ufw's
      manual says (\<open>run_rule_commands\<close>: a rule ufw has is not added again), keep those ways
      open, except behind a rule that is itself put first and where ufw has the rule already.

  \<^bold>\<open>Networks\<close> (\<open>crates/sbm_virt/src/resource/ipv4.rs\<close>): \<open>Ipv4\<close>, on 32-bit words. Addresses
  print and parse back, the DHCP range offered for a network fits it, and two networks
  overlap exactly when they share an address.

  \<^bold>\<open>One server\<close> (\<open>crates/sbm_parser/src/\<close>).

    \<^item> \<open>Snippet\<close> (\<open>snippet.rs\<close>): the macro language of saved commands. The plan is stated
      against a reading of the script as characters and names; every character of the
      script is accounted for once, a value is only ever typed, and running a snippet and
      typing it agree. The scan terminates by the length of the rest.
    \<^item> \<open>Kernel\<close> (\<open>kernel.rs\<close>): the installed kernels as a view of what the machine printed.
      \<open>compare_versions\<close> is shown to be the order of a key, so sorting by it is well
      defined; a removal that is allowed takes neither the running kernel nor the one shown
      as booted by default or next, and the former is still installed. A \<open>GRUB_DEFAULT\<close> that
      is a number above 0 is not followed: the newest kernel is shown then.
    \<^item> \<open>Tmux\<close> (\<open>tmux.rs\<close>): listings, names and commands. Texts are lists of Unicode scalar
      values here, since names are. However tmux escapes the characters of a name, the
      session is read back; a command is exactly the words meant, with a target that
      cannot be read as an option or a part of another.
    \<^item> \<open>Shares\<close> (\<open>shares.rs\<close>): the SMB shares and NFS exports ServerBox writes. The script
      hands \<open>sh\<close> exactly the rendered file (\<open>here_document\<close> is the shell's reading of a
      quoted here-document), and reading the file gives the shares back.

    \<^item> \<open>Users\<close>, \<open>User_Commands\<close> (\<open>users.rs\<close>): accounts and groups. The two halves of a
      catalog agree: a group's members and its members' groups, primary groups and gids,
      unique names. What \<open>usermod\<close> and \<open>gpasswd\<close> do with the options used is a named
      hypothesis; with it, saving a form leaves the account, or the group's members,
      exactly as drafted, and \<open>chpasswd\<close> is fed one line and no other.

    \<^item> \<open>Service\<close>, \<open>Service_Listing\<close> (\<open>service.rs\<close>, \<open>output.rs\<close>): the units of systemd, procd and
      OpenRC. Every listing is in one order and every unit's actions are those of its
      state; what \<open>systemctl show\<close> prints is read back and attached to the unit of its own
      scope; procd lists the init scripts and nothing the JSON of \<open>ubus\<close> invents; a command
      is read by \<open>sh\<close> as the tool, the action and the unit. \<open>Rust_Sort\<close> has \<open>sort_by\<close> and
      when it is a sort by a key, \<open>Rust_Json\<close> the values of \<open>serde_json\<close>.

    \<^item> \<open>Storage\<close>, \<open>Storage_Change\<close>, \<open>Storage_Safety\<close> (\<open>storage.rs\<close>): the tree of block devices, the
      arrays and pools, the view a page draws, every change with its script and the check it
      passes. A change that is let through takes only devices without a mount, array membership,
      pool membership under that path, system partition type or volume below; whatever its
      script erases (\<open>erasing\<close> reads the commands it is made of) was checked, but for the
      members of an array that is deleted; what the page offers is what the check takes; a
      mountpoint is a path of plain names outside where the system lives. The recursion
      that reads a device from JSON terminates by the size of the value.

    \<^item> \<open>Script_Output\<close>, \<open>Script_Reading\<close>, \<open>Custom_Commands\<close> (\<open>script.rs\<close>): the one script all status
      comes through. Each command's output is headed by a marker line; whatever is printed
      without a carriage return inside a line, with LF or CRLF line ends, every section is
      read back under its own key, a custom command opens no built-in
      section, and the editor's listing of custom commands is what was saved. The scan for a
      marker terminates by the length of the rest. \<open>Base64_Engine\<close> is a base64 engine with
      the documented laws, for the examples.

  \<open>Common\<close> (\<open>common.rs\<close>) has the line endings every parser starts from, the uptime and the
  os-release readers; products of \<open>u64\<close> wrap there as in a release build.

  \<^bold>\<open>Parameters.\<close> The \<open>regex\<close> crate is not part of the repository. Its expressions are
  arguments (\<open>item_regex\<close>, \<open>FirewalldRegex\<close>, \<open>ServiceRegex\<close>, \<open>user_name\<close>); what a theorem needs of one is a named
  hypothesis (\<open>is_item_regex\<close>, \<open>is_token_regex\<close>, \<open>is_user_name_regex\<close>) that states which texts match and what is
  captured, with a concrete function that satisfies it. The JSON decoder and the reading of
  a percentage as a whole number of tenths are arguments too (\<open>from_str\<close>, \<open>permille_of\<close>),
  and so are the two engines of the \<open>base64\<close> crate, with \<open>is_base64\<close> what it documents of them.

  \<^bold>\<open>Where the code and its comments part.\<close> \<open>comment_schedule_is_lost\<close>,
  \<open>prepended_rule_defeats_keep_open\<close>, \<open>deleting_the_rule_defeats_keep_open\<close>, \<open>one_family_rule_is_taken_as_sure\<close>,
  \<open>source_ports_are_not_drift\<close>, \<open>same_priority_rule_comes_first\<close>, \<open>probe_ufw_line\<close>,
  \<open>lagging_client_loses_the_end\<close>, \<open>below_a_protected_name_is_admitted\<close>,
  \<open>variable_taken_for_a_macro\<close>, \<open>numbered_default_is_not_followed\<close>,
  \<open>pools_listed_by_alias_protect_nothing\<close> and
  \<open>export_with_a_hash_is_lost\<close> show
  inputs on which an operation does not do what it is documented to do.

  \<^bold>\<open>Not modelled.\<close> The app in Dart; the generated bindings and wrappers of \<open>crates/sbm_ffi\<close>;
  the network clients of \<open>crates/sbm_virt\<close> and \<open>crates/sbm_redfish\<close>, which are I/O and protocol
  types; the monitor's HTTP handlers, database, agent loop, stacks and backups, which are I/O
  around other components. Of \<open>sbm_parser\<close>, the parsers of system status, containers,
  disk health and benchmarks, the text of the status scripts, \<open>parse_ips\<close>, the root scripts of \<open>kernel.rs\<close> and
  the JSON of \<open>smbstatus\<close> are still to be modelled. What a
  script does on the server is outside the model: ufw and firewalld are taken to do with a
  command what their documentation says, and that is what \<open>apply_ufw\<close>, \<open>apply_planned\<close> and
  \<open>run_rule_command\<close> write down.
\<close>

end
